(* ===== verification/Prelude.thy ===== *)
theory Prelude
  imports Main "HOL-Library.Word" "HOL-Library.Monad_Syntax"
begin

text \<open>
  What the components share: the names of the machine types, the C string routines the
  kernel keeps private copies of, and generic lemmas on options, lists and words.

  A \<open>const char *\<close> that the code never tests for NULL is a \<open>string\<close>, the characters
  before the terminating NUL; one that the code tests is a \<open>string option\<close>, with None for
  the null pointer. A loop whose end depends on the data it walks (a linked list, a chain of
  table entries) returns an \<open>option\<close>: None is the run that never returns.
\<close>

unbundle bit_operations_syntax

section \<open>Machine types\<close>

type_synonym u8 = "8 word"
type_synonym u16 = "16 word"
type_synonym u32 = "32 word"
type_synonym u64 = "64 word"

text \<open>Bytes of a C string and back: \<open>(unsigned char)c\<close> and \<open>(char)b\<close>.\<close>

abbreviation byte_of_char :: "char \<Rightarrow> u8" where
  "byte_of_char c \<equiv> of_char c"

abbreviation char_of_byte :: "u8 \<Rightarrow> char" where
  "char_of_byte b \<equiv> char_of (unat b)"

section \<open>Collections of facts\<close>

named_theorems frame_simps \<open>what an operation leaves unchanged\<close>
named_theorems inv_intros \<open>an operation keeps a component's invariant\<close>

section \<open>C strings\<close>

fun str_len :: "string \<Rightarrow> nat" where
  "str_len [] = 0"
| "str_len (_ # s) = Suc (str_len s)"

fun str_eq :: "string \<Rightarrow> string \<Rightarrow> bool" where
  "str_eq (a # as) (b # bs) = (if a \<noteq> b then False else str_eq as bs)"
| "str_eq as bs = (as = [] \<and> bs = [])"

text \<open>\<open>str_copy\<close> writes at most \<open>max_len - 1\<close> characters and the NUL; with a zero size it
  leaves the destination alone.\<close>

fun copy_upto :: "string \<Rightarrow> nat \<Rightarrow> string" where
  "copy_upto (c # s) (Suc n) = c # copy_upto s n"
| "copy_upto _ _ = []"

definition str_copy :: "string \<Rightarrow> string \<Rightarrow> nat \<Rightarrow> string" where
  "str_copy dst src max_len = (if max_len = 0 then dst else copy_upto src (max_len - 1))"

lemma str_len_length [simp]: "str_len s = length s"
  by (induction s) auto

lemma str_eq_iff [simp]: "str_eq a b \<longleftrightarrow> a = b"
  by (induction a b rule: str_eq.induct) auto

lemma copy_upto_take [simp]: "copy_upto s n = take n s"
  by (induction s n rule: copy_upto.induct) (auto simp: take_Cons' split: nat.splits)

lemma str_copy_fits: "length src < max_len \<Longrightarrow> str_copy dst src max_len = src"
  by (simp add: str_copy_def)

section \<open>Options\<close>

lemma bind_SomeD: "Option.bind m f = Some r \<Longrightarrow> \<exists>x. m = Some x \<and> f x = Some r"
  by (cases m) auto

section \<open>Searching an array\<close>

text \<open>A \<open>for\<close> loop that returns the first index that passes a test.\<close>

lemma find_Some_prop: "List.find P xs = Some x \<Longrightarrow> P x \<and> x \<in> set xs"
  by (auto simp: find_Some_iff)

lemma find_None_prop: "List.find P xs = None \<Longrightarrow> x \<in> set xs \<Longrightarrow> \<not> P x"
  by (auto simp: find_None_iff)

lemma find_upto_Some:
  "List.find P [a..b] = Some (x::int) \<Longrightarrow> P x \<and> a \<le> x \<and> x \<le> b"
  by (drule find_Some_prop) simp

lemma find_upto_None:
  "List.find P [a..b] = None \<longleftrightarrow> (\<forall>x::int. a \<le> x \<and> x \<le> b \<longrightarrow> \<not> P x)"
  by (auto simp: find_None_iff)

lemma distinct_single:
  assumes "distinct xs" and "set xs = {x}"
  shows "xs = [x]"
proof -
  have "length xs = 1" using distinct_card [OF assms(1)] assms(2) by simp
  then obtain y where "xs = [y]" by (auto simp: length_Suc_conv)
  with assms(2) show ?thesis by simp
qed

section \<open>Loops over a list that may fail\<close>

text \<open>A \<open>for\<close> loop whose body may not return.\<close>

fun fold_option :: "('a \<Rightarrow> 's \<Rightarrow> 's option) \<Rightarrow> 'a list \<Rightarrow> 's \<Rightarrow> 's option" where
  "fold_option f [] s = Some s"
| "fold_option f (x # xs) s = (case f x s of None \<Rightarrow> None | Some s' \<Rightarrow> fold_option f xs s')"

lemma fold_option_inv:
  assumes "\<And>x s. x \<in> set xs \<Longrightarrow> P s \<Longrightarrow> \<exists>s'. f x s = Some s' \<and> P s'" and "P s"
  shows "\<exists>s'. fold_option f xs s = Some s' \<and> P s'"
  using assms
proof (induction xs arbitrary: s)
  case (Cons x xs)
  from Cons.prems(1) [of x s] Cons.prems(2) obtain s1 where "f x s = Some s1" "P s1" by auto
  with Cons.IH [of s1] Cons.prems(1) show ?case by auto
qed simp

section \<open>Words\<close>

lemma word_less_succ:
  fixes x :: "'a::len word"
  assumes "x + 1 \<noteq> 0"
  shows "x < x + 1"
proof -
  have "1 + x \<noteq> 0" using assms by (simp add: add.commute)
  then have "unat (1 + x) = Suc (unat x)" by (rule unatSuc)
  then show ?thesis by (simp add: word_less_nat_alt add.commute)
qed

lemma unat_bounds:
  "unat (a :: u8) < 256" "unat (b :: u16) < 65536" "unat (c :: u32) < 4294967296"
  "unat (d :: u64) < 18446744073709551616"
  using unsigned_less [of a, where ?'a = nat] unsigned_less [of b, where ?'a = nat]
    unsigned_less [of c, where ?'a = nat] unsigned_less [of d, where ?'a = nat] by simp_all

end
