(* ===== verification/Ata.thy ===== *)
theory Ata
  imports Prelude
begin

text \<open>
  The disk driver \<open>src/drivers/ata.c\<close> and the table of block devices \<open>src/drivers/blockdev.c\<close>. The ports are an
  interface, as the functions \<open>arch_inb\<close>, \<open>arch_outb\<close>, \<open>arch_inw\<close> and \<open>arch_outw\<close> of \<open>src/include/arch.h\<close> are to the
  code: functions over a hardware state of their own. A call that returns -1 yields False or None.
\<close>

section \<open>Ports\<close>

record 'h ports =
  arch_inb :: "u16 \<Rightarrow> 'h \<Rightarrow> u8 \<times> 'h"
  arch_outb :: "u16 \<Rightarrow> u8 \<Rightarrow> 'h \<Rightarrow> 'h"
  arch_inw :: "u16 \<Rightarrow> 'h \<Rightarrow> u16 \<times> 'h"
  arch_outw :: "u16 \<Rightarrow> u16 \<Rightarrow> 'h \<Rightarrow> 'h"

text \<open>\<open>ata_drive_present\<close> and \<open>ata_drive_sectors\<close>.\<close>

record ata_drives =
  ata_drive_present :: "bool list"
  ata_drive_sectors :: "u32 list"

abbreviation ATA_MAX_DRIVES :: int where "ATA_MAX_DRIVES \<equiv> 4"

abbreviation ATA_REG_DATA :: u16 where "ATA_REG_DATA \<equiv> 0"
abbreviation ATA_REG_SECCOUNT0 :: u16 where "ATA_REG_SECCOUNT0 \<equiv> 2"
abbreviation ATA_REG_LBA0 :: u16 where "ATA_REG_LBA0 \<equiv> 3"
abbreviation ATA_REG_LBA1 :: u16 where "ATA_REG_LBA1 \<equiv> 4"
abbreviation ATA_REG_LBA2 :: u16 where "ATA_REG_LBA2 \<equiv> 5"
abbreviation ATA_REG_HDDEVSEL :: u16 where "ATA_REG_HDDEVSEL \<equiv> 6"
abbreviation ATA_REG_COMMAND :: u16 where "ATA_REG_COMMAND \<equiv> 7"
abbreviation ATA_REG_STATUS :: u16 where "ATA_REG_STATUS \<equiv> 7"

abbreviation ATA_CMD_IDENTIFY :: u8 where "ATA_CMD_IDENTIFY \<equiv> 0xEC"
abbreviation ATA_CMD_READ_PIO :: u8 where "ATA_CMD_READ_PIO \<equiv> 0x20"
abbreviation ATA_CMD_WRITE_PIO :: u8 where "ATA_CMD_WRITE_PIO \<equiv> 0x30"
abbreviation ATA_CMD_CACHE_FLUSH :: u8 where "ATA_CMD_CACHE_FLUSH \<equiv> 0xE7"

abbreviation ATA_SR_BSY :: u8 where "ATA_SR_BSY \<equiv> 0x80"
abbreviation ATA_SR_DF :: u8 where "ATA_SR_DF \<equiv> 0x20"
abbreviation ATA_SR_DRQ :: u8 where "ATA_SR_DRQ \<equiv> 0x08"
abbreviation ATA_SR_ERR :: u8 where "ATA_SR_ERR \<equiv> 0x01"

definition ata_io_base_for_drive :: "int \<Rightarrow> u16" where
  "ata_io_base_for_drive drive = (if drive < 2 then 0x1F0 else 0x170)"

definition ata_ctrl_base_for_drive :: "int \<Rightarrow> u16" where
  "ata_ctrl_base_for_drive drive = (if drive < 2 then 0x3F6 else 0x376)"

definition ata_is_slave_drive :: "int \<Rightarrow> bool" where
  "ata_is_slave_drive drive = odd drive"

definition ata_status_drive :: "'h ports \<Rightarrow> int \<Rightarrow> 'h \<Rightarrow> u8 \<times> 'h" where
  "ata_status_drive io drive h = arch_inb io (ata_io_base_for_drive drive + ATA_REG_STATUS) h"

definition ata_altstatus_drive :: "'h ports \<Rightarrow> int \<Rightarrow> 'h \<Rightarrow> u8 \<times> 'h" where
  "ata_altstatus_drive io drive h = arch_inb io (ata_ctrl_base_for_drive drive) h"

definition ata_400ns_delay_drive :: "'h ports \<Rightarrow> int \<Rightarrow> 'h \<Rightarrow> 'h" where
  "ata_400ns_delay_drive io drive h =
     snd (ata_altstatus_drive io drive (snd (ata_altstatus_drive io drive (snd (ata_altstatus_drive io drive
       (snd (ata_altstatus_drive io drive h)))))))"

section \<open>Waiting\<close>

fun ata_wait_not_bsy_drive :: "'h ports \<Rightarrow> int \<Rightarrow> nat \<Rightarrow> 'h \<Rightarrow> bool \<times> 'h" where
  "ata_wait_not_bsy_drive io drive 0 h = (False, h)"
| "ata_wait_not_bsy_drive io drive (Suc spin) h =
     (case ata_status_drive io drive h of (st, h1) \<Rightarrow>
        if st AND ATA_SR_BSY = 0 then (True, h1) else ata_wait_not_bsy_drive io drive spin h1)"

fun ata_wait_drq_or_err_drive :: "'h ports \<Rightarrow> int \<Rightarrow> nat \<Rightarrow> 'h \<Rightarrow> bool \<times> 'h" where
  "ata_wait_drq_or_err_drive io drive 0 h = (False, h)"
| "ata_wait_drq_or_err_drive io drive (Suc spin) h =
     (case ata_status_drive io drive h of (st, h1) \<Rightarrow>
        if st AND ATA_SR_ERR \<noteq> 0 then (False, h1)
        else if st AND ATA_SR_DF \<noteq> 0 then (False, h1)
        else if st AND ATA_SR_BSY = 0 \<and> st AND ATA_SR_DRQ \<noteq> 0 then (True, h1)
        else ata_wait_drq_or_err_drive io drive spin h1)"

definition spin_limit :: nat where "spin_limit = 1000000"

text \<open>What follows a wait that succeeded.\<close>

definition after_wait :: "bool \<times> 'h \<Rightarrow> ('h \<Rightarrow> 'a option \<times> 'h) \<Rightarrow> 'a option \<times> 'h" where
  "after_wait r k = (case r of (okay, h) \<Rightarrow> if okay then k h else (None, h))"

definition ata_select :: "'h ports \<Rightarrow> int \<Rightarrow> u32 \<Rightarrow> 'h \<Rightarrow> 'h" where
  "ata_select io drive lba h =
     (let sel = (if ata_is_slave_drive drive then 0xF0 else 0xE0) OR ucast (drop_bit 24 lba AND 0x0F)
      in ata_400ns_delay_drive io drive (arch_outb io (ata_io_base_for_drive drive + ATA_REG_HDDEVSEL) sel h))"

section \<open>Words\<close>

fun read_words :: "'h ports \<Rightarrow> u16 \<Rightarrow> nat \<Rightarrow> 'h \<Rightarrow> u8 list \<times> 'h" where
  "read_words io port 0 h = ([], h)"
| "read_words io port (Suc n) h =
     (case arch_inw io port h of (w, h1) \<Rightarrow>
        case read_words io port n h1 of (bs, h2) \<Rightarrow> (ucast (w AND 0xFF) # ucast (drop_bit 8 w AND 0xFF) # bs, h2))"

fun write_words :: "'h ports \<Rightarrow> u16 \<Rightarrow> u8 list \<Rightarrow> 'h \<Rightarrow> 'h" where
  "write_words io port (b0 # b1 # bs) h = write_words io port bs (arch_outw io port (ucast b0 OR push_bit 8 (ucast b1)) h)"
| "write_words io port _ h = h"

section \<open>Transfers\<close>

definition drive_ready :: "ata_drives \<Rightarrow> int \<Rightarrow> bool" where
  "drive_ready a drive = (if drive < 0 \<or> drive \<ge> ATA_MAX_DRIVES then False else ata_drive_present a ! nat drive)"

text \<open>The registers of a command: drive, count, address, command.\<close>

definition ata_command :: "'h ports \<Rightarrow> int \<Rightarrow> u8 \<Rightarrow> u32 \<Rightarrow> u8 \<Rightarrow> 'h \<Rightarrow> 'h" where
  "ata_command io drive count lba cmd h =
     (let io_base = ata_io_base_for_drive drive;
          h = ata_select io drive lba h;
          h = arch_outb io (io_base + ATA_REG_SECCOUNT0) count h;
          h = arch_outb io (io_base + ATA_REG_LBA0) (ucast (lba AND 0xFF)) h;
          h = arch_outb io (io_base + ATA_REG_LBA1) (ucast (drop_bit 8 lba AND 0xFF)) h;
          h = arch_outb io (io_base + ATA_REG_LBA2) (ucast (drop_bit 16 lba AND 0xFF)) h
      in arch_outb io (io_base + ATA_REG_COMMAND) cmd h)"

definition ata_read_sector28_drive :: "'h ports \<Rightarrow> ata_drives \<Rightarrow> int \<Rightarrow> u32 \<Rightarrow> 'h \<Rightarrow> u8 list option \<times> 'h" where
  "ata_read_sector28_drive io a drive lba h =
     (if \<not> drive_ready a drive then (None, h)
      else if lba > 0x0FFFFFFF then (None, h)
      else after_wait (ata_wait_not_bsy_drive io drive spin_limit h) (\<lambda>h.
           after_wait (ata_wait_drq_or_err_drive io drive spin_limit (ata_command io drive 1 lba ATA_CMD_READ_PIO h)) (\<lambda>h.
             case read_words io (ata_io_base_for_drive drive + ATA_REG_DATA) 256 h of
               (bs, h) \<Rightarrow> (Some bs, ata_400ns_delay_drive io drive h))))"

definition ata_write_sector28_drive :: "'h ports \<Rightarrow> ata_drives \<Rightarrow> int \<Rightarrow> u32 \<Rightarrow> u8 list \<Rightarrow> 'h \<Rightarrow> unit option \<times> 'h" where
  "ata_write_sector28_drive io a drive lba buffer512 h =
     (if \<not> drive_ready a drive then (None, h)
      else if lba > 0x0FFFFFFF then (None, h)
      else after_wait (ata_wait_not_bsy_drive io drive spin_limit h) (\<lambda>h.
           after_wait (ata_wait_drq_or_err_drive io drive spin_limit (ata_command io drive 1 lba ATA_CMD_WRITE_PIO h)) (\<lambda>h.
           let h = write_words io (ata_io_base_for_drive drive + ATA_REG_DATA) (take 512 buffer512) h;
               h = arch_outb io (ata_io_base_for_drive drive + ATA_REG_COMMAND) ATA_CMD_CACHE_FLUSH h
           in after_wait (ata_wait_not_bsy_drive io drive spin_limit h) (Pair (Some ())))))"

text \<open>One round per sector; \<open>buffer\<close> is filled as far as the rounds got, but a caller told -1 does not look.\<close>

fun read_rounds :: "'h ports \<Rightarrow> int \<Rightarrow> nat \<Rightarrow> 'h \<Rightarrow> u8 list option \<times> 'h" where
  "read_rounds io drive 0 h = (Some [], h)"
| "read_rounds io drive (Suc n) h =
     after_wait (ata_wait_drq_or_err_drive io drive spin_limit h) (\<lambda>h.
       case read_words io (ata_io_base_for_drive drive + ATA_REG_DATA) 256 h of
         (bs, h) \<Rightarrow> (case read_rounds io drive n h of (r, h) \<Rightarrow> (map_option (\<lambda>rest. bs @ rest) r, h)))"

fun write_rounds :: "'h ports \<Rightarrow> int \<Rightarrow> nat \<Rightarrow> u8 list \<Rightarrow> 'h \<Rightarrow> unit option \<times> 'h" where
  "write_rounds io drive 0 buffer h = (Some (), h)"
| "write_rounds io drive (Suc n) buffer h =
     after_wait (ata_wait_drq_or_err_drive io drive spin_limit h) (\<lambda>h.
       write_rounds io drive n (drop 512 buffer)
         (write_words io (ata_io_base_for_drive drive + ATA_REG_DATA) (take 512 buffer) h))"

definition ata_read_sectors_drive :: "'h ports \<Rightarrow> ata_drives \<Rightarrow> int \<Rightarrow> u32 \<Rightarrow> int \<Rightarrow> 'h \<Rightarrow> u8 list option \<times> 'h" where
  "ata_read_sectors_drive io a drive lba count h =
     (if \<not> drive_ready a drive then (None, h)
      else if lba > 0x0FFFFFFF then (None, h)
      else if count \<le> 0 \<or> count > 255 then (None, h)
      else after_wait (ata_wait_not_bsy_drive io drive spin_limit h) (\<lambda>h.
           case read_rounds io drive (nat count) (ata_command io drive (word_of_int count) lba ATA_CMD_READ_PIO h) of
             (None, h) \<Rightarrow> (None, h)
           | (Some bs, h) \<Rightarrow> (Some bs, ata_400ns_delay_drive io drive h)))"

definition ata_write_sectors_drive :: "'h ports \<Rightarrow> ata_drives \<Rightarrow> int \<Rightarrow> u32 \<Rightarrow> int \<Rightarrow> u8 list \<Rightarrow> 'h \<Rightarrow> unit option \<times> 'h" where
  "ata_write_sectors_drive io a drive lba count buffer h =
     (if \<not> drive_ready a drive then (None, h)
      else if lba > 0x0FFFFFFF then (None, h)
      else if count \<le> 0 \<or> count > 255 then (None, h)
      else after_wait (ata_wait_not_bsy_drive io drive spin_limit h) (\<lambda>h.
           case write_rounds io drive (nat count) buffer (ata_command io drive (word_of_int count) lba ATA_CMD_WRITE_PIO h) of
             (None, h) \<Rightarrow> (None, h)
           | (Some _, h) \<Rightarrow>
               after_wait (ata_wait_not_bsy_drive io drive spin_limit
                 (arch_outb io (ata_io_base_for_drive drive + ATA_REG_COMMAND) ATA_CMD_CACHE_FLUSH h)) (Pair (Some ()))))"

section \<open>Finding the drives\<close>

text \<open>The 256 words of the answer to IDENTIFY.\<close>

fun identify_words :: "'h ports \<Rightarrow> u16 \<Rightarrow> nat list \<Rightarrow> u32 \<Rightarrow> 'h \<Rightarrow> u32 \<times> 'h" where
  "identify_words io port [] n h = (n, h)"
| "identify_words io port (i # is) n h =
     (case arch_inw io port h of (w, h1) \<Rightarrow>
        let n = (if i = 60 then ucast w else n);
            n = (if i = 61 then n OR push_bit 16 (ucast w) else n)
        in identify_words io port is n h1)"

definition ata_init_drive :: "'h ports \<Rightarrow> int \<Rightarrow> ata_drives \<Rightarrow> 'h \<Rightarrow> bool \<times> ata_drives \<times> 'h" where
  "ata_init_drive io drive a h =
     (let io_base = ata_io_base_for_drive drive; ctrl_base = ata_ctrl_base_for_drive drive in
      if drive < 0 \<or> drive \<ge> ATA_MAX_DRIVES then (False, a, h)
      else let a = a\<lparr>ata_drive_present := (ata_drive_present a)[nat drive := False],
                     ata_drive_sectors := (ata_drive_sectors a)[nat drive := 0]\<rparr>;
               h = (if \<not> ata_is_slave_drive drive
                    then arch_outb io ctrl_base 0 (ata_400ns_delay_drive io drive (arch_outb io ctrl_base 4 h)) else h)
           in case ata_wait_not_bsy_drive io drive spin_limit h of (okay, h) \<Rightarrow>
             if \<not> okay then (False, a, h)
             else case ata_status_drive io drive (ata_select io drive 0 h) of (st, h) \<Rightarrow>
               if st = 0xFF \<or> st = 0 then (False, a, h)
               else let h = arch_outb io (io_base + ATA_REG_SECCOUNT0) 0 h;
                        h = arch_outb io (io_base + ATA_REG_LBA0) 0 h;
                        h = arch_outb io (io_base + ATA_REG_LBA1) 0 h;
                        h = arch_outb io (io_base + ATA_REG_LBA2) 0 h;
                        h = arch_outb io (io_base + ATA_REG_COMMAND) ATA_CMD_IDENTIFY h
                    in case ata_status_drive io drive h of (st, h) \<Rightarrow>
                      if st = 0 then (False, a, h)
                      else case ata_wait_drq_or_err_drive io drive spin_limit h of (okay, h) \<Rightarrow>
                        if \<not> okay then (False, a, h)
                        else case identify_words io (io_base + ATA_REG_DATA) [0..<256] (ata_drive_sectors a ! nat drive) h of (n, h) \<Rightarrow>
                          (True, a\<lparr>ata_drive_sectors := (ata_drive_sectors a)[nat drive := n],
                                   ata_drive_present := (ata_drive_present a)[nat drive := True]\<rparr>, h))"

definition ata_is_present_drive :: "ata_drives \<Rightarrow> int \<Rightarrow> bool" where
  "ata_is_present_drive a drive = (if drive < 0 \<or> drive \<ge> ATA_MAX_DRIVES then False else ata_drive_present a ! nat drive)"

definition ata_get_sector_count_drive :: "ata_drives \<Rightarrow> int \<Rightarrow> u32" where
  "ata_get_sector_count_drive a drive = (if drive < 0 \<or> drive \<ge> ATA_MAX_DRIVES then 0 else ata_drive_sectors a ! nat drive)"

end
