(* ===== verification/Fat_Disk.thy ===== *)
theory Fat_Disk
  imports Prelude
begin

text \<open>
  The lower half of \<open>src/kernel/fat32.c\<close>: the mounted volume, the sector caches, and the allocation
  table. A call is a function of the state; its result is None inside (the code's -1) or a value, with
  the state it leaves in both cases, and None outside when it does not return: the loops along a cluster
  chain end only if the chain does. The device is an interface, as in the code, over a state of its own.
  A sector is the list of its 512 bytes.
\<close>

type_synonym sector = "u8 list"

section \<open>State\<close>

text \<open>\<open>struct block_device\<close> of \<open>src/include/blockdev.h\<close>: a null function pointer is None. The calls return None or
  False on an error.\<close>

record 'd block_device =
  dev_present :: bool
  dev_sector_count :: u32
  dev_read_sector :: "(u32 \<Rightarrow> 'd \<Rightarrow> sector option \<times> 'd) option"
  dev_write_sector :: "(u32 \<Rightarrow> sector \<Rightarrow> 'd \<Rightarrow> bool \<times> 'd) option"
  dev_read_sectors :: "(u32 \<Rightarrow> nat \<Rightarrow> 'd \<Rightarrow> u8 list option \<times> 'd) option"
  dev_write_sectors :: "(u32 \<Rightarrow> nat \<Rightarrow> u8 list \<Rightarrow> 'd \<Rightarrow> bool \<times> 'd) option"

record cache_entry =
  ce_valid :: bool
  ce_lba :: u32
  ce_age :: u32
  ce_data :: sector

record 'd fat_state =
  mounted :: bool
  fdev :: "'d block_device option"
  start_lba :: u32
  bytes_per_sector :: u16
  sectors_per_cluster :: u8
  reserved_sectors :: u16
  fat_count :: u8
  sectors_per_fat :: u32
  root_cluster :: u32
  fat_start_lba :: u32
  data_start_lba :: u32
  total_sectors :: u32
  data_clusters :: u32
  max_data_cluster :: u32
  alloc_hint_cluster :: u32
  fs_last_error :: string
  io_batch_sectors :: u32
  data_cache_enabled :: bool
  fat_cache_enabled :: bool
  cache_age_counter :: u32
  data_cache :: "cache_entry list"
  fat_cache :: "cache_entry list"
  disk :: 'd

abbreviation FAT32_ATTR_DIRECTORY :: u8 where "FAT32_ATTR_DIRECTORY \<equiv> 0x10"
abbreviation FAT32_ATTR_LFN :: u8 where "FAT32_ATTR_LFN \<equiv> 0x0F"
abbreviation FAT32_EOC :: u32 where "FAT32_EOC \<equiv> 0x0FFFFFF8"
abbreviation FAT32_MAX_IO_BATCH_SECTORS :: u32 where "FAT32_MAX_IO_BATCH_SECTORS \<equiv> 32"

section \<open>Sequencing\<close>

type_synonym ('d, 'a) fat = "'d fat_state \<Rightarrow> ('a option \<times> 'd fat_state) option"

definition ok :: "'a \<Rightarrow> ('d, 'a) fat" where "ok a s = Some (Some a, s)"
definition err :: "('d, 'a) fat" where "err s = Some (None, s)"

text \<open>\<open>if (m != 0) return -1;\<close> and go on with the value.\<close>

definition chk :: "('d, 'a) fat \<Rightarrow> ('a \<Rightarrow> ('d, 'b) fat) \<Rightarrow> ('d, 'b) fat" where
  "chk m k s = (case m s of None \<Rightarrow> None | Some (None, s') \<Rightarrow> Some (None, s') | Some (Some a, s') \<Rightarrow> k a s')"

text \<open>The same, whatever the result; the continuation sees it.\<close>

definition attempt :: "('d, 'a) fat \<Rightarrow> ('a option \<Rightarrow> ('d, 'b) fat) \<Rightarrow> ('d, 'b) fat" where
  "attempt m k s = (case m s of None \<Rightarrow> None | Some (r, s') \<Rightarrow> k r s')"

definition modify_st :: "('d fat_state \<Rightarrow> 'd fat_state) \<Rightarrow> ('d, unit) fat" where
  "modify_st f s = Some (Some (), f s)"

fun for_each :: "('x \<Rightarrow> ('d, unit) fat) \<Rightarrow> 'x list \<Rightarrow> ('d, unit) fat" where
  "for_each f [] = ok ()"
| "for_each f (x # xs) = chk (f x) (\<lambda>_. for_each f xs)"

text \<open>A loop: the body returns the next value of the loop's variables, or the value to stop with.\<close>

partial_function (option) loop ::
    "('c \<Rightarrow> ('d, 'c + 'a) fat) \<Rightarrow> 'c \<Rightarrow> 'd fat_state \<Rightarrow> ('a option \<times> 'd fat_state) option" where
  "loop body c s = do {
     (r, s') \<leftarrow> body c s;
     case r of None \<Rightarrow> Some (None, s') | Some (Inl c') \<Rightarrow> loop body c' s' | Some (Inr a) \<Rightarrow> Some (Some a, s') }"

section \<open>Caches\<close>

definition fat32_cache_clear :: "cache_entry list \<Rightarrow> cache_entry list" where
  "fat32_cache_clear c = map (\<lambda>e. e\<lparr>ce_valid := False, ce_lba := 0, ce_age := 0\<rparr>) c"

definition fat32_flush_cache :: "'d fat_state \<Rightarrow> 'd fat_state" where
  "fat32_flush_cache s = s\<lparr>cache_age_counter := 1, data_cache := fat32_cache_clear (data_cache s),
     fat_cache := fat32_cache_clear (fat_cache s)\<rparr>"

text \<open>The slot to replace: the first free one, or the first of the least age.\<close>

fun store_slot :: "cache_entry list \<Rightarrow> nat \<Rightarrow> nat \<Rightarrow> u32 \<Rightarrow> nat" where
  "store_slot [] i slot_i min_age = slot_i"
| "store_slot (e # es) i slot_i min_age =
     (if \<not> ce_valid e then i
      else if ce_age e < min_age then store_slot es (i + 1) i (ce_age e)
      else store_slot es (i + 1) slot_i min_age)"

definition fat32_cache_store :: "u32 \<Rightarrow> u32 \<Rightarrow> sector \<Rightarrow> cache_entry list \<Rightarrow> cache_entry list" where
  "fat32_cache_store age lba sec c =
     c[store_slot c 0 0 0xFFFFFFFF := \<lparr>ce_valid = True, ce_lba = lba, ce_age = age, ce_data = sec\<rparr>]"

fun fat32_cache_lookup :: "u32 \<Rightarrow> u32 \<Rightarrow> cache_entry list \<Rightarrow> (sector \<times> cache_entry list) option" where
  "fat32_cache_lookup age lba [] = None"
| "fat32_cache_lookup age lba (e # es) =
     (if ce_valid e \<and> ce_lba e = lba then Some (ce_data e, e\<lparr>ce_age := age\<rparr> # es)
      else map_option (\<lambda>(d, es'). (d, e # es')) (fat32_cache_lookup age lba es))"

section \<open>Sectors\<close>

definition set_cache :: "bool \<Rightarrow> cache_entry list \<Rightarrow> 'd fat_state \<Rightarrow> 'd fat_state" where
  "set_cache use_fat c s = (if use_fat then s\<lparr>fat_cache := c\<rparr> else s\<lparr>data_cache := c\<rparr>)"

definition fat32_read_sector_cached :: "u32 \<Rightarrow> bool \<Rightarrow> ('d, sector) fat" where
  "fat32_read_sector_cached lba use_fat s =
     (case (mounted s, fdev s) of
        (True, Some dv) \<Rightarrow>
          (case dev_read_sector dv of
             None \<Rightarrow> err s
           | Some rd \<Rightarrow>
               let enabled = (if use_fat then fat_cache_enabled s else data_cache_enabled s);
                   cache = (if use_fat then fat_cache s else data_cache s) in
               (case (if enabled then fat32_cache_lookup (cache_age_counter s) lba cache else None) of
                  Some (sec, c) \<Rightarrow> ok sec ((set_cache use_fat c s)\<lparr>cache_age_counter := cache_age_counter s + 1\<rparr>)
                | None \<Rightarrow>
                    (case rd lba (disk s) of
                       (None, d) \<Rightarrow> err (s\<lparr>disk := d\<rparr>)
                     | (Some sec, d) \<Rightarrow>
                         let s1 = s\<lparr>disk := d\<rparr> in
                         if enabled
                         then ok sec ((set_cache use_fat (fat32_cache_store (cache_age_counter s) lba sec cache) s1)
                                        \<lparr>cache_age_counter := cache_age_counter s + 1\<rparr>)
                         else ok sec s1)))
      | _ \<Rightarrow> err s)"

fun read_each :: "u32 list \<Rightarrow> ('d, u8 list) fat" where
  "read_each [] = ok []"
| "read_each (lba # ls) = chk (fat32_read_sector_cached lba False) (\<lambda>sec. chk (read_each ls) (\<lambda>rest. ok (sec @ rest)))"

definition fat32_read_data_sectors :: "u32 \<Rightarrow> nat \<Rightarrow> ('d, u8 list) fat" where
  "fat32_read_data_sectors lba count s =
     (if count = 0 then err s
      else (case (mounted s, fdev s) of
              (True, Some dv) \<Rightarrow>
                (case (count > 1, dev_read_sectors dv) of
                   (True, Some rd) \<Rightarrow> (case rd lba count (disk s) of (r, d) \<Rightarrow> Some (r, s\<lparr>disk := d\<rparr>))
                 | _ \<Rightarrow> read_each (map (\<lambda>i. lba + of_nat i) [0..<count]) s)
            | _ \<Rightarrow> err s))"

definition fat32_write_sector_uncached :: "u32 \<Rightarrow> sector \<Rightarrow> ('d, unit) fat" where
  "fat32_write_sector_uncached lba sec s =
     (case (mounted s, fdev s) of
        (True, Some dv) \<Rightarrow>
          (case dev_write_sector dv of
             None \<Rightarrow> err s
           | Some wr \<Rightarrow> (case wr lba sec (disk s) of
               (False, d) \<Rightarrow> err (s\<lparr>disk := d\<rparr>)
             | (True, d) \<Rightarrow> ok () (fat32_flush_cache (s\<lparr>disk := d\<rparr>))))
      | _ \<Rightarrow> err s)"

section \<open>Errors\<close>

definition fat32_set_error :: "string \<Rightarrow> 'd fat_state \<Rightarrow> 'd fat_state" where
  "fat32_set_error msg s = s\<lparr>fs_last_error := copy_upto msg 95\<rparr>"

definition fat32_clear_error :: "'d fat_state \<Rightarrow> 'd fat_state" where
  "fat32_clear_error s = s\<lparr>fs_last_error := []\<rparr>"

text \<open>\<open>{ fat32_set_error(msg); return -1; }\<close>, and the same guarding a call.\<close>

definition fail_msg :: "string \<Rightarrow> ('d, 'a) fat" where
  "fail_msg msg s = err (fat32_set_error msg s)"

definition or_msg :: "string \<Rightarrow> ('d, 'a) fat \<Rightarrow> ('d, 'a) fat" where
  "or_msg msg m = attempt m (\<lambda>r. case r of None \<Rightarrow> fail_msg msg | Some a \<Rightarrow> ok a)"

section \<open>Fields of a sector\<close>

definition rd16 :: "u8 list \<Rightarrow> nat \<Rightarrow> u16" where
  "rd16 p i = ucast (p ! i) OR push_bit 8 (ucast (p ! (i + 1)))"

definition rd32 :: "u8 list \<Rightarrow> nat \<Rightarrow> u32" where
  "rd32 p i = ucast (p ! i) OR push_bit 8 (ucast (p ! (i + 1))) OR push_bit 16 (ucast (p ! (i + 2))) OR push_bit 24 (ucast (p ! (i + 3)))"

definition byte_n :: "nat \<Rightarrow> 'a::len word \<Rightarrow> u8" where
  "byte_n n v = ucast (drop_bit (8 * n) v)"

definition boot_is_fat32 :: "sector \<Rightarrow> bool" where
  "boot_is_fat32 sec =
     (if sec ! 510 \<noteq> 0x55 \<or> sec ! 511 \<noteq> 0xAA then False
      else if \<not> (sec ! 82 = 0x46 \<and> sec ! 83 = 0x41 \<and> sec ! 84 = 0x54 \<and> sec ! 85 = 0x33 \<and> sec ! 86 = 0x32) then False
      else if rd16 sec 11 \<noteq> 512 then False
      else if sec ! 13 = 0 \<or> sec ! 13 AND (sec ! 13 - 1) \<noteq> 0 then False
      else if rd16 sec 14 = 0 \<or> sec ! 16 = 0 then False
      else if rd32 sec 32 = 0 then False
      else if rd32 sec 36 = 0 then False
      else if rd32 sec 44 < 2 then False
      else if rd16 sec 19 \<noteq> 0 then False
      else if rd16 sec 22 \<noteq> 0 then False
      else True)"

section \<open>The allocation table\<close>

definition cluster_to_lba :: "'d fat_state \<Rightarrow> u32 \<Rightarrow> u32" where
  "cluster_to_lba s cluster = data_start_lba s + (cluster - 2) * ucast (sectors_per_cluster s)"

definition fat32_cluster_is_valid :: "'d fat_state \<Rightarrow> u32 \<Rightarrow> bool" where
  "fat32_cluster_is_valid s cluster =
     (if cluster < 2 then False else if data_clusters s = 0 then False
      else if cluster > max_data_cluster s then False else True)"

text \<open>The sector of an entry in the first table, and its place in the sector.\<close>

definition fat_sector_of :: "'d fat_state \<Rightarrow> u32 \<Rightarrow> u32" where
  "fat_sector_of s cluster = cluster * 4 div ucast (bytes_per_sector s)"

definition ent_off_of :: "'d fat_state \<Rightarrow> u32 \<Rightarrow> u32" where
  "ent_off_of s cluster = cluster * 4 mod ucast (bytes_per_sector s)"

definition bad_link :: "'d fat_state \<Rightarrow> u32 \<Rightarrow> bool" where
  "bad_link s v = (v \<ge> 2 \<and> v < FAT32_EOC \<and> \<not> fat32_cluster_is_valid s v)"

definition fat32_next_cluster :: "u32 \<Rightarrow> ('d, u32) fat" where
  "fat32_next_cluster cluster s =
     (if \<not> fat32_cluster_is_valid s cluster then err s
      else chk (fat32_read_sector_cached (fat_start_lba s + fat_sector_of s cluster) True) (\<lambda>sec s1.
        if ent_off_of s cluster > ucast (bytes_per_sector s) - 4 then err s1
        else let v = rd32 sec (unat (ent_off_of s cluster)) AND 0x0FFFFFFF
             in if bad_link s v then err s1 else ok v s1) s)"

definition put_entry :: "u32 \<Rightarrow> nat \<Rightarrow> sector \<Rightarrow> sector" where
  "put_entry v off sec =
     sec[off := byte_n 0 v, off + 1 := byte_n 1 v, off + 2 := byte_n 2 v,
         off + 3 := (sec ! (off + 3) AND 0xF0) OR (byte_n 3 v AND 0x0F)]"

definition fat32_set_cluster_value :: "u32 \<Rightarrow> u32 \<Rightarrow> ('d, unit) fat" where
  "fat32_set_cluster_value cluster v s =
     (if \<not> fat32_cluster_is_valid s cluster then err s
      else if bad_link s v then err s
      else if ent_off_of s cluster > ucast (bytes_per_sector s) - 4 then err s
      else for_each (\<lambda>i.
             let fat_sector = fat_start_lba s + of_nat i * sectors_per_fat s + fat_sector_of s cluster in
             chk (fat32_read_sector_cached fat_sector True) (\<lambda>sec.
               fat32_write_sector_uncached fat_sector (put_entry v (unat (ent_off_of s cluster)) sec)))
             [0..<unat (fat_count s)] s)"

definition free_body :: "u32 \<Rightarrow> ('d, u32 + unit) fat" where
  "free_body cur s =
     (if \<not> fat32_cluster_is_valid s cur \<or> \<not> cur < FAT32_EOC then ok (Inr ()) s
      else chk (fat32_next_cluster cur) (\<lambda>nxt.
           chk (fat32_set_cluster_value cur 0) (\<lambda>_.
           chk (modify_st (\<lambda>s. if \<not> fat32_cluster_is_valid s (alloc_hint_cluster s) \<or> cur < alloc_hint_cluster s
                              then s\<lparr>alloc_hint_cluster := cur\<rparr> else s)) (\<lambda>_.
           if nxt \<ge> FAT32_EOC then ok (Inr ()) else ok (Inl nxt)))) s)"

definition fat32_free_chain :: "u32 \<Rightarrow> ('d, unit) fat" where
  "fat32_free_chain first = loop free_body first"

text \<open>The two loops of \<open>fat32_alloc_cluster\<close> have the same body.\<close>

definition take_cluster :: "u32 \<Rightarrow> ('d, u32) fat" where
  "take_cluster c s =
     chk (fat32_set_cluster_value c 0x0FFFFFFF) (\<lambda>_ s1.
     chk (for_each (\<lambda>i. fat32_write_sector_uncached (cluster_to_lba s1 c + of_nat i) (replicate 512 0))
            [0..<unat (sectors_per_cluster s1)]) (\<lambda>_.
     chk (modify_st (\<lambda>s. s\<lparr>alloc_hint_cluster := (if c < max_data_cluster s then c + 1 else 2)\<rparr>)) (\<lambda>_.
     ok c)) s1) s"

fun alloc_scan :: "nat list \<Rightarrow> ('d, u32 option) fat" where
  "alloc_scan [] = ok None"
| "alloc_scan (c # cs) =
     chk (fat32_next_cluster (of_nat c)) (\<lambda>v.
       if v = 0 then chk (take_cluster (of_nat c)) (\<lambda>r. ok (Some r)) else alloc_scan cs)"

definition fat32_alloc_cluster :: "('d, u32) fat" where
  "fat32_alloc_cluster s =
     (let start = (if fat32_cluster_is_valid s (alloc_hint_cluster s) then unat (alloc_hint_cluster s) else 2) in
      chk (alloc_scan ([start..<unat (max_data_cluster s) + 1] @ [2..<start])) (\<lambda>r.
        case r of None \<Rightarrow> err | Some c \<Rightarrow> ok c) s)"

section \<open>Mounting\<close>

definition set_fields :: "'d block_device \<Rightarrow> u32 \<Rightarrow> sector \<Rightarrow> 'd fat_state \<Rightarrow> 'd fat_state" where
  "set_fields dv lba sec s =
     s\<lparr>fdev := Some dv, start_lba := lba, bytes_per_sector := rd16 sec 11, sectors_per_cluster := sec ! 13,
       reserved_sectors := rd16 sec 14, fat_count := sec ! 16, sectors_per_fat := rd32 sec 36,
       root_cluster := rd32 sec 44,
       total_sectors := (if rd16 sec 19 \<noteq> 0 then ucast (rd16 sec 19) else rd32 sec 32)\<rparr>"

text \<open>The checks after the fields are set.\<close>

definition mount_geometry :: "('d, unit) fat" where
  "mount_geometry s =
     (if bytes_per_sector s \<noteq> 512 then fail_msg ''mount: unsupported sector size'' s
      else if sectors_per_cluster s = 0 \<or> fat_count s = 0 \<or> sectors_per_fat s = 0 \<or> root_cluster s < 2
      then fail_msg ''mount: invalid FAT32 BPB fields'' s
      else if total_sectors s = 0 then fail_msg ''mount: total sectors is zero'' s
      else let data_start_rel = ucast (reserved_sectors s) + ucast (fat_count s) * sectors_per_fat s in
        if data_start_rel \<ge> total_sectors s then fail_msg ''mount: data area outside volume'' s
        else let data_sectors = total_sectors s - data_start_rel in
          if data_sectors < ucast (sectors_per_cluster s) then fail_msg ''mount: data area too small'' s
          else let s1 = s\<lparr>data_clusters := data_sectors div ucast (sectors_per_cluster s)\<rparr> in
            if data_clusters s1 = 0 then fail_msg ''mount: zero data clusters'' s1
            else let s2 = s1\<lparr>max_data_cluster := data_clusters s1 + 1, alloc_hint_cluster := 2\<rparr> in
              if \<not> fat32_cluster_is_valid s2 (root_cluster s2) then fail_msg ''mount: root cluster out of range'' s2
              else let s3 = s2\<lparr>fat_start_lba := start_lba s2 + ucast (reserved_sectors s2)\<rparr>;
                       s4 = s3\<lparr>data_start_lba := fat_start_lba s3 + ucast (fat_count s3) * sectors_per_fat s3, mounted := True\<rparr>
                in ok () (fat32_clear_error (fat32_flush_cache s4)))"

text \<open>\<open>disk\<close> becomes the state of the device that is mounted.\<close>

definition dev_read :: "(u32 \<Rightarrow> 'd \<Rightarrow> sector option \<times> 'd) \<Rightarrow> u32 \<Rightarrow> ('d, sector) fat" where
  "dev_read rd lba s = (case rd lba (disk s) of (r, d) \<Rightarrow> Some (r, s\<lparr>disk := d\<rparr>))"

definition fat32_mount :: "'d block_device option \<Rightarrow> ('d, unit) fat" where
  "fat32_mount dv s =
     (let s0 = fat32_clear_error (s\<lparr>mounted := False\<rparr>) in
      case dv of
        None \<Rightarrow> fail_msg ''mount: device not present'' s0
      | Some dv \<Rightarrow>
          (case (dev_present dv, dev_read_sector dv) of
             (True, Some rd) \<Rightarrow>
               chk (or_msg ''mount: read boot sector failed'' (dev_read rd 0)) (\<lambda>sec.
                 if boot_is_fat32 sec then (\<lambda>s. mount_geometry (set_fields dv 0 sec s))
                 else if sec ! 510 \<noteq> 0x55 \<or> sec ! 511 \<noteq> 0xAA then fail_msg ''mount: invalid MBR signature''
                 else let part_lba = rd32 sec 454 in
                   if part_lba = 0 then fail_msg ''mount: no active FAT partition''
                   else chk (or_msg ''mount: read partition boot failed'' (dev_read rd part_lba)) (\<lambda>sec.
                     if \<not> boot_is_fat32 sec then fail_msg ''mount: partition is not FAT32''
                     else (\<lambda>s. mount_geometry (set_fields dv part_lba sec s)))) s0
           | _ \<Rightarrow> fail_msg ''mount: device not present'' s0))"

definition fat32_unmount :: "'d fat_state \<Rightarrow> 'd fat_state" where
  "fat32_unmount s =
     (fat32_clear_error (fat32_flush_cache (s\<lparr>mounted := False\<rparr>)))
       \<lparr>fdev := None, start_lba := 0, bytes_per_sector := 0, sectors_per_cluster := 0, reserved_sectors := 0,
        fat_count := 0, sectors_per_fat := 0, root_cluster := 0, fat_start_lba := 0, data_start_lba := 0,
        total_sectors := 0, data_clusters := 0, max_data_cluster := 0, alloc_hint_cluster := 0\<rparr>"

definition fat32_set_io_batch_sectors :: "u32 \<Rightarrow> 'd fat_state \<Rightarrow> int \<times> 'd fat_state" where
  "fat32_set_io_batch_sectors count s =
     (if count < 1 \<or> count > FAT32_MAX_IO_BATCH_SECTORS then (-1, s) else (0, s\<lparr>io_batch_sectors := count\<rparr>))"

definition fat32_set_data_cache_enabled :: "bool \<Rightarrow> 'd fat_state \<Rightarrow> 'd fat_state" where
  "fat32_set_data_cache_enabled enabled s = fat32_flush_cache (s\<lparr>data_cache_enabled := enabled\<rparr>)"

definition fat32_set_fat_cache_enabled :: "bool \<Rightarrow> 'd fat_state \<Rightarrow> 'd fat_state" where
  "fat32_set_fat_cache_enabled enabled s = fat32_flush_cache (s\<lparr>fat_cache_enabled := enabled\<rparr>)"

end
