(* ===== verification/Fat_Table.thy ===== *)
theory Fat_Table
  imports Fat_Disk
begin

text \<open>
  What the table operations of \<open>src/kernel/fat32.c\<close> promise over a device that keeps what is written to it.
  The device's law is the locale \<open>block_laws\<close>; the caches are transparent under it, the copies of the table
  are one map from clusters to links, and the operations change that map as they say.
\<close>

section \<open>A device that keeps what is written\<close>

locale block_laws =
  fixes rd :: "u32 \<Rightarrow> 'd \<Rightarrow> sector option \<times> 'd"
    and wr :: "u32 \<Rightarrow> sector \<Rightarrow> 'd \<Rightarrow> bool \<times> 'd"
    and contents :: "'d \<Rightarrow> u32 \<Rightarrow> sector"
  assumes rd_some: "rd lba d = (Some sec, d') \<Longrightarrow> sec = contents d lba"
    and rd_keeps: "rd lba d = (r, d') \<Longrightarrow> contents d' = contents d"
    and wr_stores: "wr lba sec d = (True, d') \<Longrightarrow> length sec = 512 \<Longrightarrow> contents d' = (contents d)(lba := sec)"
    and contents_length: "length (contents d lba) = 512"

text \<open>The mounted device is this one, and what the caches hold is what it holds.\<close>

definition coherent ::
    "(u32 \<Rightarrow> 'd \<Rightarrow> sector option \<times> 'd) \<Rightarrow> (u32 \<Rightarrow> sector \<Rightarrow> 'd \<Rightarrow> bool \<times> 'd) \<Rightarrow> ('d \<Rightarrow> u32 \<Rightarrow> sector) \<Rightarrow> 'd fat_state \<Rightarrow> bool" where
  "coherent rd wr contents s =
     (mounted s \<and> map_option dev_read_sector (fdev s) = Some (Some rd) \<and> map_option dev_write_sector (fdev s) = Some (Some wr) \<and>
      (\<forall>e \<in> set (data_cache s) \<union> set (fat_cache s). ce_valid e \<longrightarrow> ce_data e = contents (disk s) (ce_lba e)))"

text \<open>What no operation on a mounted volume changes.\<close>

definition geometry where
  "geometry s = (mounted s, fdev s, bytes_per_sector s, sectors_per_cluster s, fat_count s, sectors_per_fat s, root_cluster s,
     fat_start_lba s, data_start_lba s, data_clusters s, max_data_cluster s)"

lemma geometry_cong:
  assumes "geometry s' = geometry s"
  shows "fat_sector_of s' = fat_sector_of s" "ent_off_of s' = ent_off_of s" "fat32_cluster_is_valid s' = fat32_cluster_is_valid s"
    "bad_link s' = bad_link s" "cluster_to_lba s' = cluster_to_lba s" "fat_start_lba s' = fat_start_lba s" "sectors_per_fat s' = sectors_per_fat s"
    "fat_count s' = fat_count s" "max_data_cluster s' = max_data_cluster s" "bytes_per_sector s' = bytes_per_sector s"
    "sectors_per_cluster s' = sectors_per_cluster s" "data_start_lba s' = data_start_lba s" "root_cluster s' = root_cluster s" "mounted s' = mounted s"
    "data_clusters s' = data_clusters s"
  using assms
  by (simp_all add: geometry_def fat_sector_of_def [abs_def] ent_off_of_def [abs_def] fat32_cluster_is_valid_def [abs_def] bad_link_def [abs_def]
      cluster_to_lba_def [abs_def])

section \<open>Runs\<close>

lemma chk_SomeD:
  assumes "chk m k s = Some (Some b, s')"
  shows "\<exists>a s1. m s = Some (Some a, s1) \<and> k a s1 = Some (Some b, s')"
  using assms by (auto simp: chk_def split: option.splits prod.splits)

lemma ok_SomeD: "ok a s = Some (r, s') \<longleftrightarrow> r = Some a \<and> s' = s"
  by (auto simp: ok_def)

lemma err_not_Some: "err s \<noteq> Some (Some a, s')"
  by (simp add: err_def)

text \<open>An invariant of a loop's variables and state gives its result.\<close>

lemma loop_rule:
  assumes "loop body c s = Some y" and "I c s" and step: "\<And>c s r s'. I c s \<Longrightarrow> body c s = Some (r, s') \<Longrightarrow>
     (case r of None \<Rightarrow> Q None s' | Some (Inl c') \<Rightarrow> I c' s' | Some (Inr a) \<Rightarrow> Q (Some a) s')"
  shows "Q (fst y) (snd y)"
proof -
  have "body = body \<longrightarrow> I c s \<longrightarrow> Q (fst y) (snd y)"
  proof (rule loop.raw_induct [where P = "\<lambda>b c s y. b = body \<longrightarrow> I c s \<longrightarrow> Q (fst y) (snd y)", OF _ assms(1)], intro impI)
    fix lp b c s y
    assume ih: "\<And>b c s y. lp b c s = Some y \<Longrightarrow> b = body \<longrightarrow> I c s \<longrightarrow> Q (fst y) (snd y)"
      and run: "b c s \<bind> (\<lambda>(r, s'). case r of None \<Rightarrow> Some (None, s') | Some (Inl c') \<Rightarrow> lp b c' s' | Some (Inr a) \<Rightarrow> Some (Some a, s')) = Some y"
      and b: "b = body" and i: "I c s"
    from run obtain r s' where r: "body c s = Some (r, s')"
      "(case r of None \<Rightarrow> Some (None, s') | Some (Inl c') \<Rightarrow> lp b c' s' | Some (Inr a) \<Rightarrow> Some (Some a, s')) = Some y"
      by (auto simp: b dest!: bind_SomeD)
    from step [OF i r(1)] r(2) ih b show "Q (fst y) (snd y)"
      by (auto split: option.splits sum.splits)
  qed
  with assms(2) show ?thesis by simp
qed

lemma lookup_sound:
  assumes "fat32_cache_lookup age lba es = Some (d, es')"
    and "\<forall>e \<in> set es. ce_valid e \<longrightarrow> ce_data e = f (ce_lba e)"
  shows "d = f lba \<and> (\<forall>e \<in> set es'. ce_valid e \<longrightarrow> ce_data e = f (ce_lba e))"
  using assms by (induction es arbitrary: es') (auto split: if_splits)

lemma store_sound:
  assumes "\<forall>e \<in> set es. ce_valid e \<longrightarrow> ce_data e = f (ce_lba e)"
  shows "\<forall>e \<in> set (fat32_cache_store age lba (f lba) es). ce_valid e \<longrightarrow> ce_data e = f (ce_lba e)"
  using assms set_update_subset_insert [of es] by (fastforce simp: fat32_cache_store_def)

lemma clear_sound: "\<forall>e \<in> set (fat32_cache_clear es). \<not> ce_valid e"
  by (auto simp: fat32_cache_clear_def)

section \<open>Sectors through the caches\<close>

context block_laws begin

lemma read_cached:
  assumes "coherent rd wr contents s" and "fat32_read_sector_cached lba b s = Some (r, s')"
  shows "coherent rd wr contents s' \<and> geometry s' = geometry s \<and> contents (disk s') = contents (disk s) \<and>
    (\<forall>sec. r = Some sec \<longrightarrow> sec = contents (disk s) lba) \<and> alloc_hint_cluster s' = alloc_hint_cluster s"
proof -
  from assms(1) obtain dv where dv: "mounted s" "fdev s = Some dv" "dev_read_sector dv = Some rd"
    by (auto simp: coherent_def)
  let ?f = "contents (disk s)"
  have c: "\<forall>e \<in> set (data_cache s). ce_valid e \<longrightarrow> ce_data e = ?f (ce_lba e)"
    "\<forall>e \<in> set (fat_cache s). ce_valid e \<longrightarrow> ce_data e = ?f (ce_lba e)"
    using assms(1) by (auto simp: coherent_def)
  let ?en = "if b then fat_cache_enabled s else data_cache_enabled s"
  let ?cache = "if b then fat_cache s else data_cache s"
  have cc: "\<forall>e \<in> set ?cache. ce_valid e \<longrightarrow> ce_data e = ?f (ce_lba e)" using c by simp
  show ?thesis
  proof (cases "if ?en then fat32_cache_lookup (cache_age_counter s) lba ?cache else None")
    case (Some p)
    then obtain d es where p: "p = (d, es)" "fat32_cache_lookup (cache_age_counter s) lba ?cache = Some (d, es)"
      by (cases p) (auto split: if_splits)
    from lookup_sound [OF p(2) cc] have "d = ?f lba" "\<forall>e \<in> set es. ce_valid e \<longrightarrow> ce_data e = ?f (ce_lba e)" by auto
    moreover have "fat32_read_sector_cached lba b s = ok d ((set_cache b es s)\<lparr>cache_age_counter := cache_age_counter s + 1\<rparr>)"
      using Some p(1) dv by (simp add: fat32_read_sector_cached_def Let_def)
    ultimately show ?thesis using assms c by (cases b) (auto simp: ok_def set_cache_def coherent_def geometry_def)
  next
    case None
    obtain q d' where q: "rd lba (disk s) = (q, d')" by (cases "rd lba (disk s)")
    show ?thesis
    proof (cases q)
      case None': None
      have "fat32_read_sector_cached lba b s = err (s\<lparr>disk := d'\<rparr>)"
        using None None' dv q by (simp add: fat32_read_sector_cached_def Let_def)
      with assms rd_keeps [OF q] show ?thesis by (auto simp: err_def coherent_def geometry_def)
    next
      case (Some sec)
      have sec: "sec = ?f lba" using rd_some q Some by blast
      from store_sound [OF cc] have st: "\<forall>e \<in> set (fat32_cache_store (cache_age_counter s) lba (?f lba) ?cache). ce_valid e \<longrightarrow> ce_data e = ?f (ce_lba e)" .
      moreover have "fat32_read_sector_cached lba b s = ok sec
          (if ?en then (set_cache b (fat32_cache_store (cache_age_counter s) lba sec ?cache) (s\<lparr>disk := d'\<rparr>))
             \<lparr>cache_age_counter := cache_age_counter s + 1\<rparr> else s\<lparr>disk := d'\<rparr>)"
        using None dv q Some by (simp add: fat32_read_sector_cached_def Let_def)
      ultimately show ?thesis using assms rd_keeps [OF q] sec c
        by (cases b; cases ?en) (auto simp: ok_def set_cache_def coherent_def geometry_def)
    qed
  qed
qed

lemma write_uncached:
  assumes "coherent rd wr contents s" and "length sec = 512" and "fat32_write_sector_uncached lba sec s = Some (Some u, s')"
  shows "coherent rd wr contents s' \<and> geometry s' = geometry s \<and> contents (disk s') = (contents (disk s))(lba := sec)
    \<and> alloc_hint_cluster s' = alloc_hint_cluster s"
  using assms wr_stores [of lba sec "disk s"] clear_sound
  by (auto simp: coherent_def fat32_write_sector_uncached_def geometry_def err_def ok_def fat32_flush_cache_def split: prod.splits bool.splits option.splits)

end

section \<open>The table\<close>

text \<open>The sector of a cluster's entry in copy \<open>i\<close> of the table, and the link that copy holds.\<close>

definition fat_lba :: "'d fat_state \<Rightarrow> nat \<Rightarrow> u32 \<Rightarrow> u32" where
  "fat_lba s i c = fat_start_lba s + of_nat i * sectors_per_fat s + fat_sector_of s c"

definition link_in :: "'d fat_state \<Rightarrow> (u32 \<Rightarrow> sector) \<Rightarrow> nat \<Rightarrow> u32 \<Rightarrow> u32" where
  "link_in s img i c = rd32 (img (fat_lba s i c)) (unat (ent_off_of s c)) AND 0x0FFFFFFF"

text \<open>The copies of the table have room for every cluster, and lie before the data area inside the device.\<close>

definition table_fits :: "'d fat_state \<Rightarrow> bool" where
  "table_fits s =
     (bytes_per_sector s = 512 \<and> 0 < unat (fat_count s) \<and> 0 < unat (sectors_per_cluster s) \<and>
      unat (max_data_cluster s) < 268435448 \<and>
      4 * (unat (max_data_cluster s) + 1) \<le> 512 * unat (sectors_per_fat s) \<and>
      unat (fat_start_lba s) + unat (fat_count s) * unat (sectors_per_fat s) = unat (data_start_lba s) \<and>
      unat (data_start_lba s) + (unat (max_data_cluster s) - 1) * unat (sectors_per_cluster s) \<le> 4294967296)"

lemma valid_bounds:
  "fat32_cluster_is_valid s c \<longleftrightarrow> 2 \<le> unat c \<and> unat c \<le> unat (max_data_cluster s) \<and> data_clusters s \<noteq> 0"
  by (auto simp: fat32_cluster_is_valid_def word_less_nat_alt)

lemma entry_place:
  assumes "table_fits s" and "fat32_cluster_is_valid s c"
  shows "unat (fat_sector_of s c) = unat c div 128" and "unat (ent_off_of s c) = 4 * (unat c mod 128)"
proof -
  have b: "bytes_per_sector s = 512" "unat c < 268435448" using assms by (auto simp: table_fits_def valid_bounds)
  then have m: "unat (c * 4) = unat c * 4" by (simp add: unat_word_ariths)
  have u: "(ucast (bytes_per_sector s) :: u32) = 512" using b by simp
  show "unat (fat_sector_of s c) = unat c div 128" by (simp add: fat_sector_of_def u unat_div m)
  show "unat (ent_off_of s c) = 4 * (unat c mod 128)"
    using mult_mod_left [of "unat c" 128 4] by (simp add: ent_off_of_def u unat_mod m mult.commute)
qed

lemma entry_in_sector:
  assumes "table_fits s" and "fat32_cluster_is_valid s c"
  shows "unat (ent_off_of s c) + 3 < 512"
  using entry_place(2) [OF assms] mod_less_divisor [of 128 "unat c"] by linarith

lemma fat_lba_unat:
  assumes "table_fits s" and "fat32_cluster_is_valid s c" and "i < unat (fat_count s)"
  shows "unat (fat_lba s i c) = unat (fat_start_lba s) + i * unat (sectors_per_fat s) + unat c div 128"
    and "unat c div 128 < unat (sectors_per_fat s)"
    and "unat (fat_lba s i c) < unat (data_start_lba s)"
proof -
  have c: "unat c \<le> unat (max_data_cluster s)" using assms(2) by (simp add: valid_bounds)
  have "unat (max_data_cluster s) + 1 \<le> 128 * unat (sectors_per_fat s)" using assms(1) by (simp add: table_fits_def)
  with c have "unat c < 128 * unat (sectors_per_fat s)" by simp
  then show lt: "unat c div 128 < unat (sectors_per_fat s)" by (simp add: less_mult_imp_div_less mult.commute)
  let ?f = "unat (sectors_per_fat s)"
  have "Suc i * ?f \<le> unat (fat_count s) * ?f" using assms(3) by (intro mult_le_mono1) simp
  then have sum: "unat (fat_start_lba s) + i * ?f + unat c div 128 < unat (data_start_lba s)"
    using lt assms(1) by (simp add: table_fits_def)
  have d: "unat (data_start_lba s) < 4294967296" by (rule unat_bounds(3))
  have i: "i < 256" using assms(3) unat_bounds(1) [of "fat_count s"] by linarith
  have p: "unat (of_nat i * sectors_per_fat s :: u32) = i * ?f"
    using sum d i by (simp add: unat_word_ariths unat_of_nat)
  have q: "unat (fat_start_lba s + of_nat i * sectors_per_fat s) = unat (fat_start_lba s) + i * ?f"
    using sum d p by (simp add: unat_word_ariths(1))
  show e: "unat (fat_lba s i c) = unat (fat_start_lba s) + i * ?f + unat c div 128"
    using sum d q entry_place(1) [OF assms(1,2)] by (simp add: fat_lba_def unat_word_ariths(1))
  show "unat (fat_lba s i c) < unat (data_start_lba s)" using e sum by simp
qed

text \<open>Two entries share their sector and place only when they are the same entry of the same copy.\<close>

lemma fat_lba_inj:
  assumes "table_fits s" and "fat32_cluster_is_valid s c" and "fat32_cluster_is_valid s c'"
    and "i < unat (fat_count s)" and "j < unat (fat_count s)" and "fat_lba s i c = fat_lba s j c'"
  shows "i = j" and "unat c div 128 = unat c' div 128"
proof -
  let ?f = "unat (sectors_per_fat s)"
  note a = fat_lba_unat [OF assms(1,2,4)] and b = fat_lba_unat [OF assms(1,3,5)]
  have e: "i * ?f + unat c div 128 = j * ?f + unat c' div 128" using a(1) b(1) assms(6) by simp
  then have "(i * ?f + unat c div 128) div ?f = (j * ?f + unat c' div 128) div ?f" by simp
  then show "i = j" using a(2) b(2) by (simp add: div_mult_self3)
  with e show "unat c div 128 = unat c' div 128" by simp
qed

lemma same_entry:
  assumes "table_fits s" and "fat32_cluster_is_valid s c" and "fat32_cluster_is_valid s c'"
    and "unat c div 128 = unat c' div 128" and "ent_off_of s c = ent_off_of s c'"
  shows "c = c'"
proof -
  have "unat c mod 128 = unat c' mod 128" using entry_place(2) [OF assms(1,2)] entry_place(2) [OF assms(1,3)] assms(5) by simp
  with assms(4) show ?thesis by (metis div_mult_mod_eq unsigned_word_eqI)
qed

section \<open>Entries of a sector\<close>

lemma length_put_entry [simp]: "length (put_entry v off sec) = length sec"
  by (simp add: put_entry_def)

lemma rd32_put_entry:
  assumes "off + 3 < length sec"
  shows "rd32 (put_entry v off sec) off AND 0x0FFFFFFF = v AND 0x0FFFFFFF"
proof (rule bit_word_eqI)
  fix n assume "n < LENGTH(32)"
  then have "n \<in> {0..<8} \<or> n \<in> {8..<16} \<or> n \<in> {16..<24} \<or>
      n = 24 \<or> n = 25 \<or> n = 26 \<or> n = 27 \<or> n = 28 \<or> n = 29 \<or> n = 30 \<or> n = 31" by auto
  then show "bit (rd32 (put_entry v off sec) off AND 0x0FFFFFFF) n = bit (v AND 0x0FFFFFFF) n"
    using assms
    by (elim disjE) (auto simp: rd32_def put_entry_def byte_n_def bit_simps nth_list_update dest: bit_imp_le_length)
qed

lemma rd32_put_other:
  assumes "off + 3 < off' \<or> off' + 3 < off"
  shows "rd32 (put_entry v off sec) off' = rd32 sec off'"
  using assms by (auto simp: rd32_def put_entry_def nth_list_update)

text \<open>The contents of the device after \<open>v\<close> is stored for \<open>c\<close> in every copy.\<close>

definition put_link :: "'d fat_state \<Rightarrow> u32 \<Rightarrow> u32 \<Rightarrow> (u32 \<Rightarrow> sector) \<Rightarrow> u32 \<Rightarrow> sector" where
  "put_link s c v img lba =
     (if \<exists>i < unat (fat_count s). lba = fat_lba s i c then put_entry v (unat (ent_off_of s c)) (img lba) else img lba)"

lemma link_in_put_link:
  assumes fits: "table_fits s" and c: "fat32_cluster_is_valid s c" "fat32_cluster_is_valid s c'"
    and i: "i < unat (fat_count s)" and len: "\<And>lba. length (img lba) = 512"
  shows "link_in s (put_link s c v img) i c' = (if c' = c then v AND 0x0FFFFFFF else link_in s img i c')"
proof (cases "\<exists>j < unat (fat_count s). fat_lba s i c' = fat_lba s j c")
  case False
  then have "c' \<noteq> c" using i by auto
  with False show ?thesis by (auto simp: link_in_def put_link_def)
next
  case True
  then obtain j where j: "j < unat (fat_count s)" "fat_lba s i c' = fat_lba s j c" by auto
  from fat_lba_inj(2) [OF fits c(2,1) i j] have q: "unat c' div 128 = unat c div 128" .
  let ?o = "unat (ent_off_of s c)" and ?o' = "unat (ent_off_of s c')"
  show ?thesis
  proof (cases "c' = c")
    case True
    with i entry_in_sector [OF fits c(1)] len show ?thesis by (auto simp: link_in_def put_link_def rd32_put_entry)
  next
    case False
    have "unat c' mod 128 \<noteq> unat c mod 128" using same_entry [OF fits c(2,1) q] entry_place(2) [OF fits c(1)] entry_place(2) [OF fits c(2)] False
      by (metis unsigned_word_eqI)
    then have "?o + 3 < ?o' \<or> ?o' + 3 < ?o" using entry_place(2) [OF fits c(1)] entry_place(2) [OF fits c(2)] by linarith
    then show ?thesis using False True by (simp add: link_in_def put_link_def rd32_put_other)
  qed
qed

lemma put_link_data:
  assumes "table_fits s" and "fat32_cluster_is_valid s c" and "data_start_lba s \<le> lba"
  shows "put_link s c v img lba = img lba"
  using assms fat_lba_unat(3) [OF assms(1,2)] by (fastforce simp: put_link_def word_le_nat_alt)

lemma put_link_length: "length (img lba) = 512 \<Longrightarrow> length (put_link s c v img lba) = 512"
  by (simp add: put_link_def)

lemma link_in_cong:
  assumes "table_fits s" and "fat32_cluster_is_valid s c" and "i < unat (fat_count s)"
    and "\<And>lba. lba < data_start_lba s \<Longrightarrow> img' lba = img lba"
  shows "link_in s img' i c = link_in s img i c"
proof -
  have "fat_lba s i c < data_start_lba s" using fat_lba_unat(3) [OF assms(1-3)] by (simp only: word_less_nat_alt)
  from assms(4) [OF this] show ?thesis by (simp add: link_in_def)
qed

lemma link_in_geometry:
  assumes "geometry s' = geometry s"
  shows "link_in s' = link_in s" "fat_lba s' = fat_lba s" "table_fits s' = table_fits s" "put_link s' = put_link s"
  by (simp_all add: link_in_def [abs_def] fat_lba_def [abs_def] put_link_def [abs_def] table_fits_def geometry_cong [OF assms] cong: if_cong)

context block_laws begin

text \<open>What an operation keeps: the device, the volume.\<close>

definition keeps :: "'d fat_state \<Rightarrow> 'd fat_state \<Rightarrow> bool" where
  "keeps s s' = (coherent rd wr contents s' \<and> geometry s' = geometry s)"

lemma next_cluster:
  assumes "coherent rd wr contents s" and "fat32_next_cluster c s = Some (r, s')"
  shows "keeps s s' \<and> contents (disk s') = contents (disk s) \<and> alloc_hint_cluster s' = alloc_hint_cluster s \<and>
    (\<forall>v. r = Some v \<longrightarrow> fat32_cluster_is_valid s c \<and> v = link_in s (contents (disk s)) 0 c \<and> \<not> bad_link s v)"
proof (cases "fat32_cluster_is_valid s c")
  case False
  with assms show ?thesis by (simp add: fat32_next_cluster_def err_def keeps_def)
next
  case True
  let ?lba = "fat_start_lba s + fat_sector_of s c"
  obtain q s1 where q: "fat32_read_sector_cached ?lba True s = Some (q, s1)"
    using assms(2) True by (auto simp: fat32_next_cluster_def chk_def split: option.splits)
  note f = read_cached [OF assms(1) q]
  note g = geometry_cong [of s1 s]
  show ?thesis
    using assms(2) True q f
    by (auto simp: fat32_next_cluster_def chk_def g err_def ok_def keeps_def link_in_def fat_lba_def Let_def split: option.splits if_splits)
qed

lemma set_copies:
  assumes "coherent rd wr contents s" and fits: "table_fits s" and c: "fat32_cluster_is_valid s c" and xs: "distinct xs" "set xs \<subseteq> {..<unat (fat_count s)}"
    and run: "for_each (\<lambda>i. chk (fat32_read_sector_cached (fat_lba s0 i c) True) (\<lambda>sec.
               fat32_write_sector_uncached (fat_lba s0 i c) (put_entry v off sec))) xs s = Some (Some u, s')"
    and s0: "geometry s = geometry s0"
  shows "keeps s s' \<and> alloc_hint_cluster s' = alloc_hint_cluster s \<and>
    contents (disk s') = (\<lambda>lba. if \<exists>i \<in> set xs. lba = fat_lba s0 i c then put_entry v off (contents (disk s) lba) else contents (disk s) lba)"
  using assms
proof (induction xs arbitrary: s)
  case Nil
  then show ?case by (simp add: ok_def keeps_def)
next
  case (Cons i xs)
  from chk_SomeD [OF Cons.prems(6) [unfolded for_each.simps]] obtain s2 where a: "chk (fat32_read_sector_cached (fat_lba s0 i c) True) (\<lambda>sec.
      fat32_write_sector_uncached (fat_lba s0 i c) (put_entry v off sec)) s = Some (Some (), s2)"
    and b: "for_each (\<lambda>i. chk (fat32_read_sector_cached (fat_lba s0 i c) True) (\<lambda>sec.
               fat32_write_sector_uncached (fat_lba s0 i c) (put_entry v off sec))) xs s2 = Some (Some u, s')"
    by auto
  from chk_SomeD [OF a] obtain sec s1 where r: "fat32_read_sector_cached (fat_lba s0 i c) True s = Some (Some sec, s1)"
    and w: "fat32_write_sector_uncached (fat_lba s0 i c) (put_entry v off sec) s1 = Some (Some (), s2)" by auto
  note rc = read_cached [OF Cons.prems(1) r]
  have sec: "sec = contents (disk s) (fat_lba s0 i c)" using rc by auto
  have co1: "coherent rd wr contents s1" using rc by auto
  have wc: "coherent rd wr contents s2 \<and> geometry s2 = geometry s1 \<and> contents (disk s2) = (contents (disk s1))(fat_lba s0 i c := put_entry v off sec)
      \<and> alloc_hint_cluster s2 = alloc_hint_cluster s1"
    by (rule write_uncached [OF co1 _ w]) (simp add: sec contents_length)
  have g: "geometry s2 = geometry s" using rc wc by simp
  have IH: "keeps s2 s' \<and> alloc_hint_cluster s' = alloc_hint_cluster s2 \<and>
    contents (disk s') = (\<lambda>lba. if \<exists>i \<in> set xs. lba = fat_lba s0 i c then put_entry v off (contents (disk s2) lba) else contents (disk s2) lba)"
  proof (rule Cons.IH)
    show "table_fits s2" using Cons.prems(2) link_in_geometry [OF g] by simp
  qed (use wc Cons.prems g b geometry_cong [OF g] in auto)
  have new: "\<not> (\<exists>j \<in> set xs. fat_lba s0 i c = fat_lba s0 j c)"
  proof
    assume "\<exists>j \<in> set xs. fat_lba s0 i c = fat_lba s0 j c"
    then obtain j where j: "j \<in> set xs" "fat_lba s i c = fat_lba s j c" using link_in_geometry [OF Cons.prems(7)] by auto
    have "i < unat (fat_count s)" "j < unat (fat_count s)" "i \<noteq> j" using Cons.prems(4,5) j(1) by auto
    with fat_lba_inj(1) [OF Cons.prems(2,3,3) _ _ j(2)] show False by simp
  qed
  have c2: "contents (disk s2) = (contents (disk s))(fat_lba s0 i c := put_entry v off (contents (disk s) (fat_lba s0 i c)))"
    using wc conjunct1 [OF conjunct2 [OF conjunct2 [OF rc]]] by (simp add: sec)
  have "contents (disk s') = (\<lambda>lba. if \<exists>i \<in> set (i # xs). lba = fat_lba s0 i c then put_entry v off (contents (disk s) lba)
      else contents (disk s) lba)"
  proof (rule ext)
    fix lba
    have "contents (disk s') lba = (if \<exists>i \<in> set xs. lba = fat_lba s0 i c then put_entry v off (contents (disk s2) lba) else contents (disk s2) lba)"
      using IH by (simp only:)
    also have "\<dots> = (if \<exists>i \<in> set (i # xs). lba = fat_lba s0 i c then put_entry v off (contents (disk s) lba) else contents (disk s) lba)"
      unfolding c2 using new by (cases "lba = fat_lba s0 i c") simp_all
    finally show "contents (disk s') lba = (if \<exists>i \<in> set (i # xs). lba = fat_lba s0 i c then put_entry v off (contents (disk s) lba) else contents (disk s) lba)" .
  qed
  moreover have "keeps s s'" "alloc_hint_cluster s' = alloc_hint_cluster s" using IH g wc rc by (simp_all add: keeps_def)
  ultimately show ?case by blast
qed

lemma set_cluster_value:
  assumes "coherent rd wr contents s" and fits: "table_fits s" and run: "fat32_set_cluster_value c v s = Some (Some u, s')"
  shows "fat32_cluster_is_valid s c \<and> keeps s s' \<and> alloc_hint_cluster s' = alloc_hint_cluster s \<and>
    contents (disk s') = put_link s c v (contents (disk s))"
proof -
  from run have c: "fat32_cluster_is_valid s c" by (auto simp: fat32_set_cluster_value_def err_def split: if_splits)
  let ?off = "unat (ent_off_of s c)"
  have "for_each (\<lambda>i. chk (fat32_read_sector_cached (fat_lba s i c) True) (\<lambda>sec.
               fat32_write_sector_uncached (fat_lba s i c) (put_entry v ?off sec))) [0..<unat (fat_count s)] s = Some (Some u, s')"
    using run c by (simp add: fat32_set_cluster_value_def err_def fat_lba_def Let_def split: if_splits)
  from set_copies [OF assms(1,2) c _ _ this] c show ?thesis by (simp add: put_link_def [abs_def] atLeast0LessThan Bex_def cong: if_cong)
qed

end

end
