(* ===== verification/Ata_Laws.thy ===== *)
theory Ata_Laws
  imports Blockdev
begin

section \<open>The controller of a channel\<close>

text \<open>The register file of the ATA protocol, as far as the driver uses it: the address and count registers, the
  words a READ still has to deliver, the words a WRITE has received so far and where they go, and the media of
  the two drives, sectors of 256 words.\<close>

record ctl =
  c_sel :: u8
  c_count :: u8
  c_lba0 :: u8
  c_lba1 :: u8
  c_lba2 :: u8
  c_in :: "u16 list"
  c_out :: "u16 list"
  c_target :: "(bool \<times> u32) option"
  c_media :: "bool \<Rightarrow> u32 \<Rightarrow> u16 list"

definition c_slave :: "ctl \<Rightarrow> bool" where "c_slave c = (c_sel c AND 0x10 \<noteq> 0)"

definition c_lba :: "ctl \<Rightarrow> u32" where
  "c_lba c = ucast (c_lba0 c) OR push_bit 8 (ucast (c_lba1 c)) OR push_bit 16 (ucast (c_lba2 c)) OR push_bit 24 (ucast (c_sel c AND 0x0F))"

definition ctl_out8 :: "u16 \<Rightarrow> u8 \<Rightarrow> ctl \<Rightarrow> ctl" where
  "ctl_out8 reg v c =
     (if reg = ATA_REG_SECCOUNT0 then c\<lparr>c_count := v\<rparr>
      else if reg = ATA_REG_LBA0 then c\<lparr>c_lba0 := v\<rparr>
      else if reg = ATA_REG_LBA1 then c\<lparr>c_lba1 := v\<rparr>
      else if reg = ATA_REG_LBA2 then c\<lparr>c_lba2 := v\<rparr>
      else if reg = ATA_REG_HDDEVSEL then c\<lparr>c_sel := v\<rparr>
      else if reg = ATA_REG_COMMAND \<and> v = ATA_CMD_READ_PIO then
        c\<lparr>c_in := concat (map (\<lambda>k. c_media c (c_slave c) (c_lba c + of_nat k)) [0..<unat (c_count c)]), c_out := [], c_target := None\<rparr>
      else if reg = ATA_REG_COMMAND \<and> v = ATA_CMD_WRITE_PIO then
        c\<lparr>c_in := [], c_out := [], c_target := Some (c_slave c, c_lba c)\<rparr>
      else c)"

definition ctl_out16 :: "u16 \<Rightarrow> ctl \<Rightarrow> ctl" where
  "ctl_out16 w c =
     (case c_target c of
        None \<Rightarrow> c
      | Some (sl, lba) \<Rightarrow>
          if length (c_out c) = 255
          then c\<lparr>c_media := (c_media c)(sl := (c_media c sl)(lba := c_out c @ [w])), c_out := [], c_target := Some (sl, lba + 1)\<rparr>
          else c\<lparr>c_out := c_out c @ [w]\<rparr>)"

definition channel_base :: "bool \<Rightarrow> u16" where "channel_base b = (if b then 0x170 else 0x1F0)"

text \<open>Ports whose two controllers (the secondary is True) follow the protocol. Words move only while the status
  register has said that the controller is ready for the data of a block.\<close>

locale ata_hw =
  fixes io :: "'h ports" and chan :: "'h \<Rightarrow> bool \<Rightarrow> ctl" and ready :: "'h \<Rightarrow> bool \<Rightarrow> bool"
  assumes status_keeps: "p \<in> {0x1F7, 0x177, 0x3F6, 0x376} \<Longrightarrow> chan (snd (arch_inb io p h)) = chan h"
    and status_ready: "arch_inb io (channel_base b + ATA_REG_STATUS) h = (v, h') \<Longrightarrow> v AND ATA_SR_ERR = 0 \<Longrightarrow> v AND ATA_SR_DF = 0 \<Longrightarrow>
      v AND ATA_SR_BSY = 0 \<Longrightarrow> v AND ATA_SR_DRQ \<noteq> 0 \<Longrightarrow> ready h' b"
    and outb_register: "reg \<in> {2..7} \<Longrightarrow> chan (arch_outb io (channel_base b + reg) v h) = (chan h)(b := ctl_out8 reg v (chan h b))"
    and inw_word: "ready h b \<Longrightarrow> c_in (chan h b) = x # xs \<Longrightarrow> arch_inw io (channel_base b) h = (w, h') \<Longrightarrow>
      w = x \<and> chan h' = (chan h)(b := (chan h b)\<lparr>c_in := xs\<rparr>) \<and> (length xs mod 256 \<noteq> 0 \<longrightarrow> ready h' b)"
    and outw_word: "ready h b \<Longrightarrow> chan (arch_outw io (channel_base b) w h) = (chan h)(b := ctl_out16 w (chan h b)) \<and>
      (c_out (ctl_out16 w (chan h b)) \<noteq> [] \<longrightarrow> ready (arch_outw io (channel_base b) w h) b)"
    and media_length: "length (c_media (chan h b) sl lba) = 256"

definition word_bytes :: "u16 \<Rightarrow> u8 list" where
  "word_bytes w = [ucast (w AND 0xFF), ucast (drop_bit 8 w AND 0xFF)]"

fun bytes_words :: "u8 list \<Rightarrow> u16 list" where
  "bytes_words (b0 # b1 # bs) = (ucast b0 OR push_bit 8 (ucast b1)) # bytes_words bs"
| "bytes_words _ = []"

lemma low_masks: "(0xFF :: 'a::len word) = mask 8" "(0x0F :: 'a::len word) = mask 4"
  by (simp_all add: mask_eq_exp_minus_1)

lemma word_bytes_of_pair: "word_bytes (ucast b0 OR push_bit 8 (ucast b1)) = [b0, b1]"
proof -
  have "\<not> bit b0 (8 + n)" for n using bit_imp_le_length [of b0 "8 + n"] by auto
  then show ?thesis unfolding word_bytes_def by (auto intro!: bit_word_eqI simp: low_masks bit_simps)
qed

lemma bytes_of_words:
  "even (length bs) \<Longrightarrow> concat (map word_bytes (bytes_words bs)) = bs"
  by (induction bs rule: bytes_words.induct) (auto simp: word_bytes_of_pair simp del: One_nat_def)

lemma length_bytes_words [simp]: "length (bytes_words bs) = length bs div 2"
  by (induction bs rule: bytes_words.induct) auto

lemma length_concat_word_bytes [simp]: "length (concat (map word_bytes ws)) = 2 * length ws"
  by (induction ws) (auto simp: word_bytes_def)

text \<open>The sectors of drive \<open>i\<close>.\<close>

definition drive_contents :: "('h \<Rightarrow> bool \<Rightarrow> ctl) \<Rightarrow> int \<Rightarrow> 'h ata_state \<Rightarrow> u32 \<Rightarrow> sector" where
  "drive_contents chan i s lba = concat (map word_bytes (c_media (chan (snd s) (i \<ge> 2)) (odd i) lba))"

lemma base_of_drive: "ata_io_base_for_drive i = channel_base (i \<ge> 2)"
  by (auto simp: ata_io_base_for_drive_def channel_base_def)

context ata_hw begin

lemma status_drive_keeps: "chan (snd (ata_status_drive io i h)) = chan h"
  using status_keeps [of "0x1F7" h] status_keeps [of "0x177" h]
  by (auto simp: ata_status_drive_def ata_io_base_for_drive_def)

lemma delay_keeps: "chan (ata_400ns_delay_drive io i h) = chan h"
proof -
  have "chan (snd (ata_altstatus_drive io i h)) = chan h" for h
    using status_keeps [of "0x3F6" h] status_keeps [of "0x376" h]
    by (auto simp: ata_altstatus_drive_def ata_ctrl_base_for_drive_def)
  then show ?thesis by (simp add: ata_400ns_delay_drive_def)
qed

lemma wait_bsy_keeps: "chan (snd (ata_wait_not_bsy_drive io i n h)) = chan h"
proof (induction n arbitrary: h)
  case (Suc n)
  then show ?case using status_drive_keeps [of i h] by (simp split: prod.split) (metis snd_conv)
qed simp

lemma wait_drq:
  "chan (snd (ata_wait_drq_or_err_drive io i n h)) = chan h \<and>
   (fst (ata_wait_drq_or_err_drive io i n h) \<longrightarrow> ready (snd (ata_wait_drq_or_err_drive io i n h)) (i \<ge> 2))"
proof (induction n arbitrary: h)
  case (Suc n)
  obtain st h1 where s: "ata_status_drive io i h = (st, h1)" by (cases "ata_status_drive io i h")
  then have "chan h1 = chan h" using status_drive_keeps [of i h] by simp
  moreover have "arch_inb io (channel_base (i \<ge> 2) + ATA_REG_STATUS) h = (st, h1)"
    using s by (simp add: ata_status_drive_def base_of_drive)
  note status_ready [OF this]
  ultimately show ?case using Suc.IH [of h1] s by auto
qed simp

definition with_registers :: "int \<Rightarrow> u8 \<Rightarrow> u32 \<Rightarrow> ctl \<Rightarrow> ctl" where
  "with_registers i count lba c =
     c\<lparr>c_sel := (if odd i then 0xF0 else 0xE0) OR ucast (drop_bit 24 lba AND 0x0F), c_count := count,
       c_lba0 := ucast (lba AND 0xFF), c_lba1 := ucast (drop_bit 8 lba AND 0xFF), c_lba2 := ucast (drop_bit 16 lba AND 0xFF)\<rparr>"

lemma command_registers:
  "chan (ata_command io i count lba cmd h) =
     (chan h)(i \<ge> 2 := ctl_out8 ATA_REG_COMMAND cmd (with_registers i count lba (chan h (i \<ge> 2))))"
  unfolding ata_command_def ata_select_def Let_def base_of_drive
  by (simp add: outb_register delay_keeps ctl_out8_def with_registers_def ata_is_slave_drive_def fun_upd_same)

lemma registers_slave: "c_slave (with_registers i count lba c) = odd i"
proof -
  have "((if odd i then 0xF0 else 0xE0) OR ucast (drop_bit 24 lba AND 0x0F) :: u8) AND 0x10 = (if odd i then 0x10 else 0)"
  proof (rule bit_word_eqI)
    fix n assume "n < LENGTH(8)"
    then have "n = 0 \<or> n = 1 \<or> n = 2 \<or> n = 3 \<or> n = 4 \<or> n = 5 \<or> n = 6 \<or> n = 7" by auto
    then show "bit (((if odd i then 0xF0 else 0xE0) OR ucast (drop_bit 24 lba AND 0x0F) :: u8) AND 0x10) n = bit (if odd i then 0x10 else 0 :: u8) n"
      by (elim disjE) (simp_all add: bit_simps)
  qed
  then show ?thesis by (simp add: c_slave_def with_registers_def)
qed

lemma registers_lba:
  assumes "lba \<le> 0x0FFFFFFF"
  shows "c_lba (with_registers i count lba c) = lba"
proof -
  have high: "\<not> bit lba n" if "28 \<le> n" for n
  proof -
    have "unat lba < 2 ^ 28" using assms by (simp add: word_le_nat_alt)
    then have "unat lba = take_bit 28 (unat lba)" by (simp add: take_bit_nat_eq_self)
    then have "bit (unat lba) n = (n < 28 \<and> bit (unat lba) n)" by (metis bit_take_bit_iff)
    with that show ?thesis by (simp add: bit_unsigned_iff)
  qed
  have sel: "((if odd i then 0xF0 else 0xE0) OR x) AND 0x0F = x AND (0x0F :: u8)" for x :: u8
  proof (rule bit_word_eqI)
    fix n assume "n < LENGTH(8)"
    then have "n = 0 \<or> n = 1 \<or> n = 2 \<or> n = 3 \<or> n = 4 \<or> n = 5 \<or> n = 6 \<or> n = 7" by auto
    then show "bit (((if odd i then 0xF0 else 0xE0) OR x) AND 0x0F) n = bit (x AND (0x0F :: u8)) n"
      by (elim disjE) (simp_all add: bit_simps)
  qed
  have "c_lba (with_registers i count lba c) = ucast (ucast (lba AND 0xFF) :: u8) OR push_bit 8 (ucast (ucast (drop_bit 8 lba AND 0xFF) :: u8)) OR
      push_bit 16 (ucast (ucast (drop_bit 16 lba AND 0xFF) :: u8)) OR push_bit 24 (ucast (ucast (drop_bit 24 lba AND 0x0F) AND (0x0F :: u8)))"
    by (simp add: c_lba_def with_registers_def sel [simplified])
  also have "\<dots> = lba"
  proof (rule bit_word_eqI, goal_cases)
    case (1 n)
    then consider "n < 8" | "8 \<le> n" "n < 16" | "16 \<le> n" "n < 24" | "24 \<le> n" "n < 28" | "28 \<le> n" by linarith
    then show ?case by cases (use 1 high in \<open>auto simp: low_masks bit_simps\<close>)
  qed
  finally show ?thesis .
qed

section \<open>Words of a sector\<close>

lemma read_words_sector:
  assumes "ready h b" and "c_in (chan h b) = ws @ rest" and "rest = []" and "length ws \<le> 256"
    and "read_words io (channel_base b) (length ws) h = (bs, h')"
  shows "bs = concat (map word_bytes ws) \<and> chan h' = (chan h)(b := (chan h b)\<lparr>c_in := rest\<rparr>)"
  using assms
proof (induction ws arbitrary: h bs h')
  case Nil
  then show ?case by (auto intro!: ext)
next
  case (Cons w ws)
  obtain w' h1 where r: "arch_inw io (channel_base b) h = (w', h1)" by (cases "arch_inw io (channel_base b) h")
  have "c_in (chan h b) = w # ws" using Cons.prems by simp
  from inw_word [OF Cons.prems(1) this r] have f: "w' = w" "chan h1 = (chan h)(b := (chan h b)\<lparr>c_in := ws\<rparr>)"
    "length ws mod 256 \<noteq> 0 \<Longrightarrow> ready h1 b" by auto
  obtain bs1 h2 where r2: "read_words io (channel_base b) (length ws) h1 = (bs1, h2)" by (cases "read_words io (channel_base b) (length ws) h1")
  have e: "bs = word_bytes w @ bs1" "h' = h2" using Cons.prems(5) r r2 f(1) by (auto simp: word_bytes_def)
  show ?case
  proof (cases "ws = []")
    case True
    with e f r2 Cons.prems(3) show ?thesis by auto
  next
    case False
    then have "length ws mod 256 \<noteq> 0" using Cons.prems(4) by simp
    from Cons.IH [OF f(3) [OF this] _ Cons.prems(3) _ r2] f(2) Cons.prems(3,4) e show ?thesis by (auto simp: fun_eq_iff)
  qed
qed

lemma write_words_sector:
  assumes "ready h b" and "c_target (chan h b) = Some (sl, lba)" and "length (c_out (chan h b)) + length (bytes_words bs) = 256"
    and "length (c_out (chan h b)) < 256"
  shows "\<exists>c. chan (write_words io (channel_base b) bs h) = (chan h)(b := c) \<and>
    c_media c = (c_media (chan h b))(sl := (c_media (chan h b) sl)(lba := c_out (chan h b) @ bytes_words bs))"
  using assms
proof (induction bs arbitrary: h rule: bytes_words.induct)
  case (1 b0 b1 bs)
  let ?w = "ucast b0 OR push_bit 8 (ucast b1) :: u16"
  let ?h = "arch_outw io (channel_base b) ?w h"
  note f = outw_word [OF "1.prems"(1), of ?w]
  show ?case
  proof (cases "bytes_words bs = []")
    case True
    then have bs: "bs = [] \<or> (\<exists>v. bs = [v])" by (cases bs rule: bytes_words.cases) auto
    have "length (c_out (chan h b)) = 255" using "1.prems"(3) True by simp
    then have "ctl_out16 ?w (chan h b) = (chan h b)\<lparr>c_media := (c_media (chan h b))(sl := (c_media (chan h b) sl)(lba := c_out (chan h b) @ [?w])),
        c_out := [], c_target := Some (sl, lba + 1)\<rparr>" using "1.prems"(2) by (simp add: ctl_out16_def)
    moreover have "write_words io (channel_base b) (b0 # b1 # bs) h = ?h" using bs by auto
    ultimately show ?thesis using f True by (intro exI [of _ "ctl_out16 ?w (chan h b)"]) (simp add: fun_eq_iff)
  next
    case False
    then have n: "length (c_out (chan h b)) \<noteq> 255" "length (c_out (chan h b)) + 1 < 256"
      using "1.prems"(3,4) by (auto simp del: length_bytes_words simp flip: length_greater_0_conv)
    then have c: "ctl_out16 ?w (chan h b) = (chan h b)\<lparr>c_out := c_out (chan h b) @ [?w]\<rparr>" using "1.prems"(2) by (simp add: ctl_out16_def)
    then have rdy: "ready ?h b" using f by simp
    have ch: "chan ?h = (chan h)(b := (chan h b)\<lparr>c_out := c_out (chan h b) @ [?w]\<rparr>)" using f c by simp
    have "c_target (chan ?h b) = Some (sl, lba)" "length (c_out (chan ?h b)) + length (bytes_words bs) = 256" "length (c_out (chan ?h b)) < 256"
      using ch n "1.prems"(2,3) by simp_all
    from "1.IH" [OF rdy this] obtain k where k: "chan (write_words io (channel_base b) bs ?h) = (chan ?h)(b := k)"
      "c_media k = (c_media (chan ?h b))(sl := (c_media (chan ?h b) sl)(lba := c_out (chan ?h b) @ bytes_words bs))" by blast
    then show ?thesis unfolding ch by (intro exI [of _ k]) (simp add: fun_eq_iff)
  qed
qed auto

section \<open>The law of block devices\<close>

lemma chan_upd_eq: "chan h' = (chan h)(b := k) \<Longrightarrow> chan h' b = k"
  by simp

text \<open>A single sector read: the words of the sector, and no media changed.\<close>

lemma read_sector:
  assumes "ata_read_sector28_drive io a i lba h = (r, h')"
  shows "drive_contents chan i (a', h') = drive_contents chan i (a', h) \<and> (\<forall>bs. r = Some bs \<longrightarrow> bs = drive_contents chan i (a, h) lba)"
proof (cases "drive_ready a i \<and> \<not> lba > 0x0FFFFFFF")
  case False
  with assms show ?thesis by (auto simp: ata_read_sector28_drive_def split: if_splits)
next
  case True
  let ?b = "i \<ge> 2"
  obtain ok1 h1 where w1: "ata_wait_not_bsy_drive io i spin_limit h = (ok1, h1)" by (cases "ata_wait_not_bsy_drive io i spin_limit h")
  have c1: "chan h1 = chan h" using wait_bsy_keeps [of i spin_limit h] w1 by simp
  let ?h2 = "ata_command io i 1 lba ATA_CMD_READ_PIO h1"
  obtain ok2 h3 where w2: "ata_wait_drq_or_err_drive io i spin_limit ?h2 = (ok2, h3)" by (cases "ata_wait_drq_or_err_drive io i spin_limit ?h2")
  have c3: "chan h3 = chan ?h2" "ok2 \<Longrightarrow> ready h3 ?b" using wait_drq [of i spin_limit ?h2] w2 by auto
  let ?ws = "c_media (chan h ?b) (odd i) lba"
  have lba: "lba \<le> 0x0FFFFFFF" using True by (simp add: not_less)
  have cmd: "chan ?h2 = (chan h)(?b := ctl_out8 ATA_REG_COMMAND ATA_CMD_READ_PIO (with_registers i 1 lba (chan h ?b)))"
    by (simp add: command_registers c1)
  let ?c = "ctl_out8 ATA_REG_COMMAND ATA_CMD_READ_PIO (with_registers i 1 lba (chan h ?b))"
  have c: "c_in ?c = ?ws" "c_media ?c = c_media (chan h ?b)"
    using registers_lba [OF lba, of i 1 "chan h ?b"] registers_slave [of i 1 lba "chan h ?b"]
    by (simp_all add: ctl_out8_def) (simp_all add: with_registers_def)
  obtain bs h4 where rw: "read_words io (channel_base ?b) 256 h3 = (bs, h4)" by (cases "read_words io (channel_base ?b) 256 h3")
  have run: "ata_read_sector28_drive io a i lba h =
      (if \<not> ok1 then (None, h1) else if \<not> ok2 then (None, h3) else (Some bs, ata_400ns_delay_drive io i h4))"
    using True rw by (simp add: ata_read_sector28_drive_def after_wait_def w1 w2 base_of_drive)
  have kept: "drive_contents chan i (a', h3) = drive_contents chan i (a', h)"
    by (rule ext) (simp add: drive_contents_def c3 cmd c)
  show ?thesis
  proof (cases "ok1 \<and> ok2")
    case False
    with run assms kept c1 show ?thesis by (auto simp: drive_contents_def fun_eq_iff split: if_splits)
  next
    case okay: True
    have "c_in (chan h3 ?b) = ?ws @ []" using c c3(1) cmd by simp
    from read_words_sector [OF c3(2) this] rw okay media_length
    have f: "bs = concat (map word_bytes ?ws)" "chan h4 = (chan h3)(?b := (chan h3 ?b)\<lparr>c_in := []\<rparr>)" by auto
    have "drive_contents chan i (a', ata_400ns_delay_drive io i h4) = drive_contents chan i (a', h3)"
      by (rule ext) (simp add: drive_contents_def delay_keeps f(2))
    with run assms okay kept f(1) show ?thesis by (auto simp: drive_contents_def)
  qed
qed

lemma write_sector:
  assumes "ata_write_sector28_drive io a i lba sec h = (Some u, h')" and "length sec = 512"
  shows "\<exists>k. chan h' = (chan h)(i \<ge> 2 := k) \<and>
    c_media k = (c_media (chan h (i \<ge> 2)))(odd i := (c_media (chan h (i \<ge> 2)) (odd i))(lba := bytes_words sec))"
proof -
  let ?b = "i \<ge> 2"
  have pre: "drive_ready a i" "\<not> lba > 0x0FFFFFFF" using assms(1) by (auto simp: ata_write_sector28_drive_def split: if_splits)
  obtain ok1 h1 where w1: "ata_wait_not_bsy_drive io i spin_limit h = (ok1, h1)" by (cases "ata_wait_not_bsy_drive io i spin_limit h")
  have c1: "chan h1 = chan h" using wait_bsy_keeps [of i spin_limit h] w1 by simp
  let ?h2 = "ata_command io i 1 lba ATA_CMD_WRITE_PIO h1"
  obtain ok2 h3 where w2: "ata_wait_drq_or_err_drive io i spin_limit ?h2 = (ok2, h3)" by (cases "ata_wait_drq_or_err_drive io i spin_limit ?h2")
  have c3: "chan h3 = chan ?h2" "ok2 \<Longrightarrow> ready h3 ?b" using wait_drq [of i spin_limit ?h2] w2 by auto
  have lba: "lba \<le> 0x0FFFFFFF" using pre by (simp add: not_less)
  let ?c = "ctl_out8 ATA_REG_COMMAND ATA_CMD_WRITE_PIO (with_registers i 1 lba (chan h ?b))"
  have cmd: "chan h3 = (chan h)(?b := ?c)" by (simp add: command_registers c1 c3)
  have c: "c_out ?c = []" "c_target ?c = Some (odd i, lba)" "c_media ?c = c_media (chan h ?b)"
    using registers_lba [OF lba, of i 1 "chan h ?b"] registers_slave [of i 1 lba "chan h ?b"]
    by (simp_all add: ctl_out8_def) (simp_all add: with_registers_def)
  let ?h4 = "write_words io (channel_base ?b) sec h3"
  let ?h5 = "arch_outb io (channel_base ?b + ATA_REG_COMMAND) ATA_CMD_CACHE_FLUSH ?h4"
  obtain ok3 h6 where w3: "ata_wait_not_bsy_drive io i spin_limit ?h5 = (ok3, h6)" by (cases "ata_wait_not_bsy_drive io i spin_limit ?h5")
  have run: "ok1" "ok2" "ok3" "h' = h6"
    using assms pre w1 w2 w3 by (auto simp: ata_write_sector28_drive_def after_wait_def base_of_drive Let_def split: if_splits)
  have c6: "chan h6 = chan ?h5" using wait_bsy_keeps [of i spin_limit ?h5] w3 by simp
  have c5: "chan ?h5 = chan ?h4" by (simp add: outb_register ctl_out8_def)
  have "ready h3 ?b" "c_target (chan h3 ?b) = Some (odd i, lba)" "length (c_out (chan h3 ?b)) + length (bytes_words sec) = 256" "length (c_out (chan h3 ?b)) < 256"
    using c3(2) run(2) cmd c assms(2) by simp_all
  from write_words_sector [OF this] obtain k where k: "chan ?h4 = (chan h3)(?b := k)"
    "c_media k = (c_media (chan h3 ?b))(odd i := (c_media (chan h3 ?b) (odd i))(lba := c_out (chan h3 ?b) @ bytes_words sec))" by blast
  have "chan h' = (chan h)(?b := k)" using k(1) c6 c5 cmd run(4) by (simp add: fun_eq_iff)
  moreover have "c_media k = (c_media (chan h ?b))(odd i := (c_media (chan h ?b) (odd i))(lba := bytes_words sec))"
    using k(2) cmd c by simp
  ultimately show ?thesis by blast
qed

lemma ata_write_valid: "ata_write_sector28_drive io a i lba sec h = (Some u, h') \<Longrightarrow> 0 \<le> i \<and> i < 4"
  by (auto simp: ata_write_sector28_drive_def drive_ready_def split: if_splits)

lemma write_contents:
  assumes "ata_write_sector28_drive io a i lba sec h = (Some u, h')" and "length sec = 512" and "0 \<le> i" "i < 4" and "0 \<le> j" "j < 4"
  shows "drive_contents chan j (a', h') = (if j = i then (drive_contents chan i (a', h))(lba := sec) else drive_contents chan j (a', h))"
proof -
  from write_sector [OF assms(1,2)] obtain k where k: "chan h' = (chan h)(i \<ge> 2 := k)"
    "c_media k = (c_media (chan h (i \<ge> 2)))(odd i := (c_media (chan h (i \<ge> 2)) (odd i))(lba := bytes_words sec))" by blast
  have "concat (map word_bytes (bytes_words sec)) = sec" using bytes_of_words [of sec] assms(2) by simp
  moreover have "j = i \<or> (2 \<le> j) \<noteq> (2 \<le> i) \<or> odd j \<noteq> odd i"
  proof -
    have "i = 0 \<or> i = 1 \<or> i = 2 \<or> i = 3" "j = 0 \<or> j = 1 \<or> j = 2 \<or> j = 3" using assms(3-6) by auto
    then show ?thesis by auto
  qed
  ultimately show ?thesis using k by (auto simp: drive_contents_def fun_eq_iff)
qed

end

sublocale ata_hw \<subseteq> ata_block: block_laws "drive_read io i" "drive_write io i" "drive_contents chan i" for i
proof
  fix lba sec d d' r
  show "drive_read io i lba d = (Some sec, d') \<Longrightarrow> sec = drive_contents chan i d lba"
    using read_sector by (fastforce simp: drive_read_def split: prod.splits)
  show "drive_read io i lba d = (r, d') \<Longrightarrow> drive_contents chan i d' = drive_contents chan i d"
    using read_sector by (fastforce simp: drive_read_def split: prod.splits)
  show "length (drive_contents chan i d lba) = 512"
    by (simp add: drive_contents_def media_length)
  show "drive_write io i lba sec d = (True, d') \<Longrightarrow> length sec = 512 \<Longrightarrow> drive_contents chan i d' = (drive_contents chan i d)(lba := sec)"
    using ata_write_valid write_contents [of _ i lba sec _ _ _ i] by (fastforce simp: drive_write_def split: prod.splits)
qed

section \<open>A controller that is always ready\<close>

definition full_media :: "ctl \<Rightarrow> ctl" where
  "full_media c = c\<lparr>c_media := \<lambda>sl lba. take 256 (c_media c sl lba @ replicate 256 0)\<rparr>"

definition port_channel :: "u16 \<Rightarrow> (bool \<times> u16) option" where
  "port_channel p = (if 0x1F0 \<le> p \<and> p \<le> 0x1F7 then Some (False, p - 0x1F0) else if 0x170 \<le> p \<and> p \<le> 0x177 then Some (True, p - 0x170) else None)"

definition pio :: "(bool \<Rightarrow> ctl) ports" where
  "pio = \<lparr>arch_inb = (\<lambda>p h. (0x48, h)),
     arch_outb = (\<lambda>p v h. case port_channel p of None \<Rightarrow> h | Some (b, reg) \<Rightarrow> h(b := ctl_out8 reg v (full_media (h b)))),
     arch_inw = (\<lambda>p h. case port_channel p of None \<Rightarrow> (0, h) | Some (b, reg) \<Rightarrow>
       (case c_in (h b) of [] \<Rightarrow> (0, h) | w # ws \<Rightarrow> (w, h(b := (h b)\<lparr>c_in := ws\<rparr>)))),
     arch_outw = (\<lambda>p w h. case port_channel p of None \<Rightarrow> h | Some (b, reg) \<Rightarrow> h(b := ctl_out16 w (full_media (h b))))\<rparr>"

lemma full_media_length: "length (c_media (full_media c) sl lba) = 256"
  by (simp add: full_media_def)

lemma full_media_same:
  assumes "\<And>sl lba. length (c_media c sl lba) = 256"
  shows "full_media c = c"
  using assms by (simp add: full_media_def)

lemma full_media_out8: "full_media (ctl_out8 reg v (full_media c)) = ctl_out8 reg v (full_media c)"
proof (rule full_media_same)
  have "c_media (ctl_out8 reg v c') = c_media c'" for c' by (simp add: ctl_out8_def)
  then show "length (c_media (ctl_out8 reg v (full_media c)) sl lba) = 256" for sl lba by (simp add: full_media_length)
qed

lemma full_media_out16: "full_media (ctl_out16 w (full_media c)) = ctl_out16 w (full_media c)"
proof (rule full_media_same)
  show "length (c_media (ctl_out16 w (full_media c)) sl lba) = 256" for sl lba
    using full_media_length [of c] by (auto simp: ctl_out16_def split: option.split)
qed

lemma full_media_in: "full_media (c\<lparr>c_in := ws\<rparr>) = (full_media c)\<lparr>c_in := ws\<rparr>" "c_in (full_media c) = c_in c"
  by (simp_all add: full_media_def)

lemma port_channel_base:
  assumes "reg \<le> 7"
  shows "port_channel (channel_base b + reg) = Some (b, reg)"
proof -
  have "unat reg \<le> 7" using assms by (simp add: word_le_nat_alt)
  then have "unat reg = 0 \<or> unat reg = 1 \<or> unat reg = 2 \<or> unat reg = 3 \<or> unat reg = 4 \<or> unat reg = 5 \<or> unat reg = 6 \<or> unat reg = 7" by arith
  then have "reg = 0 \<or> reg = 1 \<or> reg = 2 \<or> reg = 3 \<or> reg = 4 \<or> reg = 5 \<or> reg = 6 \<or> reg = 7" by (simp add: word_unat_eq_iff)
  then show ?thesis by (cases b) (auto simp: channel_base_def port_channel_def)
qed

interpretation pio: ata_hw pio "\<lambda>h b. full_media (h b)" "\<lambda>_ _. True"
proof
  fix reg b v h
  assume "reg \<in> {2..7 :: u16}"
  then have "port_channel (channel_base b + reg) = Some (b, reg)" using port_channel_base [of reg b] by simp
  then show "(\<lambda>ba. full_media (arch_outb pio (channel_base b + reg) v h ba)) = (\<lambda>b. full_media (h b))(b := ctl_out8 reg v (full_media (h b)))"
    by (auto simp: pio_def full_media_out8 fun_eq_iff)
next
  fix h b x xs w and h' :: "bool \<Rightarrow> ctl"
  assume "c_in (full_media (h b)) = x # xs" "arch_inw pio (channel_base b) h = (w, h')"
  then show "w = x \<and> (\<lambda>b. full_media (h' b)) = (\<lambda>b. full_media (h b))(b := full_media (h b)\<lparr>c_in := xs\<rparr>) \<and> (length xs mod 256 \<noteq> 0 \<longrightarrow> True)"
    using port_channel_base [of 0 b] by (auto simp: pio_def full_media_in)
next
  fix h b w
  show "(\<lambda>ba. full_media (arch_outw pio (channel_base b) w h ba)) = (\<lambda>b. full_media (h b))(b := ctl_out16 w (full_media (h b))) \<and>
      (c_out (ctl_out16 w (full_media (h b))) \<noteq> [] \<longrightarrow> True)"
    using port_channel_base [of 0 b] by (auto simp: pio_def full_media_out16 fun_eq_iff)
next
qed (auto simp: pio_def full_media_length)

section \<open>Writing and reading\<close>


lemma pio_waits:
  "ata_wait_not_bsy_drive pio i spin_limit h = (True, h)" "ata_wait_drq_or_err_drive pio i spin_limit h = (True, h)"
proof -
  obtain n where n: "spin_limit = Suc n" using spin_limit_def by (cases spin_limit) simp_all
  have "ata_status_drive pio i h = (0x48, h)" by (simp add: ata_status_drive_def pio_def)
  then show "ata_wait_not_bsy_drive pio i spin_limit h = (True, h)" "ata_wait_drq_or_err_drive pio i spin_limit h = (True, h)"
    by (simp_all add: n)
qed


end
