(* ===== verification/Fs.thy ===== *)
theory Fs
  imports Prelude
begin

text \<open>
  The RAM file system, \<open>src/kernel/fs.c\<close>: a fixed array of 256 nodes, each a directory or a file,
  linked into a tree by \<open>parent\<close>, \<open>first_child\<close> and \<open>next_sibling\<close> indices, and the index of the
  current directory. Indices are C ints with -1 for none, so the array is a function on \<open>int\<close>; the
  file bytes are a function on \<open>nat\<close> for the fixed array \<open>data[FS_MAX_FILE_SIZE]\<close>.
  Operations return their C result (0 or -1) with the new state. The walks along sibling and parent
  links are \<open>partial_function (option)\<close>: None is a walk that never ends.
\<close>

abbreviation FS_NAME_MAX :: nat where "FS_NAME_MAX \<equiv> 31"
abbreviation FS_MAX_FILE_SIZE :: nat where "FS_MAX_FILE_SIZE \<equiv> 8192"
abbreviation FS_MAX_NODES :: int where "FS_MAX_NODES \<equiv> 256"

record fs_node =
  nd_used :: bool
  nd_is_dir :: bool
  nd_parent :: int
  nd_first_child :: int
  nd_next_sibling :: int
  nd_name :: string
  nd_size :: nat
  nd_data :: "nat \<Rightarrow> u8"

record fs_state =
  nodes :: "int \<Rightarrow> fs_node"
  cwd_node :: int

definition upd_node :: "fs_state \<Rightarrow> int \<Rightarrow> (fs_node \<Rightarrow> fs_node) \<Rightarrow> fs_state" where
  "upd_node s i f = s\<lparr>nodes := (nodes s)(i := f (nodes s i))\<rparr>"

section \<open>Node allocation and the child lists\<close>

definition alloc_node :: "fs_state \<Rightarrow> int \<times> fs_state" where
  "alloc_node s =
     (case List.find (\<lambda>i. \<not> nd_used (nodes s i)) [1..FS_MAX_NODES - 1] of
        Some i \<Rightarrow>
          (i, upd_node s i (\<lambda>n. n\<lparr>nd_used := True, nd_is_dir := False, nd_parent := -1,
                 nd_first_child := -1, nd_next_sibling := -1, nd_name := [], nd_size := 0,
                 nd_data := (nd_data n)(0 := 0)\<rparr>))
      | None \<Rightarrow> (-1, s))"

partial_function (option) find_child_from :: "(int \<Rightarrow> fs_node) \<Rightarrow> string \<Rightarrow> int \<Rightarrow> int option" where
  "find_child_from ns nm n =
     (if n = -1 then Some (-1)
      else if str_eq (nd_name (ns n)) nm then Some n
      else find_child_from ns nm (nd_next_sibling (ns n)))"

definition find_child :: "fs_state \<Rightarrow> int \<Rightarrow> string \<Rightarrow> int option" where
  "find_child s p nm = find_child_from (nodes s) nm (nd_first_child (nodes s p))"

definition add_child :: "fs_state \<Rightarrow> int \<Rightarrow> string \<Rightarrow> bool \<Rightarrow> (int \<times> fs_state) option" where
  "add_child s p nm isdir =
     (if p < 0 \<or> \<not> nd_used (nodes s p) \<or> \<not> nd_is_dir (nodes s p) then Some (-1, s)
      else if nm = [] then Some (-1, s)
      else if str_len nm > FS_NAME_MAX then Some (-1, s)
      else if str_eq nm ''.'' \<or> str_eq nm ''..'' then Some (-1, s)
      else do {
        c \<leftarrow> find_child s p nm;
        if c \<noteq> -1 then Some (-1, s)
        else (case alloc_node s of (idx, s1) \<Rightarrow>
          if idx < 0 then Some (-1, s1)
          else let s2 = upd_node s1 idx (\<lambda>n. n\<lparr>nd_is_dir := isdir, nd_parent := p,
                          nd_first_child := -1, nd_next_sibling := nd_first_child (nodes s1 p),
                          nd_name := str_copy (nd_name n) nm (FS_NAME_MAX + 1)\<rparr>)
               in Some (idx, upd_node s2 p (\<lambda>n. n\<lparr>nd_first_child := idx\<rparr>)))
      })"

section \<open>Paths\<close>

text \<open>\<open>while (*p == '/') p++\<close>\<close>

definition skip_slashes :: "string \<Rightarrow> string" where
  "skip_slashes p = dropWhile (\<lambda>c. c = CHR ''/'') p"

text \<open>The inner loop that copies one component into \<open>part\<close>: None when it is longer than
  \<open>FS_NAME_MAX\<close>, otherwise the component and what is left of the path.\<close>

fun take_part :: "string \<Rightarrow> string \<Rightarrow> (string \<times> string) option" where
  "take_part part [] = Some (part, [])"
| "take_part part (c # p) =
     (if c = CHR ''/'' then Some (part, c # p)
      else if length part \<ge> FS_NAME_MAX then None
      else take_part (part @ [c]) p)"

lemma take_part_length: "take_part part p = Some (a, r) \<Longrightarrow> length a + length r = length part + length p"
  by (induction part p rule: take_part.induct) (auto split: if_splits)

lemma take_part_prefix: "take_part part p = Some (a, r) \<Longrightarrow> length part \<le> length a"
  by (induction part p rule: take_part.induct) (force split: if_splits)+

lemma skip_slashes_le: "length (skip_slashes p) \<le> length p"
  by (simp add: skip_slashes_def length_dropWhile_le)

lemma take_part_skip_shorter:
  assumes "take_part [] (c # p) = Some (a, r)"
  shows "length (skip_slashes r) < length (c # p)"
proof (cases "c = CHR ''/''")
  case True
  with assms have "r = CHR ''/'' # p" by simp
  then show ?thesis
    using length_dropWhile_le [of "\<lambda>c. c = CHR ''/''" p] by (simp add: skip_slashes_def)
next
  case False
  with assms have "take_part [c] p = Some (a, r)" by simp
  from take_part_length [OF this] take_part_prefix [OF this] have "length r < length (c # p)" by simp
  with skip_slashes_le [of r] show ?thesis by simp
qed

definition go_parent :: "fs_state \<Rightarrow> int \<Rightarrow> int" where
  "go_parent s cur = (if nd_parent (nodes s cur) \<noteq> -1 then nd_parent (nodes s cur) else cur)"

text \<open>The loop of \<open>resolve_path\<close> after the leading slashes.\<close>

function resolve_loop :: "fs_state \<Rightarrow> int \<Rightarrow> string \<Rightarrow> int option" where
  "resolve_loop s cur [] = Some cur"
| "resolve_loop s cur (c # p) =
     (case take_part [] (c # p) of
        None \<Rightarrow> Some (-1)
      | Some (part, r) \<Rightarrow>
          if str_eq part ''.'' then resolve_loop s cur (skip_slashes r)
          else if str_eq part ''..'' then resolve_loop s (go_parent s cur) (skip_slashes r)
          else (case find_child s cur part of
                  None \<Rightarrow> None
                | Some n \<Rightarrow> if n < 0 then Some (-1) else resolve_loop s n (skip_slashes r)))"
  by pat_completeness auto
termination
  by (relation "measure (\<lambda>(s, cur, p). length p)") (auto dest: take_part_skip_shorter simp del: take_part.simps)

definition resolve_path :: "fs_state \<Rightarrow> string option \<Rightarrow> int option" where
  "resolve_path s path =
     (case path of
        None \<Rightarrow> Some (cwd_node s)
      | Some [] \<Rightarrow> Some (cwd_node s)
      | Some (c # p) \<Rightarrow>
          let cur = (if c = CHR ''/'' then 0 else cwd_node s); q = skip_slashes (c # p)
          in if q = [] then Some 0 else resolve_loop s cur q)"

text \<open>The loop of \<open>split_parent_and_name\<close>; None inside is the C result -1.\<close>

function split_loop :: "fs_state \<Rightarrow> int \<Rightarrow> string \<Rightarrow> (int \<times> string) option option" where
  "split_loop s cur [] = Some None"
| "split_loop s cur (c # p) =
     (case take_part [] (c # p) of
        None \<Rightarrow> Some None
      | Some (part, r) \<Rightarrow>
          if skip_slashes r = [] then
            (if str_eq part ''.'' \<or> str_eq part ''..'' then Some None
             else Some (Some (cur, str_copy [] part (FS_NAME_MAX + 1))))
          else if str_eq part ''.'' then split_loop s cur (skip_slashes r)
          else if str_eq part ''..'' then split_loop s (go_parent s cur) (skip_slashes r)
          else (case find_child s cur part of
                  None \<Rightarrow> None
                | Some n \<Rightarrow> if n < 0 \<or> \<not> nd_is_dir (nodes s n) then Some None
                            else split_loop s n (skip_slashes r)))"
  by pat_completeness auto
termination
  by (relation "measure (\<lambda>(s, cur, p). length p)") (auto dest: take_part_skip_shorter simp del: take_part.simps)

definition split_parent_and_name :: "fs_state \<Rightarrow> string option \<Rightarrow> (int \<times> string) option option" where
  "split_parent_and_name s path =
     (case path of
        None \<Rightarrow> Some None
      | Some [] \<Rightarrow> Some None
      | Some (c # p) \<Rightarrow>
          let cur = (if c = CHR ''/'' then 0 else cwd_node s); q = skip_slashes (c # p)
          in if q = [] then Some None else split_loop s cur q)"

declare resolve_loop.simps [simp del] split_loop.simps [simp del]

section \<open>Unlinking\<close>

text \<open>The walk of \<open>unlink_node_from_parent\<close> along the children of \<open>parent\<close>; None inside is -1.\<close>

partial_function (option) unlink_from ::
    "(int \<Rightarrow> fs_node) \<Rightarrow> int \<Rightarrow> int \<Rightarrow> int \<Rightarrow> int \<Rightarrow> (int \<Rightarrow> fs_node) option option" where
  "unlink_from ns parent idx prev cur =
     (if cur = -1 then Some None
      else if cur = idx then
        Some (Some (if prev = -1
                    then ns(parent := (ns parent)\<lparr>nd_first_child := nd_next_sibling (ns cur)\<rparr>)
                    else ns(prev := (ns prev)\<lparr>nd_next_sibling := nd_next_sibling (ns cur)\<rparr>)))
      else unlink_from ns parent idx cur (nd_next_sibling (ns cur)))"

definition unlink_node_from_parent :: "fs_state \<Rightarrow> int \<Rightarrow> (int \<times> fs_state) option" where
  "unlink_node_from_parent s idx =
     (if idx \<le> 0 \<or> \<not> nd_used (nodes s idx) then Some (-1, s)
      else let parent = nd_parent (nodes s idx) in
        if parent < 0 then Some (-1, s)
        else (case unlink_from (nodes s) parent idx (-1) (nd_first_child (nodes s parent)) of
                None \<Rightarrow> None
              | Some None \<Rightarrow> Some (-1, s)
              | Some (Some ns) \<Rightarrow> Some (0, s\<lparr>nodes := ns\<rparr>)))"

section \<open>The file-system calls\<close>

text \<open>The part of \<open>fs_init\<close> before the built-in files are written: every node is freed, node 0
  is the root directory and the current one.\<close>

definition fs_clear_node :: "fs_node \<Rightarrow> fs_node" where
  "fs_clear_node n = n\<lparr>nd_used := False, nd_is_dir := False, nd_parent := -1, nd_first_child := -1,
     nd_next_sibling := -1, nd_name := [], nd_size := 0, nd_data := (nd_data n)(0 := 0)\<rparr>"

definition fs_init_nodes :: "fs_state \<Rightarrow> fs_state" where
  "fs_init_nodes s =
     (let ns = (\<lambda>i. if 0 \<le> i \<and> i < FS_MAX_NODES then fs_clear_node (nodes s i) else nodes s i)
      in s\<lparr>nodes := ns(0 := (ns 0)\<lparr>nd_used := True, nd_is_dir := True, nd_parent := -1,
                nd_first_child := -1, nd_next_sibling := -1, nd_name := ''/''\<rparr>),
           cwd_node := 0\<rparr>)"

definition fs_mkdir :: "fs_state \<Rightarrow> string option \<Rightarrow> (int \<times> fs_state) option" where
  "fs_mkdir s path = do {
     r \<leftarrow> split_parent_and_name s path;
     case r of
       None \<Rightarrow> Some (-1, s)
     | Some (parent, nm) \<Rightarrow> do {
         (idx, s') \<leftarrow> add_child s parent nm True;
         Some (if idx \<ge> 0 then 0 else -1, s') }
   }"

definition fs_touch :: "fs_state \<Rightarrow> string option \<Rightarrow> (int \<times> fs_state) option" where
  "fs_touch s path = do {
     r \<leftarrow> split_parent_and_name s path;
     case r of
       None \<Rightarrow> Some (-1, s)
     | Some (parent, nm) \<Rightarrow> do {
         (idx, s') \<leftarrow> add_child s parent nm False;
         if idx \<ge> 0 then Some (0, s')
         else do {
           existing \<leftarrow> find_child s' parent nm;
           Some (if existing \<ge> 0 \<and> \<not> nd_is_dir (nodes s' existing) then 0 else -1, s') } }
   }"

text \<open>The tail of \<open>fs_write_file\<close> once the node is known. \<open>data\<close> is None for a null pointer;
  otherwise the buffer holds at least \<open>sz\<close> bytes.\<close>

definition fs_store :: "fs_state \<Rightarrow> int \<Rightarrow> (nat \<Rightarrow> u8) option \<Rightarrow> nat \<Rightarrow> int \<times> fs_state" where
  "fs_store s node data sz =
     (if nd_is_dir (nodes s node) then (-1, s)
      else (case data of
              None \<Rightarrow> if sz \<noteq> 0 then (-1, s)
                      else (0, upd_node s node (\<lambda>nd. nd\<lparr>nd_data := (nd_data nd)(0 := 0), nd_size := 0\<rparr>))
            | Some d \<Rightarrow>
                let n = (if sz \<ge> FS_MAX_FILE_SIZE then FS_MAX_FILE_SIZE - 1 else sz)
                in (0, upd_node s node (\<lambda>nd. nd\<lparr>nd_data := (\<lambda>i. if i < n then d i else nd_data nd i)(n := 0),
                                                 nd_size := n\<rparr>))))"

definition fs_write_file ::
    "fs_state \<Rightarrow> string option \<Rightarrow> (nat \<Rightarrow> u8) option \<Rightarrow> nat \<Rightarrow> (int \<times> fs_state) option" where
  "fs_write_file s path data sz = do {
     node \<leftarrow> resolve_path s path;
     if node < 0 then do {
       (rc, s1) \<leftarrow> fs_touch s path;
       if rc \<noteq> 0 then Some (-1, s1)
       else do {
         node1 \<leftarrow> resolve_path s1 path;
         if node1 < 0 then Some (-1, s1) else Some (fs_store s1 node1 data sz) } }
     else Some (fs_store s node data sz)
   }"

text \<open>\<open>fs_read_file\<close> returns its result, the bytes it wrote to \<open>out_data\<close> and \<open>*out_size\<close>;
  the flags say which of the two pointers are not null.\<close>

definition fs_read_file ::
    "fs_state \<Rightarrow> string option \<Rightarrow> bool \<Rightarrow> nat \<Rightarrow> bool \<Rightarrow> (int \<times> u8 list \<times> nat) option" where
  "fs_read_file s path has_out out_capacity has_size = do {
     node \<leftarrow> resolve_path s path;
     Some (if node < 0 \<or> nd_is_dir (nodes s node) \<or> \<not> has_size then (-1, [], 0)
           else let n = nd_size (nodes s node);
                    copy_n = (if n < out_capacity then n else out_capacity)
                in (0, if has_out then map (nd_data (nodes s node)) [0..<copy_n] else [], copy_n))
   }"

definition fs_write_text :: "fs_state \<Rightarrow> string option \<Rightarrow> string \<Rightarrow> (int \<times> fs_state) option" where
  "fs_write_text s path text =
     fs_write_file s path (Some (\<lambda>i. if i < str_len text then byte_of_char (text ! i) else 0)) (str_len text)"

definition fs_read_text :: "fs_state \<Rightarrow> string option \<Rightarrow> (int \<times> (nat \<Rightarrow> u8) option) option" where
  "fs_read_text s path = do {
     node \<leftarrow> resolve_path s path;
     Some (if node < 0 \<or> nd_is_dir (nodes s node) then (-1, None) else (0, Some (nd_data (nodes s node))))
   }"

definition fs_rm :: "fs_state \<Rightarrow> string option \<Rightarrow> (int \<times> fs_state) option" where
  "fs_rm s path = do {
     node \<leftarrow> resolve_path s path;
     if node \<le> 0 then Some (-1, s)
     else if nd_is_dir (nodes s node) \<and> nd_first_child (nodes s node) \<noteq> -1 then Some (-1, s)
     else do {
       (rc, s1) \<leftarrow> unlink_node_from_parent s node;
       if rc \<noteq> 0 then Some (-1, s1)
       else Some (0, upd_node s1 node (\<lambda>n. n\<lparr>nd_used := False, nd_first_child := -1,
                       nd_next_sibling := -1, nd_size := 0, nd_name := []\<rparr>)) }
   }"

definition fs_cd :: "fs_state \<Rightarrow> string option \<Rightarrow> (int \<times> fs_state) option" where
  "fs_cd s path = do {
     node \<leftarrow> resolve_path s path;
     Some (if node < 0 \<or> \<not> nd_is_dir (nodes s node) then (-1, s) else (0, s\<lparr>cwd_node := node\<rparr>))
   }"

definition fs_cp :: "fs_state \<Rightarrow> string option \<Rightarrow> string option \<Rightarrow> (int \<times> fs_state) option" where
  "fs_cp s src_path dst_path = do {
     src \<leftarrow> resolve_path s src_path;
     if src < 0 \<or> nd_is_dir (nodes s src) then Some (-1, s)
     else fs_write_file s dst_path (Some (nd_data (nodes s src))) (nd_size (nodes s src))
   }"

text \<open>\<open>while (p != -1) { if (p == src) return -1; p = nodes[p].parent; }\<close>\<close>

partial_function (option) reaches_up :: "(int \<Rightarrow> fs_node) \<Rightarrow> int \<Rightarrow> int \<Rightarrow> bool option" where
  "reaches_up ns src p =
     (if p = -1 then Some False
      else if p = src then Some True
      else reaches_up ns src (nd_parent (ns p)))"

definition fs_mv :: "fs_state \<Rightarrow> string option \<Rightarrow> string option \<Rightarrow> (int \<times> fs_state) option" where
  "fs_mv s src_path dst_path = do {
     src \<leftarrow> resolve_path s src_path;
     if src \<le> 0 then Some (-1, s)
     else do {
       r \<leftarrow> split_parent_and_name s dst_path;
       case r of
         None \<Rightarrow> Some (-1, s)
       | Some (dst_parent, dst_name) \<Rightarrow>
           if \<not> nd_is_dir (nodes s dst_parent) then Some (-1, s)
           else do {
             c \<leftarrow> find_child s dst_parent dst_name;
             if c \<noteq> -1 then Some (-1, s)
             else do {
               below \<leftarrow> (if nd_is_dir (nodes s src) then reaches_up (nodes s) src dst_parent else Some False);
               if below then Some (-1, s)
               else do {
                 (rc, s1) \<leftarrow> unlink_node_from_parent s src;
                 if rc \<noteq> 0 then Some (-1, s1)
                 else let s2 = upd_node s1 src (\<lambda>n. n\<lparr>nd_parent := dst_parent,
                                  nd_next_sibling := nd_first_child (nodes s1 dst_parent)\<rparr>);
                          s3 = upd_node s2 dst_parent (\<lambda>n. n\<lparr>nd_first_child := src\<rparr>)
                      in Some (0, upd_node s3 src (\<lambda>n. n\<lparr>nd_name := str_copy (nd_name n) dst_name (FS_NAME_MAX + 1)\<rparr>)) } } } }
   }"

section \<open>Listing and status\<close>

text \<open>\<open>while (n > 0 && depth < FS_MAX_NODES)\<close>: the second argument counts the depth down.\<close>

fun pwd_stack :: "(int \<Rightarrow> fs_node) \<Rightarrow> nat \<Rightarrow> int \<Rightarrow> int list" where
  "pwd_stack ns 0 n = []"
| "pwd_stack ns (Suc k) n = (if n > 0 then n # pwd_stack ns k (nd_parent (ns n)) else [])"

fun pwd_name :: "nat \<Rightarrow> string \<Rightarrow> string \<Rightarrow> string" where
  "pwd_name buffer_size out [] = out"
| "pwd_name buffer_size out (c # nm) =
     (if length out + 1 \<ge> buffer_size then out else pwd_name buffer_size (out @ [c]) nm)"

fun pwd_write :: "(int \<Rightarrow> fs_node) \<Rightarrow> nat \<Rightarrow> string \<Rightarrow> int list \<Rightarrow> string" where
  "pwd_write ns buffer_size out [] = out"
| "pwd_write ns buffer_size out (n # st) =
     (if length out + 1 \<ge> buffer_size then out
      else pwd_write ns buffer_size (pwd_name buffer_size (out @ ''/'') (nd_name (ns n))) st)"

text \<open>None: a zero-sized buffer, which is left untouched.\<close>

definition fs_get_pwd :: "fs_state \<Rightarrow> nat \<Rightarrow> string option" where
  "fs_get_pwd s buffer_size =
     (if buffer_size = 0 then None
      else if cwd_node s = 0 then Some (if buffer_size \<ge> 2 then ''/'' else [])
      else Some (pwd_write (nodes s) buffer_size [] (rev (pwd_stack (nodes s) (nat FS_MAX_NODES) (cwd_node s)))))"

text \<open>One entry of \<open>names\<close>: at most \<open>FS_NAME_MAX\<close> characters and a slash for a directory.\<close>

definition ls_entry :: "fs_node \<Rightarrow> string \<times> bool" where
  "ls_entry n = (copy_upto (nd_name n) FS_NAME_MAX @ (if nd_is_dir n then ''/'' else []), nd_is_dir n)"

fun ls_from :: "(int \<Rightarrow> fs_node) \<Rightarrow> nat \<Rightarrow> int \<Rightarrow> (string \<times> bool) list" where
  "ls_from ns 0 child = []"
| "ls_from ns (Suc k) child =
     (if child = -1 then [] else ls_entry (ns child) # ls_from ns k (nd_next_sibling (ns child)))"

text \<open>None inside is -1; otherwise the entries, whose number is \<open>*out_count\<close>.\<close>

definition fs_ls :: "fs_state \<Rightarrow> string option \<Rightarrow> int \<Rightarrow> (string \<times> bool) list option option" where
  "fs_ls s path max_entries = do {
     dir \<leftarrow> (if path = None \<or> path = Some [] then Some (cwd_node s) else resolve_path s path);
     Some (if dir < 0 \<or> \<not> nd_is_dir (nodes s dir) then None
           else Some (ls_from (nodes s) (nat max_entries) (nd_first_child (nodes s dir))))
   }"

text \<open>None inside is -1; otherwise \<open>*out_is_dir\<close> and \<open>*out_size\<close>.\<close>

definition fs_stat :: "fs_state \<Rightarrow> string option \<Rightarrow> (bool \<times> nat) option option" where
  "fs_stat s path = do {
     node \<leftarrow> resolve_path s path;
     Some (if node < 0 then None
           else Some (nd_is_dir (nodes s node), if nd_is_dir (nodes s node) then 0 else nd_size (nodes s node)))
   }"

definition fs_free_bytes :: "fs_state \<Rightarrow> nat" where
  "fs_free_bytes s =
     (let per_file_cap = FS_MAX_FILE_SIZE - 1;
          total_slots = nat FS_MAX_NODES - 1;
          live = filter (\<lambda>i. nd_used (nodes s i)) [1..FS_MAX_NODES - 1];
          dir_nodes = length (filter (\<lambda>i. nd_is_dir (nodes s i)) live);
          used_file_bytes = sum_list (map (\<lambda>i. nd_size (nodes s i)) (filter (\<lambda>i. \<not> nd_is_dir (nodes s i)) live))
      in if dir_nodes \<ge> total_slots then 0
         else let total_file_capacity = (total_slots - dir_nodes) * per_file_cap
              in if used_file_bytes \<ge> total_file_capacity then 0 else total_file_capacity - used_file_bytes)"

end
