(* ===== verification/Basic_Expr.thy ===== *)
theory Basic_Expr
  imports Fs "HOL-Library.Signed_Division"
begin

text \<open>
  The scanner and the expression evaluator of the BASIC interpreter, \<open>src/kernel/basic.c\<close>. A \<open>const char *\<close> into
  a line is the rest of the line; the NUL at its end is the character \<open>cur []\<close>. An \<open>int\<close> is a word of 32 bits
  read with a sign, as the machine computes it: sums and products wrap around, and the one quotient that does not
  fit, INT\_MIN by -1, traps. Evaluation is recursive in the text, and through DEF FN without bound: the first
  argument of the evaluator is the number of nested calls the kernel's stack has room for.
\<close>

section \<open>State\<close>

type_synonym i32 = "32 word"

text \<open>\<open>struct basic_def_fn\<close>, \<open>struct basic_file_chan\<close> (the buffer is the list of its \<open>buf_len\<close> bytes),
  \<open>struct basic_for_frame\<close>.\<close>

record def_fn =
  fn_letter :: nat
  param_var :: nat
  fn_body :: string

record file_chan =
  fc_active :: bool
  fc_mode :: nat
  fc_path :: string
  fc_buf :: "u8 list"
  fc_pos :: nat

record for_frame =
  ff_var :: nat
  ff_end :: i32
  ff_step :: i32
  ff_body_pc :: nat

text \<open>The variables of a run, the terminal (what was written, and the answers \<open>terminal_read_line\<close> will give,
  None for its failure) and the file system. The top of a stack is the head of its list.\<close>

record bst =
  vars :: "nat \<Rightarrow> i32"
  str_vars :: "nat \<Rightarrow> string"
  arrays :: "nat \<Rightarrow> nat \<Rightarrow> i32"
  array_sizes :: "nat \<Rightarrow> i32"
  rand_state :: u32
  def_fns :: "def_fn list"
  b_files :: "file_chan list"
  call_stack :: "nat list"
  for_stack :: "for_frame list"
  while_stack :: "nat list"
  data_line :: nat
  data_offset :: nat
  pc :: nat
  term_out :: string
  term_in :: "string option list"
  bfs :: fs_state

abbreviation BASIC_MAX_STRING_LEN :: nat where "BASIC_MAX_STRING_LEN \<equiv> 96"
abbreviation BASIC_ARRAY_MAX :: i32 where "BASIC_ARRAY_MAX \<equiv> 128"
abbreviation BASIC_MAX_FILES :: i32 where "BASIC_MAX_FILES \<equiv> 4"

section \<open>Characters\<close>

definition code :: "char \<Rightarrow> nat" where "code c = of_char c"

definition b_is_space :: "char \<Rightarrow> bool" where
  "b_is_space c = (c = CHR '' '' \<or> c = CHR 0x09)"

definition b_is_digit :: "char \<Rightarrow> bool" where
  "b_is_digit c = (code c \<ge> 48 \<and> code c \<le> 57)"

definition b_is_alpha :: "char \<Rightarrow> bool" where
  "b_is_alpha c = ((code c \<ge> 97 \<and> code c \<le> 122) \<or> (code c \<ge> 65 \<and> code c \<le> 90))"

definition b_up :: "char \<Rightarrow> char" where
  "b_up c = (if code c \<ge> 97 \<and> code c \<le> 122 then char_of (code c - 32) else c)"

definition b_is_ident_tail :: "char \<Rightarrow> bool" where
  "b_is_ident_tail c = (b_is_alpha c \<or> b_is_digit c \<or> c = CHR ''_'')"

text \<open>\<open>*s\<close>.\<close>

definition cur :: "string \<Rightarrow> char" where
  "cur s = (case s of [] \<Rightarrow> CHR 0x00 | c # _ \<Rightarrow> c)"

definition nxt :: "nat \<Rightarrow> string \<Rightarrow> char" where
  "nxt k s = cur (drop k s)"

fun b_starts_with_ci :: "string \<Rightarrow> string \<Rightarrow> bool" where
  "b_starts_with_ci s [] = True"
| "b_starts_with_ci s (p # prefix) = (if b_up (cur s) \<noteq> b_up p then False else b_starts_with_ci (tl s) prefix)"

definition b_skip_spaces :: "string \<Rightarrow> string" where
  "b_skip_spaces s = dropWhile b_is_space s"

fun b_name_matches_ci :: "string \<Rightarrow> string \<Rightarrow> bool" where
  "b_name_matches_ci s [] = (\<not> b_is_ident_tail (cur s))"
| "b_name_matches_ci s (p # name) = (if b_up (cur s) \<noteq> b_up p then False else b_name_matches_ci (tl s) name)"

section \<open>Numbers\<close>

definition digit_val :: "char \<Rightarrow> i32" where "digit_val c = of_nat (code c - 48)"

fun digits_value :: "string \<Rightarrow> i32 \<Rightarrow> i32 \<times> string" where
  "digits_value [] v = (v, [])"
| "digits_value (c # s) v = (if b_is_digit c then digits_value s (v * 10 + digit_val c) else (v, c # s))"

definition b_parse_int :: "string \<Rightarrow> (i32 \<times> string) option" where
  "b_parse_int sp =
     (let s = b_skip_spaces sp;
          sign = (if cur s = CHR ''-'' then -1 else 1);
          s = (if cur s = CHR ''-'' then tl s else s)
      in if \<not> b_is_digit (cur s) then None
         else case digits_value s 0 of (v, s) \<Rightarrow> Some (v * sign, s))"

definition b_parse_int_from_text :: "string \<Rightarrow> i32 option" where
  "b_parse_int_from_text sp =
     (let p = b_skip_spaces sp;
          sign = (if cur p = CHR ''-'' then -1 else 1);
          p = (if cur p = CHR ''-'' then tl p else p)
      in if \<not> b_is_digit (cur p) then None else Some (fst (digits_value p 0) * sign))"

text \<open>The digits, the last one first; \<open>char rev[16]\<close>.\<close>

fun rev_digits :: "nat \<Rightarrow> u32 \<Rightarrow> string" where
  "rev_digits 0 uv = []"
| "rev_digits (Suc n) uv = (if uv > 0 then char_of (48 + unat (uv mod 10) :: nat) # rev_digits n (uv div 10) else [])"

definition b_int_to_text :: "i32 \<Rightarrow> nat \<Rightarrow> string" where
  "b_int_to_text v out_max =
     (if v = 0 then (if out_max > 1 then ''0'' else [])
      else take (out_max - 1) ((if v <s 0 then ''-'' else []) @ rev (rev_digits 16 (if v <s 0 then - v else v))))"

definition b_print_int :: "i32 \<Rightarrow> string" where
  "b_print_int v =
     (if v = 0 then ''0''
      else (if v <s 0 then ''-'' else []) @ rev (rev_digits 15 (if v <s 0 then - v else v)))"

definition b_print_uint :: "u32 \<Rightarrow> string" where
  "b_print_uint v = (if v = 0 then ''0'' else rev (rev_digits 16 v))"

section \<open>Variables\<close>

text \<open>A name is its first letter; the other characters are skipped.\<close>

definition var_index :: "char \<Rightarrow> nat" where "var_index c = code (b_up c) - 65"

definition name_tail :: "string \<Rightarrow> string" where
  "name_tail s = dropWhile b_is_ident_tail (tl s)"

definition b_parse_var :: "string \<Rightarrow> (nat \<times> string) option" where
  "b_parse_var sp =
     (let s = b_skip_spaces sp in
      if \<not> b_is_alpha (cur s) then None
      else if cur (name_tail s) = CHR ''$'' then None
      else Some (var_index (cur s), name_tail s))"

definition b_parse_var_ref :: "string \<Rightarrow> (nat \<times> bool \<times> string) option" where
  "b_parse_var_ref sp =
     (let s = b_skip_spaces sp in
      if \<not> b_is_alpha (cur s) then None
      else if cur (name_tail s) = CHR ''$'' then Some (var_index (cur s), True, tl (name_tail s))
      else Some (var_index (cur s), False, name_tail s))"

definition b_array_get :: "nat \<Rightarrow> i32 \<Rightarrow> bst \<Rightarrow> i32 option" where
  "b_array_get idx pos st =
     (if idx > 25 then None
      else if array_sizes st idx \<le>s 0 then None
      else if pos <s 0 \<or> array_sizes st idx \<le>s pos then None
      else Some (arrays st idx (unat pos)))"

definition b_array_set :: "nat \<Rightarrow> i32 \<Rightarrow> i32 \<Rightarrow> bst \<Rightarrow> bst option" where
  "b_array_set idx pos v st =
     (if idx > 25 then None
      else if array_sizes st idx \<le>s 0 then None
      else if pos <s 0 \<or> array_sizes st idx \<le>s pos then None
      else Some (st\<lparr>arrays := (arrays st)(idx := (arrays st idx)(unat pos := v))\<rparr>))"

section \<open>Strings\<close>

definition b_copy_string :: "string \<Rightarrow> nat \<Rightarrow> string" where
  "b_copy_string src max_len = take (max_len - 1) src"

definition b_append_text :: "string \<Rightarrow> nat \<Rightarrow> string \<Rightarrow> string" where
  "b_append_text out out_max src = take (out_max - 1) (out @ src)"

definition b_trim_spaces :: "string \<Rightarrow> string" where
  "b_trim_spaces s = rev (dropWhile b_is_space (rev (dropWhile b_is_space s)))"

definition b_parse_string_literal :: "string \<Rightarrow> nat \<Rightarrow> (string \<times> string) option" where
  "b_parse_string_literal sp out_max =
     (let s = b_skip_spaces sp in
      if cur s \<noteq> CHR 0x22 then None
      else let body = takeWhile (\<lambda>c. c \<noteq> CHR 0x22) (tl s); rest = dropWhile (\<lambda>c. c \<noteq> CHR 0x22) (tl s)
           in if rest = [] then None else Some (take (out_max - 1) body, tl rest))"

section \<open>Results\<close>

text \<open>\<open>Fail\<close> is the code's -1, \<open>Trap\<close> the processor's divide exception, \<open>Deep\<close> more nested calls than the stack
  has room for.\<close>

datatype 'a res = Val 'a string | Fail | Trap | Deep

type_synonym 'a eval = "string \<Rightarrow> bst \<Rightarrow> 'a res \<times> bst"

definition andthen :: "'a res \<times> bst \<Rightarrow> ('a \<Rightarrow> 'b eval) \<Rightarrow> 'b res \<times> bst" where
  "andthen m k = (case m of (Val a s, st) \<Rightarrow> k a s st | (Fail, st) \<Rightarrow> (Fail, st) | (Trap, st) \<Rightarrow> (Trap, st) | (Deep, st) \<Rightarrow> (Deep, st))"

text \<open>\<open>s = b_skip_spaces(s); if (*s != c) return -1; s++;\<close>\<close>

definition expect :: "char \<Rightarrow> string \<Rightarrow> string option" where
  "expect c s = (let s = b_skip_spaces s in if cur s \<noteq> c then None else Some (tl s))"

definition expecting :: "char \<Rightarrow> 'a eval \<Rightarrow> 'a eval" where
  "expecting c k s st = (case expect c s of None \<Rightarrow> (Fail, st) | Some s \<Rightarrow> k s st)"

text \<open>A keyword directly before an opening parenthesis.\<close>

definition call_of :: "string \<Rightarrow> string \<Rightarrow> bool" where
  "call_of name s = (b_name_matches_ci s name \<and> cur (b_skip_spaces (drop (length name) s)) = CHR ''('')"

section \<open>Values and functions\<close>

definition b_parse_builtin_paren_expr :: "i32 eval \<Rightarrow> i32 eval" where
  "b_parse_builtin_paren_expr expr =
     expecting CHR ''('' (\<lambda>s st. andthen (expr s st) (\<lambda>v. expecting CHR '')'' (\<lambda>s st. (Val v s, st))))"

definition b_parse_value :: "i32 eval \<Rightarrow> i32 eval" where
  "b_parse_value expr sp st =
     (let s = b_skip_spaces sp in
      if b_is_alpha (cur s) then
        (case b_parse_var_ref s of
           None \<Rightarrow> (Fail, st)
         | Some (idx, is_string, s) \<Rightarrow>
             if is_string then (Fail, st)
             else let s = b_skip_spaces s in
               if cur s = CHR ''('' then
                 andthen (expr (tl s) st) (\<lambda>pos. expecting CHR '')'' (\<lambda>s st.
                   case b_array_get idx pos st of None \<Rightarrow> (Fail, st) | Some v \<Rightarrow> (Val v s, st)))
               else (Val (vars st idx) s, st))
      else (case b_parse_int sp of None \<Rightarrow> (Fail, st) | Some (v, s) \<Rightarrow> (Val v s, st)))"

text \<open>The string argument of a function and what follows it.\<close>

definition str_arg :: "string eval \<Rightarrow> (string \<Rightarrow> 'a eval) \<Rightarrow> 'a eval" where
  "str_arg strexpr k = expecting CHR ''('' (\<lambda>s st. andthen (strexpr s st) k)"

definition mid_part :: "string \<Rightarrow> i32 \<Rightarrow> i32 \<Rightarrow> string" where
  "mid_part src start_pos len =
     (let start = (if start_pos <s 1 then 0 else start_pos - 1); len = (if len <s 0 then 0 else len)
      in take (min (unat len) 95) (drop (unat start) src))"

definition clip_count :: "string \<Rightarrow> i32 \<Rightarrow> nat" where
  "clip_count src count = (if count <s 0 then 0 else min (unat count) (length src))"

text \<open>One operand of \<open>b_parse_string_expr\<close>.\<close>

definition string_part :: "i32 eval \<Rightarrow> string eval \<Rightarrow> string eval" where
  "string_part expr strexpr s st =
     (if cur s = CHR 0x22 then
        (case b_parse_string_literal s BASIC_MAX_STRING_LEN of None \<Rightarrow> (Fail, st) | Some (part, s) \<Rightarrow> (Val part s, st))
      else if b_is_alpha (cur s) then
        if call_of ''CHR$'' s then
          andthen (b_parse_builtin_paren_expr expr (drop 4 s) st) (\<lambda>v s st.
            (Val (if v AND 0xFF = 0 then [] else [char_of (unat (v AND 0xFF))]) s, st))
        else if call_of ''STR$'' s then
          andthen (b_parse_builtin_paren_expr expr (drop 4 s) st) (\<lambda>v s st. (Val (b_int_to_text v BASIC_MAX_STRING_LEN) s, st))
        else if call_of ''MID$'' s then
          str_arg strexpr (\<lambda>src. expecting CHR '','' (\<lambda>s st.
            andthen (expr s st) (\<lambda>start_pos s st.
              andthen (if cur (b_skip_spaces s) = CHR '','' then expr (tl (b_skip_spaces s)) st
                       else (Val (of_nat BASIC_MAX_STRING_LEN) (b_skip_spaces s), st)) (\<lambda>len.
              expecting CHR '')'' (\<lambda>s st. (Val (mid_part src start_pos len) s, st)))))) (drop 4 s) st
        else if call_of ''LEFT$'' s then
          str_arg strexpr (\<lambda>src. expecting CHR '','' (\<lambda>s st.
            andthen (expr s st) (\<lambda>count. expecting CHR '')'' (\<lambda>s st.
              (Val (take (min (clip_count src count) 95) src) s, st))))) (drop 5 s) st
        else if call_of ''RIGHT$'' s then
          str_arg strexpr (\<lambda>src. expecting CHR '','' (\<lambda>s st.
            andthen (expr s st) (\<lambda>count. expecting CHR '')'' (\<lambda>s st.
              (Val (take 95 (drop (length src - clip_count src count) src)) s, st))))) (drop 6 s) st
        else (case b_parse_var_ref s of
                Some (idx, True, s) \<Rightarrow> (Val (b_copy_string (str_vars st idx) BASIC_MAX_STRING_LEN) s, st)
              | _ \<Rightarrow> (Fail, st))
      else (Fail, st))"

text \<open>The loop over the operands; its count is the length of the text, of which each turn takes the \<open>+\<close>.\<close>

fun string_loop :: "nat \<Rightarrow> string eval \<Rightarrow> string \<Rightarrow> string eval" where
  "string_loop n part out s st =
     andthen (part (b_skip_spaces s) st) (\<lambda>p s st.
       let out = b_append_text out BASIC_MAX_STRING_LEN p; s = b_skip_spaces s in
       if cur s = CHR ''+'' then (case n of 0 \<Rightarrow> (Deep, st) | Suc n \<Rightarrow> string_loop n part out (tl s) st)
       else (Val out s, st))"

definition b_parse_string_expr_step :: "i32 eval \<Rightarrow> string eval \<Rightarrow> string eval" where
  "b_parse_string_expr_step expr strexpr s st = string_loop (length s) (string_part expr strexpr) [] s st"

text \<open>The position of \<open>needle\<close> in \<open>haystack\<close>, from 1; 0 when it does not occur.\<close>

fun instr_from :: "nat \<Rightarrow> string \<Rightarrow> string \<Rightarrow> nat" where
  "instr_from i [] needle = 0"
| "instr_from i (c # h) needle = (if take (length needle) (c # h) = needle then i else instr_from (i + 1) h needle)"

definition instr_pos :: "string \<Rightarrow> string \<Rightarrow> nat" where
  "instr_pos haystack needle = (if needle = [] then 1 else instr_from 1 haystack needle)"

definition lookup_fn :: "nat \<Rightarrow> def_fn list \<Rightarrow> def_fn option" where
  "lookup_fn letter fns = List.find (\<lambda>f. fn_letter f = letter) fns"

text \<open>A user function: the argument replaces the parameter's variable while the body is evaluated.\<close>

definition call_fn :: "i32 eval \<Rightarrow> def_fn \<Rightarrow> i32 \<Rightarrow> i32 eval" where
  "call_fn expr f arg s st =
     (let old_val = vars st (param_var f) in
      case expr (fn_body f) (st\<lparr>vars := (vars st)(param_var f := arg)\<rparr>) of (r, st) \<Rightarrow>
        let st = st\<lparr>vars := (vars st)(param_var f := old_val)\<rparr> in
        (case r of Val v _ \<Rightarrow> (Val v s, st) | Fail \<Rightarrow> (Fail, st) | Trap \<Rightarrow> (Trap, st) | Deep \<Rightarrow> (Deep, st)))"

definition file_eof :: "i32 \<Rightarrow> bst \<Rightarrow> i32" where
  "file_eof fnum st =
     (if fnum <s 1 \<or> BASIC_MAX_FILES <s fnum then -1
      else let f = b_files st ! (unat fnum - 1)
           in if \<not> fc_active f \<or> fc_pos f \<ge> length (fc_buf f) then -1 else 0)"

definition b_rnd :: "i32 \<Rightarrow> bst \<Rightarrow> i32 \<times> bst" where
  "b_rnd n st =
     (if n \<le>s 0 then (0, st)
      else let r = rand_state st * 1664525 + 1013904223 in (r mod n, st\<lparr>rand_state := r\<rparr>))"

lemma length_skip_spaces [termination_simp]: "length (b_skip_spaces s) \<le> length s"
  by (simp add: b_skip_spaces_def length_dropWhile_le)

fun sign_loop :: "string \<Rightarrow> i32 \<Rightarrow> i32 \<times> string" where
  "sign_loop [] sign = (sign, [])"
| "sign_loop (c # s) sign =
     (if c = CHR ''+'' then sign_loop (b_skip_spaces s) sign
      else if c = CHR ''-'' then sign_loop (b_skip_spaces s) (- sign)
      else (sign, c # s))"

declare sign_loop.simps [simp del]

text \<open>What follows the signs.\<close>

definition factor_value :: "i32 eval \<Rightarrow> string eval \<Rightarrow> i32 eval" where
  "factor_value expr strexpr s st =
     (if cur s = CHR ''('' then b_parse_builtin_paren_expr expr s st
      else if call_of ''ABS'' s then
        andthen (b_parse_builtin_paren_expr expr (drop 3 s) st) (\<lambda>v s st. (Val (if v <s 0 then - v else v) s, st))
      else if call_of ''RND'' s then
        andthen (b_parse_builtin_paren_expr expr (drop 3 s) st) (\<lambda>n s st. case b_rnd n st of (v, st) \<Rightarrow> (Val v s, st))
      else if call_of ''LEN'' s then
        str_arg strexpr (\<lambda>tmp. expecting CHR '')'' (\<lambda>s st. (Val (of_nat (length tmp)) s, st))) (drop 3 s) st
      else if call_of ''VAL'' s then
        str_arg strexpr (\<lambda>tmp. expecting CHR '')'' (\<lambda>s st.
          (Val (case b_parse_int_from_text tmp of None \<Rightarrow> 0 | Some v \<Rightarrow> v) s, st))) (drop 3 s) st
      else if call_of ''ASC'' s then
        str_arg strexpr (\<lambda>tmp. expecting CHR '')'' (\<lambda>s st. (Val (if tmp = [] then 0 else of_nat (code (hd tmp))) s, st))) (drop 3 s) st
      else if call_of ''EOF'' s then
        andthen (b_parse_builtin_paren_expr expr (drop 3 s) st) (\<lambda>fnum s st. (Val (file_eof fnum st) s, st))
      else if call_of ''INSTR'' s then
        str_arg strexpr (\<lambda>haystack. expecting CHR '','' (\<lambda>s st. andthen (strexpr s st) (\<lambda>needle.
          expecting CHR '')'' (\<lambda>s st. (Val (of_nat (instr_pos haystack needle)) s, st))))) (drop 5 s) st
      else if b_up (cur s) = CHR ''F'' \<and> b_up (nxt 1 s) = CHR ''N'' \<and> b_is_alpha (nxt 2 s) \<and> \<not> b_is_ident_tail (nxt 3 s) then
        (case lookup_fn (var_index (nxt 2 s)) (def_fns st) of
           None \<Rightarrow> (Fail, st)
         | Some f \<Rightarrow> andthen (b_parse_builtin_paren_expr expr (drop 3 s) st) (\<lambda>arg. call_fn expr f arg))
      else b_parse_value expr s st)"

definition b_parse_factor_step :: "i32 eval \<Rightarrow> i32 eval \<Rightarrow> string eval \<Rightarrow> i32 eval" where
  "b_parse_factor_step factor expr strexpr sp st =
     (let s = b_skip_spaces sp in
      if b_name_matches_ci s ''NOT'' then
        andthen (factor (b_skip_spaces (drop 3 s)) st) (\<lambda>v s st. (Val (NOT v) s, st))
      else case sign_loop s 1 of (sign, s) \<Rightarrow>
        andthen (factor_value expr strexpr s st) (\<lambda>v s st. (Val (v * sign) s, st)))"

section \<open>Operators\<close>

definition i32_div :: "i32 \<Rightarrow> i32 \<Rightarrow> i32" where "i32_div a b = word_of_int (sint a sdiv sint b)"
definition i32_mod :: "i32 \<Rightarrow> i32 \<Rightarrow> i32" where "i32_mod a b = word_of_int (sint a smod sint b)"

text \<open>The division traps when the quotient does not fit.\<close>

definition div_traps :: "i32 \<Rightarrow> i32 \<Rightarrow> bool" where "div_traps a b = (a = 0x80000000 \<and> b = -1)"

fun term_loop :: "nat \<Rightarrow> i32 eval \<Rightarrow> i32 \<Rightarrow> i32 eval" where
  "term_loop n factor lhs sp st =
     (let s = b_skip_spaces sp in
      if cur s \<noteq> CHR ''*'' \<and> cur s \<noteq> CHR ''/'' \<and> cur s \<noteq> CHR ''%'' then (Val lhs s, st)
      else andthen (factor (tl s) st) (\<lambda>rhs s' st.
        if cur s = CHR ''*'' then (case n of 0 \<Rightarrow> (Deep, st) | Suc n \<Rightarrow> term_loop n factor (lhs * rhs) s' st)
        else if rhs = 0 then (Fail, st)
        else if div_traps lhs rhs then (Trap, st)
        else (case n of 0 \<Rightarrow> (Deep, st) | Suc n \<Rightarrow>
          term_loop n factor (if cur s = CHR ''/'' then i32_div lhs rhs else i32_mod lhs rhs) s' st)))"

definition b_parse_term :: "i32 eval \<Rightarrow> i32 eval" where
  "b_parse_term factor s st = andthen (factor s st) (\<lambda>lhs. term_loop (length s) factor lhs)"

text \<open>The operator at the front of the text and what follows it.\<close>

datatype binop = Op_Add | Op_Sub | Op_And | Op_Or | Op_Xor

definition expr_op :: "string \<Rightarrow> (binop \<times> string) option" where
  "expr_op s =
     (if cur s = CHR ''+'' then Some (Op_Add, tl s)
      else if cur s = CHR ''-'' then Some (Op_Sub, tl s)
      else if b_name_matches_ci s ''AND'' then Some (Op_And, b_skip_spaces (drop 3 s))
      else if b_name_matches_ci s ''OR'' then Some (Op_Or, b_skip_spaces (drop 2 s))
      else if b_name_matches_ci s ''XOR'' then Some (Op_Xor, b_skip_spaces (drop 3 s))
      else None)"

fun apply_op :: "binop \<Rightarrow> i32 \<Rightarrow> i32 \<Rightarrow> i32" where
  "apply_op Op_Add a b = a + b"
| "apply_op Op_Sub a b = a - b"
| "apply_op Op_And a b = (a AND b)"
| "apply_op Op_Or a b = (a OR b)"
| "apply_op Op_Xor a b = (a XOR b)"

fun expr_loop :: "nat \<Rightarrow> i32 eval \<Rightarrow> i32 \<Rightarrow> i32 eval" where
  "expr_loop n trm lhs sp st =
     (let s = b_skip_spaces sp in
      case expr_op s of
        None \<Rightarrow> (Val lhs s, st)
      | Some (bop, s) \<Rightarrow> andthen (trm s st) (\<lambda>rhs s st.
          case n of 0 \<Rightarrow> (Deep, st) | Suc n \<Rightarrow> expr_loop n trm (apply_op bop lhs rhs) s st))"

definition b_parse_expr_step :: "i32 eval \<Rightarrow> i32 eval" where
  "b_parse_expr_step factor s st =
     andthen (b_parse_term factor s st) (\<lambda>lhs. expr_loop (length s) (b_parse_term factor) lhs)"

text \<open>The evaluator with room for \<open>n\<close> nested calls.\<close>

fun b_parse_factor :: "nat \<Rightarrow> i32 eval" and b_parse_expr :: "nat \<Rightarrow> i32 eval" and b_parse_string_expr :: "nat \<Rightarrow> string eval" where
  "b_parse_factor 0 s st = (Deep, st)"
| "b_parse_factor (Suc n) s st = b_parse_factor_step (b_parse_factor n) (b_parse_expr n) (b_parse_string_expr n) s st"
| "b_parse_expr 0 s st = (Deep, st)"
| "b_parse_expr (Suc n) s st = b_parse_expr_step (b_parse_factor n) s st"
| "b_parse_string_expr 0 s st = (Deep, st)"
| "b_parse_string_expr (Suc n) s st = b_parse_string_expr_step (b_parse_expr n) (b_parse_string_expr n) s st"

declare term_loop.simps [simp del] expr_loop.simps [simp del] string_loop.simps [simp del]

end
