(* ===== verification/Basic_Run.thy ===== *)
theory Basic_Run
  imports Basic_Expr
begin

text \<open>
  The statements of the BASIC interpreter, \<open>src/kernel/basic.c\<close>, and \<open>basic_run\<close>: one definition per statement, in
  the order in which the code tries them. A statement ends with the next line to run (\<open>pc\<close> in the state), with the
  return of \<open>basic_run\<close>, or with a runtime error.
\<close>

record basic_line =
  label :: i32
  line_text :: string

datatype step =
    Next bst
  | Finish bst  \<comment> \<open>\<open>return 0\<close> out of the loop\<close>
  | RtErr string bst  \<comment> \<open>\<open>B_RT_ERR\<close>\<close>
  | Crash bst  \<comment> \<open>a divide exception\<close>
  | NoReturn bst  \<comment> \<open>the stack overflows, or a call of the file system does not return\<close>

definition next_line :: "bst \<Rightarrow> step" where
  "next_line st = Next (st\<lparr>pc := pc st + 1\<rparr>)"

definition write_out :: "string \<Rightarrow> bst \<Rightarrow> bst" where
  "write_out s st = st\<lparr>term_out := term_out st @ s\<rparr>"

text \<open>\<open>if (m != 0) B_RT_ERR(msg);\<close> and go on with the value.\<close>

definition eval_or :: "string \<Rightarrow> 'a res \<times> bst \<Rightarrow> ('a \<Rightarrow> string \<Rightarrow> bst \<Rightarrow> step) \<Rightarrow> step" where
  "eval_or msg m k =
     (case m of (Val a s, st) \<Rightarrow> k a s st | (Fail, st) \<Rightarrow> RtErr msg st | (Trap, st) \<Rightarrow> Crash st | (Deep, st) \<Rightarrow> NoReturn st)"

definition get_or :: "string \<Rightarrow> bst \<Rightarrow> 'a option \<Rightarrow> ('a \<Rightarrow> step) \<Rightarrow> step" where
  "get_or msg st m k = (case m of None \<Rightarrow> RtErr msg st | Some a \<Rightarrow> k a)"

definition need :: "string \<Rightarrow> bst \<Rightarrow> bool \<Rightarrow> step \<Rightarrow> step" where
  "need msg st b k = (if b then k else RtErr msg st)"

definition quoted :: "char \<Rightarrow> string" where "quoted c = [CHR 0x27, c, CHR 0x27]"

section \<open>Lines\<close>

definition b_statement_start :: "string \<Rightarrow> string" where
  "b_statement_start line =
     (let s = b_skip_spaces line in
      if b_is_digit (cur s) \<or> cur s = CHR ''-'' then
        (case b_parse_int s of Some (_, t) \<Rightarrow> if b_is_space (cur t) then b_skip_spaces t else s | None \<Rightarrow> s)
      else s)"

text \<open>The line that closes a block, from line \<open>i\<close> on.\<close>

fun matching :: "string \<Rightarrow> string \<Rightarrow> basic_line list \<Rightarrow> nat \<Rightarrow> nat \<Rightarrow> nat option" where
  "matching opening closing [] i depth = None"
| "matching opening closing (l # ls) i depth =
     (let s = b_statement_start (line_text l) in
      if b_starts_with_ci s opening then matching opening closing ls (i + 1) (depth + 1)
      else if b_starts_with_ci s closing then
        if depth = 0 then Some i else matching opening closing ls (i + 1) (depth - 1)
      else matching opening closing ls (i + 1) depth)"

definition b_find_matching_next :: "basic_line list \<Rightarrow> nat \<Rightarrow> nat option" where
  "b_find_matching_next ls for_pc = matching ''FOR'' ''NEXT'' (drop (for_pc + 1) ls) (for_pc + 1) 0"

definition b_find_matching_wend :: "basic_line list \<Rightarrow> nat \<Rightarrow> nat option" where
  "b_find_matching_wend ls while_pc = matching ''WHILE'' ''WEND'' (drop (while_pc + 1) ls) (while_pc + 1) 0"

definition b_find_label :: "basic_line list \<Rightarrow> i32 \<Rightarrow> nat option" where
  "b_find_label ls l = List.find (\<lambda>i. label (ls ! i) = l) [0..<length ls]"

fun b_parse_label_list_pick :: "nat \<Rightarrow> string \<Rightarrow> i32 option" where
  "b_parse_label_list_pick 0 s = None"
| "b_parse_label_list_pick (Suc n) s =
     (case b_parse_int s of
        None \<Rightarrow> None
      | Some (l, s) \<Rightarrow> if n = 0 then Some l else (case expect CHR '','' s of None \<Rightarrow> None | Some s \<Rightarrow> b_parse_label_list_pick n s))"

section \<open>DATA\<close>

definition b_data_reset_cursor :: "basic_line list \<Rightarrow> i32 \<Rightarrow> nat option" where
  "b_data_reset_cursor ls l = (if 0 \<le>s l then b_find_label ls l else Some 0)"

text \<open>An item, whether it is a string, and the text behind it.\<close>

definition data_item :: "string \<Rightarrow> string \<times> bool \<times> string" where
  "data_item item =
     (let (tok, is_string, rest) =
        (if cur item = CHR 0x22 then
           let rest = dropWhile (\<lambda>c. c \<noteq> CHR 0x22) (tl item)
           in (take 95 (takeWhile (\<lambda>c. c \<noteq> CHR 0x22) (tl item)), True, tl rest)
         else (rev (dropWhile b_is_space (rev (take 95 (takeWhile (\<lambda>c. c \<noteq> CHR '','') item)))), False,
               dropWhile (\<lambda>c. c \<noteq> CHR '','') item));
        rest = b_skip_spaces rest
      in (tok, is_string, if cur rest = CHR '','' then tl rest else rest))"

fun next_data :: "basic_line list \<Rightarrow> nat \<Rightarrow> nat \<Rightarrow> (string \<times> bool \<times> nat \<times> nat) option" where
  "next_data [] li off = None"
| "next_data (l # ls) li off =
     (let s = b_statement_start (line_text l) in
      if \<not> b_starts_with_ci s ''DATA'' then next_data ls (li + 1) 0
      else let data_start = b_skip_spaces (drop 4 s);
               item = dropWhile (\<lambda>c. b_is_space c \<or> c = CHR '','') (drop off data_start) in
        if item = [] then next_data ls (li + 1) 0
        else case data_item item of (tok, is_string, rest) \<Rightarrow>
          Some (tok, is_string, li, length data_start - length rest))"

definition b_read_next_data_item :: "basic_line list \<Rightarrow> bst \<Rightarrow> (string \<times> bool \<times> bst) option" where
  "b_read_next_data_item ls st =
     map_option (\<lambda>(tok, is_string, li, off). (tok, is_string, st\<lparr>data_line := li, data_offset := off\<rparr>))
       (next_data (drop (data_line st) ls) (data_line st) (data_offset st))"

section \<open>PRINT\<close>

definition print_spaces :: "i32 \<Rightarrow> bst \<Rightarrow> bst" where
  "print_spaces n st = write_out (replicate (if 0 <s n then unat n else 0) CHR '' '') st"

text \<open>One item, with what comes after it.\<close>

definition print_item :: "nat \<Rightarrow> (string \<Rightarrow> bst \<Rightarrow> step) \<Rightarrow> string \<Rightarrow> bst \<Rightarrow> step" where
  "print_item d after s st =
     (if call_of ''TAB'' s then
        eval_or ''PRINT TAB parse error'' (b_parse_builtin_paren_expr (b_parse_expr d) (drop 3 s) st) (\<lambda>n s st. after s (print_spaces n st))
      else if call_of ''SPC'' s then
        eval_or ''PRINT SPC parse error'' (b_parse_builtin_paren_expr (b_parse_expr d) (drop 3 s) st) (\<lambda>n s st. after s (print_spaces n st))
      else (case b_parse_string_expr d s st of
              (Val part s, st) \<Rightarrow> after s (write_out part st)
            | (Fail, st) \<Rightarrow> eval_or ''PRINT parse error'' (b_parse_expr d s st) (\<lambda>v s st. after s (write_out (b_print_int v) st))
            | (Trap, st) \<Rightarrow> Crash st
            | (Deep, st) \<Rightarrow> NoReturn st))"

text \<open>The count of the loop is the length of the text, of which each turn takes a separator.\<close>

fun print_items :: "nat \<Rightarrow> nat \<Rightarrow> string \<Rightarrow> bst \<Rightarrow> step" where
  "print_items n d s st =
     print_item d (\<lambda>s st.
       let s = b_skip_spaces s in
       if cur s = CHR '','' \<or> cur s = CHR '';'' then
         let st = (if cur s = CHR '','' then write_out '' '' st else st); s' = b_skip_spaces (tl s) in
         if s' = [] then next_line (if cur s = CHR '';'' then st else write_out [CHR 0x0A] st)
         else (case n of 0 \<Rightarrow> NoReturn st | Suc n \<Rightarrow> print_items n d s' st)
       else next_line (write_out [CHR 0x0A] st)) (b_skip_spaces s) st"

definition stmt_print :: "nat \<Rightarrow> string \<Rightarrow> bst \<Rightarrow> step" where
  "stmt_print d s st =
     (let s = b_skip_spaces s in
      if s = [] then next_line (write_out [CHR 0x0A] st) else print_items (length s) d s st)"

section \<open>Assignment\<close>

definition set_var :: "nat \<Rightarrow> i32 \<Rightarrow> bst \<Rightarrow> bst" where
  "set_var idx v st = st\<lparr>vars := (vars st)(idx := v)\<rparr>"

definition set_str :: "nat \<Rightarrow> string \<Rightarrow> bst \<Rightarrow> bst" where
  "set_str idx v st = st\<lparr>str_vars := (str_vars st)(idx := b_copy_string v BASIC_MAX_STRING_LEN)\<rparr>"

text \<open>Text to a number that must take all of it.\<close>

definition number_text :: "string \<Rightarrow> string \<Rightarrow> nat \<Rightarrow> string \<Rightarrow> bst \<Rightarrow> (i32 \<Rightarrow> bst \<Rightarrow> step) \<Rightarrow> step" where
  "number_text parse_msg trail_msg d t st k =
     eval_or parse_msg (b_parse_expr d t st) (\<lambda>v tp st. need trail_msg st (b_skip_spaces tp = []) (k v st))"

fun read_items :: "nat \<Rightarrow> nat \<Rightarrow> basic_line list \<Rightarrow> string \<Rightarrow> bst \<Rightarrow> step" where
  "read_items n d ls s st =
     get_or ''READ var parse error'' st (b_parse_var_ref s) (\<lambda>(idx, is_string_var, s).
     get_or ''READ out of DATA'' st (b_read_next_data_item ls st) (\<lambda>(tok, tok_is_string, st).
       let go_on = (\<lambda>st.
         let s = b_skip_spaces s in
         if cur s \<noteq> CHR '','' then next_line st
         else (case n of 0 \<Rightarrow> NoReturn st | Suc n \<Rightarrow> read_items n d ls (b_skip_spaces (tl s)) st)) in
       if is_string_var then go_on (set_str idx tok st)
       else need ''READ type mismatch (string -> number)'' st (\<not> tok_is_string)
         (number_text ''READ numeric parse error'' ''READ numeric trailing text'' d tok st (\<lambda>v st. go_on (set_var idx v st)))))"

definition stmt_read :: "nat \<Rightarrow> basic_line list \<Rightarrow> string \<Rightarrow> bst \<Rightarrow> step" where
  "stmt_read d ls s st = read_items (length s) d ls (b_skip_spaces s) st"

definition stmt_restore :: "basic_line list \<Rightarrow> string \<Rightarrow> bst \<Rightarrow> step" where
  "stmt_restore ls s st =
     (let s = b_skip_spaces s in
      get_or ''RESTORE label parse error'' st (if s = [] then Some (-1) else map_option fst (b_parse_int s)) (\<lambda>l.
      get_or ''RESTORE label not found'' st (b_data_reset_cursor ls l) (\<lambda>i. next_line (st\<lparr>data_line := i, data_offset := 0\<rparr>))))"

definition make_array :: "nat \<Rightarrow> i32 \<Rightarrow> bst \<Rightarrow> bst" where
  "make_array idx sz st =
     st\<lparr>array_sizes := (array_sizes st)(idx := sz + 1),
        arrays := (arrays st)(idx := \<lambda>j. if j < unat sz + 1 then 0 else arrays st idx j)\<rparr>"

fun dim_items :: "nat \<Rightarrow> nat \<Rightarrow> string \<Rightarrow> bst \<Rightarrow> step" where
  "dim_items n d s st =
     get_or ''DIM var parse error'' st (b_parse_var s) (\<lambda>(idx, s).
     get_or (''DIM missing '' @ quoted CHR ''('') st (expect CHR ''('' s) (\<lambda>s.
     eval_or ''DIM size parse error'' (b_parse_expr d s st) (\<lambda>sz s st.
     get_or (''DIM missing '' @ quoted CHR '')'') st (expect CHR '')'' s) (\<lambda>s.
     need ''DIM size out of range'' st (\<not> (sz <s 0 \<or> BASIC_ARRAY_MAX \<le>s sz))
       (let st = make_array idx sz st; s = b_skip_spaces s in
        if cur s \<noteq> CHR '','' then next_line st
        else (case n of 0 \<Rightarrow> NoReturn st | Suc n \<Rightarrow> dim_items n d (tl s) st))))))"

definition stmt_dim :: "nat \<Rightarrow> string \<Rightarrow> bst \<Rightarrow> step" where
  "stmt_dim d s st = dim_items (length s) d (b_skip_spaces s) st"

text \<open>What follows the sign of equality in LET and in an assignment without it; \<open>w\<close> is the word the messages
  begin with. A negative \<open>arr_index\<close> means that there is none.\<close>

definition string_value :: "string \<Rightarrow> string \<Rightarrow> bst \<Rightarrow> (string \<Rightarrow> step) \<Rightarrow> step" where
  "string_value w s st k =
     (let s = b_skip_spaces s in
      if cur s = CHR 0x22 then
        get_or (w @ '' string literal error'') st (b_parse_string_literal s BASIC_MAX_STRING_LEN) (\<lambda>(lit, _). k lit)
      else if b_is_alpha (cur s) then
        (case b_parse_var_ref s of
           Some (src_idx, True, _) \<Rightarrow> k (b_copy_string (str_vars st src_idx) BASIC_MAX_STRING_LEN)
         | _ \<Rightarrow> RtErr (w @ '' string value error'') st)
      else RtErr (w @ '' string value error'') st)"

definition assign_value :: "string \<Rightarrow> nat \<Rightarrow> nat \<Rightarrow> bool \<Rightarrow> i32 \<Rightarrow> string \<Rightarrow> bst \<Rightarrow> step" where
  "assign_value w d idx is_string arr_index s st =
     (if is_string then string_value w s st (\<lambda>v. next_line (set_str idx v st))
      else eval_or (w @ '' value error'') (b_parse_expr d s st) (\<lambda>v s st.
        if 0 \<le>s arr_index then get_or (w @ '' array index out of range'') st (b_array_set idx arr_index v st) next_line
        else next_line (set_var idx v st)))"

text \<open>The index in parentheses, or -1.\<close>

definition array_index :: "string \<Rightarrow> nat \<Rightarrow> bool \<Rightarrow> string \<Rightarrow> bst \<Rightarrow> (i32 \<Rightarrow> string \<Rightarrow> bst \<Rightarrow> step) \<Rightarrow> step" where
  "array_index w d is_string s st k =
     (let s = b_skip_spaces s in
      if \<not> is_string \<and> cur s = CHR ''('' then
        eval_or (w @ '' array index parse error'') (b_parse_expr d (tl s) st) (\<lambda>i s st.
        get_or (w @ '' array missing '' @ quoted CHR '')'') st (expect CHR '')'' s) (\<lambda>s. k i (b_skip_spaces s) st))
      else k (-1) s st)"

definition stmt_let :: "nat \<Rightarrow> string \<Rightarrow> bst \<Rightarrow> step" where
  "stmt_let d s st =
     get_or ''LET var error'' st (b_parse_var_ref s) (\<lambda>(idx, is_string, s).
     array_index ''LET'' d is_string s st (\<lambda>arr_index s st.
     get_or (''LET missing '' @ quoted CHR ''='') st (expect CHR ''='' s) (\<lambda>s.
     assign_value ''LET'' d idx is_string arr_index s st)))"

text \<open>The statement of last resort.\<close>

definition stmt_assign :: "nat \<Rightarrow> string \<Rightarrow> bst \<Rightarrow> step" where
  "stmt_assign d s st =
     (case b_parse_var_ref s of
        None \<Rightarrow> RtErr ''unknown statement'' st
      | Some (idx, is_string, s) \<Rightarrow>
          array_index ''assignment'' d is_string s st (\<lambda>arr_index s st.
            if cur s = CHR ''='' then assign_value ''assignment'' d idx is_string arr_index (tl s) st
            else RtErr ''unknown statement'' st))"

section \<open>INPUT\<close>

text \<open>\<open>terminal_read_line\<close> with a buffer of 96 characters.\<close>

definition terminal_read_line :: "bst \<Rightarrow> string option \<times> bst" where
  "terminal_read_line st =
     (case term_in st of [] \<Rightarrow> (None, st) | a # as \<Rightarrow> (map_option (take 95) a, st\<lparr>term_in := as\<rparr>))"

definition input_value :: "nat \<Rightarrow> nat \<Rightarrow> bool \<Rightarrow> string \<Rightarrow> bst \<Rightarrow> step" where
  "input_value d idx is_string inbuf st =
     (if is_string then
        if cur inbuf = CHR 0x22 then
          get_or ''INPUT string parse error'' st (b_parse_string_literal inbuf BASIC_MAX_STRING_LEN) (\<lambda>(v, _). next_line (set_str idx v st))
        else next_line (set_str idx inbuf st)
      else number_text ''INPUT number parse error'' ''INPUT trailing text'' d inbuf st (\<lambda>v st. next_line (set_var idx v st)))"

definition stmt_input :: "nat \<Rightarrow> string \<Rightarrow> bst \<Rightarrow> step" where
  "stmt_input d s st =
     (let s = b_skip_spaces s in
      get_or ''INPUT prompt error'' st
        (if cur s = CHR 0x22 then
           map_option (\<lambda>(p, s). let s = b_skip_spaces s in (p, if cur s = CHR '';'' \<or> cur s = CHR '','' then tl s else s))
             (b_parse_string_literal s BASIC_MAX_STRING_LEN)
         else Some ([], s)) (\<lambda>(prompt, s).
      get_or ''INPUT var error'' st (b_parse_var_ref s) (\<lambda>(idx, is_string, _).
      case terminal_read_line (write_out (if prompt \<noteq> [] then prompt else ''? '') st) of (a, st) \<Rightarrow>
      get_or ''INPUT read error'' st a (\<lambda>inbuf. input_value d idx is_string (b_trim_spaces inbuf) st))))"

section \<open>Loops\<close>

text \<open>Whether the loop's variable has passed its end.\<close>

definition for_passed :: "i32 \<Rightarrow> i32 \<Rightarrow> i32 \<Rightarrow> bool" where
  "for_passed step_v v end_v = ((0 <s step_v \<and> end_v <s v) \<or> (step_v <s 0 \<and> v <s end_v))"

text \<open>Entering the loop, or skipping it, and the part of the statement from STEP on.\<close>

definition for_enter :: "basic_line list \<Rightarrow> nat \<Rightarrow> i32 \<Rightarrow> i32 \<Rightarrow> i32 \<Rightarrow> bst \<Rightarrow> step" where
  "for_enter ls idx start_v end_v step_v st =
     (let st = set_var idx start_v st in
      if for_passed step_v start_v end_v then
        get_or ''FOR missing NEXT'' st (b_find_matching_next ls (pc st)) (\<lambda>i. Next (st\<lparr>pc := i + 1\<rparr>))
      else need ''FOR stack overflow'' st (length (for_stack st) < 16)
        (next_line (st\<lparr>for_stack := \<lparr>ff_var = idx, ff_end = end_v, ff_step = step_v, ff_body_pc = pc st + 1\<rparr> # for_stack st\<rparr>)))"

definition for_from_step :: "nat \<Rightarrow> basic_line list \<Rightarrow> nat \<Rightarrow> i32 \<Rightarrow> i32 \<Rightarrow> string \<Rightarrow> bst \<Rightarrow> step" where
  "for_from_step d ls idx start_v end_v s st =
     eval_or ''FOR STEP parse error''
       (if b_starts_with_ci s ''STEP'' then b_parse_expr d (b_skip_spaces (drop 4 s)) st else (Val 1 s, st)) (\<lambda>step_v s st.
     need ''FOR STEP cannot be zero'' st (step_v \<noteq> 0) (for_enter ls idx start_v end_v step_v st))"

definition stmt_for :: "nat \<Rightarrow> basic_line list \<Rightarrow> string \<Rightarrow> bst \<Rightarrow> step" where
  "stmt_for d ls s st =
     get_or ''FOR var error'' st (b_parse_var s) (\<lambda>(idx, s).
     get_or (''FOR missing '' @ quoted CHR ''='') st (expect CHR ''='' s) (\<lambda>s.
     eval_or ''FOR start value error'' (b_parse_expr d s st) (\<lambda>start_v s st.
     need ''FOR missing TO'' st (b_starts_with_ci (b_skip_spaces s) ''TO'')
     (eval_or ''FOR end value error'' (b_parse_expr d (b_skip_spaces (drop 2 (b_skip_spaces s))) st) (\<lambda>end_v s.
       for_from_step d ls idx start_v end_v (b_skip_spaces s))))))"

definition stmt_next :: "string \<Rightarrow> bst \<Rightarrow> step" where
  "stmt_next s st =
     (let s = b_skip_spaces s in
      get_or ''NEXT var parse error'' st (if b_is_alpha (cur s) then map_option (\<lambda>(i, _). Some i) (b_parse_var s) else Some None) (\<lambda>var.
      case for_stack st of
        [] \<Rightarrow> RtErr ''NEXT without FOR'' st
      | f # fs \<Rightarrow>
          need ''NEXT var mismatch'' st (var = None \<or> var = Some (ff_var f))
          (let v = vars st (ff_var f) + ff_step f; st = set_var (ff_var f) v st in
           if (0 <s ff_step f \<and> v \<le>s ff_end f) \<or> (ff_step f <s 0 \<and> ff_end f \<le>s v)
           then Next (st\<lparr>pc := ff_body_pc f\<rparr>)
           else next_line (st\<lparr>for_stack := fs\<rparr>))))"

definition stmt_while :: "nat \<Rightarrow> basic_line list \<Rightarrow> string \<Rightarrow> bst \<Rightarrow> step" where
  "stmt_while d ls s st =
     eval_or ''WHILE condition error'' (b_parse_expr d (b_skip_spaces s) st) (\<lambda>cond s st.
       if cond \<noteq> 0 then
         need ''WHILE nested too deep'' st (length (while_stack st) < 16) (next_line (st\<lparr>while_stack := pc st # while_stack st\<rparr>))
       else get_or ''WHILE without WEND'' st (b_find_matching_wend ls (pc st)) (\<lambda>i. Next (st\<lparr>pc := i + 1\<rparr>)))"

definition stmt_wend :: "nat \<Rightarrow> basic_line list \<Rightarrow> bst \<Rightarrow> step" where
  "stmt_wend d ls st =
     (case while_stack st of
        [] \<Rightarrow> RtErr ''WEND without WHILE'' st
      | w # ws \<Rightarrow>
          eval_or ''WEND condition re-eval error''
            (b_parse_expr d (b_skip_spaces (drop 5 (b_statement_start (line_text (ls ! w))))) st) (\<lambda>cond s st.
          if cond \<noteq> 0 then Next (st\<lparr>pc := w + 1\<rparr>) else next_line (st\<lparr>while_stack := ws\<rparr>)))"

section \<open>Functions\<close>

text \<open>\<open>DEF FNx(p) = body\<close>: letter, parameter and body.\<close>

definition parse_def :: "string \<Rightarrow> bst \<Rightarrow> (def_fn \<Rightarrow> step) \<Rightarrow> step" where
  "parse_def s st k =
     (let s = b_skip_spaces s in
      need ''DEF FN syntax error'' st (b_up (cur s) = CHR ''F'' \<and> b_up (nxt 1 s) = CHR ''N'' \<and> b_is_alpha (nxt 2 s))
      (get_or ''DEF FN missing ('' st (expect CHR ''('' (drop 3 s)) (\<lambda>s1.
       let s1 = b_skip_spaces s1 in
       need ''DEF FN missing param'' st (b_is_alpha (cur s1))
       (get_or ''DEF FN missing )'' st (expect CHR '')'' (tl s1)) (\<lambda>s2.
        get_or ''DEF FN missing ='' st (expect CHR ''='' s2) (\<lambda>s3.
        k \<lparr>fn_letter = var_index (nxt 2 s), param_var = var_index (cur s1), fn_body = take 127 (b_skip_spaces s3)\<rparr>)))))) "

fun replace_fn :: "def_fn \<Rightarrow> def_fn list \<Rightarrow> def_fn list" where
  "replace_fn f [] = [f]"
| "replace_fn f (g # gs) = (if fn_letter g = fn_letter f then f # gs else g # replace_fn f gs)"

definition stmt_def :: "string \<Rightarrow> bst \<Rightarrow> step" where
  "stmt_def s st =
     parse_def s st (\<lambda>f.
       need ''Too many DEF FN'' st (lookup_fn (fn_letter f) (def_fns st) \<noteq> None \<or> length (def_fns st) < 16)
         (next_line (st\<lparr>def_fns := replace_fn f (def_fns st)\<rparr>)))"

section \<open>Arithmetic statements\<close>

datatype arith = A_Add | A_Sub | A_Mul | A_Div | A_Mod

fun arith_name :: "arith \<Rightarrow> string" where
  "arith_name A_Add = ''ADD''" | "arith_name A_Sub = ''SUB''" | "arith_name A_Mul = ''MUL''" | "arith_name A_Div = ''DIV''"
| "arith_name A_Mod = ''MOD''"

definition stmt_arith :: "arith \<Rightarrow> nat \<Rightarrow> string \<Rightarrow> bst \<Rightarrow> step" where
  "stmt_arith a d s st =
     get_or (arith_name a @ '' parse error'') st (b_parse_var s) (\<lambda>(idx, s).
     eval_or (arith_name a @ '' parse error'') (b_parse_expr d s st) (\<lambda>v s st.
       let x = vars st idx in
       case a of
         A_Add \<Rightarrow> next_line (set_var idx (x + v) st)
       | A_Sub \<Rightarrow> next_line (set_var idx (x - v) st)
       | A_Mul \<Rightarrow> next_line (set_var idx (x * v) st)
       | A_Div \<Rightarrow> need ''DIV by zero'' st (v \<noteq> 0) (if div_traps x v then Crash st else next_line (set_var idx (i32_div x v) st))
       | A_Mod \<Rightarrow> need ''MOD by zero'' st (v \<noteq> 0) (if div_traps x v then Crash st else next_line (set_var idx (i32_mod x v) st))))"

section \<open>Jumps\<close>

definition stmt_goto :: "basic_line list \<Rightarrow> string \<Rightarrow> bst \<Rightarrow> step" where
  "stmt_goto ls s st =
     get_or ''GOTO parse error'' st (b_parse_int s) (\<lambda>(l, _).
     get_or ''GOTO label not found'' st (b_find_label ls l) (\<lambda>i. Next (st\<lparr>pc := i\<rparr>)))"

definition push_call :: "string \<Rightarrow> nat \<Rightarrow> bst \<Rightarrow> step" where
  "push_call msg target st =
     need msg st (length (call_stack st) < 32) (Next (st\<lparr>call_stack := (pc st + 1) # call_stack st, pc := target\<rparr>))"

definition stmt_gosub :: "basic_line list \<Rightarrow> string \<Rightarrow> bst \<Rightarrow> step" where
  "stmt_gosub ls s st =
     get_or ''GOSUB parse error'' st (b_parse_int s) (\<lambda>(l, _).
     get_or ''GOSUB label not found'' st (b_find_label ls l) (\<lambda>i. push_call ''GOSUB stack overflow'' i st))"

definition stmt_return :: "bst \<Rightarrow> step" where
  "stmt_return st =
     (case call_stack st of [] \<Rightarrow> RtErr ''RETURN without GOSUB'' st | p # ps \<Rightarrow> Next (st\<lparr>pc := p, call_stack := ps\<rparr>))"

text \<open>The jump to the label picked from the list.\<close>

definition on_jump :: "basic_line list \<Rightarrow> i32 \<Rightarrow> bool \<Rightarrow> string \<Rightarrow> bst \<Rightarrow> step" where
  "on_jump ls selector do_gosub s st =
     (if selector \<le>s 0 then next_line st
      else case b_parse_label_list_pick (unat selector) s of
        None \<Rightarrow> next_line st
      | Some l \<Rightarrow> get_or ''ON target label not found'' st (b_find_label ls l) (\<lambda>i.
          if do_gosub then push_call ''ON GOSUB stack overflow'' i st else Next (st\<lparr>pc := i\<rparr>)))"

definition stmt_on :: "nat \<Rightarrow> basic_line list \<Rightarrow> string \<Rightarrow> bst \<Rightarrow> step" where
  "stmt_on d ls s st =
     eval_or ''ON selector parse error'' (b_parse_expr d (b_skip_spaces s) st) (\<lambda>selector s st.
       let s = b_skip_spaces s in
       get_or ''ON missing GOTO/GOSUB'' st
         (if b_starts_with_ci s ''GOTO'' then Some (False, b_skip_spaces (drop 4 s))
          else if b_starts_with_ci s ''GOSUB'' then Some (True, b_skip_spaces (drop 5 s)) else None)
         (\<lambda>(do_gosub, s). on_jump ls selector do_gosub s st))"

datatype b_cmp_op = B_CMP_EQ | B_CMP_NE | B_CMP_LT | B_CMP_LE | B_CMP_GT | B_CMP_GE

definition cmp_op :: "string \<Rightarrow> (b_cmp_op \<times> string) option" where
  "cmp_op s =
     (let a = cur s; b = nxt 1 s in
      if a = CHR ''='' \<and> b = CHR ''='' then Some (B_CMP_EQ, drop 2 s)
      else if a = CHR ''='' then Some (B_CMP_EQ, drop 1 s)
      else if a = CHR ''!'' \<and> b = CHR ''='' then Some (B_CMP_NE, drop 2 s)
      else if a = CHR ''<'' \<and> b = CHR ''>'' then Some (B_CMP_NE, drop 2 s)
      else if a = CHR ''>'' \<and> b = CHR ''='' then Some (B_CMP_GE, drop 2 s)
      else if a = CHR ''<'' \<and> b = CHR ''='' then Some (B_CMP_LE, drop 2 s)
      else if a = CHR ''>'' then Some (B_CMP_GT, drop 1 s)
      else if a = CHR ''<'' then Some (B_CMP_LT, drop 1 s)
      else None)"

fun cmp_holds :: "b_cmp_op \<Rightarrow> i32 \<Rightarrow> i32 \<Rightarrow> bool" where
  "cmp_holds B_CMP_EQ a b = (a = b)"
| "cmp_holds B_CMP_NE a b = (a \<noteq> b)"
| "cmp_holds B_CMP_LT a b = (a <s b)"
| "cmp_holds B_CMP_LE a b = (a \<le>s b)"
| "cmp_holds B_CMP_GT a b = (b <s a)"
| "cmp_holds B_CMP_GE a b = (b \<le>s a)"

text \<open>What follows the second operand.\<close>

definition if_then :: "basic_line list \<Rightarrow> bool \<Rightarrow> string \<Rightarrow> bst \<Rightarrow> step" where
  "if_then ls cond s st =
     need ''IF missing THEN'' st (b_starts_with_ci s ''THEN'')
     (get_or ''IF THEN label error'' st (b_parse_int (drop 4 s)) (\<lambda>(l, _).
      if cond then get_or ''IF target label not found'' st (b_find_label ls l) (\<lambda>i. Next (st\<lparr>pc := i\<rparr>))
      else next_line st))"

definition stmt_if :: "nat \<Rightarrow> basic_line list \<Rightarrow> string \<Rightarrow> bst \<Rightarrow> step" where
  "stmt_if d ls s st =
     eval_or ''IF lhs error'' (b_parse_expr d (b_skip_spaces s) st) (\<lambda>lhs s st.
     get_or ''IF operator error'' st (cmp_op (b_skip_spaces s)) (\<lambda>(cmp, s).
     eval_or ''IF rhs error'' (b_parse_expr d s st) (\<lambda>rhs s. if_then ls (cmp_holds cmp lhs rhs) (b_skip_spaces s))))"

end
