(* ===== verification/Basic_File.thy ===== *)
theory Basic_File
  imports Basic_Run
begin

text \<open>
  The file statements of the BASIC interpreter and \<open>basic_run\<close> itself, \<open>src/kernel/basic.c\<close>. Files are those of the
  RAM file system; a call of it that does not return is a run that does not.
\<close>

section \<open>Files\<close>

definition upd_file :: "nat \<Rightarrow> (file_chan \<Rightarrow> file_chan) \<Rightarrow> bst \<Rightarrow> bst" where
  "upd_file i f st = st\<lparr>b_files := (b_files st)[i := f (b_files st ! i)]\<rparr>"

definition fs_step :: "'a option \<Rightarrow> bst \<Rightarrow> ('a \<Rightarrow> step) \<Rightarrow> step" where
  "fs_step m st k = (case m of None \<Rightarrow> NoReturn st | Some a \<Rightarrow> k a)"

text \<open>A file number from 1 to 4, as an index.\<close>

definition file_index :: "string \<Rightarrow> string \<Rightarrow> nat \<Rightarrow> string \<Rightarrow> bst \<Rightarrow> (nat \<Rightarrow> string \<Rightarrow> bst \<Rightarrow> step) \<Rightarrow> step" where
  "file_index num_msg range_msg d s st k =
     eval_or num_msg (b_parse_expr d s st) (\<lambda>fnum s st.
     need range_msg st (\<not> (fnum <s 1 \<or> BASIC_MAX_FILES <s fnum)) (k (unat fnum - 1) s st))"

definition open_mode :: "string \<Rightarrow> (nat \<times> string) option" where
  "open_mode s =
     (if b_starts_with_ci s ''FOR'' then
        let s = b_skip_spaces (drop 3 s) in
        if b_starts_with_ci s ''INPUT'' then Some (0, drop 5 s)
        else if b_starts_with_ci s ''OUTPUT'' then Some (1, drop 6 s)
        else if b_starts_with_ci s ''APPEND'' then Some (2, drop 6 s)
        else None
      else Some (0, s))"

definition open_file :: "string \<Rightarrow> nat \<Rightarrow> nat \<Rightarrow> bst \<Rightarrow> step" where
  "open_file fname mode i st =
     need ''OPEN file already open'' st (\<not> fc_active (b_files st ! i))
     (let st = upd_file i (\<lambda>_. \<lparr>fc_active = True, fc_mode = mode, fc_path = take 63 fname, fc_buf = [], fc_pos = 0\<rparr>) st in
      if mode = 0 then
        fs_step (fs_read_file (bfs st) (Some fname) True 8191 True) st (\<lambda>(rc, data, n).
          if rc \<noteq> 0 then RtErr ''OPEN cannot read file'' (upd_file i (\<lambda>f. f\<lparr>fc_active := False\<rparr>) st)
          else next_line (upd_file i (\<lambda>f. f\<lparr>fc_buf := data\<rparr>) st))
      else if mode = 2 then
        fs_step (fs_read_file (bfs st) (Some fname) True 8191 True) st (\<lambda>(rc, data, n).
          next_line (if rc = 0 then upd_file i (\<lambda>f. f\<lparr>fc_buf := data, fc_pos := length data\<rparr>) st else st))
      else next_line st)"

definition stmt_open :: "nat \<Rightarrow> string \<Rightarrow> bst \<Rightarrow> step" where
  "stmt_open d s st =
     get_or ''OPEN filename error'' st (b_parse_string_literal s 64) (\<lambda>(fname, s).
     get_or ''OPEN mode error'' st (open_mode (b_skip_spaces s)) (\<lambda>(mode, s).
     let s = b_skip_spaces s;
         s = (if b_starts_with_ci s ''AS'' then b_skip_spaces (drop 2 s) else s) in
     need ''OPEN missing #'' st (cur s = CHR ''#'')
     (file_index ''OPEN file number error'' ''OPEN file number out of range (1-4)'' d (tl s) st (\<lambda>i _. open_file fname mode i))))"

text \<open>Writing the buffer of an output channel to its file; the answer of the file system is not looked at.\<close>

definition flush_file :: "nat \<Rightarrow> bst \<Rightarrow> bst option" where
  "flush_file i st =
     (let f = b_files st ! i in
      if fc_mode f = 1 \<or> fc_mode f = 2 then
        map_option (\<lambda>(_, fs'). st\<lparr>bfs := fs'\<rparr>)
          (fs_write_file (bfs st) (Some (fc_path f)) (Some (\<lambda>k. if k < length (fc_buf f) then fc_buf f ! k else 0)) (length (fc_buf f)))
      else Some st)"

definition close_file :: "nat \<Rightarrow> bst \<Rightarrow> bst option" where
  "close_file i st = map_option (upd_file i (\<lambda>f. f\<lparr>fc_active := False\<rparr>)) (flush_file i st)"

definition stmt_close :: "nat \<Rightarrow> string \<Rightarrow> bst \<Rightarrow> step" where
  "stmt_close d s st =
     (let s = b_skip_spaces s in
      need ''CLOSE missing #'' st (cur s = CHR ''#'')
      (file_index ''CLOSE file number error'' ''CLOSE file number out of range'' d (tl s) st (\<lambda>i _ st.
       need ''CLOSE file not open'' st (fc_active (b_files st ! i)) (fs_step (close_file i st) st next_line))))"

text \<open>The items of PRINT #, gathered in \<open>out_buf\<close> of 256 characters. An item that does not parse ends them.\<close>

definition gather :: "string \<Rightarrow> string \<Rightarrow> string" where
  "gather out src = out @ take (255 - length out) src"

definition hash_item :: "nat \<Rightarrow> string eval" where
  "hash_item d s st =
     (if cur s = CHR 0x22 then
        (case b_parse_string_literal s BASIC_MAX_STRING_LEN of None \<Rightarrow> (Fail, st) | Some (lit, s) \<Rightarrow> (Val lit s, st))
      else (case (if b_is_alpha (cur s) \<and> (nxt 1 s = CHR ''$'' \<or> \<not> b_is_ident_tail (nxt 1 s)) then b_parse_var_ref s else None) of
              Some (idx, True, s) \<Rightarrow> (Val (str_vars st idx) s, st)
            | _ \<Rightarrow> andthen (b_parse_expr d s st) (\<lambda>v s st. (Val (b_int_to_text v 16) s, st))))"

fun hash_items :: "nat \<Rightarrow> nat \<Rightarrow> string \<Rightarrow> string \<Rightarrow> bst \<Rightarrow> (string \<Rightarrow> bst \<Rightarrow> step) \<Rightarrow> step" where
  "hash_items n d out s st k =
     (if s = [] \<or> length out + 1 \<ge> 256 then k out st
      else (case hash_item d s st of
              (Fail, st) \<Rightarrow> k out st
            | (Trap, st) \<Rightarrow> Crash st
            | (Deep, st) \<Rightarrow> NoReturn st
            | (Val item s, st) \<Rightarrow>
                let out = gather out item; s = b_skip_spaces s in
                if cur s = CHR '';'' \<or> cur s = CHR '','' then
                  (case n of 0 \<Rightarrow> NoReturn st
                   | Suc n \<Rightarrow> hash_items n d (if cur s = CHR '','' then out @ [CHR 0x09] else out) (b_skip_spaces (tl s)) st k)
                else k out st))"

definition stmt_print_hash :: "nat \<Rightarrow> string \<Rightarrow> bst \<Rightarrow> step" where
  "stmt_print_hash d s st =
     file_index ''PRINT# file number error'' ''PRINT# file number out of range'' d (tl (b_skip_spaces s)) st (\<lambda>i s st.
     need ''PRINT# file not open for output'' st (fc_active (b_files st ! i) \<and> fc_mode (b_files st ! i) \<noteq> 0)
     (let s = b_skip_spaces s; s = b_skip_spaces (if cur s = CHR '','' then tl s else s) in
      hash_items (length s) d [] s st (\<lambda>out st.
        next_line (upd_file i (\<lambda>f. f\<lparr>fc_buf := take 8191 (fc_buf f @ map byte_of_char (out @ [CHR 0x0A]))\<rparr>) st))))"

text \<open>A line of the buffer, without carriage returns, at most 95 characters: the line and the position behind it.\<close>

fun buffer_line :: "u8 list \<Rightarrow> string \<Rightarrow> string \<times> u8 list" where
  "buffer_line [] line = (line, [])"
| "buffer_line (b # bs) line =
     (if b \<noteq> 0x0A \<and> length line + 1 < 96 then buffer_line bs (if b \<noteq> 0x0D then line @ [char_of_byte b] else line)
      else (line, b # bs))"

definition stmt_input_hash :: "nat \<Rightarrow> string \<Rightarrow> bst \<Rightarrow> step" where
  "stmt_input_hash d s st =
     file_index ''INPUT# file number error'' ''INPUT# file number out of range'' d (tl (b_skip_spaces s)) st (\<lambda>i s st.
     need ''INPUT# file not open for input'' st (fc_active (b_files st ! i) \<and> fc_mode (b_files st ! i) = 0)
     (let s = b_skip_spaces s; s = b_skip_spaces (if cur s = CHR '','' then tl s else s) in
      get_or ''INPUT# variable error'' st (b_parse_var_ref s) (\<lambda>(idx, is_str, _).
      let f = b_files st ! i in
      case buffer_line (drop (fc_pos f) (fc_buf f)) [] of (line, rest) \<Rightarrow>
        let rest = (case rest of b # bs \<Rightarrow> if b = 0x0A then bs else rest | [] \<Rightarrow> []);
            st = upd_file i (\<lambda>f. f\<lparr>fc_pos := length (fc_buf f) - length rest\<rparr>) st;
            line = takeWhile (\<lambda>c. c \<noteq> CHR 0x00) line in
        if is_str then next_line (set_str idx line st)
        else eval_or ''INPUT# numeric parse error'' (b_parse_expr d line st) (\<lambda>v _ st. next_line (set_var idx v st)))))"

section \<open>One line\<close>

definition reset_run :: "bst \<Rightarrow> bst" where
  "reset_run st = st\<lparr>vars := \<lambda>_. 0, str_vars := \<lambda>_. [], arrays := \<lambda>_ _. 0, array_sizes := \<lambda>_. 0,
     call_stack := [], for_stack := [], data_line := 0, data_offset := 0, pc := 0\<rparr>"

definition list_lines :: "basic_line list \<Rightarrow> string" where
  "list_lines ls = concat (map (\<lambda>l. line_text l @ [CHR 0x0A]) ls)"

text \<open>The statement at the front of \<open>s\<close>. The clearing of the screen leaves no trace in \<open>term_out\<close>.\<close>

definition basic_statement :: "nat \<Rightarrow> basic_line list \<Rightarrow> string \<Rightarrow> bst \<Rightarrow> step" where
  "basic_statement d ls s st =
     (let kw = b_starts_with_ci s in
      if s = [] \<or> cur s = CHR ''#'' then next_line st
      else if kw ''REM'' then next_line st
      else if kw ''END'' \<or> kw ''STOP'' then Finish st
      else if kw ''CLS'' \<or> kw ''CLEAR'' then next_line st
      else if kw ''LIST'' then next_line (write_out (list_lines ls) st)
      else if kw ''RUN'' then Next (reset_run st)
      else if kw ''PRINT'' then stmt_print d (drop 5 s) st
      else if kw ''DATA'' then next_line st
      else if kw ''READ'' then stmt_read d ls (drop 4 s) st
      else if kw ''RESTORE'' then stmt_restore ls (drop 7 s) st
      else if kw ''DIM'' then stmt_dim d (drop 3 s) st
      else if kw ''LET'' then stmt_let d (drop 3 s) st
      else if kw ''INPUT'' then stmt_input d (drop 5 s) st
      else if kw ''FOR'' then stmt_for d ls (drop 3 s) st
      else if kw ''NEXT'' then stmt_next (drop 4 s) st
      else if kw ''WHILE'' \<and> b_is_space (nxt 5 s) then stmt_while d ls (drop 5 s) st
      else if kw ''WEND'' then stmt_wend d ls st
      else if kw ''DEF'' \<and> b_is_space (nxt 3 s) then stmt_def (drop 3 s) st
      else if kw ''ADD'' then stmt_arith A_Add d (drop 3 s) st
      else if kw ''SUB'' then stmt_arith A_Sub d (drop 3 s) st
      else if kw ''MUL'' then stmt_arith A_Mul d (drop 3 s) st
      else if kw ''DIV'' then stmt_arith A_Div d (drop 3 s) st
      else if kw ''MOD'' then stmt_arith A_Mod d (drop 3 s) st
      else if kw ''GOTO'' then stmt_goto ls (drop 4 s) st
      else if kw ''ON'' then stmt_on d ls (drop 2 s) st
      else if kw ''GOSUB'' then stmt_gosub ls (drop 5 s) st
      else if kw ''RETURN'' then stmt_return st
      else if kw ''IF'' then stmt_if d ls (drop 2 s) st
      else if kw ''OPEN'' then stmt_open d (drop 4 s) st
      else if kw ''CLOSE'' then stmt_close d (drop 5 s) st
      else if kw ''PRINT'' \<and> cur (b_skip_spaces (drop 5 s)) = CHR ''#'' then stmt_print_hash d (drop 5 s) st
      else if kw ''INPUT'' \<and> cur (b_skip_spaces (drop 5 s)) = CHR ''#'' then stmt_input_hash d (drop 5 s) st
      else stmt_assign d s st)"

definition basic_step :: "nat \<Rightarrow> basic_line list \<Rightarrow> bst \<Rightarrow> step" where
  "basic_step d ls st = basic_statement d ls (b_statement_start (line_text (ls ! pc st))) st"

section \<open>A run\<close>

fun cut_line :: "string \<Rightarrow> string \<times> string" where
  "cut_line [] = ([], [])"
| "cut_line (c # s) =
     (if c = CHR 0x0D then ([], if cur s = CHR 0x0A then tl s else s)
      else if c = CHR 0x0A then ([], s)
      else case cut_line s of (l, r) \<Rightarrow> (c # l, r))"

definition line_label :: "string \<Rightarrow> i32" where
  "line_label l = (case b_parse_int l of Some (n, q) \<Rightarrow> if b_is_space (cur q) then n else -1 | None \<Rightarrow> -1)"

text \<open>At most 256 lines; the rest of the program is left out.\<close>

fun program_lines :: "nat \<Rightarrow> string \<Rightarrow> basic_line list" where
  "program_lines 0 p = []"
| "program_lines (Suc n) p =
     (if p = [] then []
      else case cut_line p of (l, r) \<Rightarrow> \<lparr>label = line_label l, line_text = l\<rparr> # program_lines n r)"

definition b_runtime_error :: "basic_line list \<Rightarrow> string \<Rightarrow> bst \<Rightarrow> bst" where
  "b_runtime_error ls msg st =
     (let inside = pc st < length ls; l = ls ! pc st in
      write_out (''[basic '' @
        (if inside then if 0 \<le>s label l then ''L'' @ b_print_uint (label l) else ''PC'' @ b_print_uint (of_nat (pc st)) else ''PC?'') @
        ''] '' @ msg @ [CHR 0x0A] @
        (if inside then ''  -> '' @ line_text l @ [CHR 0x0A] else [])) st)"

text \<open>How a run ends: with the answer of \<open>basic_run\<close> and the state, in a trap, or not at all.\<close>

datatype ending = Returns int bst | Crashes bst | Never bst

definition cleanup :: "int \<Rightarrow> bst \<Rightarrow> ending" where
  "cleanup rc st =
     (case fold_option (\<lambda>i st. if fc_active (b_files st ! i) then close_file i st else Some st) [0..<4] st of
        None \<Rightarrow> Never st
      | Some st \<Rightarrow> Returns rc st)"

text \<open>\<open>n\<close> is what is left of \<open>BASIC_MAX_STEPS\<close>, 20000.\<close>

fun run_loop :: "nat \<Rightarrow> basic_line list \<Rightarrow> nat \<Rightarrow> bst \<Rightarrow> ending" where
  "run_loop d ls n st =
     (if pc st < length ls then
        (case n of
           0 \<Rightarrow> cleanup (-1) (b_runtime_error ls ''stopped: too many steps'' st)
         | Suc n \<Rightarrow>
             (case basic_step d ls st of
                Next st \<Rightarrow> run_loop d ls n st
              | Finish st \<Rightarrow> Returns 0 st
              | RtErr msg st \<Rightarrow> cleanup (-1) (b_runtime_error ls msg st)
              | Crash st \<Rightarrow> Crashes st
              | NoReturn st \<Rightarrow> Never st))
      else cleanup 0 st)"

declare run_loop.simps [simp del] print_items.simps [simp del] read_items.simps [simp del] dim_items.simps [simp del]
  hash_items.simps [simp del]

definition start_run :: "bst \<Rightarrow> bst" where
  "start_run st = (reset_run st)\<lparr>while_stack := [], def_fns := [], b_files := map (\<lambda>f. f\<lparr>fc_active := False\<rparr>) (b_files st)\<rparr>"

definition basic_run :: "nat \<Rightarrow> string option \<Rightarrow> bst \<Rightarrow> ending" where
  "basic_run d program_text st =
     (case program_text of
        None \<Rightarrow> Returns (-1) st
      | Some p \<Rightarrow> run_loop d (program_lines 256 p) 20000 (start_run st))"

end
