(* ===== verification/Basic_Pure.thy ===== *)
theory Basic_Pure
  imports Basic_File
begin

text \<open>
  What evaluating an expression does to the interpreter's state, how much text it takes, and how deep its calls
  nest.
\<close>

section \<open>Evaluation changes the random state only\<close>

definition same_but_rand :: "bst \<Rightarrow> bst \<Rightarrow> bool" where
  "same_but_rand st st' = (st' = st\<lparr>rand_state := rand_state st'\<rparr>)"

lemma same_but_rand_refl [simp, intro]: "same_but_rand st st"
  by (simp add: same_but_rand_def)

lemma same_but_rand_trans [trans]:
  assumes "same_but_rand a b" and "same_but_rand b c"
  shows "same_but_rand a c"
proof -
  have "c = (a\<lparr>rand_state := rand_state b\<rparr>)\<lparr>rand_state := rand_state c\<rparr>" using assms unfolding same_but_rand_def by simp
  then show ?thesis by (simp add: same_but_rand_def)
qed

section \<open>Results\<close>

text \<open>A result in state \<open>st\<close> with at most \<open>k\<close> characters left, the value as \<open>Q\<close> says. With \<open>F\<close> there are no user
  functions, and the stack suffices.\<close>

definition res_ok :: "bool \<Rightarrow> ('a \<Rightarrow> bool) \<Rightarrow> nat \<Rightarrow> bst \<Rightarrow> 'a res \<times> bst \<Rightarrow> bool" where
  "res_ok F Q k st r =
     ((F \<longrightarrow> def_fns st = []) \<longrightarrow>
      same_but_rand st (snd r) \<and> (\<forall>a s. fst r = Val a s \<longrightarrow> length s \<le> k \<and> Q a) \<and> (F \<longrightarrow> fst r \<noteq> Deep))"

definition eval_ok :: "bool \<Rightarrow> nat \<Rightarrow> ('a \<Rightarrow> bool) \<Rightarrow> 'a eval \<Rightarrow> bool" where
  "eval_ok F L Q e = (\<forall>s st. length s \<le> L \<longrightarrow> res_ok F Q (length s) st (e s st))"

lemma eval_okD: "eval_ok F L Q e \<Longrightarrow> length s \<le> L \<Longrightarrow> length s \<le> k \<Longrightarrow> res_ok F Q k st (e s st)"
  by (fastforce simp: eval_ok_def res_ok_def)

lemma res_ok_Val [intro!]: "length s \<le> k \<Longrightarrow> Q a \<Longrightarrow> res_ok F Q k st (Val a s, st)"
  by (simp add: res_ok_def)

lemma res_ok_Fail [intro!]: "res_ok F Q k st (Fail, st)" "res_ok F Q k st (Trap, st)"
  by (simp_all add: res_ok_def)

lemma same_but_rand_def_fns: "same_but_rand st st' \<Longrightarrow> def_fns st' = def_fns st"
  unfolding same_but_rand_def by (metis bst.select_convs(6) bst.surjective bst.update_convs(5))

lemma res_ok_andthen:
  assumes "res_ok F P k st m" and "\<And>a s' st'. P a \<Longrightarrow> length s' \<le> k \<Longrightarrow> def_fns st' = def_fns st \<Longrightarrow> res_ok F Q l st' (c a s' st')"
  shows "res_ok F Q l st (andthen m c)"
  unfolding res_ok_def
proof
  assume F: "F \<longrightarrow> def_fns st = []"
  let ?r = "fst m" and ?st = "snd m"
  have sb: "same_but_rand st ?st" and val: "?r = Val a s \<Longrightarrow> length s \<le> k \<and> P a" and nd: "F \<longrightarrow> ?r \<noteq> Deep" for a s
    using assms(1) F by (simp_all add: res_ok_def)
  have d: "def_fns ?st = def_fns st" by (rule same_but_rand_def_fns [OF sb])
  show "same_but_rand st (snd (andthen m c)) \<and> (\<forall>a s. fst (andthen m c) = Val a s \<longrightarrow> length s \<le> l \<and> Q a)
        \<and> (F \<longrightarrow> fst (andthen m c) \<noteq> Deep)"
  proof (cases ?r)
    case (Val a s)
    have "res_ok F Q l ?st (c a s ?st)" using val [OF Val] d by (intro assms(2)) auto
    then have "same_but_rand ?st (snd (c a s ?st)) \<and> (\<forall>a' s'. fst (c a s ?st) = Val a' s' \<longrightarrow> length s' \<le> l \<and> Q a')
        \<and> (F \<longrightarrow> fst (c a s ?st) \<noteq> Deep)" using F d by (simp add: res_ok_def)
    moreover have "andthen m c = c a s ?st" using Val by (cases m) (simp add: andthen_def)
    ultimately show ?thesis using same_but_rand_trans [OF sb] by auto
  qed (use sb nd in \<open>cases m; auto simp: andthen_def\<close>)+
qed

lemma res_ok_if: "res_ok F Q k st x \<Longrightarrow> res_ok F Q k st y \<Longrightarrow> res_ok F Q k st (if b then x else y)"
  by simp

lemma length_skip: "length (b_skip_spaces s) \<le> length s"
  by (rule length_skip_spaces)

lemma cur_nonempty: "cur s = c \<Longrightarrow> c \<noteq> CHR 0x00 \<Longrightarrow> s \<noteq> []"
  by (auto simp: cur_def)

lemma expect_shorter:
  assumes "expect c s = Some s'" and "c \<noteq> CHR 0x00"
  shows "length s' < length s"
proof -
  have "b_skip_spaces s \<noteq> []" "s' = tl (b_skip_spaces s)"
    using assms cur_nonempty [of "b_skip_spaces s" c] by (auto simp: expect_def Let_def split: if_splits)
  then show ?thesis using length_skip [of s] by (cases "b_skip_spaces s") auto
qed

lemma res_ok_expecting:
  assumes "c \<noteq> CHR 0x00" and "\<And>s'. length s' < length s \<Longrightarrow> res_ok F Q k st (e s' st)"
  shows "res_ok F Q k st (expecting c e s st)"
  using assms expect_shorter [of c s] by (auto simp: expecting_def split: option.split)

lemma b_up_cases: "b_up c = c \<or> (65 \<le> code (b_up c) \<and> code (b_up c) \<le> 90 \<and> 97 \<le> code c)"
  by (auto simp: b_up_def code_def)

lemma b_up_nul: "b_up c = CHR 0x00 \<longleftrightarrow> c = CHR 0x00"
  using b_up_cases [of c] by (auto simp: b_up_def code_def)

lemma name_match_length: "b_name_matches_ci s name \<Longrightarrow> CHR 0x00 \<notin> set name \<Longrightarrow> length name \<le> length s"
proof (induction s name rule: b_name_matches_ci.induct)
  case (2 s p name)
  have "b_up (cur s) = b_up p" "p \<noteq> CHR 0x00" using "2.prems" by (auto split: if_splits)
  then have "cur s \<noteq> CHR 0x00" using b_up_nul by metis
  then have "s \<noteq> []" by (auto simp: cur_def)
  with 2 show ?case by (cases s) (auto split: if_splits)
qed simp


lemma call_of_length: "call_of name s \<Longrightarrow> CHR 0x00 \<notin> set name \<Longrightarrow> length name \<le> length s"
  by (simp add: call_of_def name_match_length)

section \<open>The parts of an operand\<close>

lemma paren_ok:
  assumes "\<And>L'. (F \<longrightarrow> L' < L) \<Longrightarrow> eval_ok F L' (\<lambda>_. True) expr" and "F \<longrightarrow> length s \<le> L" and "length s \<le> k"
  shows "res_ok F (\<lambda>_. True) k st (b_parse_builtin_paren_expr expr s st)"
  unfolding b_parse_builtin_paren_expr_def
proof (rule res_ok_expecting)
  fix s1 :: string assume s1: "length s1 < length s"
  have "res_ok F (\<lambda>_. True) (length s1) st (expr s1 st)"
    using assms(1) [of "length s1"] s1 assms(2) by (intro eval_okD [where L = "length s1"]) auto
  then show "res_ok F (\<lambda>_. True) k st (andthen (expr s1 st) (\<lambda>v. expecting CHR '')'' (\<lambda>s st. (Val v s, st))))"
    by (rule res_ok_andthen) (use s1 assms(3) in \<open>auto intro!: res_ok_expecting\<close>)
qed simp

lemma str_arg_ok:
  assumes "\<And>L'. (F \<longrightarrow> L' < L) \<Longrightarrow> eval_ok F L' P strexpr" and "F \<longrightarrow> length s \<le> L"
    and "\<And>a s' st'. P a \<Longrightarrow> length s' < length s \<Longrightarrow> def_fns st' = def_fns st \<Longrightarrow> res_ok F Q k st' (c a s' st')"
  shows "res_ok F Q k st (str_arg strexpr c s st)"
  unfolding str_arg_def
proof (rule res_ok_expecting)
  fix s1 :: string assume s1: "length s1 < length s"
  have "res_ok F P (length s1) st (strexpr s1 st)"
    using assms(1) [of "length s1"] s1 assms(2) by (intro eval_okD [where L = "length s1"]) auto
  then show "res_ok F Q k st (andthen (strexpr s1 st) c)"
    by (rule res_ok_andthen) (use s1 assms(3) in auto)
qed simp

text \<open>An expression behind the first character of the text.\<close>

lemma inner_ok:
  assumes "\<And>L'. (F \<longrightarrow> L' < L) \<Longrightarrow> eval_ok F L' P e" and "F \<longrightarrow> length s < L" and "length s \<le> k"
  shows "res_ok F P k st (e s st)"
  using assms by (intro eval_okD [where L = "length s"]) auto

lemma name_tail_length: "length (name_tail s) \<le> length (tl s)"
  unfolding name_tail_def by (rule length_dropWhile_le)

lemma var_ref_length:
  assumes "b_parse_var_ref s = Some (i, b, s')"
  shows "length s' < length s"
proof -
  let ?s = "b_skip_spaces s"
  have "cur ?s \<noteq> CHR 0x00" using assms by (auto simp: b_parse_var_ref_def Let_def b_is_alpha_def code_def split: if_splits)
  then have ne: "?s \<noteq> []" by (auto simp: cur_def)
  have "length s' \<le> length (name_tail ?s)" using assms by (auto simp: b_parse_var_ref_def Let_def split: if_splits)
  also have "\<dots> \<le> length (tl ?s)" by (rule name_tail_length)
  also have "\<dots> < length ?s" using ne by (cases ?s) auto
  also have "\<dots> \<le> length s" by (rule length_skip)
  finally show ?thesis .
qed

lemma digits_value_length: "digits_value s v = (n, s') \<Longrightarrow> length s' \<le> length s"
  by (induction s arbitrary: v) (fastforce split: if_splits)+

lemma parse_int_length: "b_parse_int s = Some (v, s') \<Longrightarrow> length s' \<le> length s"
proof -
  let ?s = "b_skip_spaces s"
  let ?t = "if cur ?s = CHR ''-'' then tl ?s else ?s"
  assume a: "b_parse_int s = Some (v, s')"
  then have "s' = snd (digits_value ?t 0)" by (auto simp: b_parse_int_def Let_def split: if_splits prod.splits)
  then have "length s' \<le> length ?t" using digits_value_length [of ?t 0 "fst (digits_value ?t 0)"] by simp
  also have "\<dots> \<le> length s" using length_skip [of s] by (cases ?s) auto
  finally show ?thesis .
qed

lemma value_ok:
  assumes "\<And>L'. (F \<longrightarrow> L' < L) \<Longrightarrow> eval_ok F L' (\<lambda>_. True) expr" and "F \<longrightarrow> length s \<le> L" and "length s \<le> k"
  shows "res_ok F (\<lambda>_. True) k st (b_parse_value expr s st)"
proof (cases "b_is_alpha (cur (b_skip_spaces s))")
  case False
  then show ?thesis using parse_int_length [of s] assms(3)
    by (fastforce simp: b_parse_value_def Let_def split: option.split)
next
  case True
  show ?thesis
  proof (cases "b_parse_var_ref (b_skip_spaces s)")
    case None
    with True show ?thesis by (auto simp: b_parse_value_def Let_def)
  next
    case (Some p)
    then obtain idx b s1 where p: "b_parse_var_ref (b_skip_spaces s) = Some (idx, b, s1)" by (cases p) auto
    have l: "length (b_skip_spaces s1) < length s"
      using var_ref_length [OF p] length_skip [of s] length_skip [of s1] by simp
    have arr: "res_ok F (\<lambda>_. True) k st (andthen (expr (tl (b_skip_spaces s1)) st) (\<lambda>pos. expecting CHR '')'' (\<lambda>s st.
                   case b_array_get idx pos st of None \<Rightarrow> (Fail, st) | Some v \<Rightarrow> (Val v s, st))))"
      by (rule res_ok_andthen [OF inner_ok [OF assms(1)]])
        (use l assms(2,3) in \<open>auto intro!: res_ok_expecting split: option.split\<close>)
    show ?thesis using True p arr l assms(3) by (auto simp: b_parse_value_def Let_def)
  qed
qed


abbreviation short :: "string \<Rightarrow> bool" where "short s \<equiv> length s \<le> 95"

lemma rev_digits_length: "length (rev_digits n v) \<le> n"
  by (induction n v rule: rev_digits.induct) auto

lemma int_to_text_short: "short (b_int_to_text v BASIC_MAX_STRING_LEN)"
  by (simp add: b_int_to_text_def)

lemma literal_length:
  assumes "b_parse_string_literal s m = Some (a, s')"
  shows "length a \<le> m - 1 \<and> length s' < length s"
proof -
  let ?s = "b_skip_spaces s"
  have c: "cur ?s = CHR 0x22" using assms by (auto simp: b_parse_string_literal_def Let_def split: if_splits)
  then have "?s \<noteq> []" by (auto simp: cur_def)
  then have "length (tl ?s) < length s" using length_skip [of s] by (cases ?s) auto
  moreover have "length (dropWhile (\<lambda>c. c \<noteq> CHR 0x22) (tl ?s)) \<le> length (tl ?s)" by (rule length_dropWhile_le)
  moreover have "s' = tl (dropWhile (\<lambda>c. c \<noteq> CHR 0x22) (tl ?s))" "length a \<le> m - 1"
    using assms by (auto simp: b_parse_string_literal_def Let_def split: if_splits)
  ultimately show ?thesis by simp
qed

lemma string_part_ok:
  assumes e: "\<And>L'. (F \<longrightarrow> L' < L) \<Longrightarrow> eval_ok F L' (\<lambda>_. True) expr" and se: "\<And>L'. (F \<longrightarrow> L' < L) \<Longrightarrow> eval_ok F L' short strexpr"
    and L: "F \<longrightarrow> length s \<le> L" and k: "length s \<le> k"
  shows "res_ok F short k st (string_part expr strexpr s st)"
proof -
  have d: "length (drop n s) \<le> length s" "F \<longrightarrow> length (drop n s) \<le> L" for n using L by auto
  have paren: "res_ok F (\<lambda>_. True) k st (b_parse_builtin_paren_expr expr (drop n s) st)" for n
    by (rule paren_ok [OF e d(2)]) (use k in auto)
  have chr: "res_ok F short k st (andthen (b_parse_builtin_paren_expr expr (drop 4 s) st) (\<lambda>v s st.
            (Val (if v AND 0xFF = 0 then [] else [char_of (unat (v AND 0xFF))]) s, st)))"
    by (rule res_ok_andthen [OF paren]) auto
  have str: "res_ok F short k st (andthen (b_parse_builtin_paren_expr expr (drop 4 s) st) (\<lambda>v s st. (Val (b_int_to_text v BASIC_MAX_STRING_LEN) s, st)))"
    by (rule res_ok_andthen [OF paren]) (auto simp: b_int_to_text_def)
  have inner: "res_ok F (\<lambda>_. True) k st1 (expr s1 st1)" if "length s1 < length s" for s1 st1
    by (rule inner_ok [OF e]) (use that L k in auto)
  have mid: "res_ok F short k st (str_arg strexpr (\<lambda>src. expecting CHR '','' (\<lambda>s st.
            andthen (expr s st) (\<lambda>start_pos s st.
              andthen (if cur (b_skip_spaces s) = CHR '','' then expr (tl (b_skip_spaces s)) st
                       else (Val (of_nat BASIC_MAX_STRING_LEN) (b_skip_spaces s), st)) (\<lambda>len.
              expecting CHR '')'' (\<lambda>s st. (Val (mid_part src start_pos len) s, st)))))) (drop 4 s) st)"
  proof (rule str_arg_ok [OF se d(2)], simp, rule res_ok_expecting, simp)
    fix a :: string and s' s1 :: string and st'
    assume s1: "length s' < length (drop 4 s)" "length s1 < length s'"
    have i1: "res_ok F (\<lambda>_. True) (length s1) st' (expr s1 st')" by (rule inner_ok [OF e]) (use s1 L in auto)
    show "res_ok F short k st' (andthen (expr s1 st') (\<lambda>start_pos s st.
              andthen (if cur (b_skip_spaces s) = CHR '','' then expr (tl (b_skip_spaces s)) st
                       else (Val (of_nat BASIC_MAX_STRING_LEN) (b_skip_spaces s), st)) (\<lambda>len.
              expecting CHR '')'' (\<lambda>s st. (Val (mid_part a start_pos len) s, st)))))"
    proof (rule res_ok_andthen [OF i1])
      fix start_pos :: i32 and s2 :: string and st2 assume s2: "length s2 \<le> length s1"
      have l: "length (tl (b_skip_spaces s2)) < length s" using length_skip [of s2] s1 s2 by (simp add: less_imp_diff_less)
      show "res_ok F short k st2 (andthen (if cur (b_skip_spaces s2) = CHR '','' then expr (tl (b_skip_spaces s2)) st2
                       else (Val (of_nat BASIC_MAX_STRING_LEN) (b_skip_spaces s2), st2)) (\<lambda>len.
              expecting CHR '')'' (\<lambda>s st. (Val (mid_part a start_pos len) s, st))))"
      proof (rule res_ok_andthen [where P = "\<lambda>_. True"])
        show "res_ok F (\<lambda>_. True) k st2 (if cur (b_skip_spaces s2) = CHR '','' then expr (tl (b_skip_spaces s2)) st2
                       else (Val (of_nat BASIC_MAX_STRING_LEN) (b_skip_spaces s2), st2))"
          using inner [OF l] length_skip [of s2] s1 s2 k by auto
      qed (auto intro!: res_ok_expecting simp: mid_part_def Let_def)
    qed
  qed
  have count: "res_ok F short k st (str_arg strexpr (\<lambda>src. expecting CHR '','' (\<lambda>s st.
            andthen (expr s st) (\<lambda>count. expecting CHR '')'' (\<lambda>s st. (Val (f src count) s, st))))) (drop n s) st)"
    if "\<And>src count. short (f src count)" for f :: "string \<Rightarrow> i32 \<Rightarrow> string" and n
  proof (rule str_arg_ok [OF se d(2)], simp, rule res_ok_expecting, simp)
    fix a :: string and s' s1 :: string and st'
    assume s1: "length s' < length (drop n s)" "length s1 < length s'"
    then have l: "length s1 < length s" by simp
    show "res_ok F short k st' (andthen (expr s1 st') (\<lambda>count. expecting CHR '')'' (\<lambda>s st. (Val (f a count) s, st))))"
      by (rule res_ok_andthen [OF inner [OF l]]) (auto intro!: res_ok_expecting simp: that)
  qed
  have lit: "res_ok F short k st (case b_parse_string_literal s BASIC_MAX_STRING_LEN of None \<Rightarrow> (Fail, st) | Some (part, s) \<Rightarrow> (Val part s, st))"
    using literal_length [of s BASIC_MAX_STRING_LEN] k by (fastforce split: option.split)
  have var: "res_ok F short k st (case b_parse_var_ref s of
                Some (idx, True, s) \<Rightarrow> (Val (b_copy_string (str_vars st idx) BASIC_MAX_STRING_LEN) s, st) | _ \<Rightarrow> (Fail, st))"
    using var_ref_length [of s] k by (fastforce simp: b_copy_string_def split: option.split prod.split bool.split)
  show ?thesis
    unfolding string_part_def using chr str mid lit var
      count [of "\<lambda>src count. take (min (clip_count src count) 95) src" 5] count [of "\<lambda>src count. take 95 (drop (length src - clip_count src count) src)" 6]
    by (simp add: res_ok_Fail split del: if_split) (auto split: if_split)
qed


lemma string_loop_ok:
  assumes "\<And>s st. length s \<le> L \<Longrightarrow> res_ok F short (length s) st (part s st)" and "length s \<le> n" and "length s \<le> L" and "short out"
  shows "res_ok F short (length s) st (string_loop n part out s st)"
  using assms(2-)
proof (induction n arbitrary: out s st)
  case 0
  note n = 0
  show ?case
    unfolding string_loop.simps [of 0]
  proof (rule res_ok_andthen [where k = 0])
    show "res_ok F short 0 st (part (b_skip_spaces s) st)" using assms(1) [of "[]"] n by (simp add: b_skip_spaces_def)
  qed (auto simp: b_append_text_def Let_def cur_def b_skip_spaces_def)
next
  case (Suc n)
  note len = length_skip [of s]
  show ?case
    unfolding string_loop.simps [of "Suc n"]
  proof (rule res_ok_andthen)
    show "res_ok F short (length (b_skip_spaces s)) st (part (b_skip_spaces s) st)" using assms(1) len Suc.prems(2) by simp
  next
    fix p s' :: string and st' assume s': "length s' \<le> length (b_skip_spaces s)"
    let ?s = "b_skip_spaces s'" and ?out = "b_append_text out BASIC_MAX_STRING_LEN p"
    have sk: "length ?s \<le> length s" using length_skip [of s'] s' len by simp
    have o: "short ?out" by (simp add: b_append_text_def)
    show "res_ok F short (length s) st' (let out = ?out; s = ?s in
       if cur s = CHR ''+'' then (case Suc n of 0 \<Rightarrow> (Deep, st') | Suc n \<Rightarrow> string_loop n part out (tl s) st') else (Val out s, st'))"
    proof (cases "cur ?s = CHR ''+''")
      case True
      then have "?s \<noteq> []" by (auto simp: cur_def)
      then have lt: "length (tl ?s) < length s" using sk by (cases ?s) auto
      have "res_ok F short (length (tl ?s)) st' (string_loop n part ?out (tl ?s) st')"
        by (rule Suc.IH) (use lt Suc.prems o in auto)
      then have "res_ok F short (length s) st' (string_loop n part ?out (tl ?s) st')" using lt by (fastforce simp: res_ok_def)
      with True show ?thesis by (simp add: Let_def)
    qed (use sk o in \<open>auto simp: Let_def\<close>)
  qed
qed

lemma string_expr_step_ok:
  assumes "\<And>L'. (F \<longrightarrow> L' < L) \<Longrightarrow> eval_ok F L' (\<lambda>_. True) expr" and "\<And>L'. (F \<longrightarrow> L' < L) \<Longrightarrow> eval_ok F L' short strexpr"
  shows "eval_ok F L short (b_parse_string_expr_step expr strexpr)"
  unfolding eval_ok_def b_parse_string_expr_step_def
  by (auto intro!: string_loop_ok [where L = L] string_part_ok [OF assms])

section \<open>Factors\<close>

lemma call_fn_ok:
  assumes "\<And>L'. (F \<longrightarrow> L' < L) \<Longrightarrow> eval_ok F L' (\<lambda>_. True) expr" and "def_fns st \<noteq> []" and "length s \<le> k"
  shows "res_ok F (\<lambda>_. True) k st (call_fn expr f arg s st)"
proof (cases F)
  case True
  then show ?thesis using assms(2) by (simp add: res_ok_def)
next
  case False
  let ?p = "param_var f"
  let ?st = "st\<lparr>vars := (vars st)(?p := arg)\<rparr>"
  obtain r st1 where e: "expr (fn_body f) ?st = (r, st1)" by fastforce
  have "res_ok F (\<lambda>_. True) (length (fn_body f)) ?st (expr (fn_body f) ?st)"
    using False by (intro eval_okD [OF assms(1)]) auto
  then have "st1 = ?st\<lparr>rand_state := rand_state st1\<rparr>" using e False by (simp add: res_ok_def same_but_rand_def)
  then obtain x where "st1 = ?st\<lparr>rand_state := x\<rparr>" by blast
  then have "st1\<lparr>vars := (vars st1)(?p := vars st ?p)\<rparr> = st\<lparr>rand_state := x\<rparr>" by simp
  then show ?thesis using e False assms(3)
    by (auto simp: call_fn_def Let_def res_ok_def same_but_rand_def split: res.split)
qed

lemma factor_value_ok:
  assumes e: "\<And>L'. (F \<longrightarrow> L' < L) \<Longrightarrow> eval_ok F L' (\<lambda>_. True) expr" and se: "\<And>L'. (F \<longrightarrow> L' < L) \<Longrightarrow> eval_ok F L' short strexpr"
    and L: "F \<longrightarrow> length s \<le> L" and k: "length s \<le> k"
  shows "res_ok F (\<lambda>_. True) k st (factor_value expr strexpr s st)"
proof -
  have d: "length (drop n s) \<le> length s" "F \<longrightarrow> length (drop n s) \<le> L" for n using L by auto
  have paren: "res_ok F (\<lambda>_. True) k st (b_parse_builtin_paren_expr expr (drop n s) st)" for n
    by (rule paren_ok [OF e d(2)]) (use k in auto)
  have fn1: "res_ok F (\<lambda>_. True) k st (andthen (b_parse_builtin_paren_expr expr (drop n s) st) (\<lambda>v s st. (Val (f v st) s, st)))"
    for n and f :: "i32 \<Rightarrow> bst \<Rightarrow> i32"
    by (rule res_ok_andthen [OF paren]) auto
  have rnd: "res_ok F (\<lambda>_. True) k st (andthen (b_parse_builtin_paren_expr expr (drop 3 s) st) (\<lambda>n s st. case b_rnd n st of (v, st) \<Rightarrow> (Val v s, st)))"
    by (rule res_ok_andthen [OF paren]) (auto simp: b_rnd_def Let_def res_ok_def same_but_rand_def)
  have str: "res_ok F (\<lambda>_. True) k st (str_arg strexpr (\<lambda>tmp. expecting CHR '')'' (\<lambda>s st. (Val (f tmp) s, st))) (drop n s) st)"
    for n and f :: "string \<Rightarrow> i32"
    by (rule str_arg_ok [OF se d(2)], simp, rule res_ok_expecting) (use k in auto)
  have instr: "res_ok F (\<lambda>_. True) k st (str_arg strexpr (\<lambda>haystack. expecting CHR '','' (\<lambda>s st. andthen (strexpr s st) (\<lambda>needle.
          expecting CHR '')'' (\<lambda>s st. (Val (of_nat (instr_pos haystack needle)) s, st))))) (drop 5 s) st)"
  proof (rule str_arg_ok [OF se d(2)], simp, rule res_ok_expecting, simp)
    fix a s' s1 :: string and st'
    assume s1: "length s' < length (drop 5 s)" "length s1 < length s'"
    have i: "res_ok F short k st' (strexpr s1 st')" by (rule inner_ok [OF se]) (use s1 L k in auto)
    show "res_ok F (\<lambda>_. True) k st' (andthen (strexpr s1 st') (\<lambda>needle. expecting CHR '')'' (\<lambda>s st. (Val (of_nat (instr_pos a needle)) s, st))))"
      by (rule res_ok_andthen [OF i]) (auto intro!: res_ok_expecting)
  qed
  have user: "res_ok F (\<lambda>_. True) k st (case lookup_fn i (def_fns st) of
           None \<Rightarrow> (Fail, st)
         | Some f \<Rightarrow> andthen (b_parse_builtin_paren_expr expr (drop 3 s) st) (\<lambda>arg. call_fn expr f arg))" for i
  proof (cases "lookup_fn i (def_fns st)")
    case (Some f)
    then have ne: "def_fns st \<noteq> []" by (auto simp: lookup_fn_def)
    have "res_ok F (\<lambda>_. True) k st (andthen (b_parse_builtin_paren_expr expr (drop 3 s) st) (\<lambda>arg. call_fn expr f arg))"
      by (rule res_ok_andthen [OF paren]) (use ne in \<open>auto intro!: call_fn_ok [OF e]\<close>)
    with Some show ?thesis by simp
  qed auto
  note abs = fn1 [where n = 3 and f = "\<lambda>v st. if v <s 0 then - v else v"] and eof = fn1 [where n = 3 and f = file_eof]
  note strs = str [where n = 3 and f = "\<lambda>tmp. of_nat (length tmp)"] str [where n = 3 and f = "\<lambda>tmp. case b_parse_int_from_text tmp of None \<Rightarrow> 0 | Some v \<Rightarrow> v"]
    str [where n = 3 and f = "\<lambda>tmp. if tmp = [] then 0 else of_nat (code (hd tmp))"]
  show ?thesis
    unfolding factor_value_def
    by (intro res_ok_if paren_ok [OF e L k] abs rnd strs eof instr user value_ok [OF e L k])
qed

lemma sign_loop_length: "length (snd (sign_loop s v)) \<le> length s"
proof (induction s v rule: sign_loop.induct)
  case (2 c s sign)
  then show ?case using length_skip [of s] by (subst sign_loop.simps) auto
qed (simp add: sign_loop.simps)

lemma factor_step_ok:
  assumes f: "\<And>L'. (F \<longrightarrow> L' < L) \<Longrightarrow> eval_ok F L' (\<lambda>_. True) factor"
    and e: "\<And>L'. (F \<longrightarrow> L' < L) \<Longrightarrow> eval_ok F L' (\<lambda>_. True) expr" and se: "\<And>L'. (F \<longrightarrow> L' < L) \<Longrightarrow> eval_ok F L' short strexpr"
  shows "eval_ok F L (\<lambda>_. True) (b_parse_factor_step factor expr strexpr)"
  unfolding eval_ok_def
proof (intro allI impI)
  fix s :: string and st :: bst assume L: "length s \<le> L"
  let ?s = "b_skip_spaces s"
  obtain sign s2 where sl: "sign_loop ?s 1 = (sign, s2)" by fastforce
  have l2: "length s2 \<le> length s" using sign_loop_length [of ?s 1] length_skip [of s] sl by simp
  have "res_ok F (\<lambda>_. True) (length s) st (andthen (factor (b_skip_spaces (drop 3 ?s)) st) (\<lambda>v s st. (Val (NOT v) s, st)))"
    if "b_name_matches_ci ?s ''NOT''"
  proof (rule res_ok_andthen)
    have "3 \<le> length ?s" using name_match_length [OF that] by simp
    then have "length (b_skip_spaces (drop 3 ?s)) < length s" using length_skip [of "drop 3 ?s"] length_skip [of s] by simp
    then show "res_ok F (\<lambda>_. True) (length s) st (factor (b_skip_spaces (drop 3 ?s)) st)"
      by (intro inner_ok [OF f]) (use L in auto)
  qed auto
  moreover have "res_ok F (\<lambda>_. True) (length s) st (andthen (factor_value expr strexpr s2 st) (\<lambda>v s st. (Val (v * sign) s, st)))"
    by (rule res_ok_andthen [OF factor_value_ok [OF e se]]) (use L l2 in auto)
  ultimately show "res_ok F (\<lambda>_. True) (length s) st (b_parse_factor_step factor expr strexpr s st)"
    by (simp add: b_parse_factor_step_def Let_def sl)
qed

section \<open>Terms and expressions\<close>

lemma res_ok_mono: "res_ok F Q k st r \<Longrightarrow> k \<le> l \<Longrightarrow> res_ok F Q l st r"
  by (fastforce simp: res_ok_def)

lemma cur_consumes: "cur s = c \<Longrightarrow> c \<noteq> CHR 0x00 \<Longrightarrow> length (tl s) < length s"
  by (cases s) (auto simp: cur_def)

lemma term_loop_ok:
  assumes f: "eval_ok F L (\<lambda>_. True) factor" and "length s \<le> n" and "length s \<le> L"
  shows "res_ok F (\<lambda>_. True) (length s) st (term_loop n factor lhs s st)"
  using assms(2-)
proof (induction n arbitrary: lhs s st)
  case 0
  then show ?case by (subst term_loop.simps) (auto simp: b_skip_spaces_def cur_def)
next
  case (Suc n)
  let ?s = "b_skip_spaces s"
  note len = length_skip [of s]
  show ?case
  proof (cases "cur ?s \<noteq> CHR ''*'' \<and> cur ?s \<noteq> CHR ''/'' \<and> cur ?s \<noteq> CHR ''%''")
    case True
    then show ?thesis using len by (subst term_loop.simps) auto
  next
    case False
    then have lt: "length (tl ?s) < length s" using cur_consumes [of ?s "cur ?s"] len by auto
    have fac: "res_ok F (\<lambda>_. True) (length (tl ?s)) st (factor (tl ?s) st)"
      using eval_okD [OF f] lt Suc.prems by simp
    have rest: "res_ok F (\<lambda>_. True) (length s) st' (term_loop n factor v s' st')" if "length s' \<le> length (tl ?s)" for v s' st'
      by (rule res_ok_mono [OF Suc.IH]) (use that lt Suc.prems in auto)
    show ?thesis
      by (subst term_loop.simps, simp only: Let_def False if_False, rule res_ok_andthen [OF fac])
        (use rest in \<open>auto simp: Let_def\<close>)
  qed
qed

lemma term_ok:
  assumes "eval_ok F L (\<lambda>_. True) factor"
  shows "eval_ok F L (\<lambda>_. True) (b_parse_term factor)"
  unfolding eval_ok_def b_parse_term_def
proof (intro allI impI)
  fix s :: string and st :: bst assume L: "length s \<le> L"
  have fac: "res_ok F (\<lambda>_. True) (length s) st (factor s st)" using eval_okD [OF assms] L by simp
  show "res_ok F (\<lambda>_. True) (length s) st (andthen (factor s st) (\<lambda>lhs. term_loop (length s) factor lhs))"
    by (rule res_ok_andthen [OF fac]) (use L in \<open>auto intro!: res_ok_mono [OF term_loop_ok [OF assms]]\<close>)
qed

lemma expr_op_consumes:
  assumes "expr_op s = Some (b, s')"
  shows "length s' < length s"
proof -
  have word: "length (b_skip_spaces (drop n s)) < length s"
    if "b_name_matches_ci s w" "CHR 0x00 \<notin> set w" "n = length w" "w \<noteq> []" for w n
  proof -
    have "length (drop n s) < length s" using name_match_length [OF that(1,2)] that(3,4) by (cases w) auto
    then show ?thesis using length_skip [of "drop n s"] by linarith
  qed
  have "cur s = CHR ''+'' \<and> s' = tl s \<or> cur s = CHR ''-'' \<and> s' = tl s
      \<or> b_name_matches_ci s ''AND'' \<and> s' = b_skip_spaces (drop 3 s) \<or> b_name_matches_ci s ''OR'' \<and> s' = b_skip_spaces (drop 2 s)
      \<or> b_name_matches_ci s ''XOR'' \<and> s' = b_skip_spaces (drop 3 s)"
    using assms by (simp add: expr_op_def del: b_name_matches_ci.simps split: if_splits)
  then show ?thesis
    using cur_consumes [of s "CHR ''+''"] cur_consumes [of s "CHR ''-''"] word [of "''AND''" 3] word [of "''OR''" 2] word [of "''XOR''" 3]
    by (elim disjE conjE) (simp_all del: b_name_matches_ci.simps)
qed

lemma expr_loop_ok:
  assumes t: "eval_ok F L (\<lambda>_. True) trm" and "length s \<le> n" and "length s \<le> L"
  shows "res_ok F (\<lambda>_. True) (length s) st (expr_loop n trm lhs s st)"
  using assms(2-)
proof (induction n arbitrary: lhs s st)
  case 0
  then have "expr_op [] = None" "s = []" by (auto simp: expr_op_def cur_def b_up_def code_def)
  then show ?case by (subst expr_loop.simps) (auto simp: b_skip_spaces_def)
next
  case (Suc n)
  let ?s = "b_skip_spaces s"
  note len = length_skip [of s]
  show ?case
  proof (cases "expr_op ?s")
    case None
    then show ?thesis using len by (subst expr_loop.simps) auto
  next
    case (Some p)
    obtain bop s1 where p: "expr_op ?s = Some (bop, s1)" using Some by (cases p) auto
    have lt: "length s1 < length s" using expr_op_consumes [OF p] len by simp
    have tr: "res_ok F (\<lambda>_. True) (length s1) st (trm s1 st)" using eval_okD [OF t] lt Suc.prems by simp
    have rest: "res_ok F (\<lambda>_. True) (length s) st' (expr_loop n trm v s' st')" if "length s' \<le> length s1" for v s' st'
      by (rule res_ok_mono [OF Suc.IH]) (use that lt Suc.prems in auto)
    show ?thesis
      by (subst expr_loop.simps, simp only: Let_def p option.case prod.case, rule res_ok_andthen [OF tr])
        (use rest in auto)
  qed
qed

lemma expr_step_ok:
  assumes "eval_ok F L (\<lambda>_. True) factor"
  shows "eval_ok F L (\<lambda>_. True) (b_parse_expr_step factor)"
  unfolding eval_ok_def b_parse_expr_step_def
proof (intro allI impI)
  fix s :: string and st :: bst assume L: "length s \<le> L"
  note t = term_ok [OF assms]
  have tr: "res_ok F (\<lambda>_. True) (length s) st (b_parse_term factor s st)" using eval_okD [OF t] L by simp
  show "res_ok F (\<lambda>_. True) (length s) st (andthen (b_parse_term factor s st) (\<lambda>lhs. expr_loop (length s) (b_parse_term factor) lhs))"
    by (rule res_ok_andthen [OF tr]) (use L in \<open>auto intro!: res_ok_mono [OF expr_loop_ok [OF t]]\<close>)
qed

section \<open>The evaluator\<close>

lemma eval_ok_0: "eval_ok False L Q (\<lambda>s st. (Deep, st))"
  by (simp add: eval_ok_def res_ok_def)

lemma evaluator_ok:
  shows "(F \<longrightarrow> 2 * L < n) \<Longrightarrow> eval_ok F L (\<lambda>_. True) (b_parse_factor n)"
    and "(F \<longrightarrow> 2 * L + 1 < n) \<Longrightarrow> eval_ok F L (\<lambda>_. True) (b_parse_expr n)"
    and "(F \<longrightarrow> 2 * L + 1 < n) \<Longrightarrow> eval_ok F L short (b_parse_string_expr n)"
proof (induction n arbitrary: L)
  case 0
  {
    case 1 then show ?case by (simp add: eval_ok_def res_ok_def)
  next
    case 2 then show ?case by (simp add: eval_ok_def res_ok_def)
  next
    case 3 then show ?case by (simp add: eval_ok_def res_ok_def)
  }
next
  case (Suc n)
  {
    case 1
    have "eval_ok F L (\<lambda>_. True) (b_parse_factor_step (b_parse_factor n) (b_parse_expr n) (b_parse_string_expr n))"
      by (rule factor_step_ok) (use 1 in \<open>auto intro!: Suc.IH\<close>)
    then show ?case by (simp add: eval_ok_def)
  next
    case 2
    have "eval_ok F L (\<lambda>_. True) (b_parse_expr_step (b_parse_factor n))"
      by (rule expr_step_ok) (use 2 in \<open>auto intro!: Suc.IH\<close>)
    then show ?case by (simp add: eval_ok_def)
  next
    case 3
    have "eval_ok F L short (b_parse_string_expr_step (b_parse_expr n) (b_parse_string_expr n))"
      by (rule string_expr_step_ok) (use 3 in \<open>auto intro!: Suc.IH\<close>)
    then show ?case by (simp add: eval_ok_def)
  }
qed

lemmas factor_ok = evaluator_ok(1) and expr_ok = evaluator_ok(2) and string_expr_ok = evaluator_ok(3)

end
