(* ===== verification/Fs_Inv.thy ===== *)
theory Fs_Inv
  imports Fs
begin

text \<open>
  The shape of the node array (\<open>fs_tree\<close>): the nodes in use form a tree under node 0, the children
  of a node are exactly the in-use nodes whose \<open>parent\<close> it is, linked without repetition from
  \<open>first_child\<close>, and names are valid and unique among siblings. The lemmas show that every walk of
  the code over such an array ends and what it finds.
\<close>

section \<open>Sibling chains\<close>

fun sib_chain :: "(int \<Rightarrow> fs_node) \<Rightarrow> int \<Rightarrow> int list \<Rightarrow> bool" where
  "sib_chain ns n [] = (n = -1)"
| "sib_chain ns n (x # xs) = (n = x \<and> x \<noteq> -1 \<and> sib_chain ns (nd_next_sibling (ns x)) xs)"

lemma sib_chain_cong:
  "(\<And>x. x \<in> set xs \<Longrightarrow> nd_next_sibling (ns' x) = nd_next_sibling (ns x)) \<Longrightarrow>
   sib_chain ns' n xs = sib_chain ns n xs"
  by (induction xs arbitrary: n) auto

lemma sib_chain_unique: "sib_chain ns n xs \<Longrightarrow> sib_chain ns n ys \<Longrightarrow> xs = ys"
proof (induction xs arbitrary: n ys)
  case Nil
  then show ?case by (cases ys) auto
next
  case (Cons x xs)
  then show ?case by (cases ys) auto
qed

lemma sib_chain_suffix: "sib_chain ns n (as @ x # bs) \<Longrightarrow> sib_chain ns x (x # bs)"
  by (induction as arbitrary: n) auto

lemma sib_chain_distinct: "sib_chain ns n xs \<Longrightarrow> distinct xs"
proof (induction xs arbitrary: n)
  case (Cons x xs)
  have "x \<notin> set xs"
  proof
    assume "x \<in> set xs"
    then obtain as bs where xs: "xs = as @ x # bs" by (meson split_list)
    from Cons.prems have c: "sib_chain ns x (x # as @ x # bs)" by (simp add: xs)
    then have "sib_chain ns x (x # bs)" using sib_chain_suffix [of ns x "x # as" x bs] by simp
    with c have "as @ x # bs = bs"
      using sib_chain_unique by (metis list.inject)
    then have "length (as @ x # bs) = length bs" by (rule arg_cong)
    then show False by simp
  qed
  with Cons show ?case by auto
qed simp

lemma sib_chain_not_nil: "sib_chain ns n xs \<Longrightarrow> x \<in> set xs \<Longrightarrow> x \<noteq> -1"
  by (induction xs arbitrary: n) auto

lemma find_child_from_chain:
  "sib_chain ns n xs \<Longrightarrow>
   find_child_from ns nm n = Some (case List.find (\<lambda>x. nd_name (ns x) = nm) xs of None \<Rightarrow> -1 | Some x \<Rightarrow> x)"
  by (induction xs arbitrary: n) (subst find_child_from.simps; simp)+

lemma ls_from_chain:
  "sib_chain ns n xs \<Longrightarrow> ls_from ns k n = map (\<lambda>x. ls_entry (ns x)) (take k xs)"
proof (induction xs arbitrary: n k)
  case Nil
  then show ?case by (cases k) auto
next
  case (Cons x xs)
  then show ?case by (cases k) auto
qed

text \<open>What the unlink walk does to a chain: it takes the element out.\<close>

definition unlinked :: "(int \<Rightarrow> fs_node) \<Rightarrow> int \<Rightarrow> int \<Rightarrow> int \<Rightarrow> (int \<Rightarrow> fs_node)" where
  "unlinked ns parent idx q =
     (if q = -1 then ns(parent := (ns parent)\<lparr>nd_first_child := nd_next_sibling (ns idx)\<rparr>)
      else ns(q := (ns q)\<lparr>nd_next_sibling := nd_next_sibling (ns idx)\<rparr>))"

lemma unlink_from_found:
  "sib_chain ns cur (as @ idx # bs) \<Longrightarrow> idx \<notin> set as \<Longrightarrow>
   unlink_from ns parent idx prev cur =
     Some (Some (unlinked ns parent idx (if as = [] then prev else last as)))"
proof (induction as arbitrary: cur prev)
  case Nil
  then show ?case by (subst unlink_from.simps) (auto simp: unlinked_def)
next
  case (Cons a as)
  then have "unlink_from ns parent idx a (nd_next_sibling (ns a)) =
      Some (Some (unlinked ns parent idx (if as = [] then a else last as)))" by simp
  with Cons.prems show ?case by (subst unlink_from.simps) auto
qed

lemma sib_chain_unlinked:
  assumes "sib_chain ns n (as @ idx # bs)" and "distinct (as @ idx # bs)" and "as \<noteq> []"
  shows "sib_chain (unlinked ns p idx (last as)) n (as @ bs)"
  using assms
proof (induction as arbitrary: n)
  case (Cons a as)
  have last: "last (a # as) \<noteq> -1"
    by (rule sib_chain_not_nil [OF Cons.prems(1)]) simp
  show ?case
  proof (cases "as = []")
    case True
    with Cons.prems have "sib_chain ns (nd_next_sibling (ns idx)) bs" by auto
    moreover have "sib_chain (unlinked ns p idx a) m bs = sib_chain ns m bs" for m
      using Cons.prems True by (intro sib_chain_cong) (auto simp: unlinked_def)
    moreover have "nd_next_sibling (unlinked ns p idx a a) = nd_next_sibling (ns idx)"
      using True last by (simp add: unlinked_def)
    ultimately show ?thesis using True last Cons.prems by simp
  next
    case False
    with Cons have "sib_chain (unlinked ns p idx (last as)) (nd_next_sibling (ns a)) (as @ bs)" by simp
    moreover have "a \<noteq> last as" using False Cons.prems by auto
    moreover from this last have "nd_next_sibling (unlinked ns p idx (last as) a) = nd_next_sibling (ns a)"
      using False by (auto simp: unlinked_def)
    ultimately show ?thesis using False last Cons.prems by simp
  qed
qed simp

section \<open>The tree\<close>

definition in_use :: "(int \<Rightarrow> fs_node) \<Rightarrow> int \<Rightarrow> bool" where
  "in_use ns i \<longleftrightarrow> 0 \<le> i \<and> i < FS_MAX_NODES \<and> nd_used (ns i)"

inductive attached :: "(int \<Rightarrow> fs_node) \<Rightarrow> int \<Rightarrow> bool" for ns where
  root: "attached ns 0"
| below: "in_use ns i \<Longrightarrow> i \<noteq> 0 \<Longrightarrow> attached ns (nd_parent (ns i)) \<Longrightarrow> attached ns i"

definition name_ok :: "string \<Rightarrow> bool" where
  "name_ok nm \<longleftrightarrow> nm \<noteq> [] \<and> length nm \<le> FS_NAME_MAX \<and> nm \<noteq> ''.'' \<and> nm \<noteq> ''..'' \<and> CHR ''/'' \<notin> set nm"

definition children :: "(int \<Rightarrow> fs_node) \<Rightarrow> int \<Rightarrow> int set" where
  "children ns i = {j. in_use ns j \<and> j \<noteq> 0 \<and> nd_parent (ns j) = i}"

text \<open>What holds of one node in use, and of the child list \<open>ks\<close> of one node in use.\<close>

definition node_ok :: "(int \<Rightarrow> fs_node) \<Rightarrow> int \<Rightarrow> bool" where
  "node_ok ns i \<longleftrightarrow> nd_size (ns i) < FS_MAX_FILE_SIZE \<and>
     (i \<noteq> 0 \<longrightarrow> in_use ns (nd_parent (ns i)) \<and> nd_is_dir (ns (nd_parent (ns i))) \<and>
                attached ns i \<and> name_ok (nd_name (ns i)))"

definition kids_ok :: "(int \<Rightarrow> fs_node) \<Rightarrow> int \<Rightarrow> int list \<Rightarrow> bool" where
  "kids_ok ns i ks \<longleftrightarrow> sib_chain ns (nd_first_child (ns i)) ks \<and> set ks = children ns i"

definition names_unique :: "(int \<Rightarrow> fs_node) \<Rightarrow> bool" where
  "names_unique ns \<longleftrightarrow> (\<forall>i j. in_use ns i \<and> i \<noteq> 0 \<and> in_use ns j \<and> j \<noteq> 0 \<and>
      nd_parent (ns i) = nd_parent (ns j) \<and> nd_name (ns i) = nd_name (ns j) \<longrightarrow> i = j)"

definition fs_tree :: "(int \<Rightarrow> fs_node) \<Rightarrow> bool" where
  "fs_tree ns \<longleftrightarrow> in_use ns 0 \<and> nd_is_dir (ns 0) \<and> nd_parent (ns 0) = -1 \<and>
     (\<forall>i. in_use ns i \<longrightarrow> node_ok ns i \<and> (\<exists>ks. kids_ok ns i ks)) \<and> names_unique ns"

text \<open>\<open>fs_inv\<close> adds that the current directory is a directory in use.\<close>

definition cwd_ok :: "fs_state \<Rightarrow> bool" where
  "cwd_ok s \<longleftrightarrow> in_use (nodes s) (cwd_node s) \<and> nd_is_dir (nodes s (cwd_node s))"

definition fs_inv :: "fs_state \<Rightarrow> bool" where
  "fs_inv s \<longleftrightarrow> fs_tree (nodes s) \<and> cwd_ok s"

lemma fs_treeD:
  assumes "fs_tree ns"
  shows "in_use ns 0" "nd_is_dir (ns 0)" "nd_parent (ns 0) = -1" "names_unique ns"
    "\<And>i. in_use ns i \<Longrightarrow> node_ok ns i" "\<And>i. in_use ns i \<Longrightarrow> \<exists>ks. kids_ok ns i ks"
  using assms by (auto simp: fs_tree_def)

lemma fs_tree_parent:
  assumes "fs_tree ns" and "in_use ns i" and "i \<noteq> 0"
  shows "in_use ns (nd_parent (ns i))" "nd_is_dir (ns (nd_parent (ns i)))" "name_ok (nd_name (ns i))"
  using fs_treeD(5) [OF assms(1,2)] assms(3) by (auto simp: node_ok_def)

lemma fs_tree_attached: "fs_tree ns \<Longrightarrow> in_use ns i \<Longrightarrow> attached ns i"
  by (cases "i = 0") (auto simp: node_ok_def attached.root dest: fs_treeD(5))

lemma fs_tree_parent_neq_self:
  assumes "fs_tree ns" and "in_use ns i"
  shows "nd_parent (ns i) \<noteq> i"
  using fs_tree_attached [OF assms]
proof (induction rule: attached.induct)
  case root
  then show ?case using fs_treeD(3) [OF assms(1)] by simp
next
  case (below i)
  then show ?case by metis
qed

lemma file_no_children: "fs_tree ns \<Longrightarrow> \<not> nd_is_dir (ns i) \<Longrightarrow> children ns i = {}"
  by (auto simp: children_def dest: fs_tree_parent(2))

lemma no_first_child:
  assumes "fs_tree ns" and "in_use ns i" and "nd_first_child (ns i) = -1"
  shows "children ns i = {}"
proof -
  from fs_treeD(6) [OF assms(1,2)] obtain ks where "kids_ok ns i ks" ..
  with assms(3) have "sib_chain ns (-1) ks" "set ks = children ns i" by (auto simp: kids_ok_def)
  then show ?thesis by (cases ks) auto
qed

lemma attached_mono:
  assumes "attached ns i"
    and "\<And>j. in_use ns j \<Longrightarrow> in_use ns' j \<and> nd_parent (ns' j) = nd_parent (ns j)"
  shows "attached ns' i"
  using assms(1) by (induction rule: attached.induct) (auto intro: attached.intros simp: assms(2))

section \<open>Looking a child up\<close>

lemma find_child_tree:
  assumes t: "fs_tree (nodes s)" and p: "in_use (nodes s) p"
  obtains c where "find_child s p nm = Some c"
    and "(c = -1 \<and> (\<forall>j \<in> children (nodes s) p. nd_name (nodes s j) \<noteq> nm)) \<or>
         (c \<in> children (nodes s) p \<and> nd_name (nodes s c) = nm)"
proof -
  from fs_treeD(6) [OF t p] obtain ks where ks: "sib_chain (nodes s) (nd_first_child (nodes s p)) ks"
    and set: "set ks = children (nodes s) p" by (auto simp: kids_ok_def)
  show ?thesis
  proof (cases "List.find (\<lambda>x. nd_name (nodes s x) = nm) ks")
    case None
    with find_child_from_chain [OF ks, of nm] have "find_child s p nm = Some (-1)"
      by (simp add: find_child_def)
    moreover have "\<forall>j \<in> children (nodes s) p. nd_name (nodes s j) \<noteq> nm"
      using None set by (auto simp: find_None_iff)
    ultimately show ?thesis using that by blast
  next
    case (Some c)
    with find_child_from_chain [OF ks, of nm] have "find_child s p nm = Some c"
      by (simp add: find_child_def)
    moreover have "c \<in> children (nodes s) p \<and> nd_name (nodes s c) = nm"
      using find_Some_prop [OF Some] set by auto
    ultimately show ?thesis using that by blast
  qed
qed

lemma children_pos: "c \<in> children ns p \<Longrightarrow> c > 0"
  by (auto simp: children_def in_use_def)

lemma find_child_found:
  assumes t: "fs_tree (nodes s)" and p: "in_use (nodes s) p"
    and c: "c \<in> children (nodes s) p" and nm: "nd_name (nodes s c) = nm"
  shows "find_child s p nm = Some c"
proof -
  obtain d where d: "find_child s p nm = Some d"
    and *: "(d = -1 \<and> (\<forall>j \<in> children (nodes s) p. nd_name (nodes s j) \<noteq> nm)) \<or>
         (d \<in> children (nodes s) p \<and> nd_name (nodes s d) = nm)"
    using find_child_tree [OF t p] .
  have "d \<in> children (nodes s) p \<and> nd_name (nodes s d) = nm" using * c nm by blast
  moreover from fs_treeD(4) [OF t] have "names_unique (nodes s)" .
  ultimately have "d = c" using c nm unfolding names_unique_def children_def by blast
  with d show ?thesis by simp
qed

lemma find_child_absent:
  assumes t: "fs_tree (nodes s)" and p: "in_use (nodes s) p"
    and no: "\<And>j. j \<in> children (nodes s) p \<Longrightarrow> nd_name (nodes s j) \<noteq> nm"
  shows "find_child s p nm = Some (-1)"
  using find_child_tree [OF t p, of nm] no by metis

section \<open>Resolving paths\<close>

lemma go_parent_dir:
  assumes "fs_tree (nodes s)" and "in_use (nodes s) cur"
  shows "in_use (nodes s) (go_parent s cur)"
    and "nd_is_dir (nodes s cur) \<Longrightarrow> nd_is_dir (nodes s (go_parent s cur))"
  using assms fs_tree_parent [of "nodes s" cur] fs_treeD(3) [of "nodes s"]
  by (auto simp: go_parent_def)

lemma resolve_loop_ends:
  assumes "fs_tree (nodes s)"
  shows "in_use (nodes s) cur \<Longrightarrow>
    \<exists>n. resolve_loop s cur p = Some n \<and> (n = -1 \<or> in_use (nodes s) n)"
  using assms
proof (induction s cur p rule: resolve_loop.induct)
  case (1 s cur)
  then show ?case by (simp add: resolve_loop.simps)
next
  case (2 s cur c p)
  show ?case
  proof (cases "take_part [] (c # p)")
    case None
    then show ?thesis by (simp add: resolve_loop.simps del: take_part.simps)
  next
    case (Some pr)
    obtain part r where pr: "pr = (part, r)" by (cases pr)
    with Some have Some': "take_part [] (c # p) = Some (part, r)" by simp
    note step = resolve_loop.simps(2) [of s cur c p, unfolded Some', simplified]
    note gp = go_parent_dir(1) [OF 2(5,4)]
    consider "part = ''.''" | "part \<noteq> ''.''" "part = ''..''" | "part \<noteq> ''.''" "part \<noteq> ''..''" by blast
    then show ?thesis
    proof cases
      case 1
      with step 2(1) [OF Some' refl] 2(4,5) show ?thesis by simp
    next
      case 22: 2
      with step 2(2) [OF Some' refl] gp 2(5) show ?thesis by simp
    next
      case 3
      obtain n where n: "find_child s cur part = Some n" "n = -1 \<or> n \<in> children (nodes s) cur"
        using find_child_tree [OF 2(5,4), of part] by metis
      show ?thesis
      proof (cases "n < 0")
        case True
        with n 3 step show ?thesis by simp
      next
        case False
        with n have "in_use (nodes s) n" by (auto simp: children_def)
        with 2(3) [OF Some' refl _ _ n(1)] 3 False 2(5) step n(1) show ?thesis by simp
      qed
    qed
  qed
qed

lemma take_part_chars:
  "take_part part p = Some (a, r) \<Longrightarrow> CHR ''/'' \<notin> set part \<Longrightarrow> length part \<le> FS_NAME_MAX \<Longrightarrow>
   CHR ''/'' \<notin> set a \<and> length a \<le> FS_NAME_MAX"
  by (induction part p rule: take_part.induct) (auto split: if_splits)

lemma take_part_nonempty: "take_part [] (c # p) = Some (a, r) \<Longrightarrow> c \<noteq> CHR ''/'' \<Longrightarrow> a \<noteq> []"
  using take_part_prefix [of "[c]" p a r] by auto

lemma hd_skip_slashes: "skip_slashes p = c # q \<Longrightarrow> c \<noteq> CHR ''/''"
  using hd_dropWhile [of "\<lambda>c. c = CHR ''/''" p] by (simp add: skip_slashes_def)

lemma split_loop_ends:
  assumes "fs_tree (nodes s)"
  shows "in_use (nodes s) cur \<Longrightarrow> nd_is_dir (nodes s cur) \<Longrightarrow>
    (\<And>c q. p = c # q \<Longrightarrow> c \<noteq> CHR ''/'') \<Longrightarrow>
    \<exists>r. split_loop s cur p = Some r \<and>
      (\<forall>d nm. r = Some (d, nm) \<longrightarrow> in_use (nodes s) d \<and> nd_is_dir (nodes s d) \<and> name_ok nm)"
  using assms
proof (induction s cur p rule: split_loop.induct)
  case (1 s cur)
  then show ?case by (simp add: split_loop.simps)
next
  case (2 s cur c p)
  show ?case
  proof (cases "take_part [] (c # p)")
    case None
    then show ?thesis by (simp add: split_loop.simps del: take_part.simps)
  next
    case (Some pr)
    obtain part r where pr: "pr = (part, r)" by (cases pr)
    with Some have Some': "take_part [] (c # p) = Some (part, r)" by simp
    note step = split_loop.simps(2) [of s cur c p, unfolded Some', simplified]
    note gp = go_parent_dir [OF 2(7,4)]
    have sk: "\<And>c q. skip_slashes r = c # q \<Longrightarrow> c \<noteq> CHR ''/''" by (rule hd_skip_slashes)
    have part: "CHR ''/'' \<notin> set part" "length part \<le> FS_NAME_MAX" "part \<noteq> []"
      using take_part_chars [OF Some'] take_part_nonempty [OF Some'] 2(6) by auto
    consider "skip_slashes r = []" | "skip_slashes r \<noteq> []" "part = ''.''"
      | "skip_slashes r \<noteq> []" "part \<noteq> ''.''" "part = ''..''"
      | "skip_slashes r \<noteq> []" "part \<noteq> ''.''" "part \<noteq> ''..''" by blast
    then show ?thesis
    proof cases
      case 1
      with step part 2(4,5) show ?thesis by (auto simp: name_ok_def str_copy_def)
    next
      case 22: 2
      with step 2(1) [OF Some' refl] 2(4,5,7) sk show ?thesis by simp
    next
      case 3
      with step 2(2) [OF Some' refl] 2(5,7) gp sk show ?thesis by simp
    next
      case 4
      obtain n where n: "find_child s cur part = Some n" "n = -1 \<or> n \<in> children (nodes s) cur"
        using find_child_tree [OF 2(7,4), of part] by metis
      show ?thesis
      proof (cases "n < 0 \<or> \<not> nd_is_dir (nodes s n)")
        case True
        with n 4 step show ?thesis by auto
      next
        case False
        with n have "in_use (nodes s) n" by (auto simp: children_def)
        with 2(3) [OF Some' refl _ _ _ n(1)] 4 False 2(7) step n(1) sk show ?thesis by simp
      qed
    qed
  qed
qed

lemma resolve_path_ends:
  assumes "fs_inv s"
  shows "\<exists>n. resolve_path s path = Some n \<and> (n = -1 \<or> in_use (nodes s) n)"
proof -
  from assms have t: "fs_tree (nodes s)" "in_use (nodes s) (cwd_node s)" "in_use (nodes s) 0"
    by (auto simp: fs_inv_def cwd_ok_def fs_treeD)
  with resolve_loop_ends [OF t(1)] show ?thesis
    by (auto simp: resolve_path_def Let_def split: option.split list.split)
qed

lemma split_parent_and_name_ends:
  assumes "fs_inv s"
  shows "\<exists>r. split_parent_and_name s path = Some r \<and>
      (\<forall>d nm. r = Some (d, nm) \<longrightarrow> in_use (nodes s) d \<and> nd_is_dir (nodes s d) \<and> name_ok nm)"
proof -
  from assms have t: "fs_tree (nodes s)" "in_use (nodes s) (cwd_node s)" "nd_is_dir (nodes s (cwd_node s))"
    "in_use (nodes s) 0" "nd_is_dir (nodes s 0)"
    by (auto simp: fs_inv_def cwd_ok_def fs_treeD)
  have "\<exists>r. split_loop s (if c = CHR ''/'' then 0 else cwd_node s) (skip_slashes (c # p)) = Some r \<and>
      (\<forall>d nm. r = Some (d, nm) \<longrightarrow> in_use (nodes s) d \<and> nd_is_dir (nodes s d) \<and> name_ok nm)" for c p
    by (rule split_loop_ends) (use t hd_skip_slashes in auto)
  note * = this
  show ?thesis
  proof (cases path)
    case (Some p)
    show ?thesis
    proof (cases p)
      case (Cons c q)
      with Some * [of c q] show ?thesis by (auto simp: split_parent_and_name_def Let_def)
    qed (simp add: Some split_parent_and_name_def)
  qed (simp add: split_parent_and_name_def)
qed

end
