(* ===== verification/Fs_Tree.thy ===== *)
theory Fs_Tree
  imports Fs_Inv
begin

text \<open>
  How the tree shape survives the three things the code does to the links: writing a node's data,
  taking a node out of its parent's child list, and putting a node in front of a child list. Between
  the two last the node hangs free: \<open>fs_forest\<close> is the tree shape with some nodes left out.
\<close>

definition fs_forest :: "(int \<Rightarrow> fs_node) \<Rightarrow> int set \<Rightarrow> bool" where
  "fs_forest ns D \<longleftrightarrow> in_use ns 0 \<and> nd_is_dir (ns 0) \<and> nd_parent (ns 0) = -1 \<and> 0 \<notin> D \<and>
     (\<forall>i. in_use ns i \<longrightarrow> (i \<notin> D \<longrightarrow> node_ok ns i) \<and>
        (\<exists>ks. sib_chain ns (nd_first_child (ns i)) ks \<and> set ks = children ns i - D)) \<and>
     (\<forall>i j. in_use ns i \<and> i \<noteq> 0 \<and> i \<notin> D \<and> in_use ns j \<and> j \<noteq> 0 \<and> j \<notin> D \<and>
        nd_parent (ns i) = nd_parent (ns j) \<and> nd_name (ns i) = nd_name (ns j) \<longrightarrow> i = j)"

lemma fs_forestD:
  assumes "fs_forest ns D"
  shows "in_use ns 0" "nd_is_dir (ns 0)" "nd_parent (ns 0) = -1" "0 \<notin> D"
    "\<And>i. in_use ns i \<Longrightarrow> i \<notin> D \<Longrightarrow> node_ok ns i"
    "\<And>i. in_use ns i \<Longrightarrow> \<exists>ks. sib_chain ns (nd_first_child (ns i)) ks \<and> set ks = children ns i - D"
    "\<And>i j. in_use ns i \<Longrightarrow> i \<noteq> 0 \<Longrightarrow> i \<notin> D \<Longrightarrow> in_use ns j \<Longrightarrow> j \<noteq> 0 \<Longrightarrow> j \<notin> D \<Longrightarrow>
        nd_parent (ns i) = nd_parent (ns j) \<Longrightarrow> nd_name (ns i) = nd_name (ns j) \<Longrightarrow> i = j"
  using assms unfolding fs_forest_def by blast+

lemma fs_forestI:
  assumes "in_use ns 0" "nd_is_dir (ns 0)" "nd_parent (ns 0) = -1" "0 \<notin> D"
    "\<And>i. in_use ns i \<Longrightarrow> i \<notin> D \<Longrightarrow> node_ok ns i"
    "\<And>i. in_use ns i \<Longrightarrow> \<exists>ks. sib_chain ns (nd_first_child (ns i)) ks \<and> set ks = children ns i - D"
    "\<And>i j. in_use ns i \<Longrightarrow> i \<noteq> 0 \<Longrightarrow> i \<notin> D \<Longrightarrow> in_use ns j \<Longrightarrow> j \<noteq> 0 \<Longrightarrow> j \<notin> D \<Longrightarrow>
        nd_parent (ns i) = nd_parent (ns j) \<Longrightarrow> nd_name (ns i) = nd_name (ns j) \<Longrightarrow> i = j"
  shows "fs_forest ns D"
  using assms unfolding fs_forest_def by blast

lemma fs_tree_forest: "fs_tree ns = fs_forest ns {}"
  by (simp add: fs_tree_def fs_forest_def kids_ok_def names_unique_def)

section \<open>Arrays that differ in their links only\<close>

definition same_nodes :: "(int \<Rightarrow> fs_node) \<Rightarrow> (int \<Rightarrow> fs_node) \<Rightarrow> bool" where
  "same_nodes ns ns' \<longleftrightarrow> (\<forall>j. nd_used (ns' j) = nd_used (ns j) \<and> nd_is_dir (ns' j) = nd_is_dir (ns j) \<and>
     nd_parent (ns' j) = nd_parent (ns j) \<and> nd_name (ns' j) = nd_name (ns j))"

lemma same_nodes_simps:
  assumes "same_nodes ns ns'"
  shows "in_use ns' j = in_use ns j" "children ns' j = children ns j"
    "nd_is_dir (ns' j) = nd_is_dir (ns j)" "nd_parent (ns' j) = nd_parent (ns j)"
    "nd_name (ns' j) = nd_name (ns j)" "nd_used (ns' j) = nd_used (ns j)"
  using assms by (auto simp: same_nodes_def in_use_def children_def)

lemma same_nodes_attached:
  assumes "same_nodes ns ns'"
  shows "attached ns' j = attached ns j"
proof
  show "attached ns j \<Longrightarrow> attached ns' j"
    by (erule attached_mono) (simp add: same_nodes_simps [OF assms])
  show "attached ns' j \<Longrightarrow> attached ns j"
    by (erule attached_mono) (simp add: same_nodes_simps [OF assms])
qed

lemma same_nodes_node_ok:
  assumes "same_nodes ns ns'" and "node_ok ns j" and "nd_size (ns' j) < FS_MAX_FILE_SIZE"
  shows "node_ok ns' j"
  using assms(2,3) by (simp add: node_ok_def same_nodes_simps [OF assms(1)] same_nodes_attached [OF assms(1)])

text \<open>Writing data: the links stay, sizes stay below the limit.\<close>

lemma fs_tree_data:
  assumes t: "fs_tree ns" and same: "same_nodes ns ns'"
    and links: "\<And>j. nd_first_child (ns' j) = nd_first_child (ns j)" "\<And>j. nd_next_sibling (ns' j) = nd_next_sibling (ns j)"
    and size: "\<And>j. in_use ns j \<Longrightarrow> nd_size (ns' j) < FS_MAX_FILE_SIZE"
  shows "fs_tree ns'"
proof -
  have "sib_chain ns' n ks = sib_chain ns n ks" for n ks
    by (rule sib_chain_cong) (rule links)
  then have "kids_ok ns' i ks = kids_ok ns i ks" for i ks
    by (simp add: kids_ok_def same_nodes_simps [OF same] links)
  moreover have "node_ok ns' i" if "in_use ns i" for i
    by (rule same_nodes_node_ok [OF same fs_treeD(5) [OF t that] size [OF that]])
  moreover have "names_unique ns' = names_unique ns"
    by (simp add: names_unique_def same_nodes_simps [OF same])
  ultimately show ?thesis
    using t by (simp add: fs_tree_def same_nodes_simps [OF same])
qed

section \<open>Unlinking\<close>

lemma unlinked_same: "same_nodes ns (unlinked ns p idx q)"
  by (auto simp: same_nodes_def unlinked_def)

lemma unlinked_size [simp]: "nd_size (unlinked ns p idx q j) = nd_size (ns j)"
  by (auto simp: unlinked_def)

lemma unlinked_chain_other:
  assumes "q \<noteq> -1 \<longrightarrow> q \<notin> set ks"
  shows "sib_chain (unlinked ns p idx q) n ks = sib_chain ns n ks"
  using assms by (intro sib_chain_cong) (auto simp: unlinked_def)

lemma children_disjoint: "x \<in> children ns i \<Longrightarrow> x \<in> children ns j \<Longrightarrow> i = j"
  by (auto simp: children_def)

lemma unlinked_forest:
  assumes t: "fs_tree ns" and i: "in_use ns idx" "idx \<noteq> 0"
    and ks: "sib_chain ns (nd_first_child (ns p)) (as @ idx # bs)"
    and set: "set (as @ idx # bs) = children ns p" and p: "p = nd_parent (ns idx)"
  defines "q \<equiv> (if as = [] then -1 else last as)"
  shows "fs_forest (unlinked ns p idx q) {idx}"
proof -
  let ?ns = "unlinked ns p idx q"
  note same = unlinked_same [of ns p idx q]
  note simps = same_nodes_simps [OF same]
  have dist: "distinct (as @ idx # bs)" by (rule sib_chain_distinct [OF ks])
  have last: "as \<noteq> [] \<Longrightarrow> q \<in> set as \<and> q \<noteq> -1"
    using sib_chain_not_nil [OF ks, of "last as"] by (auto simp: q_def)
  have first: "nd_first_child (?ns j) =
      (if as = [] \<and> j = p then nd_next_sibling (ns idx) else nd_first_child (ns j))" for j
    using last by (auto simp: unlinked_def q_def)
  have "\<exists>ks. sib_chain ?ns (nd_first_child (?ns j)) ks \<and> set ks = children ?ns j - {idx}"
    if j: "in_use ns j" for j
  proof (cases "j = p")
    case True
    have "sib_chain ?ns (nd_first_child (?ns p)) (as @ bs)"
    proof (cases "as = []")
      case True
      with ks have "sib_chain ns (nd_next_sibling (ns idx)) bs" by simp
      moreover have "sib_chain ?ns m bs = sib_chain ns m bs" for m
        by (rule unlinked_chain_other) (simp add: q_def True)
      ultimately show ?thesis by (simp add: first True)
    next
      case False
      with sib_chain_unlinked [OF ks dist, of p] have "sib_chain ?ns (nd_first_child (ns p)) (as @ bs)"
        by (simp add: q_def)
      with False show ?thesis by (simp add: first)
    qed
    moreover have "set (as @ bs) = children ?ns p - {idx}"
      using set dist by (auto simp: simps)
    ultimately show ?thesis using True by blast
  next
    case False
    from fs_treeD(6) [OF t j] obtain js
      where js: "sib_chain ns (nd_first_child (ns j)) js" "set js = children ns j"
      by (auto simp: kids_ok_def)
    have "q \<noteq> -1 \<longrightarrow> q \<notin> set js"
    proof (intro impI notI)
      assume q: "q \<noteq> -1" "q \<in> set js"
      with last have "q \<in> set as" by (auto simp: q_def)
      with set have "q \<in> children ns p" by auto
      with q(2) js(2) False children_disjoint show False by metis
    qed
    then have "sib_chain ?ns (nd_first_child (?ns j)) js"
      using js(1) False by (simp add: unlinked_chain_other first)
    moreover have "idx \<notin> children ns j" using False p by (simp add: children_def)
    then have "set js = children ?ns j - {idx}" using js(2) by (simp add: simps(2))
    ultimately show ?thesis by blast
  qed
  moreover have "node_ok ?ns j" if "in_use ns j" for j
    by (rule same_nodes_node_ok [OF same])
      (use fs_treeD(5) [OF t that] in \<open>simp_all add: node_ok_def\<close>)
  moreover have "j = k" if "in_use ns j" "j \<noteq> 0" "in_use ns k" "k \<noteq> 0"
    "nd_parent (ns j) = nd_parent (ns k)" "nd_name (ns j) = nd_name (ns k)" for j k
    using fs_treeD(4) [OF t] that unfolding names_unique_def by blast
  ultimately show ?thesis
    using fs_treeD(1-3) [OF t] i(2) by (intro fs_forestI) (simp_all add: simps)
qed

lemma unlink_node_tree:
  assumes t: "fs_tree (nodes s)" and i: "in_use (nodes s) idx" "idx \<noteq> 0"
  obtains ns where "unlink_node_from_parent s idx = Some (0, s\<lparr>nodes := ns\<rparr>)"
    and "fs_forest ns {idx}" and "same_nodes (nodes s) ns"
    and "\<And>j. nd_size (ns j) = nd_size (nodes s j)" and "\<And>j. nd_data (ns j) = nd_data (nodes s j)"
    and "nd_first_child (ns idx) = nd_first_child (nodes s idx)"
proof -
  let ?p = "nd_parent (nodes s idx)"
  have p: "in_use (nodes s) ?p" using fs_tree_parent(1) [OF t i] .
  from fs_treeD(6) [OF t p] obtain ks
    where ks: "sib_chain (nodes s) (nd_first_child (nodes s ?p)) ks" "set ks = children (nodes s) ?p"
    by (auto simp: kids_ok_def)
  have "idx \<in> set ks" using ks(2) i by (simp add: children_def)
  then obtain as bs where split: "ks = as @ idx # bs" "idx \<notin> set as" by (meson split_list_first)
  let ?q = "if as = [] then -1 else last as"
  have "unlink_node_from_parent s idx = Some (0, s\<lparr>nodes := unlinked (nodes s) ?p idx ?q\<rparr>)"
    using unlink_from_found [OF ks(1) [unfolded split(1)] split(2), of ?p "-1"] i p
    by (simp add: unlink_node_from_parent_def in_use_def Let_def)
  moreover have "fs_forest (unlinked (nodes s) ?p idx ?q) {idx}"
    by (rule unlinked_forest [OF t i ks(1) [unfolded split(1)] ks(2) [unfolded split(1)] refl])
  moreover have "nd_data (unlinked (nodes s) ?p idx ?q j) = nd_data (nodes s j)" for j
    by (auto simp: unlinked_def)
  moreover have "nd_first_child (unlinked (nodes s) ?p idx ?q idx) = nd_first_child (nodes s idx)"
    using fs_tree_parent_neq_self [OF t i(1)] by (auto simp: unlinked_def)
  ultimately show ?thesis using that unlinked_same unlinked_size by blast
qed

section \<open>Freeing a node with no children\<close>

lemma attached_free:
  assumes "attached ns j" and "j \<noteq> idx" and "children ns idx = {}" and "idx \<noteq> 0"
    and "\<And>k. k \<noteq> idx \<Longrightarrow> ns' k = ns k"
  shows "attached ns' j"
  using assms(1,2)
proof (induction rule: attached.induct)
  case root
  show ?case by (rule attached.root)
next
  case (below i)
  have par: "nd_parent (ns i) \<noteq> idx" using below(1,2) assms(3) unfolding children_def by blast
  have "ns' i = ns i" by (rule assms(5) [OF below.prems])
  with below(1,2) below.IH [OF par] have "in_use ns' i" "attached ns' (nd_parent (ns' i))"
    by (simp_all add: in_use_def)
  then show ?case using below(2) by (simp add: attached.below)
qed

lemma forest_free:
  assumes f: "fs_forest ns {idx}" and empty: "children ns idx = {}"
    and ns': "ns' = ns(idx := n)" and n: "\<not> nd_used n" and idx: "idx \<noteq> 0"
  shows "fs_tree ns'"
proof -
  have use: "in_use ns' j \<longleftrightarrow> in_use ns j \<and> j \<noteq> idx" for j using n by (auto simp: ns' in_use_def)
  have same: "k \<noteq> idx \<Longrightarrow> ns' k = ns k" for k by (simp add: ns')
  have ch: "children ns' j = children ns j - {idx}" for j
  proof (rule set_eqI)
    fix x
    show "x \<in> children ns' j \<longleftrightarrow> x \<in> children ns j - {idx}"
      by (cases "x = idx") (simp_all add: children_def use same)
  qed
  have "node_ok ns' j \<and> (\<exists>ks. kids_ok ns' j ks)" if j: "in_use ns' j" for j
  proof
    from j have j': "in_use ns j" "j \<noteq> idx" by (simp_all add: use)
    then have nok: "node_ok ns j" using fs_forestD(5) [OF f] by simp
    have par: "j \<noteq> 0 \<Longrightarrow> nd_parent (ns j) \<noteq> idx" using j' empty unfolding children_def by blast
    have att: "attached ns j \<Longrightarrow> attached ns' j" by (rule attached_free [OF _ j'(2) empty idx same])
    show "node_ok ns' j"
    proof (cases "j = 0")
      case True
      with nok idx show ?thesis by (simp add: node_ok_def same)
    next
      case False
      with nok par att show ?thesis by (simp add: node_ok_def same j'(2) use)
    qed
    obtain ks where ks: "sib_chain ns (nd_first_child (ns j)) ks" "set ks = children ns j - {idx}"
      using fs_forestD(6) [OF f j'(1)] by blast
    have "sib_chain ns' m ks = sib_chain ns m ks" for m
      by (rule sib_chain_cong) (use ks(2) in \<open>simp add: same\<close>)
    with ks j' show "\<exists>ks. kids_ok ns' j ks" by (auto simp: kids_ok_def ch same)
  qed
  moreover have "names_unique ns'"
    unfolding names_unique_def
  proof clarify
    fix j k
    assume *: "in_use ns' j" "j \<noteq> 0" "in_use ns' k" "k \<noteq> 0"
      "nd_parent (ns' j) = nd_parent (ns' k)" "nd_name (ns' j) = nd_name (ns' k)"
    then show "j = k" using fs_forestD(7) [OF f, of j k] by (simp add: use same)
  qed
  moreover have "in_use ns' 0" "ns' 0 = ns 0" using fs_forestD(1) [OF f] idx by (simp_all add: use same)
  ultimately show ?thesis using fs_forestD(2,3) [OF f] by (simp add: fs_tree_def)
qed

section \<open>Linking a free node in front of a child list\<close>

lemma forest_link:
  assumes f: "fs_forest ns {idx}" and i: "in_use ns idx" "idx \<noteq> 0"
    and p: "in_use ns p" "nd_is_dir (ns p)" "p \<noteq> idx"
    and nm: "name_ok (nd_name n)" "\<And>j. j \<in> children ns p \<Longrightarrow> j \<noteq> idx \<Longrightarrow> nd_name (ns j) \<noteq> nd_name n"
    and n: "nd_used n" "nd_is_dir n = nd_is_dir (ns idx) \<or> children ns idx = {}" "nd_parent n = p"
      "nd_first_child n = nd_first_child (ns idx)" "nd_next_sibling n = nd_first_child (ns p)"
      "nd_size n < FS_MAX_FILE_SIZE"
    and ns': "ns' = ns(idx := n, p := (ns p)\<lparr>nd_first_child := idx\<rparr>)"
    and att: "attached ns' p"
  shows "fs_tree ns'"
proof -
  have use: "in_use ns' j = in_use ns j" for j using n(1) i p by (auto simp: ns' in_use_def)
  have ns_idx: "ns' idx = n" using p(3) by (simp add: ns')
  have par: "nd_parent (ns' j) = (if j = idx then p else nd_parent (ns j))" for j
    using n(3) p(3) by (simp add: ns')
  have nam: "nd_name (ns' j) = (if j = idx then nd_name n else nd_name (ns j))" for j
    using p(3) by (simp add: ns')
  have ch: "children ns' j = (if j = p then insert idx (children ns p) else children ns j - {idx})" for j
    using i by (auto simp: children_def use par)
  have att_all: "attached ns j \<Longrightarrow> attached ns' j" for j
  proof (induction rule: attached.induct)
    case root
    then show ?case by (rule attached.root)
  next
    case (below k)
    show ?case
      by (rule attached.below) (use below(1,2) below.IH att in \<open>simp_all add: use par\<close>)
  qed
  have nxt: "j \<noteq> idx \<Longrightarrow> nd_next_sibling (ns' j) = nd_next_sibling (ns j)" for j by (simp add: ns')
  have chain: "idx \<notin> set ks \<Longrightarrow> sib_chain ns' m ks = sib_chain ns m ks" for m ks
    by (rule sib_chain_cong) (auto intro: nxt)
  have "node_ok ns' j \<and> (\<exists>ks. kids_ok ns' j ks)" if j: "in_use ns' j" for j
  proof
    from j have j': "in_use ns j" by (simp add: use)
    show "node_ok ns' j"
    proof (cases "j = idx")
      case True
      have "attached ns' idx" by (rule attached.below) (use i att in \<open>auto simp: use par\<close>)
      moreover have "nd_is_dir (ns' p)" using p by (simp add: ns')
      ultimately show ?thesis using True p(1) n(3,6) nm(1) ns_idx by (simp add: node_ok_def use)
    next
      case False
      with j' have nok: "node_ok ns j" using fs_forestD(5) [OF f] by simp
      have dir: "nd_is_dir (ns' k)" if "nd_is_dir (ns k)" "k = idx \<Longrightarrow> children ns idx \<noteq> {}" for k
        using that n(2) p(3) by (auto simp: ns')
      have "j \<noteq> 0 \<Longrightarrow> nd_is_dir (ns' (nd_parent (ns j)))"
        by (rule dir) (use nok j' in \<open>auto simp: node_ok_def children_def\<close>)
      moreover have "nd_size (ns' j) = nd_size (ns j)" using False by (simp add: ns')
      ultimately show ?thesis using nok False att_all by (auto simp: node_ok_def use par nam)
    qed
    obtain ks where ks: "sib_chain ns (nd_first_child (ns j)) ks" "set ks = children ns j - {idx}"
      using fs_forestD(6) [OF f j'] by blast
    show "\<exists>ks. kids_ok ns' j ks"
    proof (cases "j = p")
      case True
      have "sib_chain ns' (nd_first_child (ns' p)) (idx # ks)"
        using ks True i n(5) chain [of ks] ns_idx p(3) by (simp add: in_use_def) (simp add: ns')
      moreover have "set (idx # ks) = children ns' p" using True ks(2) by (auto simp: ch)
      ultimately show ?thesis using True unfolding kids_ok_def by blast
    next
      case False
      have "nd_first_child (ns' j) = nd_first_child (ns j)" using False n(4) by (simp add: ns')
      with False ks chain [of ks] show ?thesis by (auto simp: kids_ok_def ch)
    qed
  qed
  moreover have "names_unique ns'"
    unfolding names_unique_def
  proof clarify
    fix j k
    assume *: "in_use ns' j" "j \<noteq> 0" "in_use ns' k" "k \<noteq> 0"
      "nd_parent (ns' j) = nd_parent (ns' k)" "nd_name (ns' j) = nd_name (ns' k)"
    then show "j = k"
      using fs_forestD(7) [OF f, of j k] nm(2) [of j] nm(2) [of k]
      by (auto simp: use par nam children_def split: if_splits)
  qed
  moreover have "in_use ns' 0" "nd_is_dir (ns' 0)" "nd_parent (ns' 0) = -1"
    using fs_forestD(1-3) [OF f] i(2) use [of 0] by (simp_all add: ns')
  ultimately show ?thesis by (simp add: fs_tree_def)
qed

end
