(* ===== verification/Fs_Ops.thy ===== *)
theory Fs_Ops
  imports Fs_Tree
begin

text \<open>
  Every call of the RAM file system returns, and keeps the tree, from a state in which the tree is
  well formed and the current directory is a directory in use. \<open>fs_rm\<close> alone can lose the second.
\<close>

section \<open>Nodes that stay\<close>

definition keeps :: "(int \<Rightarrow> fs_node) \<Rightarrow> (int \<Rightarrow> fs_node) \<Rightarrow> bool" where
  "keeps ns ns' \<longleftrightarrow> (\<forall>j. in_use ns j \<longrightarrow> in_use ns' j \<and> nd_is_dir (ns' j) = nd_is_dir (ns j))"

lemma keeps_refl [simp]: "keeps ns ns"
  by (simp add: keeps_def)

lemma keeps_trans: "keeps a b \<Longrightarrow> keeps b c \<Longrightarrow> keeps a c"
  by (simp add: keeps_def)

lemma keeps_same: "same_nodes ns ns' \<Longrightarrow> keeps ns ns'"
  by (simp add: keeps_def same_nodes_simps)

lemma fs_inv_keeps:
  "fs_inv s \<Longrightarrow> fs_tree (nodes s') \<Longrightarrow> keeps (nodes s) (nodes s') \<Longrightarrow> cwd_node s' = cwd_node s \<Longrightarrow> fs_inv s'"
  by (simp add: fs_inv_def cwd_ok_def keeps_def)

lemma fs_inv_tree: "fs_inv s \<Longrightarrow> fs_tree (nodes s)"
  by (simp add: fs_inv_def)

section \<open>Adding a child\<close>

definition new_node :: "(int \<Rightarrow> fs_node) \<Rightarrow> int \<Rightarrow> string \<Rightarrow> bool \<Rightarrow> int \<Rightarrow> fs_node" where
  "new_node ns p nm isdir idx = (ns idx)\<lparr>nd_used := True, nd_size := 0,
     nd_data := (nd_data (ns idx))(0 := 0), nd_is_dir := isdir, nd_parent := p, nd_first_child := -1,
     nd_next_sibling := nd_first_child (ns p), nd_name := nm\<rparr>"

definition linked_new :: "(int \<Rightarrow> fs_node) \<Rightarrow> int \<Rightarrow> string \<Rightarrow> bool \<Rightarrow> int \<Rightarrow> (int \<Rightarrow> fs_node)" where
  "linked_new ns p nm isdir idx =
     ns(idx := new_node ns p nm isdir idx, p := (ns p)\<lparr>nd_first_child := idx\<rparr>)"

lemma add_child_made:
  assumes p: "p \<ge> 0" "nd_used (nodes s p)" "nd_is_dir (nodes s p)" and nm: "name_ok nm"
    and no: "find_child s p nm = Some (-1)"
    and idx: "List.find (\<lambda>i. \<not> nd_used (nodes s i)) [1..FS_MAX_NODES - 1] = Some idx"
  shows "add_child s p nm isdir = Some (idx, s\<lparr>nodes := linked_new (nodes s) p nm isdir idx\<rparr>)"
proof -
  from find_upto_Some [OF idx] have i: "\<not> nd_used (nodes s idx)" "1 \<le> idx" by auto
  with p have "idx \<noteq> p" by auto
  with p nm no i show ?thesis
    by (simp add: add_child_def name_ok_def alloc_node_def idx [simplified] upd_node_def Let_def str_copy_fits
        linked_new_def new_node_def fun_upd_twist [of p idx])
qed

lemma linked_new_tree:
  assumes t: "fs_tree ns" and p: "in_use ns p" "nd_is_dir (ns p)" and nm: "name_ok nm"
    and no: "\<And>j. j \<in> children ns p \<Longrightarrow> nd_name (ns j) \<noteq> nm"
    and idx: "\<not> nd_used (ns idx)" "1 \<le> idx" "idx < FS_MAX_NODES"
  shows "fs_tree (linked_new ns p nm isdir idx)" and "keeps ns (linked_new ns p nm isdir idx)"
proof -
  let ?n0 = "(new_node ns p nm isdir idx)\<lparr>nd_parent := -1\<rparr>"
  let ?m = "ns(idx := ?n0)"
  have ip: "idx \<noteq> p" using idx p by (auto simp: in_use_def)
  have use: "in_use ?m j \<longleftrightarrow> in_use ns j \<or> j = idx" for j
    using idx by (auto simp: in_use_def new_node_def)
  have notin: "\<not> in_use ns idx" using idx by (simp add: in_use_def)
  have empty: "children ns idx = {}"
    using fs_tree_parent(1) [OF t] notin by (auto simp: children_def)
  have par: "in_use ns j \<Longrightarrow> ?m j = ns j" for j using notin by auto
  have ch: "children ?m j = children ns j" if "j \<noteq> -1" for j
    using that notin use by (auto simp: children_def new_node_def)
  have ch': "children ?m j - {idx} = children ns j" for j
    using notin use by (auto simp: children_def new_node_def)
  have att: "attached ns j \<Longrightarrow> attached ?m j" for j
    by (erule attached_mono) (use notin in \<open>auto simp: use\<close>)
  have forest: "fs_forest ?m {idx}"
  proof (rule fs_forestI)
    show "in_use ?m 0" "nd_is_dir (?m 0)" "nd_parent (?m 0) = -1" "0 \<notin> {idx}"
      using fs_treeD(1-3) [OF t] idx by (auto simp: use)
    show "node_ok ?m j" if "in_use ?m j" "j \<notin> {idx}" for j
    proof -
      from that have j: "in_use ns j" "?m j = ns j" by (auto simp: use)
      show ?thesis
      proof (cases "j = 0")
        case False
        from fs_tree_parent [OF t j(1) False] notin have "?m (nd_parent (ns j)) = ns (nd_parent (ns j))" by auto
        with fs_treeD(5) [OF t j(1)] False att [of j] show ?thesis
          using that(2) by (simp add: node_ok_def use j(2))
      qed (use fs_treeD(5) [OF t j(1)] j idx in \<open>simp add: node_ok_def\<close>)
    qed
    show "\<exists>ks. sib_chain ?m (nd_first_child (?m j)) ks \<and> set ks = children ?m j - {idx}"
      if "in_use ?m j" for j
    proof (cases "j = idx")
      case True
      have "sib_chain ?m (nd_first_child (?m idx)) []" by (simp add: new_node_def)
      moreover have "set [] = children ?m idx - {idx}" using ch' [of idx] empty by simp
      ultimately show ?thesis using True by blast
    next
      case False
      with that have j: "in_use ns j" by (simp add: use)
      from fs_treeD(6) [OF t j] obtain ks
        where ks: "sib_chain ns (nd_first_child (ns j)) ks" "set ks = children ns j" by (auto simp: kids_ok_def)
      have "sib_chain ?m n ks = sib_chain ns n ks" for n
        by (rule sib_chain_cong) (use ks(2) notin in \<open>auto simp: children_def\<close>)
      with ks False show ?thesis by (auto simp: ch')
    qed
    show "j = k" if "in_use ?m j" "j \<noteq> 0" "j \<notin> {idx}" "in_use ?m k" "k \<noteq> 0" "k \<notin> {idx}"
      "nd_parent (?m j) = nd_parent (?m k)" "nd_name (?m j) = nd_name (?m k)" for j k
    proof -
      from that have "in_use ns j" "in_use ns k" "?m j = ns j" "?m k = ns k" by (simp_all add: use)
      with that fs_treeD(4) [OF t] show ?thesis unfolding names_unique_def by metis
    qed
  qed
  have new: "linked_new ns p nm isdir idx =
      ?m(idx := new_node ns p nm isdir idx, p := (?m p)\<lparr>nd_first_child := idx\<rparr>)"
    using ip by (simp add: linked_new_def)
  have use': "in_use (linked_new ns p nm isdir idx) j \<longleftrightarrow> in_use ns j \<or> j = idx" for j
    using idx p by (auto simp: in_use_def linked_new_def new_node_def)
  show keeps: "keeps ns (linked_new ns p nm isdir idx)"
  proof -
    have "nd_is_dir (linked_new ns p nm isdir idx j) = nd_is_dir (ns j)" if "j \<noteq> idx" for j
      using that by (simp add: linked_new_def)
    with notin use' show ?thesis unfolding keeps_def by metis
  qed
  show "fs_tree (linked_new ns p nm isdir idx)"
  proof (rule forest_link [OF forest _ _ _ _ _ _ _ _ _ _ _ _ _ new])
    show "attached (linked_new ns p nm isdir idx) p"
      using fs_tree_attached [OF t p(1)]
    proof (rule attached_mono)
      fix j
      assume "in_use ns j"
      with notin ip show "in_use (linked_new ns p nm isdir idx) j \<and>
          nd_parent (linked_new ns p nm isdir idx j) = nd_parent (ns j)"
        by (auto simp: use') (auto simp: linked_new_def)
    qed
    show "nd_name (?m j) \<noteq> nd_name (new_node ns p nm isdir idx)" if "j \<in> children ?m p" "j \<noteq> idx" for j
      using that no [of j] p(1) ch [of p] by (auto simp: new_node_def in_use_def)
    show "nd_is_dir (new_node ns p nm isdir idx) = nd_is_dir (?m idx) \<or> children ?m idx = {}"
      by (simp add: new_node_def)
  qed (use use ip idx p nm in \<open>simp_all add: new_node_def in_use_def\<close>)
qed

lemma add_child_ends:
  assumes t: "fs_tree (nodes s)" and p: "in_use (nodes s) p" "nd_is_dir (nodes s p)" and nm: "name_ok nm"
  obtains (made) idx where "add_child s p nm isdir = Some (idx, s\<lparr>nodes := linked_new (nodes s) p nm isdir idx\<rparr>)"
      "\<not> nd_used (nodes s idx)" "1 \<le> idx" "idx < FS_MAX_NODES"
      "\<And>j. j \<in> children (nodes s) p \<Longrightarrow> nd_name (nodes s j) \<noteq> nm"
  | (present) j where "add_child s p nm isdir = Some (-1, s)" "j \<in> children (nodes s) p" "nd_name (nodes s j) = nm"
  | (full) "add_child s p nm isdir = Some (-1, s)" "\<And>i. 0 \<le> i \<Longrightarrow> i < FS_MAX_NODES \<Longrightarrow> nd_used (nodes s i)"
proof -
  obtain c where c: "find_child s p nm = Some c"
    and cc: "(c = -1 \<and> (\<forall>j \<in> children (nodes s) p. nd_name (nodes s j) \<noteq> nm)) \<or>
         (c \<in> children (nodes s) p \<and> nd_name (nodes s c) = nm)"
    using find_child_tree [OF t p(1)] .
  show ?thesis
  proof (cases "c = -1")
    case False
    with c p nm have "add_child s p nm isdir = Some (-1, s)"
      by (simp add: add_child_def in_use_def name_ok_def)
    with False cc present show ?thesis by blast
  next
    case True
    show ?thesis
    proof (cases "List.find (\<lambda>i. \<not> nd_used (nodes s i)) [1..FS_MAX_NODES - 1]")
      case None
      with True c p nm have "add_child s p nm isdir = Some (-1, s)"
        by (simp add: add_child_def in_use_def name_ok_def alloc_node_def)
      moreover have "nd_used (nodes s i)" if "0 \<le> i" "i < FS_MAX_NODES" for i
        using None [unfolded find_upto_None] that fs_treeD(1) [OF t] by (cases "i = 0") (auto simp: in_use_def)
      ultimately show ?thesis by (rule full)
    next
      case (Some idx)
      have "add_child s p nm isdir = Some (idx, s\<lparr>nodes := linked_new (nodes s) p nm isdir idx\<rparr>)"
        by (rule add_child_made) (use p nm c True Some in \<open>auto simp: in_use_def\<close>)
      moreover note find_upto_Some [OF Some]
      ultimately show ?thesis using made [of idx] True cc sib_chain_not_nil children_pos by fastforce
    qed
  qed
qed

section \<open>The calls return and keep the tree\<close>

text \<open>A call's outcome: it returned, its state is well formed, what was in use still is.\<close>

definition good :: "fs_state \<Rightarrow> (int \<times> fs_state) option \<Rightarrow> bool" where
  "good s r \<longleftrightarrow> (\<exists>rc s'. r = Some (rc, s') \<and> (rc = 0 \<or> rc = -1) \<and> fs_inv s')"

lemma goodI [intro]: "fs_inv s' \<Longrightarrow> rc = 0 \<or> rc = -1 \<Longrightarrow> good s (Some (rc, s'))"
  by (auto simp: good_def)

lemma add_child_inv:
  assumes inv: "fs_inv s" and p: "in_use (nodes s) p" "nd_is_dir (nodes s p)" and nm: "name_ok nm"
  shows "\<exists>idx s'. add_child s p nm isdir = Some (idx, s') \<and> fs_inv s' \<and> keeps (nodes s) (nodes s') \<and>
    cwd_node s' = cwd_node s"
proof -
  have t: "fs_tree (nodes s)" using inv by (rule fs_inv_tree)
  from t p nm show ?thesis
  proof (cases rule: add_child_ends [where isdir = isdir])
    case (made idx)
    note new = linked_new_tree [OF t p nm made(5,2,3,4), of isdir]
    from fs_inv_keeps [OF inv, of "s\<lparr>nodes := linked_new (nodes s) p nm isdir idx\<rparr>"] new
    show ?thesis by (simp add: made(1))
  qed (use inv in auto)
qed

lemma fs_mkdir_good [inv_intros]:
  assumes inv: "fs_inv s"
  shows "good s (fs_mkdir s path)"
proof -
  obtain r where r: "split_parent_and_name s path = Some r"
    and ok: "\<forall>d nm. r = Some (d, nm) \<longrightarrow> in_use (nodes s) d \<and> nd_is_dir (nodes s d) \<and> name_ok nm"
    using split_parent_and_name_ends [OF inv, of path] by blast
  show ?thesis
  proof (cases r)
    case None
    with r inv show ?thesis by (auto simp: fs_mkdir_def)
  next
    case (Some dn)
    obtain d nm where dn: "dn = (d, nm)" by (cases dn)
    with Some ok add_child_inv [OF inv, of d nm True] obtain idx s'
      where "add_child s d nm True = Some (idx, s')" "fs_inv s'" by auto
    with r Some dn show ?thesis by (auto simp: fs_mkdir_def)
  qed
qed

lemma fs_touch_ends:
  assumes inv: "fs_inv s"
  shows "\<exists>rc s'. fs_touch s path = Some (rc, s') \<and> (rc = 0 \<or> rc = -1) \<and> fs_inv s' \<and>
    keeps (nodes s) (nodes s') \<and> cwd_node s' = cwd_node s"
proof -
  obtain r where r: "split_parent_and_name s path = Some r"
    and ok: "\<forall>d nm. r = Some (d, nm) \<longrightarrow> in_use (nodes s) d \<and> nd_is_dir (nodes s d) \<and> name_ok nm"
    using split_parent_and_name_ends [OF inv, of path] by blast
  show ?thesis
  proof (cases r)
    case None
    with r inv show ?thesis by (auto simp: fs_touch_def)
  next
    case (Some dn)
    obtain d nm where dn: "dn = (d, nm)" by (cases dn)
    with Some ok have d: "in_use (nodes s) d" by auto
    from Some dn ok add_child_inv [OF inv, of d nm False] obtain idx s'
      where add: "add_child s d nm False = Some (idx, s')" and inv': "fs_inv s'"
        and keep: "keeps (nodes s) (nodes s')" "cwd_node s' = cwd_node s" by auto
    from keep d have "in_use (nodes s') d" by (simp add: keeps_def)
    from find_child_tree [OF fs_inv_tree [OF inv'] this, of nm] obtain c
      where "find_child s' d nm = Some c" by metis
    with r Some dn add inv' keep show ?thesis by (auto simp: fs_touch_def)
  qed
qed

lemma fs_touch_good [inv_intros]: "fs_inv s \<Longrightarrow> good s (fs_touch s path)"
  using fs_touch_ends [of s path] by (auto simp: good_def)

lemma upd_data_tree:
  assumes t: "fs_tree (nodes s)" and sz: "sz < FS_MAX_FILE_SIZE"
  shows "fs_tree (nodes (upd_node s i (\<lambda>nd. nd\<lparr>nd_data := f nd, nd_size := sz\<rparr>)))"
    and "keeps (nodes s) (nodes (upd_node s i (\<lambda>nd. nd\<lparr>nd_data := f nd, nd_size := sz\<rparr>)))"
proof -
  have same: "same_nodes (nodes s) (nodes (upd_node s i (\<lambda>nd. nd\<lparr>nd_data := f nd, nd_size := sz\<rparr>)))"
    by (simp add: same_nodes_def upd_node_def)
  then show "keeps (nodes s) (nodes (upd_node s i (\<lambda>nd. nd\<lparr>nd_data := f nd, nd_size := sz\<rparr>)))"
    by (rule keeps_same)
  show "fs_tree (nodes (upd_node s i (\<lambda>nd. nd\<lparr>nd_data := f nd, nd_size := sz\<rparr>)))"
    by (rule fs_tree_data [OF t same])
      (use sz fs_treeD(5) [OF t] in \<open>simp_all add: upd_node_def node_ok_def\<close>)
qed

lemma fs_store_inv:
  assumes inv: "fs_inv s"
  shows "\<exists>rc s'. fs_store s node data sz = (rc, s') \<and> (rc = 0 \<or> rc = -1) \<and> fs_inv s'"
proof -
  have upd: "fs_inv (upd_node s node (\<lambda>nd. nd\<lparr>nd_data := f nd, nd_size := n\<rparr>))" if "n < FS_MAX_FILE_SIZE" for f n
    using upd_data_tree [OF fs_inv_tree [OF inv] that] by (intro fs_inv_keeps [OF inv]) (auto simp: upd_node_def)
  show ?thesis
    by (auto simp: fs_store_def Let_def inv intro!: upd split: option.split)
qed

lemma fs_write_file_good [inv_intros]:
  assumes inv: "fs_inv s"
  shows "good s (fs_write_file s path data sz)"
proof -
  obtain n where n: "resolve_path s path = Some n" using resolve_path_ends [OF inv] by blast
  obtain rc s1 where s1: "fs_touch s path = Some (rc, s1)" "rc = 0 \<or> rc = -1" "fs_inv s1"
    using fs_touch_ends [OF inv] by blast
  obtain n1 where n1: "resolve_path s1 path = Some n1" using resolve_path_ends [OF s1(3)] by blast
  show ?thesis
    using n s1 n1 fs_store_inv [OF inv, of n data sz] fs_store_inv [OF s1(3), of n1 data sz]
    by (auto simp: fs_write_file_def good_def)
qed

lemma fs_write_text_good [inv_intros]: "fs_inv s \<Longrightarrow> good s (fs_write_text s path text)"
  by (simp add: fs_write_text_def fs_write_file_good)

lemma fs_cp_good [inv_intros]:
  assumes inv: "fs_inv s"
  shows "good s (fs_cp s src dst)"
  using resolve_path_ends [OF inv, of src] fs_write_file_good [OF inv] inv
  by (auto simp: fs_cp_def)

lemma fs_cd_good [inv_intros]:
  assumes inv: "fs_inv s"
  shows "good s (fs_cd s path)"
  using resolve_path_ends [OF inv, of path] inv
  by (auto simp: fs_cd_def good_def fs_inv_def cwd_ok_def)

text \<open>Removing: the tree survives; the current directory does unless it is the node removed.\<close>

lemma fs_rm_ends:
  assumes inv: "fs_inv s"
  shows "\<exists>rc s'. fs_rm s path = Some (rc, s') \<and> (rc = 0 \<or> rc = -1) \<and> fs_tree (nodes s') \<and>
    cwd_node s' = cwd_node s \<and>
    (rc = -1 \<longrightarrow> s' = s) \<and>
    (rc = 0 \<longrightarrow> (\<exists>n. resolve_path s path = Some n \<and> n \<noteq> 0 \<and> in_use (nodes s) n \<and> children (nodes s) n = {} \<and>
       (\<forall>j. in_use (nodes s') j \<longleftrightarrow> in_use (nodes s) j \<and> j \<noteq> n) \<and>
       (\<forall>j. j \<noteq> n \<longrightarrow> nd_is_dir (nodes s' j) = nd_is_dir (nodes s j) \<and> nd_parent (nodes s' j) = nd_parent (nodes s j) \<and>
              nd_name (nodes s' j) = nd_name (nodes s j) \<and> nd_size (nodes s' j) = nd_size (nodes s j) \<and>
              nd_data (nodes s' j) = nd_data (nodes s j))))"
proof -
  have t: "fs_tree (nodes s)" using inv by (rule fs_inv_tree)
  obtain n where n: "resolve_path s path = Some n" "n = -1 \<or> in_use (nodes s) n"
    using resolve_path_ends [OF inv] by blast
  show ?thesis
  proof (cases "n \<le> 0 \<or> nd_is_dir (nodes s n) \<and> nd_first_child (nodes s n) \<noteq> -1")
    case True
    with n t show ?thesis by (auto simp: fs_rm_def)
  next
    case False
    with n have use: "in_use (nodes s) n" "n \<noteq> 0" by (auto simp: in_use_def)
    have empty: "children (nodes s) n = {}"
      using False file_no_children [OF t, of n] no_first_child [OF t use(1)] by auto
    obtain ns where un: "unlink_node_from_parent s n = Some (0, s\<lparr>nodes := ns\<rparr>)"
      and f: "fs_forest ns {n}" and same: "same_nodes (nodes s) ns"
      and data: "\<And>j. nd_size (ns j) = nd_size (nodes s j)" "\<And>j. nd_data (ns j) = nd_data (nodes s j)"
      using unlink_node_tree [OF t use] by metis
    let ?n = "(ns n)\<lparr>nd_used := False, nd_first_child := -1, nd_next_sibling := -1, nd_size := 0, nd_name := []\<rparr>"
    have "fs_tree (ns(n := ?n))"
      by (rule forest_free [OF f _ refl]) (use empty use in \<open>simp_all add: same_nodes_simps [OF same]\<close>)
    moreover have "fs_rm s path = Some (0, s\<lparr>nodes := ns(n := ?n)\<rparr>)"
      using n False un by (simp add: fs_rm_def upd_node_def)
    moreover have "in_use (ns(n := ?n)) j \<longleftrightarrow> in_use (nodes s) j \<and> j \<noteq> n" for j
      using same_nodes_simps(1) [OF same, of j] by (auto simp: in_use_def)
    ultimately show ?thesis
      using n use empty data by (simp add: same_nodes_simps [OF same])
  qed
qed

lemma fs_rm_inv:
  assumes inv: "fs_inv s" and rm: "fs_rm s path = Some (rc, s')"
    and other: "resolve_path s path \<noteq> Some (cwd_node s)"
  shows "fs_inv s'"
proof (cases "rc = 0")
  case True
  with fs_rm_ends [OF inv, of path] rm obtain n where n: "resolve_path s path = Some n"
    and *: "fs_tree (nodes s')" "cwd_node s' = cwd_node s"
      "\<forall>j. in_use (nodes s') j \<longleftrightarrow> in_use (nodes s) j \<and> j \<noteq> n"
      "\<forall>j. j \<noteq> n \<longrightarrow> nd_is_dir (nodes s' j) = nd_is_dir (nodes s j)" by auto
  from n other have "cwd_node s \<noteq> n" by auto
  with * inv show ?thesis by (simp add: fs_inv_def cwd_ok_def)
next
  case False
  with fs_rm_ends [OF inv, of path] rm inv show ?thesis by auto
qed

section \<open>Moving\<close>

text \<open>The walk from the destination to the root ends; when it does not meet the source, the
  destination stays attached whatever happens to the source's own parent link.\<close>

lemma reaches_up_ends:
  assumes "fs_tree ns" and "attached ns p"
  shows "\<exists>b. reaches_up ns src p = Some b"
  using assms(2)
proof (induction rule: attached.induct)
  case root
  show ?case
    using fs_treeD(3) [OF assms(1)] by (subst reaches_up.simps, subst reaches_up.simps) auto
next
  case (below i)
  then show ?case by (subst reaches_up.simps) auto
qed

lemma reaches_up_False:
  assumes t: "fs_tree ns" and att: "attached ns p" and no: "reaches_up ns src p = Some False"
    and src: "src \<noteq> 0"
    and ns': "\<And>j. j \<noteq> src \<Longrightarrow> in_use ns j \<Longrightarrow> in_use ns' j \<and> nd_parent (ns' j) = nd_parent (ns j)"
  shows "attached ns' p \<and> p \<noteq> src"
  using att no
proof (induction rule: attached.induct)
  case root
  show ?case using src by (simp add: attached.root)
next
  case (below i)
  from below(1) have "i \<noteq> -1" by (auto simp: in_use_def)
  with below.prems have i: "i \<noteq> src" "reaches_up ns src (nd_parent (ns i)) = Some False"
    by (subst (asm) reaches_up.simps, simp split: if_splits)+
  with below(1,2) below.IH ns' [OF i(1) below(1)] have "attached ns' i"
    by (metis attached.below)
  with i show ?case by simp
qed

lemma file_reaches_up:
  assumes t: "fs_tree ns" and att: "attached ns p" and dir: "nd_is_dir (ns p)" "\<not> nd_is_dir (ns src)"
  shows "reaches_up ns src p = Some False"
  using att dir(1)
proof (induction rule: attached.induct)
  case root
  with dir have "src \<noteq> 0" by auto
  then show ?case
    using fs_treeD(3) [OF t] by (subst reaches_up.simps, subst reaches_up.simps) simp
next
  case (below i)
  with dir have "i \<noteq> src" by auto
  moreover have "i \<noteq> -1" using below(1) by (auto simp: in_use_def)
  moreover have "nd_is_dir (ns (nd_parent (ns i)))" using fs_tree_parent(2) [OF t below(1,2)] .
  ultimately show ?case using below.IH by (subst reaches_up.simps) simp
qed

definition moved :: "(int \<Rightarrow> fs_node) \<Rightarrow> int \<Rightarrow> int \<Rightarrow> string \<Rightarrow> (int \<Rightarrow> fs_node)" where
  "moved ns src d nm = ns(src := (ns src)\<lparr>nd_parent := d, nd_next_sibling := nd_first_child (ns d), nd_name := nm\<rparr>,
     d := (ns d)\<lparr>nd_first_child := src\<rparr>)"

lemma moved_tree:
  assumes t: "fs_tree ns0" and f: "fs_forest ns {src}" and same: "same_nodes ns0 ns"
    and sz: "nd_size (ns src) = nd_size (ns0 src)"
    and i: "in_use ns0 src" "src \<noteq> 0" and d: "in_use ns0 d" "nd_is_dir (ns0 d)" and nm: "name_ok nm"
    and no: "\<And>j. j \<in> children ns0 d \<Longrightarrow> nd_name (ns0 j) \<noteq> nm"
    and up: "reaches_up ns0 src d = Some False"
  shows "fs_tree (moved ns src d nm)" and "keeps ns0 (moved ns src d nm)"
proof -
  note simps = same_nodes_simps [OF same]
  have att0: "attached ns0 d" by (rule fs_tree_attached [OF t d(1)])
  have use: "in_use (moved ns src d nm) j \<longleftrightarrow> in_use ns0 j" for j
    using i d simps(1) [of j] by (auto simp: moved_def in_use_def)
  have par: "nd_parent (moved ns src d nm j) = nd_parent (ns0 j)" if "j \<noteq> src" for j
    using that by (simp add: moved_def simps)
  have att: "attached (moved ns src d nm) d \<and> d \<noteq> src"
    by (rule reaches_up_False [OF t att0 up i(2)]) (simp add: use par)
  show "keeps ns0 (moved ns src d nm)"
    using att by (simp add: keeps_def use) (simp add: moved_def simps)
  show "fs_tree (moved ns src d nm)"
  proof (rule forest_link [OF f _ _ _ _ _ _ _ _ _ _ _ _ _ moved_def])
    show "nd_name (ns j) \<noteq> nd_name ((ns src)\<lparr>nd_parent := d, nd_next_sibling := nd_first_child (ns d), nd_name := nm\<rparr>)"
      if "j \<in> children ns d" "j \<noteq> src" for j
      using that no [of j] by (simp add: simps)
    show "attached (moved ns src d nm) d" using att by simp
  qed (use i d att nm sz fs_treeD(5) [OF t i(1)] in \<open>simp_all add: simps node_ok_def in_use_def\<close>)
qed

lemma fs_mv_moved:
  assumes inv: "fs_inv s" and src: "resolve_path s src_path = Some src" "in_use (nodes s) src" "src \<noteq> 0"
    and dn: "split_parent_and_name s dst_path = Some (Some (d, nm))"
    and d: "in_use (nodes s) d" "nd_is_dir (nodes s d)" "name_ok nm"
    and no: "\<And>j. j \<in> children (nodes s) d \<Longrightarrow> nd_name (nodes s j) \<noteq> nm"
    and up: "reaches_up (nodes s) src d = Some False"
  obtains ns where "fs_mv s src_path dst_path = Some (0, s\<lparr>nodes := moved ns src d nm\<rparr>)" and "d \<noteq> src"
    and "fs_forest ns {src}" and "same_nodes (nodes s) ns"
    and "\<forall>j. nd_size (ns j) = nd_size (nodes s j)" and "\<forall>j. nd_data (ns j) = nd_data (nodes s j)"
proof -
  have t: "fs_tree (nodes s)" using inv by (rule fs_inv_tree)
  have c: "find_child s d nm = Some (-1)" by (rule find_child_absent [OF t d(1) no])
  have att: "attached (nodes s) d" by (rule fs_tree_attached [OF t d(1)])
  obtain ns where un: "unlink_node_from_parent s src = Some (0, s\<lparr>nodes := ns\<rparr>)"
    and ns: "fs_forest ns {src}" "same_nodes (nodes s) ns"
      "\<forall>j. nd_size (ns j) = nd_size (nodes s j)" "\<forall>j. nd_data (ns j) = nd_data (nodes s j)"
    using unlink_node_tree [OF t src(2,3)] by metis
  have ne: "d \<noteq> src" using reaches_up_False [OF t att up src(3), of "nodes s"] by simp
  have "\<not> src \<le> 0" using src by (auto simp: in_use_def)
  moreover have "(if nd_is_dir (nodes s src) then reaches_up (nodes s) src d else Some False) = Some False"
    using up by simp
  ultimately have "fs_mv s src_path dst_path = Some (0, upd_node (upd_node (upd_node (s\<lparr>nodes := ns\<rparr>) src
      (\<lambda>n. n\<lparr>nd_parent := d, nd_next_sibling := nd_first_child (nodes (s\<lparr>nodes := ns\<rparr>) d)\<rparr>)) d
      (\<lambda>n. n\<lparr>nd_first_child := src\<rparr>)) src (\<lambda>n. n\<lparr>nd_name := str_copy (nd_name n) nm (FS_NAME_MAX + 1)\<rparr>))"
    unfolding fs_mv_def by (simp only: src(1) dn c d(2) un bind.bind_lunit option.case prod.case simp_thms
        if_True if_False Let_def fs_state.select_convs)
  also have "\<dots> = Some (0, s\<lparr>nodes := moved ns src d nm\<rparr>)"
    using ne d(3) by (simp add: upd_node_def moved_def name_ok_def str_copy_fits fun_upd_twist [of d src])
  finally have "fs_mv s src_path dst_path = Some (0, s\<lparr>nodes := moved ns src d nm\<rparr>)" .
  then show thesis using ne ns by (rule that)
qed

lemma fs_mv_good [inv_intros]:
  assumes inv: "fs_inv s"
  shows "good s (fs_mv s src_path dst_path)"
proof -
  have t: "fs_tree (nodes s)" using inv by (rule fs_inv_tree)
  obtain src where src: "resolve_path s src_path = Some src" "src = -1 \<or> in_use (nodes s) src"
    using resolve_path_ends [OF inv] by blast
  obtain r where r: "split_parent_and_name s dst_path = Some r"
    and ok: "\<forall>d nm. r = Some (d, nm) \<longrightarrow> in_use (nodes s) d \<and> nd_is_dir (nodes s d) \<and> name_ok nm"
    using split_parent_and_name_ends [OF inv, of dst_path] by blast
  show ?thesis
  proof (cases "src \<le> 0 \<or> r = None")
    case True
    with src r inv show ?thesis by (auto simp: fs_mv_def)
  next
    case False
    then obtain d nm where dn: "r = Some (d, nm)" by auto
    with ok have d: "in_use (nodes s) d" "nd_is_dir (nodes s d)" "name_ok nm" by auto
    from False src have i: "in_use (nodes s) src" "src \<noteq> 0" by (auto simp: in_use_def)
    obtain c where c: "find_child s d nm = Some c"
      and cc: "(c = -1 \<and> (\<forall>j \<in> children (nodes s) d. nd_name (nodes s j) \<noteq> nm)) \<or>
         (c \<in> children (nodes s) d \<and> nd_name (nodes s c) = nm)"
      using find_child_tree [OF t d(1)] .
    let ?up = "if nd_is_dir (nodes s src) then reaches_up (nodes s) src d else Some False"
    have att: "attached (nodes s) d" by (rule fs_tree_attached [OF t d(1)])
    obtain b where b: "?up = Some b" using reaches_up_ends [OF t att, of src] by (cases "nd_is_dir (nodes s src)") auto
    show ?thesis
    proof (cases "c \<noteq> -1 \<or> b")
      case True
      then have "fs_mv s src_path dst_path = Some (-1, s)"
        unfolding fs_mv_def src r dn bind.bind_lunit option.case prod.case c b
        using False d(2) by (cases "c = -1") simp_all
      with inv show ?thesis by auto
    next
      case go: False
      with b file_reaches_up [OF t att d(2), of src] have up: "reaches_up (nodes s) src d = Some False"
        by (cases "nd_is_dir (nodes s src)") simp_all
      have no: "nd_name (nodes s j) \<noteq> nm" if "j \<in> children (nodes s) d" for j
        using that cc go children_pos [of c "nodes s" d] by auto
      obtain ns where mv: "fs_mv s src_path dst_path = Some (0, s\<lparr>nodes := moved ns src d nm\<rparr>)"
        and "d \<noteq> src" and ns: "fs_forest ns {src}" "same_nodes (nodes s) ns" "\<forall>j. nd_size (ns j) = nd_size (nodes s j)"
        and "\<forall>j. nd_data (ns j) = nd_data (nodes s j)"
        using fs_mv_moved [OF inv src(1) i r [unfolded dn] d no up] .
      have "fs_inv (s\<lparr>nodes := moved ns src d nm\<rparr>)"
        using moved_tree [OF t ns(1,2) spec [OF ns(3)] i d no up] fs_inv_keeps [OF inv, of "s\<lparr>nodes := moved ns src d nm\<rparr>"]
        by simp
      then show ?thesis unfolding mv by auto
    qed
  qed
qed

end
