(* ===== verification/Basic_Safe.thy ===== *)
theory Basic_Safe
  imports Basic_Pure Fs_Ops
begin

text \<open>
  The invariant of a BASIC run: every table stays within the size the code gives it and every line number on a
  stack is one of the program. Each statement keeps it; and when the program defines no function and the stack has
  room for the nesting of its lines, each statement comes to an end.
\<close>

section \<open>The invariant\<close>

definition chan_ok :: "file_chan \<Rightarrow> bool" where
  "chan_ok f = (length (fc_path f) \<le> 63 \<and> length (fc_buf f) \<le> 8191 \<and> fc_pos f \<le> length (fc_buf f))"

definition fn_ok :: "def_fn \<Rightarrow> bool" where
  "fn_ok f = (fn_letter f < 26 \<and> param_var f < 26 \<and> length (fn_body f) \<le> 127)"

definition frame_ok :: "nat \<Rightarrow> for_frame \<Rightarrow> bool" where
  "frame_ok n f = (ff_var f < 26 \<and> ff_step f \<noteq> 0 \<and> ff_body_pc f \<le> n)"

definition run_inv :: "nat \<Rightarrow> bst \<Rightarrow> bool" where
  "run_inv n st =
     ((\<forall>i. 0 \<le>s array_sizes st i \<and> array_sizes st i \<le>s BASIC_ARRAY_MAX) \<and> (\<forall>i. short (str_vars st i)) \<and>
      length (call_stack st) \<le> 32 \<and> (\<forall>p\<in>set (call_stack st). p \<le> n) \<and>
      length (for_stack st) \<le> 16 \<and> (\<forall>f\<in>set (for_stack st). frame_ok n f) \<and>
      length (while_stack st) \<le> 16 \<and> (\<forall>w\<in>set (while_stack st). w < n) \<and>
      length (def_fns st) \<le> 16 \<and> (\<forall>f\<in>set (def_fns st). fn_ok f) \<and>
      length (b_files st) = 4 \<and> (\<forall>f\<in>set (b_files st). chan_ok f) \<and>
      pc st \<le> n \<and> data_line st \<le> n \<and> fs_inv (bfs st))"

text \<open>With \<open>F\<close>, there are no user functions.\<close>

definition b_inv :: "bool \<Rightarrow> nat \<Rightarrow> bst \<Rightarrow> bool" where
  "b_inv F n st = (run_inv n st \<and> (F \<longrightarrow> def_fns st = []))"

definition step_ok :: "bool \<Rightarrow> nat \<Rightarrow> step \<Rightarrow> bool" where
  "step_ok F n r = (case r of Next st \<Rightarrow> b_inv F n st | Finish st \<Rightarrow> b_inv F n st | RtErr _ st \<Rightarrow> b_inv F n st | Crash st \<Rightarrow> b_inv F n st | NoReturn st \<Rightarrow> \<not> F)"

text \<open>The stack has room for texts of \<open>L\<close> characters, which are those of the program and of answers and data.\<close>

definition room :: "bool \<Rightarrow> nat \<Rightarrow> nat \<Rightarrow> basic_line list \<Rightarrow> bool" where
  "room F L d ls = ((F \<longrightarrow> 2 * L + 1 < d) \<and> 95 \<le> L \<and> (\<forall>l\<in>set ls. length (line_text l) \<le> L))"

named_theorems step_intros

lemma step_ok_simps [simp]:
  "step_ok F n (Next st) = b_inv F n st" "step_ok F n (Finish st) = b_inv F n st" "step_ok F n (RtErr m st) = b_inv F n st"
  "step_ok F n (Crash st) = b_inv F n st" "step_ok F n (NoReturn st) = (\<not> F)"
  by (simp_all add: step_ok_def)

section \<open>Changes of the state that keep it\<close>

lemma inv_rand [simp]: "b_inv F n (st\<lparr>rand_state := x\<rparr>) = b_inv F n st"
  by (simp add: b_inv_def run_inv_def)

lemma inv_write [simp]: "b_inv F n (write_out s st) = b_inv F n st"
  by (simp add: b_inv_def run_inv_def write_out_def)

lemma inv_spaces [simp]: "b_inv F n (print_spaces k st) = b_inv F n st"
  by (simp add: print_spaces_def)

lemma inv_set_var [simp]: "b_inv F n (set_var i v st) = b_inv F n st"
  by (simp add: b_inv_def run_inv_def set_var_def)

lemma inv_set_str [simp]: "b_inv F n st \<Longrightarrow> b_inv F n (set_str i v st)"
  by (simp add: b_inv_def run_inv_def set_str_def b_copy_string_def)

lemma inv_term_in [simp]: "b_inv F n (st\<lparr>term_in := a\<rparr>) = b_inv F n st"
  by (simp add: b_inv_def run_inv_def)

lemma inv_pc [simp]: "b_inv F n st \<Longrightarrow> k \<le> n \<Longrightarrow> b_inv F n (st\<lparr>pc := k\<rparr>)"
  by (simp add: b_inv_def run_inv_def)

lemma inv_data [simp]: "b_inv F n st \<Longrightarrow> k \<le> n \<Longrightarrow> b_inv F n (st\<lparr>data_line := k, data_offset := j\<rparr>)"
  by (simp add: b_inv_def run_inv_def)

lemma pc_simps [simp]:
  "pc (write_out s st) = pc st" "pc (print_spaces k st) = pc st" "pc (set_var i v st) = pc st" "pc (set_str i t st) = pc st"
  by (simp_all add: write_out_def print_spaces_def set_var_def set_str_def)

lemma next_line_ok [step_intros]: "b_inv F n st \<Longrightarrow> pc st < n \<Longrightarrow> step_ok F n (next_line st)"
  by (simp add: next_line_def)

lemma RtErr_ok [step_intros]: "b_inv F n st \<Longrightarrow> step_ok F n (RtErr m st)"
  by simp

lemma get_or_ok [step_intros]: "b_inv F n st \<Longrightarrow> (\<And>a. m = Some a \<Longrightarrow> step_ok F n (k a)) \<Longrightarrow> step_ok F n (get_or msg st m k)"
  by (simp add: get_or_def split: option.split)

lemma need_ok [step_intros]: "b_inv F n st \<Longrightarrow> (b \<Longrightarrow> step_ok F n k) \<Longrightarrow> step_ok F n (need msg st b k)"
  by (simp add: need_def)

section \<open>Evaluation in a run\<close>

lemma eval_cases:
  assumes "eval_ok F L Q e" and "F \<longrightarrow> def_fns st = []" and "length s \<le> L"
  obtains r x where "e s st = (r, st\<lparr>rand_state := x\<rparr>)" and "\<And>v s'. r = Val v s' \<Longrightarrow> length s' \<le> length s \<and> Q v"
    and "F \<Longrightarrow> r \<noteq> Deep"
proof -
  obtain r st' where r: "e s st = (r, st')" by fastforce
  have "res_ok F Q (length s) st (r, st')" using eval_okD [OF assms(1,3)] r by (metis order_refl)
  then have "st' = st\<lparr>rand_state := rand_state st'\<rparr>" "\<And>v s'. r = Val v s' \<Longrightarrow> length s' \<le> length s \<and> Q v" "F \<Longrightarrow> r \<noteq> Deep"
    using assms(2) by (auto simp: res_ok_def same_but_rand_def)
  then show ?thesis using that [of r "rand_state st'"] r by metis
qed

lemma eval_ok_step:
  assumes "eval_ok F L Q e" and "b_inv F n st" and "length s \<le> L"
    and "\<And>v s' x. length s' \<le> length s \<Longrightarrow> Q v \<Longrightarrow> step_ok F n (k v s' (st\<lparr>rand_state := x\<rparr>))"
  shows "step_ok F n (eval_or msg (e s st) k)"
proof -
  have d: "F \<longrightarrow> def_fns st = []" using assms(2) by (simp add: b_inv_def)
  obtain r x where "e s st = (r, st\<lparr>rand_state := x\<rparr>)"
    and "\<And>v s'. r = Val v s' \<Longrightarrow> length s' \<le> length s \<and> Q v" and "F \<Longrightarrow> r \<noteq> Deep"
    using eval_cases [OF assms(1) d assms(3)] by blast
  then show ?thesis using assms(2,4) by (cases r) (auto simp: eval_or_def)
qed

lemma room_expr: "room F L d ls \<Longrightarrow> eval_ok F L (\<lambda>_. True) (b_parse_expr d)"
  unfolding room_def by (rule expr_ok) simp

lemma room_string: "room F L d ls \<Longrightarrow> eval_ok F L short (b_parse_string_expr d)"
  unfolding room_def by (rule string_expr_ok) simp

lemma room_paren:
  assumes "room F L d ls"
  shows "eval_ok F L (\<lambda>_. True) (b_parse_builtin_paren_expr (b_parse_expr d))"
  unfolding eval_ok_def
proof (intro allI impI)
  fix s :: string and st :: bst assume "length s \<le> L"
  then show "res_ok F (\<lambda>_. True) (length s) st (b_parse_builtin_paren_expr (b_parse_expr d) s st)"
    using assms by (intro paren_ok [where L = L] expr_ok) (auto simp: room_def)
qed

lemma room_tokens: "room F L d ls \<Longrightarrow> 95 \<le> L"
  by (simp add: room_def)

lemma room_line: "room F L d ls \<Longrightarrow> l \<in> set ls \<Longrightarrow> length (line_text l) \<le> L"
  by (simp add: room_def)

lemmas eval_expr_ok [step_intros] = eval_ok_step [OF room_expr]
lemmas eval_paren_ok [step_intros] = eval_ok_step [OF room_paren]

end
