(* ===== verification/Basic_Steps.thy ===== *)
theory Basic_Steps
  imports Basic_Safe
begin

text \<open>Each statement of a BASIC program keeps the invariant of a run, and returns when there are no user functions.\<close>

section \<open>Text\<close>

lemma expect_length: "expect c s = Some s' \<Longrightarrow> length s' \<le> length s"
  using length_skip [of s] by (auto simp: expect_def Let_def split: if_splits)

lemma parse_var_length: "b_parse_var s = Some (i, s') \<Longrightarrow> length s' \<le> length s"
proof -
  assume a: "b_parse_var s = Some (i, s')"
  have "length (name_tail (b_skip_spaces s)) \<le> length s"
    using name_tail_length [of "b_skip_spaces s"] length_skip [of s] by simp
  with a show ?thesis by (auto simp: b_parse_var_def Let_def split: if_splits)
qed

lemma var_index_bound: "b_is_alpha c \<Longrightarrow> var_index c < 26"
  by (auto simp: b_is_alpha_def var_index_def b_up_def code_def)

lemma parse_var_bound: "b_parse_var s = Some (i, s') \<Longrightarrow> i < 26"
  using var_index_bound by (auto simp: b_parse_var_def Let_def split: if_splits)

lemma parse_var_ref_length: "b_parse_var_ref s = Some (i, b, s') \<Longrightarrow> length s' \<le> length s"
  using var_ref_length [of s i b s'] by simp

lemma skip_le: "length s \<le> n \<Longrightarrow> length (b_skip_spaces s) \<le> n"
  using length_skip [of s] by linarith

lemma drop_le: "length s \<le> n \<Longrightarrow> length (drop k s) \<le> n" "length s \<le> n \<Longrightarrow> length (tl s) \<le> n"
  by simp_all

lemmas text_le = skip_le drop_le

lemma find_label_bound: "b_find_label ls l = Some i \<Longrightarrow> i < length ls"
  by (auto simp: b_find_label_def find_Some_iff)

lemma matching_bound: "matching o1 c ls i d = Some j \<Longrightarrow> j < i + length ls"
  by (induction o1 c ls i d rule: matching.induct) (fastforce simp: Let_def split: if_splits)+

lemma matching_next_bound: "b_find_matching_next ls p = Some i \<Longrightarrow> i < length ls"
  using matching_bound [of "''FOR''" "''NEXT''" "drop (p + 1) ls" "p + 1" 0 i]
  by (cases "p < length ls") (auto simp: b_find_matching_next_def)

lemma matching_wend_bound: "b_find_matching_wend ls p = Some i \<Longrightarrow> i < length ls"
  using matching_bound [of "''WHILE''" "''WEND''" "drop (p + 1) ls" "p + 1" 0 i]
  by (cases "p < length ls") (auto simp: b_find_matching_wend_def)

lemma statement_start_length: "length (b_statement_start l) \<le> length l"
proof -
  have "length (b_skip_spaces t) \<le> length l" if "b_parse_int (b_skip_spaces l) = Some (v, t)" for v t
    using parse_int_length [OF that] length_skip [of l] length_skip [of t] by linarith
  then show ?thesis using length_skip [of l] by (auto simp: b_statement_start_def Let_def split: option.split)
qed

section \<open>Statements without expressions\<close>

lemma stmt_goto_ok: "b_inv F (length ls) st \<Longrightarrow> step_ok F (length ls) (stmt_goto ls s st)"
  unfolding stmt_goto_def by (auto intro!: step_intros dest!: find_label_bound)

lemma push_call_ok:
  "b_inv F n st \<Longrightarrow> pc st < n \<Longrightarrow> i < n \<Longrightarrow> step_ok F n (push_call msg i st)"
  unfolding push_call_def by (intro need_ok) (auto simp: b_inv_def run_inv_def)

lemma stmt_gosub_ok: "b_inv F (length ls) st \<Longrightarrow> pc st < length ls \<Longrightarrow> step_ok F (length ls) (stmt_gosub ls s st)"
  unfolding stmt_gosub_def by (auto intro!: step_intros push_call_ok dest!: find_label_bound)

lemma stmt_return_ok: "b_inv F n st \<Longrightarrow> step_ok F n (stmt_return st)"
  by (cases "call_stack st") (auto simp: stmt_return_def b_inv_def run_inv_def)

lemma stmt_restore_ok: "b_inv F (length ls) st \<Longrightarrow> pc st < length ls \<Longrightarrow> step_ok F (length ls) (stmt_restore ls s st)"
  unfolding stmt_restore_def Let_def b_data_reset_cursor_def
  by (auto intro!: step_intros inv_data less_imp_le dest: find_label_bound split: if_splits)

lemma length_replace_fn: "length (replace_fn f fns) \<le> Suc (length fns)"
  "lookup_fn (fn_letter f) fns \<noteq> None \<Longrightarrow> length (replace_fn f fns) = length fns"
  by (induction fns) (auto simp: lookup_fn_def)

lemma set_replace_fn: "set (replace_fn f fns) \<subseteq> insert f (set fns)"
  by (induction fns) auto

lemma parse_def_ok:
  assumes "b_inv F n st" and "\<And>f. fn_ok f \<Longrightarrow> step_ok F n (k f)"
  shows "step_ok F n (parse_def s st k)"
  unfolding parse_def_def Let_def
  by (intro need_ok get_or_ok assms(1) assms(2)) (auto simp: fn_ok_def var_index_bound)

lemma stmt_def_ok:
  assumes "b_inv False n st" and "pc st < n"
  shows "step_ok False n (stmt_def s st)"
  unfolding stmt_def_def
proof (intro parse_def_ok need_ok assms(1) next_line_ok)
  fix f assume f: "fn_ok f" and "lookup_fn (fn_letter f) (def_fns st) \<noteq> None \<or> length (def_fns st) < 16"
  then have "length (replace_fn f (def_fns st)) \<le> 16"
    using length_replace_fn [of f "def_fns st"] assms(1) by (fastforce simp: b_inv_def run_inv_def)
  moreover have "\<forall>g\<in>set (replace_fn f (def_fns st)). fn_ok g"
    using set_replace_fn [of f "def_fns st"] f assms(1) by (auto simp: b_inv_def run_inv_def)
  ultimately show "b_inv False n (st\<lparr>def_fns := replace_fn f (def_fns st)\<rparr>)" using assms(1) by (simp add: b_inv_def run_inv_def)
qed (use assms(2) in simp)

lemma stmt_next_ok: "b_inv F n st \<Longrightarrow> pc st < n \<Longrightarrow> step_ok F n (stmt_next s st)"
  unfolding stmt_next_def Let_def
  by (intro get_or_ok) (auto split: list.split intro!: need_ok next_line_ok simp: b_inv_def run_inv_def set_var_def frame_ok_def)

end
