(* ===== verification/Basic_Stmts.thy ===== *)
theory Basic_Stmts
  imports Basic_Steps
begin

text \<open>The statements that evaluate expressions.\<close>

declare b_starts_with_ci.simps [simp del] b_name_matches_ci.simps [simp del]

lemma eval_le:
  assumes "room F L d ls" and "b_inv F n st" and "length s \<le> L"
    and "\<And>v s' x. length s' \<le> L \<Longrightarrow> step_ok F n (k v s' (st\<lparr>rand_state := x\<rparr>))"
  shows "step_ok F n (eval_or msg (b_parse_expr d s st) k)"
  by (rule eval_expr_ok [OF assms(1-3)]) (use assms(3,4) in simp)

lemma jump_ok: "b_inv F (length ls) st \<Longrightarrow> step_ok F (length ls) (get_or m st (b_find_label ls l) (\<lambda>i. Next (st\<lparr>pc := i\<rparr>)))"
  by (intro get_or_ok) (simp_all add: find_label_bound less_imp_le)

lemma cmp_op_length: "cmp_op s = Some (c, s') \<Longrightarrow> length s' \<le> length s"
  by (auto simp: cmp_op_def Let_def split: if_splits)

lemma expect_le: "expect c s = Some s' \<Longrightarrow> length s \<le> n \<Longrightarrow> length s' \<le> n"
  using expect_length by (rule order_trans)

lemma stmt_arith_ok:
  assumes "room F L d ls" and "b_inv F n st" and "pc st < n" and "length s \<le> L"
  shows "step_ok F n (stmt_arith a d s st)"
  unfolding stmt_arith_def
proof (intro get_or_ok assms(2), clarsimp)
  fix idx s' assume "b_parse_var s = Some (idx, s')"
  then have s': "length s' \<le> L" using parse_var_length [of s] assms(4) by fastforce
  show "step_ok F n (eval_or (arith_name a @ '' parse error'') (b_parse_expr d s' st) (\<lambda>v s st.
       let x = vars st idx in
       case a of
         A_Add \<Rightarrow> next_line (set_var idx (x + v) st)
       | A_Sub \<Rightarrow> next_line (set_var idx (x - v) st)
       | A_Mul \<Rightarrow> next_line (set_var idx (x * v) st)
       | A_Div \<Rightarrow> need ''DIV by zero'' st (v \<noteq> 0) (if div_traps x v then Crash st else next_line (set_var idx (i32_div x v) st))
       | A_Mod \<Rightarrow> need ''MOD by zero'' st (v \<noteq> 0) (if div_traps x v then Crash st else next_line (set_var idx (i32_mod x v) st))))"
    by (rule eval_expr_ok [OF assms(1,2) s'])
      (use assms(2,3) in \<open>cases a; auto simp: Let_def intro!: need_ok next_line_ok\<close>)
qed

lemma on_jump_ok:
  assumes "b_inv F (length ls) st" and "pc st < length ls"
  shows "step_ok F (length ls) (on_jump ls v g s st)"
  unfolding on_jump_def using assms
  by (auto split: option.split intro!: get_or_ok next_line_ok push_call_ok inv_pc dest: find_label_bound intro: less_imp_le)

lemma stmt_on_ok:
  assumes "room F L d ls" and "b_inv F (length ls) st" and "pc st < length ls" and "length s \<le> L"
  shows "step_ok F (length ls) (stmt_on d ls s st)"
  unfolding stmt_on_def Let_def
  by (rule eval_le [OF assms(1,2) skip_le [OF assms(4)]], rule get_or_ok)
    (use assms(2,3) in \<open>simp_all add: on_jump_ok split: prod.split\<close>)

lemma if_then_ok:
  assumes "b_inv F (length ls) st" and "pc st < length ls"
  shows "step_ok F (length ls) (if_then ls c s st)"
  unfolding if_then_def using assms jump_ok [OF assms(1)]
  by (intro need_ok get_or_ok) (auto intro!: next_line_ok)

lemma stmt_if_ok:
  assumes "room F L d ls" and "b_inv F (length ls) st" and "pc st < length ls" and "length s \<le> L"
  shows "step_ok F (length ls) (stmt_if d ls s st)"
  unfolding stmt_if_def
proof (rule eval_le [OF assms(1,2) skip_le [OF assms(4)]], rule get_or_ok)
  fix v x p and s1 :: string
  show st: "b_inv F (length ls) (st\<lparr>rand_state := x\<rparr>)" using assms(2) by simp
  assume "length s1 \<le> L" and "cmp_op (b_skip_spaces s1) = Some p"
  then have "length (snd p) \<le> L"
    using cmp_op_length [of "b_skip_spaces s1" "fst p" "snd p"] skip_le [of s1 L] by simp
  then have "step_ok F (length ls) (eval_or ''IF rhs error'' (b_parse_expr d (snd p) (st\<lparr>rand_state := x\<rparr>))
      (\<lambda>rhs s. if_then ls (cmp_holds (fst p) v rhs) (b_skip_spaces s)))"
    by (rule eval_le [OF assms(1) st]) (use assms(2,3) in \<open>auto intro!: if_then_ok\<close>)
  then show "step_ok F (length ls) (case p of (cmp, s) \<Rightarrow> eval_or ''IF rhs error'' (b_parse_expr d s (st\<lparr>rand_state := x\<rparr>))
      (\<lambda>rhs s. if_then ls (cmp_holds cmp v rhs) (b_skip_spaces s)))" by (simp add: case_prod_beta)
qed

lemma stmt_while_ok:
  assumes "room F L d ls" and "b_inv F (length ls) st" and "pc st < length ls" and "length s \<le> L"
  shows "step_ok F (length ls) (stmt_while d ls s st)"
  unfolding stmt_while_def
proof (rule eval_expr_ok [OF assms(1,2)])
  have push: "b_inv F (length ls) (st\<lparr>rand_state := x, while_stack := pc st # while_stack st\<rparr>)" if "length (while_stack st) < 16" for x
    using assms(2,3) that by (simp add: b_inv_def run_inv_def)
  fix v s1 x
  show "step_ok F (length ls) (if v \<noteq> 0 then
         need ''WHILE nested too deep'' (st\<lparr>rand_state := x\<rparr>) (length (while_stack (st\<lparr>rand_state := x\<rparr>)) < 16)
           (next_line ((st\<lparr>rand_state := x\<rparr>)\<lparr>while_stack := pc (st\<lparr>rand_state := x\<rparr>) # while_stack (st\<lparr>rand_state := x\<rparr>)\<rparr>))
       else get_or ''WHILE without WEND'' (st\<lparr>rand_state := x\<rparr>) (b_find_matching_wend ls (pc (st\<lparr>rand_state := x\<rparr>)))
           (\<lambda>i. Next ((st\<lparr>rand_state := x\<rparr>)\<lparr>pc := i + 1\<rparr>)))"
    using assms(2,3) push by (auto intro!: need_ok get_or_ok next_line_ok inv_pc dest: matching_wend_bound)
qed (use assms(4) text_le in auto)

lemma stmt_wend_ok:
  assumes "room F L d ls" and "b_inv F (length ls) st" and "pc st < length ls"
  shows "step_ok F (length ls) (stmt_wend d ls st)"
proof (cases "while_stack st")
  case Nil
  with assms(2) show ?thesis by (simp add: stmt_wend_def)
next
  case (Cons w ws)
  then have w: "w < length ls" and pop: "b_inv F (length ls) (st\<lparr>rand_state := x, while_stack := ws\<rparr>)" for x
    using assms(2) by (auto simp: b_inv_def run_inv_def)
  have "length (line_text (ls ! w)) \<le> L" using room_line [OF assms(1)] w by simp
  then have l: "length (b_statement_start (line_text (ls ! w))) \<le> L" using statement_start_length [of "line_text (ls ! w)"] by linarith
  show ?thesis
    using Cons
    by (simp add: stmt_wend_def, intro eval_expr_ok [OF assms(1,2)])
      (use l w pop assms(2,3) in \<open>auto intro!: next_line_ok text_le\<close>)
qed

lemma for_enter_ok:
  assumes "b_inv F (length ls) st" and "pc st < length ls" and "idx < 26" and "step_v \<noteq> 0"
  shows "step_ok F (length ls) (for_enter ls idx start_v end_v step_v st)"
proof -
  let ?st = "set_var idx start_v st"
  have push: "b_inv F (length ls) (?st\<lparr>for_stack := \<lparr>ff_var = idx, ff_end = end_v, ff_step = step_v, ff_body_pc = pc ?st + 1\<rparr> # for_stack ?st\<rparr>)"
    if "length (for_stack ?st) < 16"
    using assms that by (simp add: b_inv_def run_inv_def frame_ok_def set_var_def)
  have st: "b_inv F (length ls) ?st" "pc ?st < length ls" using assms(1,2) by simp_all
  show ?thesis
    using st push unfolding for_enter_def Let_def by (auto intro!: get_or_ok need_ok next_line_ok inv_pc dest: matching_next_bound)
qed

lemma for_from_step_ok:
  assumes "room F L d ls" and "b_inv F (length ls) st" and "pc st < length ls" and "idx < 26" and "length s \<le> L"
  shows "step_ok F (length ls) (for_from_step d ls idx start_v end_v s st)" (is "step_ok F ?n _")
proof -
  let ?k = "\<lambda>step_v s st. need ''FOR STEP cannot be zero'' st (step_v \<noteq> 0) (for_enter ls idx start_v end_v step_v st)"
  have k: "step_ok F ?n (?k v s' st')" if "b_inv F ?n st'" "pc st' < ?n" for v s' st'
    by (rule need_ok [OF that(1) for_enter_ok [OF that assms(4)]])
  show ?thesis
  proof (cases "b_starts_with_ci s ''STEP''")
    case True
    have "step_ok F ?n (eval_or ''FOR STEP parse error'' (b_parse_expr d (b_skip_spaces (drop 4 s)) st) ?k)"
      by (rule eval_le [OF assms(1,2)]) (use k assms in \<open>auto intro!: text_le\<close>)
    with True show ?thesis by (simp add: for_from_step_def)
  next
    case False
    then show ?thesis using k [OF assms(2,3), of 1] by (simp add: for_from_step_def eval_or_def)
  qed
qed

lemma stmt_for_ok:
  assumes "room F L d ls" and "b_inv F (length ls) st" and "pc st < length ls" and "length s \<le> L"
  shows "step_ok F (length ls) (stmt_for d ls s st)"
  unfolding stmt_for_def
proof (rule get_or_ok [OF assms(2)], clarify, rule get_or_ok [OF assms(2)])
  fix idx s1 s2 assume "b_parse_var s = Some (idx, s1)" and "expect CHR ''='' s1 = Some s2"
  then have idx: "idx < 26" and s2: "length s2 \<le> L"
    using parse_var_bound [of s idx s1] parse_var_length [of s idx s1] assms(4) expect_length [of "CHR ''=''" s1 s2] by auto
  show "step_ok F (length ls) (eval_or ''FOR start value error'' (b_parse_expr d s2 st) (\<lambda>start_v s st.
     need ''FOR missing TO'' st (b_starts_with_ci (b_skip_spaces s) ''TO'')
     (eval_or ''FOR end value error'' (b_parse_expr d (b_skip_spaces (drop 2 (b_skip_spaces s))) st) (\<lambda>end_v s.
       for_from_step d ls idx start_v end_v (b_skip_spaces s)))))"
  proof (rule eval_le [OF assms(1,2) s2], rule need_ok, simp add: assms(2), rule eval_le [OF assms(1)])
    fix s3 s4 :: string assume "length s3 \<le> L" "length s4 \<le> L"
    then show "length (b_skip_spaces (drop 2 (b_skip_spaces s3))) \<le> L"
      and "step_ok F (length ls) (for_from_step d ls idx v e (b_skip_spaces s4) (st\<lparr>rand_state := x, rand_state := y\<rparr>))" for v e x y
      using assms idx by (auto intro!: text_le for_from_step_ok)
  qed (use assms(2) in auto)
qed

end
