(* ===== verification/Basic_Items.thy ===== *)
theory Basic_Items
  imports Basic_Stmts
begin

text \<open>The statements that assign, print and read, and those that take a list of items.\<close>

lemma eval_any:
  assumes "room F L d ls" and "b_inv F n st" and "length s \<le> L"
    and "\<And>v s' st'. length s' \<le> length s \<Longrightarrow> b_inv F n st' \<Longrightarrow> pc st' = pc st \<Longrightarrow> step_ok F n (k v s' st')"
  shows "step_ok F n (eval_or msg (b_parse_expr d s st) k)"
  by (rule eval_expr_ok [OF assms(1-3)]) (use assms(2,4) in simp)

lemma step_ok_if: "(b \<Longrightarrow> step_ok F n x) \<Longrightarrow> (\<not> b \<Longrightarrow> step_ok F n y) \<Longrightarrow> step_ok F n (if b then x else y)"
  by simp

section \<open>Assignment\<close>

lemma array_set_inv: "b_inv F n st \<Longrightarrow> b_array_set i p v st = Some st' \<Longrightarrow> b_inv F n st' \<and> pc st' = pc st"
  by (auto simp: b_array_set_def b_inv_def run_inv_def split: if_splits)

lemma string_value_ok:
  assumes "b_inv F n st" and "\<And>v. step_ok F n (k v)"
  shows "step_ok F n (string_value w s st k)"
  unfolding string_value_def Let_def using assms
  by (auto intro!: step_ok_if get_or_ok split: option.split bool.split)

lemma assign_value_ok:
  assumes "room F L d ls" and "b_inv F n st" and "pc st < n" and "length s \<le> L"
  shows "step_ok F n (assign_value w d idx b i s st)"
  unfolding assign_value_def
proof (rule step_ok_if)
  show "step_ok F n (string_value w s st (\<lambda>v. next_line (set_str idx v st)))"
    by (rule string_value_ok) (use assms in \<open>auto intro!: next_line_ok\<close>)
  show "step_ok F n (eval_or (w @ '' value error'') (b_parse_expr d s st) (\<lambda>v s st.
        if 0 \<le>s i then get_or (w @ '' array index out of range'') st (b_array_set idx i v st) next_line
        else next_line (set_var idx v st)))"
    by (rule eval_any [OF assms(1,2,4)])
      (use assms(3) in \<open>auto intro!: step_ok_if get_or_ok next_line_ok dest: array_set_inv\<close>)
qed

lemma array_index_ok:
  assumes "room F L d ls" and "b_inv F n st" and "length s \<le> L"
    and "\<And>i s' st'. length s' \<le> L \<Longrightarrow> b_inv F n st' \<Longrightarrow> pc st' = pc st \<Longrightarrow> step_ok F n (k i s' st')"
  shows "step_ok F n (array_index w d b s st k)"
  unfolding array_index_def Let_def
proof (rule step_ok_if)
  have s: "length (tl (b_skip_spaces s)) \<le> L" using assms(3) by (intro text_le)
  show "step_ok F n (eval_or (w @ '' array index parse error'') (b_parse_expr d (tl (b_skip_spaces s)) st) (\<lambda>i s st.
        get_or (w @ '' array missing '' @ quoted CHR '')'') st (expect CHR '')'' s) (\<lambda>s. k i (b_skip_spaces s) st)))"
    by (rule eval_any [OF assms(1,2) s], rule get_or_ok, assumption)
      (use s in \<open>auto intro!: assms(4) skip_le dest: expect_length\<close>)
  show "step_ok F n (k (-1) (b_skip_spaces s) st)" using assms by (auto intro!: assms(4) skip_le)
qed

lemma stmt_let_ok:
  assumes "room F L d ls" and "b_inv F n st" and "pc st < n" and "length s \<le> L"
  shows "step_ok F n (stmt_let d s st)"
  unfolding stmt_let_def
proof (rule get_or_ok [OF assms(2)], clarify, rule array_index_ok [OF assms(1,2)], goal_cases)
  case (1 idx b s1)
  then show ?case using parse_var_ref_length [of s idx b s1] assms(4) by simp
next
  case (2 idx b s1 i s2 st2)
  show ?case by (rule get_or_ok [OF 2(3)], rule assign_value_ok [OF assms(1)]) (use 2 assms(3) in \<open>auto dest: expect_length\<close>)
qed

lemma stmt_assign_ok:
  assumes "room F L d ls" and "b_inv F n st" and "pc st < n" and "length s \<le> L"
  shows "step_ok F n (stmt_assign d s st)"
proof (cases "b_parse_var_ref s")
  case None
  with assms(2) show ?thesis by (simp add: stmt_assign_def)
next
  case (Some p)
  obtain idx b s1 where p: "p = (idx, b, s1)" by (cases p)
  have s1: "length s1 \<le> L" using parse_var_ref_length [of s idx b s1] Some p assms(4) by simp
  have "step_ok F n (array_index ''assignment'' d b s1 st (\<lambda>arr_index s st.
            if cur s = CHR ''='' then assign_value ''assignment'' d idx b arr_index (tl s) st
            else RtErr ''unknown statement'' st))"
    by (rule array_index_ok [OF assms(1,2) s1], rule step_ok_if)
      (use assms(1,3) in \<open>auto intro!: assign_value_ok text_le\<close>)
  with Some p show ?thesis by (simp add: stmt_assign_def)
qed

section \<open>DIM\<close>

lemma array_size_bound:
  assumes "\<not> (sz <s 0 \<or> BASIC_ARRAY_MAX \<le>s sz)"
  shows "0 \<le>s sz + 1 \<and> sz + 1 \<le>s BASIC_ARRAY_MAX"
proof -
  have i: "0 \<le> sint sz" "sint sz < 128" using assms by (simp_all add: word_sless_alt word_sle_eq not_less not_le)
  have "sint (word_of_int (sint sz + 1) :: i32) = sint sz + 1"
    by (subst signed_of_int) (use i in \<open>simp add: signed_take_bit_int_eq_self\<close>)
  then have "sint (sz + 1) = sint sz + 1" by (simp add: wi_hom_add [symmetric])
  then show ?thesis using i by (simp add: word_sle_eq)
qed

lemma make_array_inv:
  assumes "b_inv F n st" and "\<not> (sz <s 0 \<or> BASIC_ARRAY_MAX \<le>s sz)"
  shows "b_inv F n (make_array idx sz st)"
  using assms(1) array_size_bound [OF assms(2)] by (simp add: make_array_def b_inv_def run_inv_def)

lemma dim_items_ok:
  assumes "room F L d ls" and "b_inv F N st" and "pc st < N" and "length s \<le> L" and "length s \<le> n"
  shows "step_ok F N (dim_items n d s st)"
  using assms(2-)
proof (induction n arbitrary: s st)
  case 0
  then show ?case by (subst dim_items.simps) (simp add: get_or_def b_parse_var_def b_skip_spaces_def cur_def b_is_alpha_def code_def)
next
  case (Suc n)
  note c = this
  show ?case
  proof (subst dim_items.simps, rule get_or_ok [OF c(2)], clarify, rule get_or_ok [OF c(2)], rule eval_any [OF assms(1) c(2)], goal_cases)
    case (1 a s1 s2)
    then show ?case using parse_var_length [of s a s1] expect_length [of "CHR ''(''" s1 s2] c(4) by simp
  next
    case (2 idx s1 s2 v s3 st3)
    have l: "length s2 < length s" using 2 parse_var_length [of s idx s1] expect_shorter [of "CHR ''(''" s1 s2] by simp
    show ?case
    proof (rule get_or_ok [OF 2(4)], rule need_ok [OF 2(4)])
      fix s4 assume s4: "expect CHR '')'' s3 = Some s4" and sz: "\<not> (v <s 0 \<or> BASIC_ARRAY_MAX \<le>s v)"
      let ?st = "make_array idx v st3"
      have inv: "b_inv F N ?st" "pc ?st < N" using make_array_inv [OF 2(4) sz] 2(5) c(3) by (simp_all add: make_array_def)
      have "length (tl (b_skip_spaces s4)) < length s"
        using expect_length [OF s4] 2(3) l length_skip [of s4] by simp
      then have "step_ok F N (dim_items n d (tl (b_skip_spaces s4)) ?st)" using c(4,5) by (intro c(1) inv) auto
      then show "step_ok F N (let st = ?st; s = b_skip_spaces s4 in
          if cur s \<noteq> CHR '','' then next_line st else case Suc n of 0 \<Rightarrow> NoReturn st | Suc n \<Rightarrow> dim_items n d (tl s) st)"
        using inv by (simp add: Let_def next_line_ok)
    qed
  qed
qed

end
