(* ===== verification/Basic_Io.thy ===== *)
theory Basic_Io
  imports Basic_Items
begin

text \<open>READ, PRINT, INPUT and the file statements.\<close>

section \<open>READ\<close>

lemma data_item_length:
  assumes "data_item item = (tok, b, rest)"
  shows "short tok"
  using assms length_dropWhile_le [of b_is_space "rev (take 95 (takeWhile (\<lambda>c. c \<noteq> CHR '','') item))"]
  by (auto simp: data_item_def Let_def split: if_splits)

lemma next_data_bound:
  "next_data ls li off = Some (tok, b, li', off') \<Longrightarrow> short tok \<and> li' < li + length ls"
proof (induction ls arbitrary: li off)
  case (Cons l ls)
  then show ?case
    by (auto simp: Let_def dest: data_item_length split: if_splits prod.splits dest!: Cons.IH)
qed simp

lemma read_data_inv:
  assumes "b_inv F (length ls) st" and "b_read_next_data_item ls st = Some (tok, b, st')"
  shows "short tok \<and> b_inv F (length ls) st' \<and> pc st' = pc st"
proof -
  obtain li off where n: "next_data (drop (data_line st) ls) (data_line st) (data_offset st) = Some (tok, b, li, off)"
    and st': "st' = st\<lparr>data_line := li, data_offset := off\<rparr>"
    using assms(2) by (auto simp: b_read_next_data_item_def)
  have "data_line st \<le> length ls" using assms(1) by (simp add: b_inv_def run_inv_def)
  then show ?thesis using next_data_bound [OF n] assms(1) st' by simp
qed

lemma number_text_ok:
  assumes "room F L d ls" and "b_inv F n st" and "length t \<le> L"
    and "\<And>v st'. b_inv F n st' \<Longrightarrow> pc st' = pc st \<Longrightarrow> step_ok F n (k v st')"
  shows "step_ok F n (number_text m1 m2 d t st k)"
  unfolding number_text_def
  by (rule eval_any [OF assms(1-3)]) (auto intro!: need_ok assms(4))

lemma read_items_ok:
  assumes "room F L d ls" and "b_inv F (length ls) st" and "pc st < length ls" and "length s \<le> n"
  shows "step_ok F (length ls) (read_items n d ls s st)"
  using assms(2-)
proof (induction n arbitrary: s st)
  case 0
  then show ?case
    by (subst read_items.simps) (simp add: get_or_def b_parse_var_ref_def b_skip_spaces_def cur_def b_is_alpha_def code_def)
next
  case (Suc n)
  note c = this
  show ?case
  proof (subst read_items.simps, rule get_or_ok [OF c(2)], clarify, rule get_or_ok [OF c(2)], clarify, goal_cases)
    case (1 idx b s1 tok tb st1)
    have s1: "length s1 < length s" using var_ref_length [OF 1(1)] .
    have st1: "short tok" "b_inv F (length ls) st1" "pc st1 = pc st" using read_data_inv [OF c(2) 1(2)] by auto
    have tok: "length tok \<le> L" using st1(1) room_tokens [OF assms(1)] by simp
    have "length (b_skip_spaces (tl (b_skip_spaces s1))) \<le> n"
      using s1 length_skip [of s1] length_skip [of "tl (b_skip_spaces s1)"] c(4) by simp
    then have go: "step_ok F (length ls) (if cur (b_skip_spaces s1) \<noteq> CHR '','' then next_line st'
         else (case Suc n of 0 \<Rightarrow> NoReturn st' | Suc n \<Rightarrow> read_items n d ls (b_skip_spaces (tl (b_skip_spaces s1))) st'))"
      if "b_inv F (length ls) st'" "pc st' < length ls" for st'
      using that by (auto intro!: c(1) next_line_ok)
    show ?case
      unfolding Let_def
      by (intro step_ok_if go need_ok number_text_ok [OF assms(1) st1(2) tok]) (use st1 c(3) in auto)
  qed
qed

lemma stmt_read_ok:
  "room F L d ls \<Longrightarrow> b_inv F (length ls) st \<Longrightarrow> pc st < length ls \<Longrightarrow> step_ok F (length ls) (stmt_read d ls s st)"
  unfolding stmt_read_def by (rule read_items_ok) (auto simp: length_skip)

section \<open>PRINT\<close>

lemma spaces_ok:
  assumes "room F L d ls" and "b_inv F n st" and "length s \<le> L"
    and "\<And>s' st'. length s' \<le> length s \<Longrightarrow> b_inv F n st' \<Longrightarrow> pc st' = pc st \<Longrightarrow> step_ok F n (after s' st')"
  shows "step_ok F n (eval_or m (b_parse_builtin_paren_expr (b_parse_expr d) (drop 3 s) st) (\<lambda>k s st. after s (print_spaces k st)))"
proof (rule eval_paren_ok [OF assms(1,2)])
  fix v x and s' :: string assume "length s' \<le> length (drop 3 s)"
  then show "step_ok F n (after s' (print_spaces v (st\<lparr>rand_state := x\<rparr>)))" using assms(2) by (intro assms(4)) auto
qed (use assms(3) in simp)

lemma print_item_ok:
  assumes "room F L d ls" and "b_inv F n st" and "length s \<le> L"
    and after: "\<And>s' st'. length s' \<le> length s \<Longrightarrow> b_inv F n st' \<Longrightarrow> pc st' = pc st \<Longrightarrow> step_ok F n (after s' st')"
  shows "step_ok F n (print_item d after s st)"
proof -
  have def: "F \<longrightarrow> def_fns st = []" using assms(2) by (simp add: b_inv_def)
  obtain r x where r: "b_parse_string_expr d s st = (r, st\<lparr>rand_state := x\<rparr>)"
    and v: "\<And>a s'. r = Val a s' \<Longrightarrow> length s' \<le> length s \<and> short a" and nd: "F \<Longrightarrow> r \<noteq> Deep"
    using eval_cases [OF room_string [OF assms(1)] def assms(3)] by blast
  have num: "step_ok F n (eval_or ''PRINT parse error'' (b_parse_expr d s (st\<lparr>rand_state := x\<rparr>)) (\<lambda>v s st. after s (write_out (b_print_int v) st)))"
    by (rule eval_any [OF assms(1) _ assms(3)]) (use assms(2) in \<open>auto intro!: after\<close>)
  have "step_ok F n (case b_parse_string_expr d s st of
              (Val part s, st) \<Rightarrow> after s (write_out part st)
            | (Fail, st) \<Rightarrow> eval_or ''PRINT parse error'' (b_parse_expr d s st) (\<lambda>v s st. after s (write_out (b_print_int v) st))
            | (Trap, st) \<Rightarrow> Crash st
            | (Deep, st) \<Rightarrow> NoReturn st)"
    using v nd num assms(2) after by (cases r) (auto simp: r)
  then show ?thesis
    unfolding print_item_def by (intro step_ok_if spaces_ok [OF assms(1-3) after])
qed

lemma print_items_ok:
  assumes "room F L d ls" and "b_inv F N st" and "pc st < N" and "length s \<le> L" and "length s \<le> n"
  shows "step_ok F N (print_items n d s st)"
  using assms(2-)
proof (induction n arbitrary: s st)
  case 0
  have "step_ok F N (print_item d (\<lambda>s st.
       let s = b_skip_spaces s in
       if cur s = CHR '','' \<or> cur s = CHR '';'' then
         let st = (if cur s = CHR '','' then write_out '' '' st else st); s' = b_skip_spaces (tl s) in
         if s' = [] then next_line (if cur s = CHR '';'' then st else write_out [CHR 0x0A] st)
         else (case 0 of 0 \<Rightarrow> NoReturn st | Suc n \<Rightarrow> print_items n d s' st)
       else next_line (write_out [CHR 0x0A] st)) (b_skip_spaces s) st)"
  proof (rule print_item_ok [OF assms(1) 0(1)])
    fix s' :: string and st' assume "length s' \<le> length (b_skip_spaces s)" and "b_inv F N st'" "pc st' = pc st"
    then show "step_ok F N (let s = b_skip_spaces s' in
       if cur s = CHR '','' \<or> cur s = CHR '';'' then
         let st = (if cur s = CHR '','' then write_out '' '' st' else st'); s' = b_skip_spaces (tl s) in
         if s' = [] then next_line (if cur s = CHR '';'' then st else write_out [CHR 0x0A] st)
         else (case 0 of 0 \<Rightarrow> NoReturn st | Suc n \<Rightarrow> print_items n d s' st)
       else next_line (write_out [CHR 0x0A] st'))"
      using 0 length_skip [of s] by (simp add: b_skip_spaces_def cur_def next_line_ok)
  qed (use 0 text_le in auto)
  then show ?case by (subst print_items.simps)
next
  case (Suc n)
  note c = this
  show ?case
  proof (subst print_items.simps, rule print_item_ok [OF assms(1) c(2)], goal_cases)
    case 1
    then show ?case using c(4) by (rule skip_le)
  next
    case (2 s' st')
    let ?t = "b_skip_spaces (tl (b_skip_spaces s'))"
    have l: "length ?t \<le> length s - 1" "length ?t \<le> L"
      using 2(1) length_skip [of s] length_skip [of s'] length_skip [of "tl (b_skip_spaces s')"] c(4) by simp_all
    have go: "step_ok F N (print_items n d ?t st1)" if "b_inv F N st1" "pc st1 < N" for st1
      using l c(5) by (intro c(1) that) auto
    have "pc st' < N" using 2(3) c(3) by simp
    then show ?case unfolding Let_def using 2(2)
      by (intro step_ok_if) (auto intro!: next_line_ok go)
  qed
qed

lemma stmt_print_ok:
  assumes "room F L d ls" and "b_inv F n st" and "pc st < n" and "length s \<le> L"
  shows "step_ok F n (stmt_print d s st)"
  unfolding stmt_print_def Let_def
  by (rule step_ok_if) (use assms in \<open>auto intro!: next_line_ok print_items_ok text_le\<close>)

section \<open>INPUT\<close>

lemma trim_length: "length (b_trim_spaces s) \<le> length s"
  using length_dropWhile_le [of b_is_space s] length_dropWhile_le [of b_is_space "rev (dropWhile b_is_space s)"]
  by (simp add: b_trim_spaces_def)

lemma input_value_ok:
  assumes "room F L d ls" and "b_inv F n st" and "pc st < n" and "short t"
  shows "step_ok F n (input_value d idx b t st)"
proof -
  have t: "length t \<le> L" using assms(4) room_tokens [OF assms(1)] by simp
  have num: "step_ok F n (number_text ''INPUT number parse error'' ''INPUT trailing text'' d t st (\<lambda>v st. next_line (set_var idx v st)))"
    by (rule number_text_ok [OF assms(1,2) t]) (use assms(3) in \<open>auto intro!: next_line_ok\<close>)
  show ?thesis
    unfolding input_value_def using num assms(2,3) by (intro step_ok_if) (auto intro!: get_or_ok next_line_ok)
qed

lemma read_line_inv:
  assumes "b_inv F n st" and "terminal_read_line st = (a, st')"
  shows "b_inv F n st' \<and> pc st' = pc st \<and> (\<forall>t. a = Some t \<longrightarrow> short t)"
  using assms by (cases "term_in st") (auto simp: terminal_read_line_def)

lemma stmt_input_ok:
  assumes "room F L d ls" and "b_inv F n st" and "pc st < n"
  shows "step_ok F n (stmt_input d s st)"
  unfolding stmt_input_def Let_def
proof (rule get_or_ok [OF assms(2)], clarify, rule get_or_ok [OF assms(2)], clarify)
  fix prompt idx b
  let ?st = "write_out (if prompt \<noteq> [] then prompt else ''? '') st"
  obtain a st1 where r: "terminal_read_line ?st = (a, st1)" by fastforce
  have st1: "b_inv F n st1" "pc st1 = pc st" "\<And>t. a = Some t \<Longrightarrow> short t"
    using read_line_inv [of F n ?st a st1] r assms(2) by simp_all
  have "step_ok F n (input_value d idx b (b_trim_spaces t) st1)" if "a = Some t" for t
    using st1(1,2) st1(3) [OF that] trim_length [of t] assms(3) by (intro input_value_ok [OF assms(1)]) auto
  then have "step_ok F n (get_or ''INPUT read error'' st1 a (\<lambda>inbuf. input_value d idx b (b_trim_spaces inbuf) st1))"
    using st1(1) by (intro get_or_ok) auto
  then show "step_ok F n (case terminal_read_line ?st of (a, st) \<Rightarrow>
      get_or ''INPUT read error'' st a (\<lambda>inbuf. input_value d idx b (b_trim_spaces inbuf) st))" by (simp add: r)
qed

end
