(* ===== verification/Basic_Total.thy ===== *)
theory Basic_Total
  imports Basic_Io
begin

text \<open>The file statements, and with them every statement and every run of a program.\<close>

section \<open>Files\<close>

lemma file_number: "\<not> (k <s 1 \<or> BASIC_MAX_FILES <s k) \<Longrightarrow> unat k - 1 < 4"
proof -
  assume "\<not> (k <s 1 \<or> BASIC_MAX_FILES <s k)"
  then have i: "1 \<le> sint k" "sint k \<le> 4" by (simp_all add: word_sless_alt)
  then have "k = word_of_int (sint k)" "sint k = 1 \<or> sint k = 2 \<or> sint k = 3 \<or> sint k = 4" by auto
  then have "k = 1 \<or> k = 2 \<or> k = 3 \<or> k = 4" by (metis of_int_1 of_int_numeral)
  then show ?thesis by auto
qed

lemma file_index_ok:
  assumes "room F L d ls" and "b_inv F n st" and "length s \<le> L"
    and "\<And>i s' st'. i < 4 \<Longrightarrow> length s' \<le> L \<Longrightarrow> b_inv F n st' \<Longrightarrow> pc st' = pc st \<Longrightarrow> step_ok F n (k i s' st')"
  shows "step_ok F n (file_index m1 m2 d s st k)"
  unfolding file_index_def
  by (rule eval_any [OF assms(1-3)], rule need_ok, assumption) (use assms(3,4) file_number in auto)

lemma upd_file_inv:
  assumes "b_inv F n st" and "i < 4" and "chan_ok (b_files st ! i) \<Longrightarrow> chan_ok (f (b_files st ! i))"
  shows "b_inv F n (upd_file i f st)"
proof -
  have "chan_ok (b_files st ! i)" "length (b_files st) = 4" "\<forall>f\<in>set (b_files st). chan_ok f"
    using assms(1,2) by (auto simp: b_inv_def run_inv_def)
  then have "\<forall>g\<in>set ((b_files st)[i := f (b_files st ! i)]). chan_ok g"
    using assms(3) set_update_subset_insert [of "b_files st" i] by blast
  then show ?thesis using assms(1) by (simp add: upd_file_def b_inv_def run_inv_def)
qed

lemma pc_upd_file [simp]: "pc (upd_file i f st) = pc st"
  by (simp add: upd_file_def)

lemma fs_read_fits: "fs_inv s \<Longrightarrow> \<exists>rc out n. fs_read_file s p True cap True = Some (rc, out, n) \<and> length out \<le> cap"
  using resolve_path_ends [of s p] by (auto simp: fs_read_file_def Let_def)

lemma read_step_ok:
  assumes "b_inv F n st" and "\<And>rc out k. length out \<le> 8191 \<Longrightarrow> step_ok F n (c (rc, out, k))"
  shows "step_ok F n (fs_step (fs_read_file (bfs st) p True 8191 True) st c)"
proof -
  have "fs_inv (bfs st)" using assms(1) by (simp add: b_inv_def run_inv_def)
  from fs_read_fits [OF this, of p 8191] assms(2) show ?thesis by (auto simp: fs_step_def)
qed

lemma upd_file_at: "b_inv F n st \<Longrightarrow> i < 4 \<Longrightarrow> b_files (upd_file i f st) ! i = f (b_files st ! i)"
  by (simp add: upd_file_def b_inv_def run_inv_def)

lemma open_file_ok:
  assumes "b_inv F n st" and "pc st < n" and i: "i < 4"
  shows "step_ok F n (open_file fname m i st)"
proof -
  let ?st = "upd_file i (\<lambda>_. \<lparr>fc_active = True, fc_mode = m, fc_path = take 63 fname, fc_buf = [], fc_pos = 0\<rparr>) st"
  have st: "b_inv F n ?st" using upd_file_inv [OF assms(1) i] by (simp add: chan_ok_def)
  have p: "pc ?st < n" using assms(2) by simp
  have in_mode: "step_ok F n (if rc \<noteq> 0 then RtErr ''OPEN cannot read file'' (upd_file i (\<lambda>f. f\<lparr>fc_active := False\<rparr>) ?st)
       else next_line (upd_file i (\<lambda>f. f\<lparr>fc_buf := data\<rparr>) ?st))" if "length data \<le> 8191" for rc :: int and data
    by (intro step_ok_if RtErr_ok next_line_ok upd_file_inv [OF st i])
      (use that p upd_file_at [OF assms(1) i] in \<open>simp_all add: chan_ok_def\<close>)
  have ap_mode: "step_ok F n (next_line (if rc = 0 then upd_file i (\<lambda>f. f\<lparr>fc_buf := data, fc_pos := length data\<rparr>) ?st else ?st))"
    if "length data \<le> 8191" for rc :: int and data
    by (intro next_line_ok) (use that p st upd_file_at [OF assms(1) i] in \<open>auto simp: chan_ok_def intro!: upd_file_inv [OF st i]\<close>)
  show ?thesis
    unfolding open_file_def Let_def
    by (intro need_ok [OF assms(1)] step_ok_if read_step_ok [OF st] next_line_ok st p)
      (use in_mode ap_mode in simp_all)
qed

lemma open_mode_length: "open_mode s = Some (m, s') \<Longrightarrow> length s' \<le> length s"
  using length_skip [of "drop 3 s"] by (auto simp: open_mode_def Let_def split: if_splits)

lemma stmt_open_ok:
  assumes "room F L d ls" and "b_inv F n st" and "pc st < n" and "length s \<le> L"
  shows "step_ok F n (stmt_open d s st)"
  unfolding stmt_open_def Let_def
proof (rule get_or_ok [OF assms(2)], clarify, rule get_or_ok [OF assms(2)], clarify, rule need_ok [OF assms(2)],
    rule file_index_ok [OF assms(1,2)], goal_cases)
  case (1 fname s1 m s2)
  have "length s1 \<le> L" using literal_length [OF 1(1)] assms(4) by simp
  moreover have "length s2 \<le> length (b_skip_spaces s1)" by (rule open_mode_length [OF 1(2)])
  ultimately have "length (b_skip_spaces s2) \<le> L" using length_skip [of s1] length_skip [of s2] by simp
  then show ?case by (intro drop_le(2)) (auto intro!: text_le)
next
  case (2 fname s1 m s2 i s3 st3)
  show ?case by (rule open_file_ok [OF 2(6)]) (use 2 assms(3) in simp_all)
qed

lemma flush_file_ends:
  assumes "b_inv F n st" and "i < 4"
  shows "\<exists>s'. flush_file i st = Some (st\<lparr>bfs := s'\<rparr>) \<and> b_inv F n (st\<lparr>bfs := s'\<rparr>)"
proof (cases "fc_mode (b_files st ! i) = 1 \<or> fc_mode (b_files st ! i) = 2")
  case True
  have "fs_inv (bfs st)" using assms(1) by (simp add: b_inv_def run_inv_def)
  then obtain rc s' where "fs_write_file (bfs st) (Some (fc_path (b_files st ! i)))
      (Some (\<lambda>k. if k < length (fc_buf (b_files st ! i)) then fc_buf (b_files st ! i) ! k else 0)) (length (fc_buf (b_files st ! i))) = Some (rc, s')"
    and "fs_inv s'" using fs_write_file_good unfolding good_def by blast
  with True assms(1) show ?thesis by (auto simp: flush_file_def Let_def b_inv_def run_inv_def)
next
  case False
  then have "flush_file i st = Some (st\<lparr>bfs := bfs st\<rparr>)" by (simp add: flush_file_def Let_def)
  then show ?thesis using assms(1) by (intro exI [where x = "bfs st"]) simp
qed

lemma close_file_ends:
  assumes "b_inv F n st" and "i < 4"
  shows "\<exists>st'. close_file i st = Some st' \<and> b_inv F n st' \<and> pc st' = pc st"
  using flush_file_ends [OF assms] upd_file_inv [OF _ assms(2)] by (fastforce simp: close_file_def chan_ok_def)

lemma stmt_close_ok:
  assumes "room F L d ls" and "b_inv F n st" and "pc st < n" and "length s \<le> L"
  shows "step_ok F n (stmt_close d s st)"
  unfolding stmt_close_def Let_def
proof (rule need_ok [OF assms(2)], rule file_index_ok [OF assms(1,2)])
  fix i :: nat and s' st' assume i: "i < 4" and st': "b_inv F n st'" "pc st' = pc st"
  show "step_ok F n (need ''CLOSE file not open'' st' (fc_active (b_files st' ! i)) (fs_step (close_file i st') st' next_line))"
    using close_file_ends [OF st'(1) i] st' assms(3) by (intro need_ok) (auto simp: fs_step_def intro!: next_line_ok)
next
  show "length (tl (b_skip_spaces s)) \<le> L" by (intro text_le assms(4))
qed

section \<open>One line\<close>

text \<open>A line of the program that defines no function.\<close>

definition no_def :: "basic_line list \<Rightarrow> bool" where
  "no_def ls = (\<forall>l\<in>set ls. \<not> b_starts_with_ci (b_statement_start (line_text l)) ''DEF'')"

lemma array_max_pos [simp]: "0 \<le>s BASIC_ARRAY_MAX"
  by (simp add: word_sle_eq)

lemma reset_run_inv: "b_inv F n st \<Longrightarrow> b_inv F n (reset_run st)"
  by (simp add: reset_run_def b_inv_def run_inv_def)

text \<open>PRINT \# and INPUT \# are caught by PRINT and INPUT.\<close>

lemma dead_branches:
  "basic_statement d ls s st =
     (let kw = b_starts_with_ci s in
      if s = [] \<or> cur s = CHR ''#'' then next_line st
      else if kw ''REM'' then next_line st
      else if kw ''END'' \<or> kw ''STOP'' then Finish st
      else if kw ''CLS'' \<or> kw ''CLEAR'' then next_line st
      else if kw ''LIST'' then next_line (write_out (list_lines ls) st)
      else if kw ''RUN'' then Next (reset_run st)
      else if kw ''PRINT'' then stmt_print d (drop 5 s) st
      else if kw ''DATA'' then next_line st
      else if kw ''READ'' then stmt_read d ls (drop 4 s) st
      else if kw ''RESTORE'' then stmt_restore ls (drop 7 s) st
      else if kw ''DIM'' then stmt_dim d (drop 3 s) st
      else if kw ''LET'' then stmt_let d (drop 3 s) st
      else if kw ''INPUT'' then stmt_input d (drop 5 s) st
      else if kw ''FOR'' then stmt_for d ls (drop 3 s) st
      else if kw ''NEXT'' then stmt_next (drop 4 s) st
      else if kw ''WHILE'' \<and> b_is_space (nxt 5 s) then stmt_while d ls (drop 5 s) st
      else if kw ''WEND'' then stmt_wend d ls st
      else if kw ''DEF'' \<and> b_is_space (nxt 3 s) then stmt_def (drop 3 s) st
      else if kw ''ADD'' then stmt_arith A_Add d (drop 3 s) st
      else if kw ''SUB'' then stmt_arith A_Sub d (drop 3 s) st
      else if kw ''MUL'' then stmt_arith A_Mul d (drop 3 s) st
      else if kw ''DIV'' then stmt_arith A_Div d (drop 3 s) st
      else if kw ''MOD'' then stmt_arith A_Mod d (drop 3 s) st
      else if kw ''GOTO'' then stmt_goto ls (drop 4 s) st
      else if kw ''ON'' then stmt_on d ls (drop 2 s) st
      else if kw ''GOSUB'' then stmt_gosub ls (drop 5 s) st
      else if kw ''RETURN'' then stmt_return st
      else if kw ''IF'' then stmt_if d ls (drop 2 s) st
      else if kw ''OPEN'' then stmt_open d (drop 4 s) st
      else if kw ''CLOSE'' then stmt_close d (drop 5 s) st
      else stmt_assign d s st)"
  unfolding basic_statement_def Let_def by (simp cong: if_cong)

lemma stmt_dim_ok:
  assumes "room F L d ls" and "b_inv F n st" and "pc st < n" and "length s \<le> L"
  shows "step_ok F n (stmt_dim d s st)"
  unfolding stmt_dim_def
  by (rule dim_items_ok [OF assms(1-3)]) (use assms(4) length_skip [of s] in auto)

lemma basic_statement_ok:
  assumes r: "room F L d ls" and i: "b_inv F (length ls) st" and p: "pc st < length ls" and s: "length s \<le> L"
    and nd: "F \<longrightarrow> \<not> b_starts_with_ci s ''DEF''"
  shows "step_ok F (length ls) (basic_statement d ls s st)"
proof -
  have l: "length (drop k s) \<le> L" for k using s by simp
  have df: "step_ok F (length ls) (stmt_def (drop 3 s) st)" if "b_starts_with_ci s ''DEF'' \<and> b_is_space (nxt 3 s)"
  proof -
    have "\<not> F" using nd that by simp
    then have "b_inv False (length ls) st" using i by (simp add: b_inv_def)
    then show ?thesis using stmt_def_ok [OF _ p] \<open>\<not> F\<close> by simp
  qed
  show ?thesis
    unfolding dead_branches Let_def
    by (intro step_ok_if; (erule df)?)
      (simp_all add: i p next_line_ok reset_run_inv stmt_print_ok [OF r i p l] stmt_read_ok [OF r i p] stmt_restore_ok [OF i p]
        stmt_dim_ok [OF r i p l] stmt_let_ok [OF r i p l] stmt_input_ok [OF r i p] stmt_for_ok [OF r i p l] stmt_next_ok [OF i p]
        stmt_while_ok [OF r i p l] stmt_wend_ok [OF r i p] stmt_arith_ok [OF r i p l] stmt_goto_ok [OF i] stmt_on_ok [OF r i p l]
        stmt_gosub_ok [OF i p] stmt_return_ok [OF i] stmt_if_ok [OF r i p l] stmt_open_ok [OF r i p l] stmt_close_ok [OF r i p l]
        stmt_assign_ok [OF r i p s])
qed

lemma basic_step_ok:
  assumes r: "room F L d ls" and i: "b_inv F (length ls) st" and p: "pc st < length ls" and nd: "F \<longrightarrow> no_def ls"
  shows "step_ok F (length ls) (basic_step d ls st)"
proof -
  have "ls ! pc st \<in> set ls" using p by simp
  then have "length (line_text (ls ! pc st)) \<le> L" "F \<longrightarrow> \<not> b_starts_with_ci (b_statement_start (line_text (ls ! pc st))) ''DEF''"
    using room_line [OF r] nd by (auto simp: no_def_def)
  then show ?thesis unfolding basic_step_def
    using statement_start_length [of "line_text (ls ! pc st)"] by (intro basic_statement_ok [OF r i p]) auto
qed

section \<open>A run\<close>

definition end_ok :: "bool \<Rightarrow> nat \<Rightarrow> ending \<Rightarrow> bool" where
  "end_ok F n e = (case e of Returns rc st \<Rightarrow> (rc = 0 \<or> rc = -1) \<and> b_inv F n st | Crashes st \<Rightarrow> b_inv F n st | Never st \<Rightarrow> \<not> F)"

lemma cleanup_fold:
  assumes "set is \<subseteq> {0..<4}" and "b_inv F n st"
  shows "\<exists>st'. fold_option (\<lambda>i st. if fc_active (b_files st ! i) then close_file i st else Some st) is st = Some st' \<and> b_inv F n st'"
  using assms
proof (induction "is" arbitrary: st)
  case (Cons i "is")
  then obtain st' where "close_file i st = Some st'" "b_inv F n st'" using close_file_ends [of F n st i] by auto
  then show ?case using Cons by auto
qed simp

lemma cleanup_ok: "b_inv F n st \<Longrightarrow> rc = 0 \<or> rc = -1 \<Longrightarrow> end_ok F n (cleanup rc st)"
  using cleanup_fold [of "[0..<4]" F n st] by (auto simp: cleanup_def end_ok_def)

lemma runtime_error_inv [simp]: "b_inv F n (b_runtime_error ls m st) = b_inv F n st"
  by (simp add: b_runtime_error_def Let_def)

lemma run_loop_ok:
  assumes r: "room F L d ls" and nd: "F \<longrightarrow> no_def ls" and "b_inv F (length ls) st"
  shows "end_ok F (length ls) (run_loop d ls n st)"
  using assms(3)
proof (induction n arbitrary: st)
  case 0
  then show ?case by (subst run_loop.simps) (auto intro!: cleanup_ok)
next
  case (Suc n)
  show ?case
  proof (cases "pc st < length ls")
    case True
    from basic_step_ok [OF r Suc.prems True nd] show ?thesis
      using True Suc.IH by (subst run_loop.simps) (auto simp: end_ok_def [of F _ "Returns 0 _"] end_ok_def [of F _ "Crashes _"] end_ok_def [of F _ "Never _"] intro!: cleanup_ok split: step.split)
  next
    case False
    with Suc.prems show ?thesis by (subst run_loop.simps) (auto intro!: cleanup_ok)
  qed
qed

text \<open>What a run needs to find: four channels and a file system.\<close>

definition basic_ready :: "bst \<Rightarrow> bool" where
  "basic_ready st = (length (b_files st) = 4 \<and> (\<forall>f\<in>set (b_files st). chan_ok f) \<and> fs_inv (bfs st))"

lemma start_run_inv: "basic_ready st \<Longrightarrow> b_inv F n (start_run st)"
  by (auto simp: basic_ready_def start_run_def reset_run_def b_inv_def run_inv_def chan_ok_def)

lemma cut_line_length: "cut_line p = (l, r) \<Longrightarrow> length l + length r \<le> length p"
  by (induction p arbitrary: l r) (fastforce split: if_splits prod.splits)+

lemma program_line_length: "x \<in> set (program_lines n p) \<Longrightarrow> length (line_text x) \<le> length p"
proof (induction n arbitrary: p)
  case (Suc n)
  obtain l r where c: "cut_line p = (l, r)" by fastforce
  show ?case using Suc.prems Suc.IH [of r] cut_line_length [OF c] c by (auto split: if_splits)
qed simp

lemma basic_run_ok:
  assumes "basic_ready st" and "F \<longrightarrow> no_def (program_lines 256 p) \<and> 2 * max 95 (length p) + 1 < d"
  shows "end_ok F (length (program_lines 256 p)) (basic_run d (Some p) st)"
proof -
  have "room F (max 95 (length p)) d (program_lines 256 p)"
    using assms(2) program_line_length [of _ 256 p] by (fastforce simp: room_def)
  then show ?thesis using assms(2) start_run_inv [OF assms(1)] by (auto simp: basic_run_def intro!: run_loop_ok)
qed

end
