(* ===== verification/Fs_View.thy ===== *)
theory Fs_View
  imports Fs_Ops "HOL-Library.Sublist"
begin

text \<open>
  The abstract file system: a partial map from paths (lists of names from the root) to directories
  and files with their bytes. \<open>fs_view\<close> reads it off a node array; the lemmas say how each change of
  the array changes the map.
\<close>

datatype fs_obj = Dir | File "u8 list"

type_synonym fs_map = "string list \<Rightarrow> fs_obj option"

section \<open>Reading the map off the array\<close>

definition child_of :: "(int \<Rightarrow> fs_node) \<Rightarrow> int \<Rightarrow> string \<Rightarrow> int option" where
  "child_of ns p nm =
     List.find (\<lambda>j. nd_used (ns j) \<and> nd_parent (ns j) = p \<and> nd_name (ns j) = nm) [1..FS_MAX_NODES - 1]"

fun walk :: "(int \<Rightarrow> fs_node) \<Rightarrow> int \<Rightarrow> string list \<Rightarrow> int option" where
  "walk ns n [] = Some n"
| "walk ns n (c # cs) = (case child_of ns n c of None \<Rightarrow> None | Some m \<Rightarrow> walk ns m cs)"

definition obj_of :: "fs_node \<Rightarrow> fs_obj" where
  "obj_of n = (if nd_is_dir n then Dir else File (map (nd_data n) [0..<nd_size n]))"

definition fs_view :: "(int \<Rightarrow> fs_node) \<Rightarrow> fs_map" where
  "fs_view ns p = map_option (\<lambda>n. obj_of (ns n)) (walk ns 0 p)"

text \<open>The absolute path string of a list of names.\<close>

definition abs_path :: "string list \<Rightarrow> string" where
  "abs_path cs = concat (map (\<lambda>c. CHR ''/'' # c) cs)"

lemma abs_path_simps [simp]:
  "abs_path [] = []" "abs_path (c # cs) = CHR ''/'' # c @ abs_path cs"
  by (simp_all add: abs_path_def)

section \<open>Children and walks\<close>

lemma in_use_pos: "in_use ns j \<and> j \<noteq> 0 \<longleftrightarrow> 1 \<le> j \<and> j < FS_MAX_NODES \<and> nd_used (ns j)"
  by (auto simp: in_use_def)

lemma child_of_Some:
  "child_of ns p nm = Some j \<Longrightarrow> j \<in> children ns p \<and> nd_name (ns j) = nm"
  unfolding child_of_def children_def by (drule find_upto_Some) (auto simp: in_use_def)

lemma child_of_None:
  "child_of ns p nm = None \<longleftrightarrow> (\<forall>j \<in> children ns p. nd_name (ns j) \<noteq> nm)"
proof -
  have "j \<in> children ns p \<longleftrightarrow> (1 \<le> j \<and> j \<le> FS_MAX_NODES - 1) \<and> nd_used (ns j) \<and> nd_parent (ns j) = p" for j
    by (auto simp: children_def in_use_def)
  then show ?thesis unfolding child_of_def find_upto_None by blast
qed

lemma names_uniqueD:
  assumes "names_unique ns" and "j \<in> children ns p" and "k \<in> children ns p" and "nd_name (ns j) = nd_name (ns k)"
  shows "j = k"
proof -
  from assms(2,3) have "in_use ns j" "j \<noteq> 0" "in_use ns k" "k \<noteq> 0" "nd_parent (ns j) = nd_parent (ns k)"
    by (simp_all add: children_def)
  with assms(1,4) show ?thesis unfolding names_unique_def by metis
qed

lemma child_of_eq:
  assumes "names_unique ns"
  shows "child_of ns p nm = Some j \<longleftrightarrow> j \<in> children ns p \<and> nd_name (ns j) = nm"
proof
  assume *: "j \<in> children ns p \<and> nd_name (ns j) = nm"
  then have "child_of ns p nm \<noteq> None" unfolding child_of_None by blast
  then obtain k where k: "child_of ns p nm = Some k" by blast
  with child_of_Some [OF k] * have "k = j" by (intro names_uniqueD [OF assms, of k p j]) auto
  with k show "child_of ns p nm = Some j" by simp
qed (rule child_of_Some)

lemma find_child_child_of:
  assumes "fs_tree (nodes s)" and "in_use (nodes s) p"
  shows "find_child s p nm = Some (case child_of (nodes s) p nm of None \<Rightarrow> -1 | Some j \<Rightarrow> j)"
proof (cases "child_of (nodes s) p nm")
  case None
  with find_child_absent [OF assms, of nm] show ?thesis unfolding child_of_None [symmetric]
    by (simp add: None [unfolded child_of_None])
next
  case (Some j)
  with find_child_found [OF assms, of j nm] child_of_Some [OF Some] show ?thesis by simp
qed

lemma walk_append: "walk ns n (p @ q) = Option.bind (walk ns n p) (\<lambda>m. walk ns m q)"
  by (induction p arbitrary: n) (auto split: option.splits)

lemma walk_snoc: "walk ns n (p @ [c]) = Option.bind (walk ns n p) (\<lambda>m. child_of ns m c)"
  by (cases "walk ns n p") (simp_all add: walk_append split: option.split)

lemma walk_in_use:
  assumes "in_use ns n" and "walk ns n p = Some m"
  shows "in_use ns m"
  using assms
proof (induction p arbitrary: m rule: rev_induct)
  case (snoc c p)
  then show ?case using child_of_Some [of ns _ c m] by (auto simp: walk_snoc bind_eq_Some_conv children_def)
qed simp

text \<open>A node has one path.\<close>

lemma walk_unique:
  assumes "walk ns 0 p = Some n" and "walk ns 0 q = Some n"
  shows "p = q"
  using assms
proof (induction p arbitrary: n q rule: rev_induct)
  case Nil
  then show ?case
    using child_of_Some [of ns _ _ 0]
    by (cases q rule: rev_cases) (auto simp: walk_snoc bind_eq_Some_conv children_def)
next
  case (snoc c p)
  then obtain m where m: "walk ns 0 p = Some m" "child_of ns m c = Some n"
    by (auto simp: walk_snoc bind_eq_Some_conv)
  note n = child_of_Some [OF m(2)]
  from snoc.prems(2) n obtain d r where q: "q = r @ [d]"
    by (cases q rule: rev_cases) (auto simp: children_def)
  with snoc.prems(2) obtain k where k: "walk ns 0 r = Some k" "child_of ns k d = Some n"
    by (auto simp: walk_snoc bind_eq_Some_conv)
  note n' = child_of_Some [OF k(2)]
  from n n' have "k = m" "c = d" by (auto simp: children_def)
  with snoc.IH m(1) k(1) q show ?case by simp
qed

lemma walk_only_root: "walk ns 0 p = Some 0 \<longleftrightarrow> p = []"
  using walk_unique [of ns p 0 "[]"] by auto

lemma walk_parent_dir:
  assumes t: "fs_tree ns" and "walk ns 0 (p @ [c]) = Some n"
  obtains m where "walk ns 0 p = Some m" "nd_is_dir (ns m)" "n \<in> children ns m" "nd_name (ns n) = c"
proof -
  from assms(2) obtain m where m: "walk ns 0 p = Some m" "child_of ns m c = Some n"
    by (auto simp: walk_snoc bind_eq_Some_conv)
  from child_of_Some [OF m(2)] file_no_children [OF t, of m] that m show ?thesis by auto
qed

text \<open>Every node in use has a path.\<close>

lemma attached_walk:
  assumes t: "fs_tree ns" and "attached ns n"
  shows "\<exists>p. walk ns 0 p = Some n"
  using assms(2)
proof (induction rule: attached.induct)
  case root
  show ?case by (rule exI [of _ "[]"]) simp
next
  case (below i)
  then obtain p where p: "walk ns 0 p = Some (nd_parent (ns i))" by blast
  have "child_of ns (nd_parent (ns i)) (nd_name (ns i)) = Some i"
    using below by (simp add: child_of_eq [OF fs_treeD(4) [OF t]] children_def)
  with p have "walk ns 0 (p @ [nd_name (ns i)]) = Some i" by (simp add: walk_snoc)
  then show ?case by blast
qed

section \<open>Path strings\<close>

lemma take_part_comp:
  assumes "CHR ''/'' \<notin> set c" and "length part + length c \<le> FS_NAME_MAX"
  shows "take_part part (c @ abs_path cs) = Some (part @ c, abs_path cs)"
  using assms
proof (induction c arbitrary: part)
  case Nil
  then show ?case by (cases cs) auto
qed auto

lemma skip_slashes_comp: "name_ok c \<Longrightarrow> skip_slashes (CHR ''/'' # c @ r) = c @ r"
  by (cases c) (auto simp: skip_slashes_def name_ok_def)

lemma skip_slashes_abs:
  "\<forall>c \<in> set cs. name_ok c \<Longrightarrow> skip_slashes (abs_path cs) = (case cs of [] \<Rightarrow> [] | c # cs' \<Rightarrow> c @ abs_path cs')"
  by (cases cs) (auto simp: skip_slashes_comp, simp add: skip_slashes_def)

lemma resolve_loop_walk:
  assumes t: "fs_tree (nodes s)"
  shows "in_use (nodes s) cur \<Longrightarrow> \<forall>c \<in> set cs. name_ok c \<Longrightarrow>
    resolve_loop s cur (skip_slashes (abs_path cs)) =
      Some (case walk (nodes s) cur cs of None \<Rightarrow> -1 | Some n \<Rightarrow> n)"
proof (induction cs arbitrary: cur)
  case Nil
  then show ?case by (simp add: skip_slashes_def resolve_loop.simps)
next
  case (Cons c cs)
  from Cons.prems have c: "name_ok c" by simp
  then obtain x y where xy: "c = x # y" by (cases c) (auto simp: name_ok_def)
  have tp: "take_part [] (x # y @ abs_path cs) = Some (c, abs_path cs)"
    using take_part_comp [of c "[]" cs] c by (simp add: xy name_ok_def)
  have step: "resolve_loop s cur (c @ abs_path cs) =
    (case find_child s cur c of None \<Rightarrow> None
     | Some n \<Rightarrow> if n < 0 then Some (-1) else resolve_loop s n (skip_slashes (abs_path cs)))"
    using resolve_loop.simps(2) [of s cur x "y @ abs_path cs"] c tp
    by (simp add: xy name_ok_def del: take_part.simps) blast
  show ?case
  proof (cases "child_of (nodes s) cur c")
    case None
    with step c find_child_child_of [OF t Cons.prems(1), of c] show ?thesis by (simp add: skip_slashes_comp)
  next
    case (Some j)
    from child_of_Some [OF this] have j: "in_use (nodes s) j" "0 \<le> j" by (auto simp: children_def in_use_def)
    with Some step c find_child_child_of [OF t Cons.prems(1), of c] Cons.IH [OF j(1)] Cons.prems(2)
    show ?thesis by (simp add: skip_slashes_comp)
  qed
qed

lemma resolve_path_walk:
  assumes t: "fs_tree (nodes s)" and cs: "\<forall>c \<in> set cs. name_ok c" "cs \<noteq> []"
  shows "resolve_path s (Some (abs_path cs)) = Some (case walk (nodes s) 0 cs of None \<Rightarrow> -1 | Some n \<Rightarrow> n)"
proof -
  from cs obtain c cs' where split: "cs = c # cs'" "name_ok c" by (cases cs) auto
  then have "skip_slashes (abs_path cs) \<noteq> []" using skip_slashes_abs [OF cs(1)] by (auto simp: name_ok_def)
  with resolve_loop_walk [OF t fs_treeD(1) [OF t] cs(1)] split(1) show ?thesis
    by (simp add: resolve_path_def Let_def)
qed

lemma split_loop_walk:
  assumes t: "fs_tree (nodes s)" and nm: "name_ok nm"
  shows "in_use (nodes s) cur \<Longrightarrow> nd_is_dir (nodes s cur) \<Longrightarrow> \<forall>c \<in> set cs. name_ok c \<Longrightarrow>
    split_loop s cur (skip_slashes (abs_path (cs @ [nm]))) =
      Some (case walk (nodes s) cur cs of None \<Rightarrow> None
            | Some d \<Rightarrow> if nd_is_dir (nodes s d) then Some (d, nm) else None)"
proof (induction cs arbitrary: cur)
  case Nil
  from nm obtain x y where xy: "nm = x # y" by (cases nm) (auto simp: name_ok_def)
  have tp: "take_part [] (x # y) = Some (nm, [])"
    using take_part_comp [of nm "[]" "[]"] nm by (simp add: xy name_ok_def)
  have sk: "skip_slashes (abs_path [nm]) = x # y" using skip_slashes_comp [OF nm, of "[]"] xy by simp
  show ?case
    using tp nm Nil unfolding append_Nil sk
    by (simp add: split_loop.simps name_ok_def str_copy_def skip_slashes_def del: take_part.simps)
next
  case (Cons c cs)
  from Cons.prems have c: "name_ok c" by simp
  then obtain x y where xy: "c = x # y" by (cases c) (auto simp: name_ok_def)
  let ?r = "abs_path (cs @ [nm])"
  have tp: "take_part [] (x # y @ ?r) = Some (c, ?r)"
    using take_part_comp [of c "[]" "cs @ [nm]"] c by (simp add: xy name_ok_def)
  have ne: "skip_slashes ?r \<noteq> []"
    using skip_slashes_abs [of "cs @ [nm]"] Cons.prems(3) nm by (cases cs) (auto simp: name_ok_def)
  have step: "split_loop s cur (c @ ?r) =
    (case find_child s cur c of None \<Rightarrow> None
     | Some n \<Rightarrow> if n < 0 \<or> \<not> nd_is_dir (nodes s n) then Some None else split_loop s n (skip_slashes ?r))"
    using split_loop.simps(2) [of s cur x "y @ ?r"] c tp ne
    by (simp add: xy name_ok_def del: take_part.simps) blast
  show ?case
  proof (cases "child_of (nodes s) cur c")
    case None
    with step c find_child_child_of [OF t Cons.prems(1), of c] show ?thesis by (simp add: skip_slashes_comp)
  next
    case (Some j)
    from child_of_Some [OF this] have j: "in_use (nodes s) j" "0 \<le> j" by (auto simp: children_def in_use_def)
    show ?thesis
    proof (cases "nd_is_dir (nodes s j)")
      case True
      with Some j step c find_child_child_of [OF t Cons.prems(1), of c] Cons.IH [OF j(1)] Cons.prems(3)
      show ?thesis by (simp add: skip_slashes_comp)
    next
      case False
      have "walk (nodes s) j cs = None \<or> cs = []"
      proof (cases cs)
        case (Cons d ds)
        have "child_of (nodes s) j d = None"
          using file_no_children [OF t False] by (simp add: child_of_None)
        with Cons show ?thesis by simp
      qed simp
      with False Some j step c find_child_child_of [OF t Cons.prems(1), of c]
      show ?thesis by (auto simp: skip_slashes_comp)
    qed
  qed
qed

lemma split_path_walk:
  assumes t: "fs_tree (nodes s)" and nm: "name_ok nm" and cs: "\<forall>c \<in> set cs. name_ok c"
  shows "split_parent_and_name s (Some (abs_path (cs @ [nm]))) =
      Some (case walk (nodes s) 0 cs of None \<Rightarrow> None
            | Some d \<Rightarrow> if nd_is_dir (nodes s d) then Some (d, nm) else None)"
proof -
  obtain r where r: "abs_path (cs @ [nm]) = CHR ''/'' # r" by (cases cs) auto
  have "skip_slashes (abs_path (cs @ [nm])) \<noteq> []"
    using skip_slashes_abs [of "cs @ [nm]"] cs nm by (cases cs) (auto simp: name_ok_def)
  with split_loop_walk [OF t nm fs_treeD(1,2) [OF t] cs] show ?thesis
    unfolding r by (simp add: split_parent_and_name_def Let_def)
qed

end
