(* ===== verification/Fs_Spec.thy ===== *)
theory Fs_Spec
  imports Fs_View
begin

text \<open>
  The calls of the RAM file system against the abstract map: creating, writing, removing and moving
  change exactly the paths they name, and a call that fails changes nothing.
\<close>

section \<open>How a changed array changes the map\<close>

lemma walk_cong:
  assumes "\<And>m c. child_of ns' m c = child_of ns m c"
  shows "walk ns' n p = walk ns n p"
  by (induction p arbitrary: n) (auto simp: assms split: option.split)

lemma child_of_same:
  assumes "same_nodes ns ns'"
  shows "child_of ns' m c = child_of ns m c"
  by (simp add: child_of_def same_nodes_simps [OF assms])

lemma child_of_cong:
  assumes "\<And>j. (j \<in> children ns' m \<and> nd_name (ns' j) = c) \<longleftrightarrow> (j \<in> children ns k \<and> nd_name (ns j) = d)"
    and "names_unique ns" and "names_unique ns'"
  shows "child_of ns' m c = child_of ns k d"
proof (cases "child_of ns k d")
  case None
  with assms(1) have "child_of ns' m c = None" unfolding child_of_None by blast
  with None show ?thesis by simp
next
  case (Some j)
  from child_of_Some [OF Some] assms(1) [of j] have "child_of ns' m c = Some j"
    by (simp add: child_of_eq [OF assms(3)])
  with Some show ?thesis by simp
qed

text \<open>Adding a child.\<close>

lemma linked_new_child_of:
  assumes t: "fs_tree ns" and t': "fs_tree (linked_new ns d nm isdir idx)" and d: "in_use ns d"
    and no: "\<And>j. j \<in> children ns d \<Longrightarrow> nd_name (ns j) \<noteq> nm"
    and idx: "\<not> nd_used (ns idx)" "1 \<le> idx" "idx < FS_MAX_NODES"
  shows "child_of (linked_new ns d nm isdir idx) m c =
    (if m = d \<and> c = nm then Some idx else child_of ns m c)"
proof -
  let ?ns = "linked_new ns d nm isdir idx"
  have notin: "\<not> in_use ns idx" using idx by (simp add: in_use_def)
  have old: "in_use ?ns j \<and> j \<noteq> idx \<longleftrightarrow> in_use ns j" for j
    using notin d by (auto simp: in_use_def linked_new_def)
  have idxd: "idx \<noteq> d" using notin d by auto
  have same: "j \<noteq> idx \<Longrightarrow> nd_parent (?ns j) = nd_parent (ns j) \<and> nd_name (?ns j) = nd_name (ns j)" for j
    by (simp add: linked_new_def)
  have new: "in_use ?ns idx" "idx \<noteq> 0" "nd_parent (?ns idx) = d" "nd_name (?ns idx) = nm"
    using idx idxd by (auto simp: in_use_def linked_new_def new_node_def)
  have ch: "j \<in> children ?ns m \<longleftrightarrow> (if j = idx then m = d else j \<in> children ns m)" for j
    using old [of j] new same [of j] by (auto simp: children_def)
  show ?thesis
  proof (cases "m = d \<and> c = nm")
    case True
    with new show ?thesis by (simp add: child_of_eq [OF fs_treeD(4) [OF t']] children_def)
  next
    case False
    have "child_of ?ns m c = child_of ns m c"
    proof (rule child_of_cong [OF _ fs_treeD(4) [OF t] fs_treeD(4) [OF t']])
      fix j
      show "(j \<in> children ?ns m \<and> nd_name (?ns j) = c) \<longleftrightarrow> (j \<in> children ns m \<and> nd_name (ns j) = c)"
        using ch [of j] new False same [of j] notin by (auto simp: children_def)
    qed
    with False show ?thesis by (simp only: if_False)
  qed
qed

lemma linked_new_view:
  assumes t: "fs_tree ns" and d: "in_use ns d" "nd_is_dir (ns d)" and nm: "name_ok nm"
    and no: "\<And>j. j \<in> children ns d \<Longrightarrow> nd_name (ns j) \<noteq> nm"
    and idx: "\<not> nd_used (ns idx)" "1 \<le> idx" "idx < FS_MAX_NODES"
    and p: "walk ns 0 p = Some d"
  shows "walk (linked_new ns d nm isdir idx) 0 q = (if q = p @ [nm] then Some idx else walk ns 0 q)"
    and "fs_view (linked_new ns d nm isdir idx) = (fs_view ns)(p @ [nm] \<mapsto> (if isdir then Dir else File []))"
proof -
  let ?ns = "linked_new ns d nm isdir idx"
  have t': "fs_tree ?ns" by (rule linked_new_tree [OF t d nm no idx])
  note ch = linked_new_child_of [OF t t' d(1) no idx]
  have notin: "\<not> in_use ns idx" using idx by (simp add: in_use_def)
  then have empty: "child_of ns idx c = None" for c
    using fs_tree_parent(1) [OF t] unfolding child_of_None children_def by blast
  have absent: "walk ns 0 (p @ [nm]) = None" using p no by (simp add: walk_snoc child_of_None)
  have idxd: "idx \<noteq> d" using notin d by auto
  show walk: "walk ?ns 0 q = (if q = p @ [nm] then Some idx else walk ns 0 q)" for q
  proof (induction q rule: rev_induct)
    case Nil
    show ?case by simp
  next
    case (snoc c q)
    show ?case
    proof (cases "q = p @ [nm]")
      case True
      with snoc have IH: "walk ?ns 0 q = Some idx" by simp
      have "walk ns 0 (q @ [c]) = None" using absent by (simp add: True walk_append del: append_assoc)
      moreover have "walk ?ns 0 (q @ [c]) = None" using IH idxd empty by (simp add: walk_snoc ch)
      ultimately show ?thesis using True by simp
    next
      case False
      then have IH: "walk ?ns 0 q = walk ns 0 q" using snoc by simp
      show ?thesis
      proof (cases "walk ns 0 q")
        case None
        with p have "q \<noteq> p" by auto
        with IH None show ?thesis by (simp add: walk_snoc)
      next
        case (Some m)
        then have "m = d \<longleftrightarrow> q = p" using p walk_unique by auto
        with Some IH show ?thesis by (simp add: walk_snoc ch)
      qed
    qed
  qed
  show "fs_view ?ns = (fs_view ns)(p @ [nm] \<mapsto> (if isdir then Dir else File []))"
  proof
    fix q
    have "obj_of (?ns idx) = (if isdir then Dir else File [])"
      using idxd by (simp add: obj_of_def linked_new_def new_node_def)
    moreover have "obj_of (?ns m) = obj_of (ns m)" if "in_use ns m" for m
      using that notin by (auto simp: obj_of_def linked_new_def)
    ultimately show "fs_view ?ns q = ((fs_view ns)(p @ [nm] \<mapsto> (if isdir then Dir else File []))) q"
      using walk_in_use [OF fs_treeD(1) [OF t], of q] by (cases "walk ns 0 q") (auto simp: fs_view_def walk)
  qed
qed

text \<open>Writing a file.\<close>

lemma data_view:
  assumes same: "same_nodes ns ns'" and others: "\<And>j. j \<noteq> n \<Longrightarrow> obj_of (ns' j) = obj_of (ns j)"
    and p: "walk ns 0 p = Some n"
  shows "fs_view ns' = (fs_view ns)(p \<mapsto> obj_of (ns' n))"
proof
  fix q
  have "walk ns' 0 q = walk ns 0 q" by (rule walk_cong) (rule child_of_same [OF same])
  moreover have "m \<noteq> n" if "walk ns 0 q = Some m" "q \<noteq> p" for m
    using that p walk_unique [of ns q m p] by blast
  ultimately show "fs_view ns' q = ((fs_view ns)(p \<mapsto> obj_of (ns' n))) q"
    using p by (cases "walk ns 0 q") (auto simp: fs_view_def others)
qed

text \<open>Removing a node with no children.\<close>

lemma removed_view:
  assumes t: "fs_tree ns" and t': "fs_tree ns'" and n: "in_use ns n" "children ns n = {}" and p: "walk ns 0 p = Some n"
    and use: "\<And>j. in_use ns' j \<longleftrightarrow> in_use ns j \<and> j \<noteq> n"
    and rest: "\<And>j. j \<noteq> n \<Longrightarrow> nd_parent (ns' j) = nd_parent (ns j) \<and> nd_name (ns' j) = nd_name (ns j) \<and>
       obj_of (ns' j) = obj_of (ns j)"
  shows "fs_view ns' = (fs_view ns)(p := None)"
proof -
  have chs: "j \<in> children ns' m \<and> nd_name (ns' j) = c \<longleftrightarrow> j \<noteq> n \<and> j \<in> children ns m \<and> nd_name (ns j) = c" for j m c
  proof (cases "j = n")
    case False
    with use [of j] rest [of j] show ?thesis by (simp add: children_def)
  qed (simp add: use children_def)
  have ch: "child_of ns' m c = (if child_of ns m c = Some n then None else child_of ns m c)" for m c
  proof (cases "child_of ns m c")
    case None
    then have "child_of ns' m c = None" unfolding child_of_None using chs by blast
    with None show ?thesis by simp
  next
    case (Some j)
    note j = child_of_Some [OF Some]
    show ?thesis
    proof (cases "j = n")
      case True
      have "nd_name (ns' k) \<noteq> c" if "k \<in> children ns' m" for k
        using that chs [of k m c] names_uniqueD [OF fs_treeD(4) [OF t], of k m j] j True by metis
      then have "child_of ns' m c = None" unfolding child_of_None by blast
      with Some True show ?thesis by simp
    next
      case False
      with j chs [of j m c] Some show ?thesis by (simp add: child_of_eq [OF fs_treeD(4) [OF t']])
    qed
  qed
  have pne: "p \<noteq> []"
    using use [of 0] fs_treeD(1) [OF t'] p by auto
  have walk: "walk ns' 0 q = (if q = p then None else walk ns 0 q)" for q
  proof (induction q rule: rev_induct)
    case Nil
    show ?case using pne by simp
  next
    case (snoc c q)
    show ?case
    proof (cases "q = p")
      case True
      have "walk ns 0 (p @ [c]) = None" using p n(2) by (simp add: walk_snoc child_of_None)
      with True snoc show ?thesis by (simp add: walk_snoc)
    next
      case False
      then have IH: "walk ns' 0 q = walk ns 0 q" using snoc by simp
      have "walk ns 0 (q @ [c]) = Some n \<longleftrightarrow> q @ [c] = p" using p walk_unique by blast
      with IH show ?thesis by (cases "walk ns 0 q") (auto simp: walk_snoc ch)
    qed
  qed
  show ?thesis
  proof
    fix q
    have "m \<noteq> n" if "walk ns 0 q = Some m" "q \<noteq> p" for m
      using that p walk_unique [of ns q m p] by blast
    then show "fs_view ns' q = ((fs_view ns)(p := None)) q"
      using rest by (cases "walk ns 0 q") (auto simp: fs_view_def walk)
  qed
qed

text \<open>Moving a node.\<close>

lemma moved_view:
  assumes t: "fs_tree ns" and t': "fs_tree ns'" and src: "in_use ns src" "src \<noteq> 0"
    and d: "walk ns 0 pd = Some d" and s: "walk ns 0 ps = Some src"
    and outside: "\<not> prefix ps pd" and no: "\<And>j. j \<in> children ns d \<Longrightarrow> nd_name (ns j) \<noteq> nm"
    and use: "\<And>j. in_use ns' j = in_use ns j"
    and srcn: "nd_parent (ns' src) = d" "nd_name (ns' src) = nm"
    and rest: "\<And>j. j \<noteq> src \<Longrightarrow> nd_parent (ns' j) = nd_parent (ns j) \<and> nd_name (ns' j) = nd_name (ns j)"
    and obj: "\<And>j. obj_of (ns' j) = obj_of (ns j)"
  shows "fs_view ns' q =
    (if prefix (pd @ [nm]) q then fs_view ns (ps @ drop (length pd + 1) q)
     else if prefix ps q then None else fs_view ns q)"
proof -
  have chs: "j \<in> children ns' m \<and> nd_name (ns' j) = c \<longleftrightarrow>
      (if j = src then m = d \<and> c = nm else j \<in> children ns m \<and> nd_name (ns j) = c)" for j m c
    using use [of j] rest [of j] srcn src by (cases "j = src") (auto simp: children_def)
  have ch: "child_of ns' m c = (if m = d \<and> c = nm then Some src
      else if child_of ns m c = Some src then None else child_of ns m c)" for m c
  proof (cases "child_of ns' m c")
    case None
    then have none: "\<not> (j \<in> children ns' m \<and> nd_name (ns' j) = c)" for j unfolding child_of_None by blast
    from none [of src] chs [of src m c] have "\<not> (m = d \<and> c = nm)" by simp
    moreover have "child_of ns m c = None \<or> child_of ns m c = Some src"
      using none chs child_of_Some [of ns m c] by (metis option.exhaust)
    ultimately show ?thesis using None by auto
  next
    case (Some j)
    then have j: "j \<in> children ns' m \<and> nd_name (ns' j) = c" by (rule child_of_Some)
    show ?thesis
    proof (cases "j = src")
      case True
      with j chs [of src m c] Some show ?thesis by simp
    next
      case False
      with j chs [of j m c] have old: "j \<in> children ns m" "nd_name (ns j) = c" by auto
      then have "child_of ns m c = Some j" by (simp add: child_of_eq [OF fs_treeD(4) [OF t]])
      moreover from old no have "\<not> (m = d \<and> c = nm)" by auto
      ultimately show ?thesis using Some False by simp
    qed
  qed
  have dn: "child_of ns d nm = None" using no by (simp add: child_of_None)
  let ?w = "\<lambda>q. if prefix (pd @ [nm]) q then walk ns 0 (ps @ drop (length pd + 1) q)
     else if prefix ps q then None else walk ns 0 q"
  have psne: "ps \<noteq> []" using s src by auto
  have walk: "walk ns' 0 q = ?w q" for q
  proof (induction q rule: rev_induct)
    case Nil
    then show ?case using psne by simp
  next
    case (snoc c q)
    consider (under) "prefix (pd @ [nm]) q" | (here) "q @ [c] = pd @ [nm]"
      | (gone) "\<not> prefix (pd @ [nm]) (q @ [c])" "prefix ps q"
      | (source) "\<not> prefix (pd @ [nm]) (q @ [c])" "q @ [c] = ps"
      | (other) "\<not> prefix (pd @ [nm]) (q @ [c])" "\<not> prefix ps (q @ [c])"
      using prefix_snoc [of "pd @ [nm]" q c] prefix_snoc [of ps q c] by metis
    then show ?case
    proof cases
      case under
      then obtain r where r: "q = pd @ [nm] @ r" by (auto simp: prefix_def)
      then have IH: "walk ns' 0 q = walk ns 0 (ps @ r)" using snoc by simp
      have goal: "?w (q @ [c]) = walk ns 0 ((ps @ r) @ [c])" by (simp add: r)
      show ?thesis
      proof (cases "walk ns 0 (ps @ r)")
        case None
        with IH show ?thesis unfolding goal by (simp add: walk_snoc del: append_assoc)
      next
        case (Some m)
        have "m \<noteq> d" using Some d walk_unique [of ns "ps @ r" d pd] outside by auto
        moreover have "child_of ns m c \<noteq> Some src"
        proof
          assume "child_of ns m c = Some src"
          with Some have "walk ns 0 ((ps @ r) @ [c]) = Some src" by (simp add: walk_snoc del: append_assoc)
          from walk_unique [OF this s] show False by simp
        qed
        ultimately show ?thesis unfolding goal using IH Some by (simp add: walk_snoc ch del: append_assoc)
      qed
    next
      case here
      then have q: "q = pd" "c = nm" by auto
      have "walk ns' 0 pd = Some d" using snoc d outside by (simp add: q prefix_def)
      with q s show ?thesis by (simp add: walk_snoc ch)
    next
      case gone
      then have "walk ns' 0 q = None" using snoc by (auto simp: prefix_snoc)
      with gone show ?thesis by (auto simp: walk_snoc prefix_snoc)
    next
      case source
      then have "\<not> prefix ps q" by (auto simp: prefix_def)
      with source snoc have IH: "walk ns' 0 q = walk ns 0 q" by (auto simp: prefix_snoc)
      from source s obtain m where m: "walk ns 0 q = Some m" "child_of ns m c = Some src"
        by (auto simp: walk_snoc bind_eq_Some_conv)
      from m(2) dn have "\<not> (m = d \<and> c = nm)" by auto
      with IH m have "walk ns' 0 (q @ [c]) = None" by (simp add: walk_snoc ch)
      then show ?thesis using source by simp
    next
      case other
      then have IH: "walk ns' 0 q = walk ns 0 q" using snoc by (auto simp: prefix_snoc)
      have "m = d \<Longrightarrow> walk ns 0 q = Some m \<Longrightarrow> c \<noteq> nm" for m
        using other d walk_unique [of ns q d pd] by auto
      moreover have "walk ns 0 (q @ [c]) \<noteq> Some src" using other s walk_unique [of ns "q @ [c]" src ps] by auto
      ultimately show ?thesis using other IH
        by (cases "walk ns 0 q") (auto simp: walk_snoc ch)
    qed
  qed
  show ?thesis by (simp add: fs_view_def walk obj)
qed

end
