(* ===== verification/Fs_Calls.thy ===== *)
theory Fs_Calls
  imports Fs_Spec
begin

text \<open>
  What the calls of the RAM file system promise, stated on the abstract map \<open>fs_view\<close>: for an
  absolute path each call either performs exactly the change it names, or returns -1 and leaves the
  state alone; the conditions for success are given in full.
\<close>

definition has_slot :: "(int \<Rightarrow> fs_node) \<Rightarrow> bool" where
  "has_slot ns \<longleftrightarrow> (\<exists>i \<in> {1..FS_MAX_NODES - 1}. \<not> nd_used (ns i))"

definition changes :: "fs_state \<Rightarrow> fs_state \<Rightarrow> string list \<Rightarrow> fs_obj option \<Rightarrow> bool" where
  "changes s s' p x \<longleftrightarrow> fs_view (nodes s') = (fs_view (nodes s))(p := x) \<and> cwd_node s' = cwd_node s \<and> fs_inv s'"

definition path_ok :: "string list \<Rightarrow> bool" where
  "path_ok p \<longleftrightarrow> p \<noteq> [] \<and> (\<forall>c \<in> set p. name_ok c)"

lemma path_ok_snocE:
  assumes "path_ok p"
  obtains cs nm where "p = cs @ [nm]" "\<forall>c \<in> set cs. name_ok c" "name_ok nm"
proof -
  from assms have "p = butlast p @ [last p]" by (simp add: path_ok_def)
  moreover from this assms have "\<forall>c \<in> set (butlast p). name_ok c" "name_ok (last p)"
    by (auto simp: path_ok_def dest: in_set_butlastD)
  ultimately show thesis by (rule that)
qed

section \<open>The start\<close>

lemma init_children: "children (nodes (fs_init_nodes s)) p = {}"
  by (auto simp: children_def in_use_def fs_init_nodes_def fs_clear_node_def)

lemma init_use: "in_use (nodes (fs_init_nodes s)) i \<longleftrightarrow> i = 0"
  by (auto simp: in_use_def fs_init_nodes_def fs_clear_node_def)

lemma fs_init_tree: "fs_tree (nodes (fs_init_nodes s))"
proof -
  let ?ns = "nodes (fs_init_nodes s)"
  have root: "?ns 0 = (fs_clear_node (nodes s 0))\<lparr>nd_used := True, nd_is_dir := True, nd_parent := -1,
                nd_first_child := -1, nd_next_sibling := -1, nd_name := ''/''\<rparr>"
    by (simp add: fs_init_nodes_def)
  have "node_ok ?ns 0" by (simp add: node_ok_def root fs_clear_node_def attached.root)
  moreover have "kids_ok ?ns 0 []"
    unfolding kids_ok_def by (simp add: init_children root)
  moreover have "names_unique ?ns" by (simp add: names_unique_def init_use)
  ultimately show ?thesis unfolding fs_tree_def by (auto simp add: init_use root)
qed

lemma fs_init_inv: "fs_inv (fs_init_nodes s)"
  using fs_init_tree [of s] by (simp add: fs_inv_def cwd_ok_def init_use) (simp add: fs_init_nodes_def)

lemma fs_init_view: "fs_view (nodes (fs_init_nodes s)) = [[] \<mapsto> Dir]"
proof
  fix p
  have "child_of (nodes (fs_init_nodes s)) n c = None" for n c
    by (simp add: child_of_None init_children)
  then have "walk (nodes (fs_init_nodes s)) 0 p = (if p = [] then Some 0 else None)"
    by (cases p) auto
  then show "fs_view (nodes (fs_init_nodes s)) p = [[] \<mapsto> Dir] p"
    by (simp add: fs_view_def) (simp add: obj_of_def fs_init_nodes_def)
qed

lemma fs_init_slot: "has_slot (nodes (fs_init_nodes s))"
  unfolding has_slot_def by (rule bexI [of _ 1]) (auto simp: fs_init_nodes_def fs_clear_node_def)

text \<open>A concrete initial state, for the witnesses.\<close>

definition fs_demo :: fs_state where
  "fs_demo = fs_init_nodes \<lparr>nodes = (\<lambda>_. \<lparr>nd_used = False, nd_is_dir = False, nd_parent = 0, nd_first_child = 0,
     nd_next_sibling = 0, nd_name = [], nd_size = 0, nd_data = (\<lambda>_. 0)\<rparr>), cwd_node = 0\<rparr>"

lemma fs_demo_facts:
  "fs_inv fs_demo" "fs_view (nodes fs_demo) = [[] \<mapsto> Dir]" "has_slot (nodes fs_demo)" "cwd_node fs_demo = 0"
  by (simp_all only: fs_demo_def fs_init_inv fs_init_view fs_init_slot) (simp add: fs_init_nodes_def)

section \<open>Reading the map\<close>

lemma view_Dir: "fs_view ns p = Some Dir \<longleftrightarrow> (\<exists>d. walk ns 0 p = Some d \<and> nd_is_dir (ns d))"
  by (auto simp: fs_view_def obj_of_def split: if_splits)

lemma view_None: "fs_view ns p = None \<longleftrightarrow> walk ns 0 p = None"
  by (simp add: fs_view_def)

lemma view_root: "fs_tree ns \<Longrightarrow> fs_view ns [] = Some Dir"
  using fs_treeD(2) by (simp add: view_Dir)

lemma view_child_None:
  assumes "walk ns 0 cs = Some d"
  shows "fs_view ns (cs @ [nm]) = None \<longleftrightarrow> (\<forall>j \<in> children ns d. nd_name (ns j) \<noteq> nm)"
  using assms by (simp add: view_None walk_snoc child_of_None)

lemma resolve_abs:
  assumes "fs_inv s" and "path_ok p"
  shows "resolve_path s (Some (abs_path p)) = Some (case walk (nodes s) 0 p of None \<Rightarrow> -1 | Some n \<Rightarrow> n)"
  using resolve_path_walk [OF fs_inv_tree [OF assms(1)]] assms(2) by (simp add: path_ok_def)

lemma walk_bounds: "fs_tree ns \<Longrightarrow> walk ns 0 p = Some n \<Longrightarrow> in_use ns n \<and> 0 \<le> n"
  using walk_in_use [OF fs_treeD(1)] by (auto simp: in_use_def)

lemma split_abs:
  assumes "fs_inv s" and "name_ok nm" and "\<forall>c \<in> set cs. name_ok c"
  shows "split_parent_and_name s (Some (abs_path (cs @ [nm]))) =
    Some (if fs_view (nodes s) cs = Some Dir then Some (the (walk (nodes s) 0 cs), nm) else None)"
  using split_path_walk [OF fs_inv_tree [OF assms(1)] assms(2,3)]
  by (auto simp: view_Dir split: option.split)

section \<open>Creating\<close>

lemma add_child_view:
  assumes inv: "fs_inv s" and d: "walk (nodes s) 0 cs = Some d" "nd_is_dir (nodes s d)" and nm: "name_ok nm"
  shows "\<exists>idx s'. add_child s d nm isdir = Some (idx, s') \<and>
    (if fs_view (nodes s) (cs @ [nm]) = None \<and> has_slot (nodes s)
     then idx \<ge> 0 \<and> changes s s' (cs @ [nm]) (Some (if isdir then Dir else File []))
     else idx = -1 \<and> s' = s)"
proof -
  have t: "fs_tree (nodes s)" using inv by (rule fs_inv_tree)
  have use: "in_use (nodes s) d" using walk_bounds [OF t d(1)] by simp
  from t use d(2) nm show ?thesis
  proof (cases rule: add_child_ends [where isdir = isdir])
    case (made idx)
    let ?s = "s\<lparr>nodes := linked_new (nodes s) d nm isdir idx\<rparr>"
    from made have "has_slot (nodes s)" unfolding has_slot_def by (intro bexI [of _ idx]) auto
    moreover from made d have "fs_view (nodes s) (cs @ [nm]) = None" by (simp add: view_child_None)
    moreover have "fs_view (nodes ?s) = (fs_view (nodes s))(cs @ [nm] \<mapsto> (if isdir then Dir else File []))"
      using linked_new_view(2) [OF t use d(2) nm made(5,2,3,4) d(1)] by simp
    moreover have "fs_inv ?s"
      using linked_new_tree [OF t use d(2) nm made(5,2,3,4)] by (intro fs_inv_keeps [OF inv]) simp_all
    ultimately show ?thesis using made(1,3) by (simp add: changes_def)
  next
    case (present j)
    with d have "fs_view (nodes s) (cs @ [nm]) \<noteq> None" by (auto simp: view_child_None)
    with present show ?thesis by simp
  next
    case full
    then have "\<not> has_slot (nodes s)" by (auto simp: has_slot_def)
    with full show ?thesis by simp
  qed
qed

lemma fs_mkdir_view:
  assumes "fs_inv s" and "\<forall>c \<in> set cs. name_ok c" and "name_ok nm"
  shows "\<exists>rc s'. fs_mkdir s (Some (abs_path (cs @ [nm]))) = Some (rc, s') \<and>
    (if fs_view (nodes s) cs = Some Dir \<and> fs_view (nodes s) (cs @ [nm]) = None \<and> has_slot (nodes s)
     then rc = 0 \<and> changes s s' (cs @ [nm]) (Some Dir)
     else rc = -1 \<and> s' = s)"
proof (cases "fs_view (nodes s) cs = Some Dir")
  case True
  then obtain d where d: "walk (nodes s) 0 cs = Some d" "nd_is_dir (nodes s d)" by (auto simp: view_Dir)
  from add_child_view [OF assms(1) d assms(3), of True] True d show ?thesis
    by (auto simp: fs_mkdir_def split_abs [OF assms(1,3,2)] split: if_splits)
next
  case False
  then show ?thesis by (simp add: fs_mkdir_def split_abs [OF assms(1,3,2)])
qed

text \<open>C14: \<open>fs_mkdir\<close> of an absolute path makes exactly that directory, when the parent is a directory,
  the name is free and a node is left; otherwise it returns -1 and changes nothing.\<close>

theorem fs_mkdir_spec:
  assumes "fs_inv s" and "\<forall>c \<in> set cs. name_ok c" and "name_ok nm"
  shows "\<exists>rc s'. fs_mkdir s (Some (abs_path (cs @ [nm]))) = Some (rc, s') \<and>
    (if fs_view (nodes s) cs = Some Dir \<and> fs_view (nodes s) (cs @ [nm]) = None \<and> has_slot (nodes s)
     then rc = 0 \<and> changes s s' (cs @ [nm]) (Some Dir)
     else rc = -1 \<and> s' = s)"
  using assms by (rule fs_mkdir_view)

lemma name_ok_a: "name_ok ''a''" "name_ok ''b''" "path_ok [''a'']" "path_ok [''b'']"
  by (simp_all add: name_ok_def path_ok_def)

theorem fs_mkdir_spec_witness:
  "\<exists>s'. fs_mkdir fs_demo (Some ''/a'') = Some (0, s') \<and> fs_view (nodes s') = [[] \<mapsto> Dir, [''a''] \<mapsto> Dir]"
  using fs_mkdir_spec [OF fs_demo_facts(1), of "[]" "''a''"] by (auto simp: name_ok_a fs_demo_facts changes_def)

lemma fs_demo_mkdir:
  obtains s1 where "fs_mkdir fs_demo (Some ''/a'') = Some (0, s1)" "fs_inv s1" "cwd_node s1 = 0"
    "fs_view (nodes s1) = [[] \<mapsto> Dir, [''a''] \<mapsto> Dir]"
  using fs_mkdir_view [OF fs_demo_facts(1), of "[]" "''a''"] by (auto simp: name_ok_a fs_demo_facts changes_def)

lemma fs_touch_view:
  assumes inv: "fs_inv s" and ok: "\<forall>c \<in> set cs. name_ok c" "name_ok nm"
  shows "\<exists>rc s'. fs_touch s (Some (abs_path (cs @ [nm]))) = Some (rc, s') \<and>
    (if fs_view (nodes s) cs = Some Dir \<and> fs_view (nodes s) (cs @ [nm]) = None \<and> has_slot (nodes s)
     then rc = 0 \<and> changes s s' (cs @ [nm]) (Some (File []))
     else s' = s \<and> rc = (case fs_view (nodes s) (cs @ [nm]) of Some (File _) \<Rightarrow> 0 | _ \<Rightarrow> -1))"
proof (cases "fs_view (nodes s) cs = Some Dir")
  case True
  have t: "fs_tree (nodes s)" using inv by (rule fs_inv_tree)
  from True obtain d where d: "walk (nodes s) 0 cs = Some d" "nd_is_dir (nodes s d)" by (auto simp: view_Dir)
  have use: "in_use (nodes s) d" using walk_bounds [OF t d(1)] by simp
  from add_child_view [OF inv d ok(2), of False, unfolded if_False] obtain idx s'
    where a: "add_child s d nm False = Some (idx, s')" and
      *: "if fs_view (nodes s) (cs @ [nm]) = None \<and> has_slot (nodes s)
          then idx \<ge> 0 \<and> changes s s' (cs @ [nm]) (Some (File [])) else idx = -1 \<and> s' = s" by blast
  show ?thesis
  proof (cases "fs_view (nodes s) (cs @ [nm]) = None \<and> has_slot (nodes s)")
    case yes: True
    with * True d a show ?thesis by (simp add: fs_touch_def split_abs [OF inv ok(2,1)])
  next
    case no: False
    have w: "walk (nodes s) 0 (cs @ [nm]) = child_of (nodes s) d nm" using d by (simp add: walk_snoc)
    have "fs_touch s (Some (abs_path (cs @ [nm]))) =
      Some (case fs_view (nodes s) (cs @ [nm]) of Some (File _) \<Rightarrow> 0 | _ \<Rightarrow> -1, s)"
    proof (cases "child_of (nodes s) d nm")
      case None
      with no * True d a w show ?thesis
        by (simp add: fs_touch_def split_abs [OF inv ok(2,1)] find_child_child_of [OF t use] fs_view_def)
    next
      case (Some j)
      with child_of_Some [OF Some] have "0 \<le> j" using children_pos [of j "nodes s" d] by simp
      with Some no * True d a w show ?thesis
        by (simp add: fs_touch_def split_abs [OF inv ok(2,1)] find_child_child_of [OF t use] fs_view_def obj_of_def)
    qed
    with no show ?thesis by auto
  qed
next
  case False
  have "fs_view (nodes s) (cs @ [nm]) = None"
  proof (rule ccontr)
    assume "fs_view (nodes s) (cs @ [nm]) \<noteq> None"
    then obtain n where "walk (nodes s) 0 (cs @ [nm]) = Some n" by (auto simp: view_None)
    from walk_parent_dir [OF fs_inv_tree [OF inv] this] False show False by (auto simp: view_Dir)
  qed
  with False show ?thesis by (simp add: fs_touch_def split_abs [OF inv ok(2,1)])
qed

section \<open>Writing and reading\<close>

text \<open>The bytes a write of \<open>sz\<close> bytes leaves in the file: \<open>fs_write_file\<close> keeps at most
  \<open>FS_MAX_FILE_SIZE - 1\<close> of them.\<close>

definition stored :: "(nat \<Rightarrow> u8) \<Rightarrow> nat \<Rightarrow> u8 list" where
  "stored d sz = map d [0..<min sz (FS_MAX_FILE_SIZE - 1)]"

lemma fs_store_view:
  assumes inv: "fs_inv s" and n: "walk (nodes s) 0 p = Some n" "\<not> nd_is_dir (nodes s n)"
  shows "\<exists>s'. fs_store s n (Some d) sz = (0, s') \<and> changes s s' p (Some (File (stored d sz)))"
proof -
  let ?k = "min sz (FS_MAX_FILE_SIZE - 1)"
  let ?f = "\<lambda>nd. (\<lambda>i. if i < ?k then d i else nd_data nd i)(?k := 0)"
  let ?s = "upd_node s n (\<lambda>nd. nd\<lparr>nd_data := ?f nd, nd_size := ?k\<rparr>)"
  have "(if sz \<ge> FS_MAX_FILE_SIZE then FS_MAX_FILE_SIZE - 1 else sz) = ?k" by auto
  then have st: "fs_store s n (Some d) sz = (0, ?s)"
    using n(2) unfolding fs_store_def Let_def by simp
  have k: "?k < FS_MAX_FILE_SIZE" by simp
  note t = upd_data_tree [OF fs_inv_tree [OF inv] k, of n ?f]
  have "fs_inv ?s" by (rule fs_inv_keeps [OF inv t]) (simp add: upd_node_def)
  moreover have "same_nodes (nodes s) (nodes ?s)" by (simp add: same_nodes_def upd_node_def)
  from data_view [OF this _ n(1)] have "fs_view (nodes ?s) = (fs_view (nodes s))(p \<mapsto> obj_of (nodes ?s n))"
    by (simp add: upd_node_def)
  moreover have "obj_of (nodes ?s n) = File (stored d sz)"
    using n(2) by (simp add: upd_node_def obj_of_def stored_def)
  ultimately have "changes s ?s p (Some (File (stored d sz)))" by (simp add: changes_def upd_node_def)
  with st show ?thesis by blast
qed

lemma changes_trans:
  "changes s s1 p x \<Longrightarrow> changes s1 s2 p y \<Longrightarrow> changes s s2 p y"
  by (simp add: changes_def)

lemma fs_write_file_view:
  assumes inv: "fs_inv s" and ok: "\<forall>c \<in> set cs. name_ok c" "name_ok nm"
  shows "\<exists>rc s'. fs_write_file s (Some (abs_path (cs @ [nm]))) (Some d) sz = Some (rc, s') \<and>
    (if (case fs_view (nodes s) (cs @ [nm]) of
           Some ob \<Rightarrow> ob \<noteq> Dir | None \<Rightarrow> fs_view (nodes s) cs = Some Dir \<and> has_slot (nodes s))
     then rc = 0 \<and> changes s s' (cs @ [nm]) (Some (File (stored d sz)))
     else rc = -1 \<and> s' = s)"
proof -
  let ?p = "cs @ [nm]"
  have t: "fs_tree (nodes s)" using inv by (rule fs_inv_tree)
  have po: "path_ok ?p" using ok by (simp add: path_ok_def)
  note r = resolve_abs [OF inv po]
  show ?thesis
  proof (cases "walk (nodes s) 0 ?p")
    case (Some n)
    with walk_bounds [OF t Some] r have w: "fs_write_file s (Some (abs_path ?p)) (Some d) sz = Some (fs_store s n (Some d) sz)"
      by (simp add: fs_write_file_def)
    show ?thesis
    proof (cases "nd_is_dir (nodes s n)")
      case True
      with Some have "fs_view (nodes s) ?p = Some Dir" by (simp add: fs_view_def obj_of_def)
      with w True show ?thesis by (simp add: fs_store_def)
    next
      case False
      with Some obtain bs where "fs_view (nodes s) ?p = Some (File bs)" by (simp add: fs_view_def obj_of_def)
      with w fs_store_view [OF inv Some False, of d sz] show ?thesis by auto
    qed
  next
    case None
    then have vn: "fs_view (nodes s) ?p = None" by (simp add: view_None)
    obtain rc s1 where tc: "fs_touch s (Some (abs_path ?p)) = Some (rc, s1)"
      and *: "if fs_view (nodes s) cs = Some Dir \<and> has_slot (nodes s)
        then rc = 0 \<and> changes s s1 ?p (Some (File [])) else s1 = s \<and> rc = -1"
      using fs_touch_view [OF inv ok] unfolding vn option.case simp_thms by blast
    show ?thesis
    proof (cases "fs_view (nodes s) cs = Some Dir \<and> has_slot (nodes s)")
      case True
      with * have c: "rc = 0" "changes s s1 ?p (Some (File []))" by auto
      then have inv1: "fs_inv s1" and "fs_view (nodes s1) ?p = Some (File [])" by (auto simp: changes_def)
      then obtain n where n: "walk (nodes s1) 0 ?p = Some n" "\<not> nd_is_dir (nodes s1 n)"
        by (auto simp: fs_view_def obj_of_def split: if_splits)
      have "fs_write_file s (Some (abs_path ?p)) (Some d) sz = Some (fs_store s1 n (Some d) sz)"
        using r None tc c(1) resolve_abs [OF inv1 po] n(1) walk_bounds [OF fs_inv_tree [OF inv1] n(1)]
        by (simp add: fs_write_file_def)
      with fs_store_view [OF inv1 n, of d sz] changes_trans [OF c(2)] vn True show ?thesis by auto
    next
      case False
      with * r None tc vn show ?thesis by (auto simp: fs_write_file_def)
    qed
  qed
qed

lemma fs_read_file_view:
  assumes inv: "fs_inv s" and po: "path_ok p"
  shows "fs_read_file s (Some (abs_path p)) True cap True =
    Some (case fs_view (nodes s) p of
            Some (File bs) \<Rightarrow> (0, take cap bs, min (length bs) cap)
          | _ \<Rightarrow> (-1, [], 0))"
proof (cases "walk (nodes s) 0 p")
  case None
  then show ?thesis by (simp add: fs_read_file_def resolve_abs [OF assms] fs_view_def)
next
  case (Some n)
  with walk_bounds [OF fs_inv_tree [OF inv] Some] show ?thesis
    by (simp add: fs_read_file_def resolve_abs [OF assms] fs_view_def obj_of_def Let_def take_map min_def)
qed

text \<open>C11: What \<open>fs_write_file\<close> reports as written is what \<open>fs_read_file\<close> then returns, up to the
  8191 bytes a file holds, and every other path keeps its object.\<close>

theorem fs_write_read:
  assumes "fs_inv s" and "path_ok p"
    and "fs_write_file s (Some (abs_path p)) (Some d) sz = Some (0, s')"
  shows "fs_read_file s' (Some (abs_path p)) True FS_MAX_FILE_SIZE True =
      Some (0, stored d sz, min sz (FS_MAX_FILE_SIZE - 1)) \<and> changes s s' p (Some (File (stored d sz)))"
proof -
  from assms(2) obtain cs nm where p: "p = cs @ [nm]" and ok: "\<forall>c \<in> set cs. name_ok c" "name_ok nm"
    by (rule path_ok_snocE)
  from fs_write_file_view [OF assms(1) ok, of d sz] assms(3)
  have c: "changes s s' p (Some (File (stored d sz)))" unfolding p by (auto split: if_splits)
  then have inv: "fs_inv s'" by (simp add: changes_def)
  have v: "fs_view (nodes s') p = Some (File (stored d sz))" using c by (simp add: changes_def)
  from c show ?thesis by (simp add: fs_read_file_view [OF inv assms(2)] v) (simp add: stored_def)
qed

theorem fs_write_read_witness:
  "\<exists>s'. fs_write_file fs_demo (Some ''/a'') (Some (\<lambda>i. of_nat i)) 3 = Some (0, s') \<and>
     fs_read_file s' (Some ''/a'') True FS_MAX_FILE_SIZE True = Some (0, [0, 1, 2], 3)"
proof -
  obtain s' where w: "fs_write_file fs_demo (Some (abs_path [''a''])) (Some (\<lambda>i. of_nat i)) 3 = Some (0, s')"
    using fs_write_file_view [OF fs_demo_facts(1), of "[]" "''a''" "\<lambda>i. of_nat i" 3]
    by (auto simp: name_ok_a fs_demo_facts)
  from fs_write_read [OF fs_demo_facts(1) name_ok_a(3) w] w show ?thesis
    by (simp add: stored_def upt_rec)
qed

section \<open>Status\<close>

lemma fs_stat_view:
  assumes inv: "fs_inv s" and po: "path_ok p"
  shows "fs_stat s (Some (abs_path p)) =
    Some (case fs_view (nodes s) p of None \<Rightarrow> None | Some Dir \<Rightarrow> Some (True, 0) | Some (File bs) \<Rightarrow> Some (False, length bs))"
proof (cases "walk (nodes s) 0 p")
  case None
  then show ?thesis by (simp add: fs_stat_def resolve_abs [OF assms] fs_view_def)
next
  case (Some n)
  with walk_bounds [OF fs_inv_tree [OF inv] Some] show ?thesis
    by (simp add: fs_stat_def resolve_abs [OF assms] fs_view_def obj_of_def)
qed

section \<open>Copying\<close>

lemma fs_cp_view:
  assumes inv: "fs_inv s" and ps: "path_ok ps" and ok: "\<forall>c \<in> set cs. name_ok c" "name_ok nm"
    and src: "fs_view (nodes s) ps = Some (File bs)"
    and rc: "fs_cp s (Some (abs_path ps)) (Some (abs_path (cs @ [nm]))) = Some (0, s')"
  shows "changes s s' (cs @ [nm]) (Some (File bs))"
proof -
  from src obtain n where n: "walk (nodes s) 0 ps = Some n" "\<not> nd_is_dir (nodes s n)"
    and bs: "bs = map (nd_data (nodes s n)) [0..<nd_size (nodes s n)]"
    by (auto simp: fs_view_def obj_of_def split: if_splits)
  note b = walk_bounds [OF fs_inv_tree [OF inv] n(1)]
  have "nd_size (nodes s n) < FS_MAX_FILE_SIZE"
    using fs_treeD(5) [OF fs_inv_tree [OF inv]] b by (simp add: node_ok_def)
  then have st: "stored (nd_data (nodes s n)) (nd_size (nodes s n)) = bs" by (simp add: stored_def bs min_def)
  have "fs_write_file s (Some (abs_path (cs @ [nm]))) (Some (nd_data (nodes s n))) (nd_size (nodes s n)) = Some (0, s')"
    using rc n b by (simp add: fs_cp_def resolve_abs [OF inv ps])
  with fs_write_file_view [OF inv ok, of "nd_data (nodes s n)" "nd_size (nodes s n)"] st show ?thesis
    by (auto split: if_splits)
qed

section \<open>Removing\<close>

lemma children_paths:
  assumes t: "fs_tree ns" and n: "walk ns 0 p = Some n"
  shows "children ns n = {} \<longleftrightarrow> (\<forall>c. fs_view ns (p @ [c]) = None)"
proof
  assume "\<forall>c. fs_view ns (p @ [c]) = None"
  then have "\<forall>c. \<forall>j \<in> children ns n. nd_name (ns j) \<noteq> c" unfolding view_child_None [OF n] .
  then show "children ns n = {}" by blast
qed (simp add: view_child_None [OF n])

lemma first_child_empty:
  assumes t: "fs_tree ns" and n: "in_use ns n"
  shows "nd_first_child (ns n) = -1 \<longleftrightarrow> children ns n = {}"
proof -
  from fs_treeD(6) [OF t n] obtain ks where ks: "sib_chain ns (nd_first_child (ns n)) ks" "set ks = children ns n"
    by (auto simp: kids_ok_def)
  then show ?thesis by (cases ks) auto
qed

lemma fs_rm_view:
  assumes inv: "fs_inv s" and po: "path_ok p"
  shows "\<exists>rc s'. fs_rm s (Some (abs_path p)) = Some (rc, s') \<and>
    (if fs_view (nodes s) p \<noteq> None \<and> (\<forall>c. fs_view (nodes s) (p @ [c]) = None)
     then rc = 0 \<and> fs_view (nodes s') = (fs_view (nodes s))(p := None) \<and> cwd_node s' = cwd_node s \<and>
       (walk (nodes s) 0 p \<noteq> Some (cwd_node s) \<longrightarrow> fs_inv s')
     else rc = -1 \<and> s' = s)"
proof -
  have t: "fs_tree (nodes s)" using inv by (rule fs_inv_tree)
  note r = resolve_abs [OF inv po]
  obtain rc s' where rm: "fs_rm s (Some (abs_path p)) = Some (rc, s')" and rc: "rc = 0 \<or> rc = -1"
    and t': "fs_tree (nodes s')" and cwd: "cwd_node s' = cwd_node s" and fail: "rc = -1 \<longrightarrow> s' = s"
    and succ: "rc = 0 \<longrightarrow> (\<exists>n. resolve_path s (Some (abs_path p)) = Some n \<and> n \<noteq> 0 \<and> in_use (nodes s) n \<and>
       children (nodes s) n = {} \<and>
       (\<forall>j. in_use (nodes s') j \<longleftrightarrow> in_use (nodes s) j \<and> j \<noteq> n) \<and>
       (\<forall>j. j \<noteq> n \<longrightarrow> nd_is_dir (nodes s' j) = nd_is_dir (nodes s j) \<and> nd_parent (nodes s' j) = nd_parent (nodes s j) \<and>
              nd_name (nodes s' j) = nd_name (nodes s j) \<and> nd_size (nodes s' j) = nd_size (nodes s j) \<and>
              nd_data (nodes s' j) = nd_data (nodes s j)))"
    using fs_rm_ends [OF inv, of "Some (abs_path p)"] by blast
  show ?thesis
  proof (cases "fs_view (nodes s) p \<noteq> None \<and> (\<forall>c. fs_view (nodes s) (p @ [c]) = None)")
    case True
    then obtain n where n: "walk (nodes s) 0 p = Some n" by (auto simp: view_None)
    have kids: "children (nodes s) n = {}" using True children_paths [OF t n] by simp
    note use = walk_bounds [OF t n]
    have n0: "n \<noteq> 0" using n po walk_only_root [of "nodes s" p] by (auto simp: path_ok_def)
    obtain ns where "unlink_node_from_parent s n = Some (0, s\<lparr>nodes := ns\<rparr>)"
      using unlink_node_tree [OF t conjunct1 [OF use] n0] by metis
    then have "rc = 0"
      using rm r n use n0 kids first_child_empty [OF t, of n] by (auto simp: fs_rm_def)
    with succ r n have
      *: "\<forall>j. in_use (nodes s') j \<longleftrightarrow> in_use (nodes s) j \<and> j \<noteq> n"
      "\<forall>j. j \<noteq> n \<longrightarrow> nd_is_dir (nodes s' j) = nd_is_dir (nodes s j) \<and> nd_parent (nodes s' j) = nd_parent (nodes s j) \<and>
              nd_name (nodes s' j) = nd_name (nodes s j) \<and> nd_size (nodes s' j) = nd_size (nodes s j) \<and>
              nd_data (nodes s' j) = nd_data (nodes s j)" by auto
    have "fs_view (nodes s') = (fs_view (nodes s))(p := None)"
      by (rule removed_view [OF t t' conjunct1 [OF use] kids n]) (use * in \<open>auto simp: obj_of_def\<close>)
    moreover have "walk (nodes s) 0 p \<noteq> Some (cwd_node s) \<Longrightarrow> fs_inv s'"
      by (rule fs_rm_inv [OF inv rm]) (simp add: r n)
    ultimately show ?thesis using rm \<open>rc = 0\<close> cwd True by auto
  next
    case False
    have "rc = -1"
    proof (rule ccontr)
      assume "rc \<noteq> -1"
      with rc succ r obtain n where n: "in_use (nodes s) n" "children (nodes s) n = {}"
        "(case walk (nodes s) 0 p of None \<Rightarrow> -1 | Some n \<Rightarrow> n) = n" by auto
      then have w: "walk (nodes s) 0 p = Some n" by (auto simp: in_use_def split: option.splits)
      from children_paths [OF t w] n w False show False by (simp add: view_None)
    qed
    with rm fail False show ?thesis by auto
  qed
qed

text \<open>C26: Removing the current directory succeeds and leaves \<open>cwd_node\<close> on a freed node: the invariant
  of the node array is broken.\<close>

theorem fs_rm_cwd_dangles:
  assumes "fs_inv s" and "path_ok p" and "walk (nodes s) 0 p = Some (cwd_node s)"
    and "\<forall>c. fs_view (nodes s) (p @ [c]) = None"
  shows "\<exists>s'. fs_rm s (Some (abs_path p)) = Some (0, s') \<and> \<not> nd_used (nodes s' (cwd_node s')) \<and> \<not> fs_inv s'"
proof -
  from assms(3) have v: "fs_view (nodes s) p \<noteq> None" by (simp add: view_None)
  from fs_rm_view [OF assms(1,2)] v assms(4) obtain s' where rm: "fs_rm s (Some (abs_path p)) = Some (0, s')"
    by auto
  from fs_rm_ends [OF assms(1), of "Some (abs_path p)"] rm resolve_abs [OF assms(1,2)] assms(3)
  have "\<not> in_use (nodes s') (cwd_node s')" by auto
  moreover have "in_use (nodes s) (cwd_node s)" using walk_bounds [OF fs_inv_tree assms(3)] assms(1) by simp
  moreover have "cwd_node s' = cwd_node s" using fs_rm_ends [OF assms(1), of "Some (abs_path p)"] rm by auto
  ultimately show ?thesis using rm by (auto simp: in_use_def fs_inv_def cwd_ok_def)
qed

theorem fs_rm_cwd_dangles_witness:
  "\<exists>s1 s2 s3. fs_mkdir fs_demo (Some ''/a'') = Some (0, s1) \<and> fs_cd s1 (Some ''/a'') = Some (0, s2) \<and>
     fs_rm s2 (Some ''/a'') = Some (0, s3) \<and> \<not> nd_used (nodes s3 (cwd_node s3))"
proof -
  obtain s1 where s1: "fs_mkdir fs_demo (Some ''/a'') = Some (0, s1)" "fs_inv s1"
    and v: "fs_view (nodes s1) = [[] \<mapsto> Dir, [''a''] \<mapsto> Dir]" by (rule fs_demo_mkdir)
  from v have "fs_view (nodes s1) [''a''] = Some Dir" by simp
  then obtain n where n: "walk (nodes s1) 0 [''a''] = Some n" "nd_is_dir (nodes s1 n)" unfolding view_Dir by blast
  let ?s2 = "s1\<lparr>cwd_node := n\<rparr>"
  have cd: "fs_cd s1 (Some ''/a'') = Some (0, ?s2)"
    using resolve_abs [OF s1(2) name_ok_a(3)] n walk_bounds [OF fs_inv_tree [OF s1(2)] n(1)]
    by (simp add: fs_cd_def)
  have inv: "fs_inv ?s2" using fs_cd_good [OF s1(2), of "Some ''/a''"] cd by (auto simp: good_def)
  have "walk (nodes ?s2) 0 [''a''] = Some (cwd_node ?s2)" using n by simp
  from fs_rm_cwd_dangles [OF inv name_ok_a(3) this] v s1(1) cd show ?thesis by auto
qed

section \<open>Removing, as promised\<close>

text \<open>C15: \<open>fs_rm\<close> removes exactly the named file or empty directory; it refuses a directory with entries
  and a missing path, changing nothing. The tree stays consistent unless the path is the current
  directory.\<close>

theorem fs_rm_spec:
  assumes "fs_inv s" and "path_ok p"
  shows "\<exists>rc s'. fs_rm s (Some (abs_path p)) = Some (rc, s') \<and>
    (if fs_view (nodes s) p \<noteq> None \<and> (\<forall>c. fs_view (nodes s) (p @ [c]) = None)
     then rc = 0 \<and> fs_view (nodes s') = (fs_view (nodes s))(p := None) \<and> cwd_node s' = cwd_node s \<and>
       (walk (nodes s) 0 p \<noteq> Some (cwd_node s) \<longrightarrow> fs_inv s')
     else rc = -1 \<and> s' = s)"
  using assms by (rule fs_rm_view)

theorem fs_rm_spec_witness:
  "\<exists>s1 s2. fs_mkdir fs_demo (Some ''/a'') = Some (0, s1) \<and> fs_rm s1 (Some ''/a'') = Some (0, s2) \<and>
     fs_view (nodes s2) = [[] \<mapsto> Dir]"
proof -
  obtain s1 where s1: "fs_mkdir fs_demo (Some ''/a'') = Some (0, s1)" "fs_inv s1"
    and v: "fs_view (nodes s1) = [[] \<mapsto> Dir, [''a''] \<mapsto> Dir]" by (rule fs_demo_mkdir)
  from fs_rm_spec [OF s1(2) name_ok_a(3)] v s1(1) show ?thesis by auto
qed

end
