(* ===== verification/Basic_Props.thy ===== *)
theory Basic_Props
  imports Basic_Total Fs_Calls
begin

text \<open>What a run of the BASIC interpreter guarantees, and where it does not do what it means to.\<close>

section \<open>Evaluation\<close>

text \<open>C18: Evaluating an expression changes nothing but the state of the random number generator: the variables
  (those a user function uses for its argument included), the stacks, the files and the terminal are as before;
  and what is left of the text is no longer than the text.\<close>

theorem evaluation_is_pure:
  assumes "b_parse_expr d s st = (r, st')"
  shows "st' = st\<lparr>rand_state := rand_state st'\<rparr> \<and> (\<forall>v s'. r = Val v s' \<longrightarrow> length s' \<le> length s)"
proof -
  have "res_ok False (\<lambda>_. True) (length s) st (b_parse_expr d s st)"
    by (rule eval_okD [OF expr_ok]) auto
  then show ?thesis using assms by (auto simp: res_ok_def same_but_rand_def)
qed

section \<open>Runs\<close>

text \<open>The states a run passes through.\<close>

inductive basic_reach :: "nat \<Rightarrow> basic_line list \<Rightarrow> bst \<Rightarrow> bst \<Rightarrow> bool" where
  start: "basic_reach d ls st (start_run st)"
| step: "basic_reach d ls st st1 \<Longrightarrow> pc st1 < length ls \<Longrightarrow> basic_step d ls st1 = Next st2 \<Longrightarrow> basic_reach d ls st st2"

lemma room_exists: "\<exists>L. room False L d ls"
proof (intro exI)
  have "length (line_text l) \<le> (\<Sum>l\<leftarrow>ls. length (line_text l))" if "l \<in> set ls" for l
    using that by (intro member_le_sum_list) auto
  then show "room False (95 + (\<Sum>l\<leftarrow>ls. length (line_text l))) d ls" by (fastforce simp: room_def)
qed

lemma basic_reach_inv: "basic_reach d ls st st' \<Longrightarrow> basic_ready st \<Longrightarrow> b_inv False (length ls) st'"
proof (induction rule: basic_reach.induct)
  case (start d ls st)
  then show ?case by (rule start_run_inv)
next
  case (step d ls st st1 st2)
  obtain L where "room False L d ls" using room_exists by blast
  from basic_step_ok [OF this] step show ?case by fastforce
qed


definition b_demo :: bst where
  "b_demo = \<lparr>vars = \<lambda>_. 0, str_vars = \<lambda>_. [], arrays = \<lambda>_ _. 0, array_sizes = \<lambda>_. 0, rand_state = 0x12345678, def_fns = [],
     b_files = replicate 4 \<lparr>fc_active = False, fc_mode = 0, fc_path = [], fc_buf = [], fc_pos = 0\<rparr>, call_stack = [], for_stack = [],
     while_stack = [], data_line = 0, data_offset = 0, pc = 0, term_out = [], term_in = [], bfs = fs_demo\<rparr>"

lemma b_demo_ready: "basic_ready b_demo"
  by (simp add: basic_ready_def b_demo_def chan_ok_def fs_demo_facts)

lemma demo_lines: "program_lines 256 ''10 GOSUB 10'' = [\<lparr>label = 10, line_text = ''10 GOSUB 10''\<rparr>]"
  by code_simp

lemma demo_text: "b_statement_start ''10 GOSUB 10'' = ''GOSUB 10''" "b_parse_int '' 10'' = Some (10, [])"
  by code_simp+

lemmas scan_defs = b_starts_with_ci.simps b_name_matches_ci.simps b_skip_spaces_def b_is_space_def b_is_alpha_def b_is_digit_def
  b_is_ident_tail_def b_up_def cur_def nxt_def code_def

lemma demo_step:
  "pc st = 0 \<Longrightarrow> basic_step 9 [\<lparr>label = 10, line_text = ''10 GOSUB 10''\<rparr>] st = push_call ''GOSUB stack overflow'' 0 st"
  by (simp add: basic_step_def demo_text basic_statement_def scan_defs stmt_gosub_def get_or_def b_find_label_def)

lemma paren_6: "b_parse_builtin_paren_expr (b_parse_expr (Suc (Suc n))) ''(6)'' st = (Val 6 [], st)"
proof -
  have "b_parse_expr (Suc (Suc n)) ''6)'' st = (Val 6 '')'', st)"
    by (simp add: b_parse_expr_step_def b_parse_term_def b_parse_factor_step_def sign_loop.simps factor_value_def call_of_def scan_defs
      b_parse_value_def b_parse_int_def digit_val_def andthen_def term_loop.simps expr_loop.simps expr_op_def)
  then show ?thesis by (simp add: b_parse_builtin_paren_expr_def expecting_def expect_def scan_defs andthen_def del: b_parse_expr.simps)
qed

lemma rnd_6:
  assumes "rand_state st = 1"
  shows "b_parse_expr 4 ''RND(6)'' st = (Val 0 [], st\<lparr>rand_state := 1015568748\<rparr>)"
proof -
  have n: "4 = Suc 3" "3 = Suc (Suc (Suc 0))" by simp_all
  have f: "b_parse_factor 3 ''RND(6)'' st = (Val 0 [], st\<lparr>rand_state := 1015568748\<rparr>)"
    unfolding n using assms
    by (simp add: paren_6 b_parse_factor_step_def sign_loop.simps factor_value_def call_of_def scan_defs b_rnd_def word_sle_eq andthen_def Let_def
        del: b_parse_expr.simps)
  show ?thesis
    unfolding n(1) b_parse_expr.simps(2) b_parse_expr_step_def b_parse_term_def f
    by (simp add: andthen_def term_loop.simps expr_loop.simps expr_op_def scan_defs)
qed

theorem evaluation_is_pure_witness:
  "b_parse_expr 4 ''RND(6)'' (b_demo\<lparr>rand_state := 1\<rparr>) = (Val 0 [], b_demo\<lparr>rand_state := 1015568748\<rparr>)
   \<and> snd (b_parse_expr 4 ''RND(6)'' (b_demo\<lparr>rand_state := 1\<rparr>)) =
       b_demo\<lparr>rand_state := rand_state (snd (b_parse_expr 4 ''RND(6)'' (b_demo\<lparr>rand_state := 1\<rparr>)))\<rparr>"
  using rnd_6 [of "b_demo\<lparr>rand_state := 1\<rparr>"] evaluation_is_pure [OF rnd_6 [of "b_demo\<lparr>rand_state := 1\<rparr>"]] by simp

lemma demo_reach:
  "basic_reach 9 (program_lines 256 ''10 GOSUB 10'') b_demo ((start_run b_demo)\<lparr>call_stack := [1], pc := 0\<rparr>)"
proof (rule basic_reach.step [OF basic_reach.start])
  show "basic_step 9 (program_lines 256 ''10 GOSUB 10'') (start_run b_demo) = Next ((start_run b_demo)\<lparr>call_stack := [1], pc := 0\<rparr>)"
    by (simp add: demo_lines demo_step start_run_def reset_run_def push_call_def need_def)
qed (simp add: demo_lines start_run_def reset_run_def)




section \<open>Functions that call themselves\<close>

text \<open>\<open>DEF FNA(X)=FNA(X)\<close>.\<close>

definition fn_loop :: def_fn where
  "fn_loop = \<lparr>fn_letter = 0, param_var = 23, fn_body = ''FNA(X)''\<rparr>"

lemma deep_andthen: "fst m = Deep \<Longrightarrow> fst (andthen m k) = Deep"
  by (cases m) (auto simp: andthen_def)

lemma expr_small: "fst (b_parse_expr 0 s st) = Deep" "fst (b_parse_expr (Suc 0) s st) = Deep"
  by (simp_all add: b_parse_expr_step_def b_parse_term_def andthen_def)

lemma expr_deep: "fst (b_parse_factor n s st) = Deep \<Longrightarrow> fst (b_parse_expr (Suc n) s st) = Deep"
  by (simp add: b_parse_expr_step_def b_parse_term_def deep_andthen)

lemma arg_X: "b_parse_expr (Suc (Suc n)) ''X)'' st = (Val (vars st 23) '')'', st)"
  by (simp add: b_parse_expr_step_def b_parse_term_def b_parse_factor_step_def sign_loop.simps factor_value_def call_of_def scan_defs
      b_parse_value_def b_parse_var_ref_def name_tail_def var_index_def andthen_def term_loop.simps expr_loop.simps expr_op_def)

lemma arg_1: "b_parse_expr (Suc (Suc n)) ''1)'' st = (Val 1 '')'', st)"
  by (simp add: b_parse_expr_step_def b_parse_term_def b_parse_factor_step_def sign_loop.simps factor_value_def call_of_def scan_defs
      b_parse_value_def b_parse_int_def digit_val_def andthen_def term_loop.simps expr_loop.simps expr_op_def)

lemma factor_call:
  "def_fns st = [fn_loop] \<Longrightarrow> b_parse_factor (Suc n) (''FNA('' @ c # '')'') st =
     andthen (andthen (b_parse_builtin_paren_expr (b_parse_expr n) (''('' @ c # '')'') st) (\<lambda>arg. call_fn (b_parse_expr n) fn_loop arg))
       (\<lambda>v s st. (Val (v * 1) s, st))"
  by (simp add: b_parse_factor_step_def sign_loop.simps factor_value_def call_of_def scan_defs lookup_fn_def var_index_def fn_loop_def)

lemma call_deep:
  assumes "fst (b_parse_expr n (c # '')'') st) = Deep \<or> (\<exists>v. b_parse_expr n (c # '')'') st = (Val v '')'', st))"
    and "\<And>st'. def_fns st' = def_fns st \<Longrightarrow> fst (b_parse_expr n ''FNA(X)'' st') = Deep" and "def_fns st = [fn_loop]"
  shows "fst (b_parse_expr (Suc (Suc n)) (''FNA('' @ c # '')'') st) = Deep"
proof -
  let ?c = "\<lambda>arg. call_fn (b_parse_expr n) fn_loop arg"
  have call: "fst (?c v s st) = Deep" for v s
    using assms(2) [of "st\<lparr>vars := (vars st)(23 := v)\<rparr>"]
    by (cases "b_parse_expr n ''FNA(X)'' (st\<lparr>vars := (vars st)(23 := v)\<rparr>)") (simp add: call_fn_def fn_loop_def Let_def)
  have p: "b_parse_builtin_paren_expr (b_parse_expr n) (''('' @ c # '')'') st =
      andthen (b_parse_expr n (c # '')'') st) (\<lambda>v. expecting CHR '')'' (\<lambda>s st. (Val v s, st)))"
    by (simp add: b_parse_builtin_paren_expr_def expecting_def expect_def scan_defs)
  have "fst (andthen (b_parse_builtin_paren_expr (b_parse_expr n) (''('' @ c # '')'') st) ?c) = Deep"
    unfolding p using assms(1)
  proof
    assume "fst (b_parse_expr n (c # '')'') st) = Deep"
    then show "fst (andthen (andthen (b_parse_expr n (c # '')'') st) (\<lambda>v. expecting CHR '')'' (\<lambda>s st. (Val v s, st)))) ?c) = Deep"
      by (intro deep_andthen)
  next
    assume "\<exists>v. b_parse_expr n (c # '')'') st = (Val v '')'', st)"
    then show "fst (andthen (andthen (b_parse_expr n (c # '')'') st) (\<lambda>v. expecting CHR '')'' (\<lambda>s st. (Val v s, st)))) ?c) = Deep"
      using call by (auto simp: andthen_def expecting_def expect_def scan_defs)
  qed
  then show ?thesis by (intro expr_deep) (simp add: factor_call [OF assms(3), simplified] deep_andthen)
qed

lemma fn_loop_deep: "def_fns st = [fn_loop] \<Longrightarrow> fst (b_parse_expr n ''FNA(X)'' st) = Deep"
proof (induction n arbitrary: st rule: less_induct)
  case (less n)
  show ?case
  proof (cases "n < 2")
    case True
    then show ?thesis using expr_small by (cases n) auto
  next
    case False
    then obtain k where n: "n = Suc (Suc k)" by (metis add_2_eq_Suc le_Suc_ex not_less)
    have "fst (b_parse_expr k ''X)'' st) = Deep \<or> (\<exists>v. b_parse_expr k ''X)'' st = (Val v '')'', st))"
      using expr_small arg_X by (cases k; cases "k - 1") auto
    then show ?thesis using call_deep [of k "CHR ''X''" st] less n by simp
  qed
qed

lemma fn_loop_call_deep: "def_fns st = [fn_loop] \<Longrightarrow> fst (b_parse_expr n ''FNA(1)'' st) = Deep"
proof (cases "n < 2")
  case True
  then show ?thesis using expr_small by (cases n) auto
next
  case False
  assume d: "def_fns st = [fn_loop]"
  obtain k where n: "n = Suc (Suc k)" using False by (metis add_2_eq_Suc le_Suc_ex not_less)
  have "fst (b_parse_expr k ''1)'' st) = Deep \<or> (\<exists>v. b_parse_expr k ''1)'' st = (Val v '')'', st))"
    using expr_small arg_1 by (cases k; cases "k - 1") auto
  then show ?thesis using call_deep [of k "CHR ''1''" st] fn_loop_deep d n by simp
qed

text \<open>A program of two lines, a newline between them.\<close>

definition loop_program :: string where
  "loop_program = ''DEF FNA(X)=FNA(X)'' @ CHR 0x0A # ''A=FNA(1)''"

lemma loop_lines:
  "program_lines 256 loop_program = [\<lparr>label = -1, line_text = ''DEF FNA(X)=FNA(X)''\<rparr>, \<lparr>label = -1, line_text = ''A=FNA(1)''\<rparr>]"
  by code_simp

lemma loop_texts: "b_statement_start ''DEF FNA(X)=FNA(X)'' = ''DEF FNA(X)=FNA(X)''" "b_statement_start ''A=FNA(1)'' = ''A=FNA(1)''"
  by code_simp+

lemma loop_first:
  "pc st = 0 \<Longrightarrow> def_fns st = [] \<Longrightarrow> basic_step d (program_lines 256 loop_program) st = Next (st\<lparr>def_fns := [fn_loop], pc := 1\<rparr>)"
  by (simp add: basic_step_def loop_lines loop_texts basic_statement_def scan_defs stmt_def_def parse_def_def need_def get_or_def expect_def
      lookup_fn_def next_line_def fn_loop_def var_index_def)

lemma loop_second:
  assumes "pc st = 1" and "def_fns st = [fn_loop]"
  shows "\<exists>st'. basic_step d (program_lines 256 loop_program) st = NoReturn st'"
proof -
  have "basic_step d (program_lines 256 loop_program) st = eval_or ''assignment value error'' (b_parse_expr d ''FNA(1)'' st) (\<lambda>v s st. next_line (set_var 0 v st))"
    using assms(1)
    by (simp add: basic_step_def loop_lines loop_texts basic_statement_def scan_defs stmt_assign_def b_parse_var_ref_def name_tail_def
        array_index_def assign_value_def var_index_def)
  then show ?thesis using fn_loop_call_deep [OF assms(2), of d]
    by (cases "b_parse_expr d ''FNA(1)'' st") (auto simp: eval_or_def)
qed


section \<open>Files that cannot be used\<close>

lemma starts_first: "b_starts_with_ci s (p # ps) \<Longrightarrow> b_up (cur s) = b_up p"
  by (simp add: b_starts_with_ci.simps split: if_splits)

lemma starts_second: "b_starts_with_ci s (p # q # ps) \<Longrightarrow> b_up (cur (tl s)) = b_up q"
  by (simp add: b_starts_with_ci.simps split: if_splits)

lemma hash_value:
  assumes "cur s = CHR ''#''"
  shows "b_parse_string_expr (Suc n) s st = (Fail, st)" and "b_parse_expr (Suc (Suc n)) s st = (Fail, st)" and "b_parse_var_ref s = None"
proof -
  obtain t where s: "s = CHR ''#'' # t" using assms by (cases s) (auto simp: cur_def)
  show "b_parse_string_expr (Suc n) s st = (Fail, st)"
    by (simp add: s b_parse_string_expr_step_def string_loop.simps string_part_def scan_defs andthen_def)
  show "b_parse_expr (Suc (Suc n)) s st = (Fail, st)"
    by (simp add: s b_parse_expr_step_def b_parse_term_def b_parse_factor_step_def sign_loop.simps factor_value_def call_of_def scan_defs
        b_parse_value_def b_parse_int_def andthen_def)
  show "b_parse_var_ref s = None" by (simp add: s b_parse_var_ref_def scan_defs)
qed

text \<open>C21: The statements \<open>PRINT #\<close> and \<open>INPUT #\<close> never do what they are for: PRINT and INPUT catch them, and every
  one of them ends the run with an error, whatever file is open.\<close>

theorem hash_statements_fail:
  assumes "cur (b_skip_spaces (drop 5 s)) = CHR ''#''" and "2 \<le> d"
  shows "(b_starts_with_ci s ''PRINT'' \<longrightarrow> basic_statement d ls s st = RtErr ''PRINT parse error'' st)
    \<and> (b_starts_with_ci s ''INPUT'' \<longrightarrow> basic_statement d ls s st = RtErr ''INPUT var error'' st)"
proof (intro conjI impI)
  let ?t = "b_skip_spaces (drop 5 s)"
  obtain n where d: "d = Suc (Suc n)" using assms(2) by (metis add_2_eq_Suc le_Suc_ex)
  have idem: "b_skip_spaces ?t = ?t" by (simp add: b_skip_spaces_def)
  have t: "?t \<noteq> []" using assms(1) by (auto simp: cur_def)
  then have ne: "?t \<noteq> []" "s \<noteq> []" by (auto simp: b_skip_spaces_def)
  have fails: "b_parse_string_expr d ?t st = (Fail, st)" "b_parse_expr d ?t st = (Fail, st)"
    unfolding d by (rule hash_value [OF assms(1)])+
  have calls: "\<not> call_of ''TAB'' ?t" "\<not> call_of ''SPC'' ?t" using assms(1) by (simp_all add: call_of_def scan_defs)
  {
    assume p: "b_starts_with_ci s ''PRINT''"
    have "stmt_print d (drop 5 s) st = RtErr ''PRINT parse error'' st"
      unfolding stmt_print_def Let_def using ne(1)
      by (subst print_items.simps) (simp add: idem print_item_def calls fails eval_or_def)
    moreover have "\<not> b_starts_with_ci s w" if "w \<in> {''REM'', ''END'', ''STOP'', ''CLS'', ''CLEAR'', ''LIST'', ''RUN''}" for w
      using starts_first [OF p] that by (auto simp: b_starts_with_ci.simps b_up_def code_def)
    moreover have "cur s \<noteq> CHR ''#''" using starts_first [OF p] by (auto simp: b_up_def code_def)
    ultimately show "basic_statement d ls s st = RtErr ''PRINT parse error'' st" using p ne(2) by (simp add: basic_statement_def)
  next
    assume p: "b_starts_with_ci s ''INPUT''"
    have "stmt_input d (drop 5 s) st = RtErr ''INPUT var error'' st"
      using assms(1) by (simp add: stmt_input_def get_or_def hash_value)
    moreover have "\<not> b_starts_with_ci s w"
      if "w \<in> {''REM'', ''END'', ''STOP'', ''CLS'', ''CLEAR'', ''LIST'', ''RUN'', ''PRINT'', ''DATA'', ''READ'', ''RESTORE'', ''DIM'', ''LET''}" for w
      using starts_first [OF p] that by (auto simp: b_starts_with_ci.simps b_up_def code_def)
    moreover have "cur s \<noteq> CHR ''#''" using starts_first [OF p] by (auto simp: b_up_def code_def)
    ultimately show "basic_statement d ls s st = RtErr ''INPUT var error'' st" using p ne(2) by (simp add: basic_statement_def)
  }
qed

theorem hash_statements_fail_witness:
  "basic_statement 2 [] ''PRINT #1, A'' b_demo = RtErr ''PRINT parse error'' b_demo"
  using hash_statements_fail [of "''PRINT #1, A''" 2 "[]" b_demo] by (simp add: scan_defs)

section \<open>Numbers and texts\<close>

definition all_digits :: "string \<Rightarrow> bool" where
  "all_digits s = (\<forall>c\<in>set s. b_is_digit c)"

lemma digits_value_append:
  "all_digits xs \<Longrightarrow> b_is_digit c \<Longrightarrow> digits_value (xs @ [c]) v = (fst (digits_value xs v) * 10 + digit_val c, [])"
  by (induction xs arbitrary: v) (simp_all add: all_digits_def)

lemma digit_char_val:
  assumes "k < 10"
  shows "b_is_digit (char_of (48 + k :: nat))" and "digit_val (char_of (48 + k :: nat)) = of_nat k"
  using assms by (simp_all add: b_is_digit_def digit_val_def code_def)

lemma rev_digits_value:
  "unat n < 10 ^ k \<Longrightarrow> all_digits (rev_digits k n) \<and> fst (digits_value (rev (rev_digits k n)) 0) = n"
proof (induction k n rule: rev_digits.induct)
  case (1 uv)
  then show ?case by (simp add: all_digits_def unat_eq_0)
next
  case (2 k uv)
  show ?case
  proof (cases "uv > 0")
    case True
    have "unat (uv div 10) < 10 ^ k" using "2.prems" by (simp add: unat_div less_mult_imp_div_less mult.commute)
    with 2(1) True have ih: "all_digits (rev_digits k (uv div 10))" "fst (digits_value (rev (rev_digits k (uv div 10))) 0) = uv div 10" by auto
    have m: "unat (uv mod 10) < 10" by (simp add: unat_mod)
    have r: "all_digits (rev (rev_digits k (uv div 10)))" using ih(1) by (simp add: all_digits_def)
    have "uv div 10 * 10 + uv mod 10 = uv" by (rule word_mod_div_equality)
    then show ?thesis using True ih digit_char_val [OF m] digits_value_append [OF r digit_char_val(1) [OF m]]
      by (simp add: all_digits_def)
  next
    case False
    then have "uv = 0" by (simp add: word_neq_0_conv [symmetric])
    then show ?thesis by (simp add: all_digits_def)
  qed
qed

lemma rev_digits_nonempty: "n > 0 \<Longrightarrow> rev_digits (Suc k) n \<noteq> []"
  by simp

lemma digits_last: "all_digits xs \<Longrightarrow> xs \<noteq> [] \<Longrightarrow> b_is_digit (cur xs) \<and> \<not> b_is_space (cur xs) \<and> cur xs \<noteq> CHR ''-''"
  by (cases xs) (auto simp: all_digits_def cur_def b_is_digit_def b_is_space_def code_def)

lemma rev_digits_enough: "unat n < 10 ^ k \<Longrightarrow> rev_digits (Suc k) n = rev_digits k n"
proof (induction k n rule: rev_digits.induct)
  case (1 uv)
  then show ?case by (simp add: unat_eq_0)
next
  case (2 k uv)
  have "unat (uv div 10) < 10 ^ k" using "2.prems" by (simp add: unat_div less_mult_imp_div_less mult.commute)
  with 2(1) show ?case by (cases "uv > 0") (simp_all del: rev_digits.simps add: rev_digits.simps(2) [of "Suc k"] rev_digits.simps(2) [of k])
qed

lemma number_text:
  fixes u :: u32
  assumes "u > 0"
  shows "rev_digits 15 u = rev_digits 16 u" and "b_parse_int_from_text (rev (rev_digits 16 u)) = Some u"
    and "b_parse_int_from_text (CHR ''-'' # rev (rev_digits 16 u)) = Some (- u)"
proof -
  have "unat u < 2 ^ 32" using unsigned_less [of u] by simp
  then have lt: "unat u < 10 ^ 15" "unat u < 10 ^ 16" by simp_all
  show "rev_digits 15 u = rev_digits 16 u" using rev_digits_enough [OF lt(1)] by simp
  let ?r = "rev (rev_digits 16 u)"
  have v: "all_digits ?r" "fst (digits_value ?r 0) = u" using rev_digits_value [OF lt(2)] by (simp_all add: all_digits_def)
  have "?r \<noteq> []" using rev_digits_nonempty [OF assms, of 15] by simp
  then have h: "b_is_digit (cur ?r)" "\<not> b_is_space (cur ?r)" "cur ?r \<noteq> CHR ''-''" using digits_last [OF v(1)] by auto
  then have s: "b_skip_spaces ?r = ?r" by (cases ?r) (simp_all add: b_skip_spaces_def cur_def)
  show "b_parse_int_from_text ?r = Some u" using h v by (simp add: b_parse_int_from_text_def s Let_def)
  have s2: "b_skip_spaces (CHR ''-'' # ?r) = CHR ''-'' # ?r" "cur (CHR ''-'' # ?r) = CHR ''-''"
    by (simp_all add: b_skip_spaces_def cur_def b_is_space_def)
  show "b_parse_int_from_text (CHR ''-'' # ?r) = Some (- u)" using h v by (simp add: b_parse_int_from_text_def s2 Let_def)
qed

text \<open>C19: A number turned to text by STR\$ reads back as the same number by VAL, the smallest number included; and
  PRINT writes that text.\<close>

theorem int_text_roundtrip:
  "b_parse_int_from_text (b_int_to_text v BASIC_MAX_STRING_LEN) = Some v \<and> b_print_int v = b_int_to_text v BASIC_MAX_STRING_LEN"
proof (cases "v = 0")
  case True
  have "b_parse_int_from_text ''0'' = Some 0" by code_simp
  with True show ?thesis by (simp add: b_int_to_text_def b_print_int_def)
next
  case False
  define u where "u = (if v <s 0 then - v else v)"
  have u: "u > 0" using False by (simp add: u_def word_neq_0_conv [symmetric])
  let ?t = "(if v <s 0 then ''-'' else []) @ rev (rev_digits 16 u)"
  have "length ?t \<le> 95" using rev_digits_length [of 16 u] by simp
  then have t: "b_int_to_text v BASIC_MAX_STRING_LEN = ?t" "b_print_int v = ?t"
    using False number_text(1) [OF u] by (simp_all add: b_int_to_text_def b_print_int_def u_def)
  show ?thesis using number_text(2,3) [OF u] by (cases "v <s 0") (simp_all add: t u_def)
qed

end
