(* ===== verification/Basic_Grammar.thy ===== *)
theory Basic_Grammar
  imports Basic_Props
begin

text \<open>
  The expressions of the language as trees: their text, their value by the usual rules (products before sums, both
  from left to right, arithmetic on words), and that the interpreter computes that value from that text.
\<close>

section \<open>Expressions, their text and their value\<close>

datatype mulop = Times | Divide | Modulo

datatype prim = Num u32 | Var nat | Neg prim | Paren bexp
and fac = Prim prim | Not fac
and trm = One fac | Mul trm mulop fac
and bexp = Single trm | Bin bexp binop trm

fun mul_text :: "mulop \<Rightarrow> string" where
  "mul_text Times = ''*''" | "mul_text Divide = ''/''" | "mul_text Modulo = ''%''"

fun bin_text :: "binop \<Rightarrow> string" where
  "bin_text Op_Add = ''+''" | "bin_text Op_Sub = ''-''" | "bin_text Op_And = '' AND ''" | "bin_text Op_Or = '' OR ''"
| "bin_text Op_Xor = '' XOR ''"

fun prim_text :: "prim \<Rightarrow> string" and fac_text :: "fac \<Rightarrow> string" and trm_text :: "trm \<Rightarrow> string" and exp_text :: "bexp \<Rightarrow> string" where
  "prim_text (Num u) = b_print_uint u"
| "prim_text (Var i) = [char_of (65 + i)]"
| "prim_text (Neg p) = ''-'' @ prim_text p"
| "prim_text (Paren e) = ''('' @ exp_text e @ '')''"
| "fac_text (Prim p) = prim_text p"
| "fac_text (Not f) = ''NOT '' @ fac_text f"
| "trm_text (One f) = fac_text f"
| "trm_text (Mul t m f) = trm_text t @ mul_text m @ fac_text f"
| "exp_text (Single t) = trm_text t"
| "exp_text (Bin e b t) = exp_text e @ bin_text b @ trm_text t"

text \<open>The variables are A to Z.\<close>

fun wf_prim :: "prim \<Rightarrow> bool" and wf_fac :: "fac \<Rightarrow> bool" and wf_trm :: "trm \<Rightarrow> bool" and wf_exp :: "bexp \<Rightarrow> bool" where
  "wf_prim (Num u) = True"
| "wf_prim (Var i) = (i < 26)"
| "wf_prim (Neg p) = wf_prim p"
| "wf_prim (Paren e) = wf_exp e"
| "wf_fac (Prim p) = wf_prim p"
| "wf_fac (Not f) = wf_fac f"
| "wf_trm (One f) = wf_fac f"
| "wf_trm (Mul t m f) = (wf_trm t \<and> wf_fac f)"
| "wf_exp (Single t) = wf_trm t"
| "wf_exp (Bin e b t) = (wf_exp e \<and> wf_trm t)"

datatype outcome = Ok i32 | Div_Zero | Div_Trap

fun bind_out :: "outcome \<Rightarrow> (i32 \<Rightarrow> outcome) \<Rightarrow> outcome" where
  "bind_out (Ok v) k = k v" | "bind_out Div_Zero k = Div_Zero" | "bind_out Div_Trap k = Div_Trap"

text \<open>The quotient is the integer one, towards zero; one that does not fit into 32 bits traps.\<close>

definition quotient_fits :: "i32 \<Rightarrow> i32 \<Rightarrow> bool" where
  "quotient_fits a b = (sint a sdiv sint b < 2 ^ 31)"

fun mul_value :: "mulop \<Rightarrow> i32 \<Rightarrow> i32 \<Rightarrow> outcome" where
  "mul_value Times a b = Ok (a * b)"
| "mul_value Divide a b = (if b = 0 then Div_Zero else if quotient_fits a b then Ok (word_of_int (sint a sdiv sint b)) else Div_Trap)"
| "mul_value Modulo a b = (if b = 0 then Div_Zero else if quotient_fits a b then Ok (word_of_int (sint a smod sint b)) else Div_Trap)"

fun bin_value :: "binop \<Rightarrow> i32 \<Rightarrow> i32 \<Rightarrow> i32" where
  "bin_value Op_Add a b = a + b"
| "bin_value Op_Sub a b = a - b"
| "bin_value Op_And a b = (a AND b)"
| "bin_value Op_Or a b = (a OR b)"
| "bin_value Op_Xor a b = (a XOR b)"

fun prim_value :: "(nat \<Rightarrow> i32) \<Rightarrow> prim \<Rightarrow> outcome" and fac_value :: "(nat \<Rightarrow> i32) \<Rightarrow> fac \<Rightarrow> outcome"
  and trm_value :: "(nat \<Rightarrow> i32) \<Rightarrow> trm \<Rightarrow> outcome" and exp_value :: "(nat \<Rightarrow> i32) \<Rightarrow> bexp \<Rightarrow> outcome" where
  "prim_value r (Num u) = Ok u"
| "prim_value r (Var i) = Ok (r i)"
| "prim_value r (Neg p) = bind_out (prim_value r p) (\<lambda>v. Ok (- v))"
| "prim_value r (Paren e) = exp_value r e"
| "fac_value r (Prim p) = prim_value r p"
| "fac_value r (Not f) = bind_out (fac_value r f) (\<lambda>v. Ok (NOT v))"
| "trm_value r (One f) = fac_value r f"
| "trm_value r (Mul t m f) = bind_out (trm_value r t) (\<lambda>a. bind_out (fac_value r f) (mul_value m a))"
| "exp_value r (Single t) = trm_value r t"
| "exp_value r (Bin e b t) = bind_out (exp_value r e) (\<lambda>a. bind_out (trm_value r t) (\<lambda>v. Ok (bin_value b a v)))"

fun to_res :: "outcome \<Rightarrow> string \<Rightarrow> bst \<Rightarrow> i32 res \<times> bst" where
  "to_res (Ok v) s st = (Val v s, st)" | "to_res Div_Zero s st = (Fail, st)" | "to_res Div_Trap s st = (Trap, st)"

lemma andthen_to_res: "andthen (to_res x s st) k = (case x of Ok v \<Rightarrow> k v s st | Div_Zero \<Rightarrow> (Fail, st) | Div_Trap \<Rightarrow> (Trap, st))"
  by (cases x) (simp_all add: andthen_def)

section \<open>The text around a factor\<close>

text \<open>What may follow a factor.\<close>

definition stops :: "string \<Rightarrow> bool" where
  "stops s = (\<not> b_is_ident_tail (cur s) \<and> cur s \<noteq> CHR ''$'' \<and> cur (b_skip_spaces s) \<noteq> CHR ''('')"

lemma stops_char [simp]: "\<not> b_is_ident_tail c \<Longrightarrow> c \<noteq> CHR ''$'' \<Longrightarrow> c \<noteq> CHR ''('' \<Longrightarrow> \<not> b_is_space c \<Longrightarrow> stops (c # s)"
  by (simp add: stops_def cur_def b_skip_spaces_def)

lemma stops_mul [simp]: "stops (mul_text m @ s)"
  by (cases m) (simp_all add: scan_defs)

lemma stops_bin [simp]: "stops (bin_text b @ s)"
  by (cases b) (simp_all add: stops_def scan_defs)

lemma stops_paren [simp]: "stops (CHR '')'' # s)"
  by (simp add: scan_defs)

lemma stops_Nil [simp]: "stops []"
  by (simp add: stops_def scan_defs)

text \<open>The first character of an expression: a digit, a letter, a sign or a parenthesis.\<close>

definition head_ok :: "string \<Rightarrow> bool" where
  "head_ok s = (b_is_digit (cur s) \<or> b_is_alpha (cur s) \<or> cur s = CHR ''-'' \<or> cur s = CHR ''('')"

lemma cur_append: "s \<noteq> [] \<Longrightarrow> cur (s @ t) = cur s"
  by (cases s) (simp_all add: cur_def)

lemma head_nonempty: "head_ok s \<Longrightarrow> s \<noteq> []"
  by (auto simp: head_ok_def scan_defs)

lemma head_append: "head_ok s \<Longrightarrow> head_ok (s @ t)"
  using head_nonempty [of s] by (simp add: head_ok_def cur_append)

lemma skip_head: "head_ok s \<Longrightarrow> b_skip_spaces s = s"
  by (cases s) (auto simp: head_ok_def scan_defs)

lemma print_uint_digits: "all_digits (b_print_uint u) \<and> b_print_uint u \<noteq> [] \<and> fst (digits_value (b_print_uint u) 0) = u"
proof (cases "u = 0")
  case True
  then show ?thesis by (simp add: b_print_uint_def all_digits_def b_is_digit_def code_def digit_val_def)
next
  case False
  have "unat u < 2 ^ 32" using unsigned_less [of u] by simp
  then have "unat u < 10 ^ 16" by simp
  from rev_digits_value [OF this] rev_digits_nonempty [of u 15] False show ?thesis
    by (auto simp: b_print_uint_def all_digits_def word_neq_0_conv)
qed

lemma head_texts:
  "wf_prim p \<Longrightarrow> head_ok (prim_text p)" "wf_fac f \<Longrightarrow> head_ok (fac_text f)" "wf_trm t \<Longrightarrow> head_ok (trm_text t)"
  "wf_exp e \<Longrightarrow> head_ok (exp_text e)"
proof (induction p and f and t and e)
  case (Num u)
  then show ?case using print_uint_digits [of u] digits_last by (auto simp: head_ok_def)
next
  case (Var i)
  then show ?case by (simp add: head_ok_def scan_defs)
qed (simp_all add: head_append, simp_all add: head_ok_def scan_defs)

lemma up_alpha: "b_is_alpha a \<Longrightarrow> b_up c = b_up a \<Longrightarrow> b_is_alpha c"
  using b_up_cases [of c] b_up_cases [of a] by (auto simp: b_is_alpha_def b_up_def code_def split: if_splits)

text \<open>A letter alone is not the beginning of a longer name.\<close>

lemma not_a_name:
  assumes "\<not> b_is_alpha (cur s) \<or> \<not> b_is_alpha (cur (tl s))" and "b_is_alpha a" and "b_is_alpha b"
  shows "\<not> b_name_matches_ci s (a # b # w)" and "\<not> call_of (a # b # w) s"
  using assms up_alpha by (auto simp: call_of_def b_name_matches_ci.simps)

section \<open>What the evaluator does with a factor\<close>

text \<open>A result up to the spaces in front of what is left.\<close>

definition yields :: "i32 res \<times> bst \<Rightarrow> outcome \<Rightarrow> string \<Rightarrow> bst \<Rightarrow> bool" where
  "yields m x rest st = (\<exists>r. b_skip_spaces r = b_skip_spaces rest \<and> m = to_res x r st)"

lemma yields_Val: "b_skip_spaces r = b_skip_spaces rest \<Longrightarrow> yields (Val v r, st) (Ok v) rest st"
  by (auto simp: yields_def intro: exI [where x = r])

lemma yields_map: "yields m x rest st \<Longrightarrow> yields (andthen m (\<lambda>v s st. (Val (f v) s, st))) (bind_out x (\<lambda>v. Ok (f v))) rest st"
  by (cases x) (auto simp: yields_def andthen_def)

lemma stops_tail: "stops s \<Longrightarrow> \<not> b_is_alpha (cur s) \<and> \<not> b_is_digit (cur s)"
  by (simp add: stops_def b_is_ident_tail_def)

lemma digits_stop: "all_digits ds \<Longrightarrow> \<not> b_is_digit (cur s) \<Longrightarrow> digits_value (ds @ s) v = (fst (digits_value ds v), s)"
proof (induction ds arbitrary: v)
  case Nil
  then show ?case by (cases s) (simp_all add: cur_def)
qed (simp add: all_digits_def)

lemma digit_no_up: "b_is_digit c \<Longrightarrow> \<not> b_is_alpha c \<and> b_up c = c \<and> c \<noteq> CHR ''F'' \<and> c \<noteq> CHR ''('' \<and> c \<noteq> CHR ''-'' \<and> c \<noteq> CHR ''+''"
  by (auto simp: b_is_digit_def b_is_alpha_def b_up_def code_def)

lemmas not_names =
  not_a_name [of _ "CHR ''A''" "CHR ''B''" "''S''"] not_a_name [of _ "CHR ''R''" "CHR ''N''" "''D''"] not_a_name [of _ "CHR ''L''" "CHR ''E''" "''N''"]
  not_a_name [of _ "CHR ''V''" "CHR ''A''" "''L''"] not_a_name [of _ "CHR ''A''" "CHR ''S''" "''C''"] not_a_name [of _ "CHR ''E''" "CHR ''O''" "''F''"]
  not_a_name [of _ "CHR ''I''" "CHR ''N''" "''STR''"] not_a_name [of _ "CHR ''N''" "CHR ''O''" "''T''"]

lemma letters [simp]:
  "b_is_alpha CHR ''A''" "b_is_alpha CHR ''B''" "b_is_alpha CHR ''R''" "b_is_alpha CHR ''N''" "b_is_alpha CHR ''L''" "b_is_alpha CHR ''E''"
  "b_is_alpha CHR ''V''" "b_is_alpha CHR ''S''" "b_is_alpha CHR ''O''" "b_is_alpha CHR ''I''"
  by (simp_all add: b_is_alpha_def code_def)

lemma plain_value:
  assumes "\<not> b_is_alpha (cur s) \<or> \<not> b_is_alpha (cur (tl s))" and "cur s \<noteq> CHR ''(''"
  shows "factor_value ex se s st = b_parse_value ex s st"
proof -
  have "b_up (cur s) \<noteq> CHR ''F'' \<or> b_up (nxt 1 s) \<noteq> CHR ''N''"
  proof (rule ccontr)
    assume a: "\<not> ?thesis"
    have "b_is_alpha CHR ''F''" "b_up CHR ''F'' = CHR ''F''" "b_up CHR ''N'' = CHR ''N''" by (simp_all add: b_is_alpha_def b_up_def code_def)
    then have "b_is_alpha (cur s)" "b_is_alpha (nxt 1 s)" using a up_alpha [of "CHR ''F''" "cur s"] up_alpha [of "CHR ''N''" "nxt 1 s"] by simp_all
    then show False using assms(1) by (simp add: nxt_def drop_Suc)
  qed
  then show ?thesis using assms(2) not_names [OF assms(1)] by (auto simp: factor_value_def)
qed

lemma factor_num:
  assumes "stops rest"
  shows "factor_value ex se (b_print_uint u @ rest) st = (Val u rest, st)"
proof -
  let ?d = "b_print_uint u"
  have d: "all_digits ?d" "?d \<noteq> []" "fst (digits_value ?d 0) = u" using print_uint_digits [of u] by auto
  have c: "b_is_digit (cur (?d @ rest))" using d digits_last [of ?d] by (simp add: cur_append)
  have sk: "b_skip_spaces (?d @ rest) = ?d @ rest" using c by (intro skip_head) (simp add: head_ok_def)
  have "b_parse_int (?d @ rest) = Some (u, rest)"
    using c sk d digit_no_up [OF c] digits_stop [OF d(1), of rest 0] stops_tail [OF assms] by (simp add: b_parse_int_def Let_def)
  then show ?thesis using c sk digit_no_up [OF c] by (simp add: plain_value b_parse_value_def)
qed

lemma factor_var:
  assumes "stops rest" and "i < 26"
  shows "factor_value ex se (char_of (65 + i) # rest) st = (Val (vars st i) (b_skip_spaces rest), st)"
proof -
  let ?s = "char_of (65 + i) # rest"
  have k: "code (char_of (65 + i)) = 65 + i" using assms(2) by (simp add: code_def)
  have "code CHR ''('' = 40" by (simp add: code_def)
  then have c: "cur ?s \<noteq> CHR ''(''" using k by (auto simp: cur_def)
  have c: "b_is_alpha (cur ?s)" "cur ?s \<noteq> CHR ''(''" "var_index (cur ?s) = i" using assms(2) k c
    by (auto simp: cur_def b_is_alpha_def var_index_def b_up_def)
  have sk: "b_skip_spaces ?s = ?s" using c by (intro skip_head) (simp add: head_ok_def)
  have nt: "name_tail ?s = rest" using assms(1) by (cases rest) (simp_all add: name_tail_def stops_def cur_def)
  have "b_parse_var_ref ?s = Some (i, False, rest)" using c sk nt assms(1) by (simp add: b_parse_var_ref_def Let_def stops_def)
  moreover have "factor_value ex se ?s st = b_parse_value ex ?s st"
    using c stops_tail [OF assms(1)] by (intro plain_value) simp_all
  ultimately show ?thesis using c sk assms(1) by (simp add: b_parse_value_def stops_def)
qed

lemma expecting_skip: "b_skip_spaces r = c # rest \<Longrightarrow> expecting c k r st = k rest st"
  by (simp add: expecting_def expect_def cur_def)

lemma skip_char [simp]: "\<not> b_is_space c \<Longrightarrow> b_skip_spaces (c # s) = c # s"
  by (simp add: b_skip_spaces_def)

lemma factor_paren:
  assumes "yields (ex (s @ CHR '')'' # rest) st) x (CHR '')'' # rest) st"
  shows "yields (factor_value ex se (CHR ''('' # s @ CHR '')'' # rest) st) x rest st"
proof -
  obtain r where r: "b_skip_spaces r = CHR '')'' # rest" and e: "ex (s @ CHR '')'' # rest) st = to_res x r st"
    using assms by (auto simp: yields_def scan_defs)
  have "factor_value ex se (CHR ''('' # s @ CHR '')'' # rest) st = andthen (to_res x r st) (\<lambda>v. expecting CHR '')'' (\<lambda>s st. (Val v s, st)))"
    using e by (simp add: factor_value_def b_parse_builtin_paren_expr_def expecting_skip scan_defs)
  also have "\<dots> = to_res x rest st" using r by (cases x) (simp_all add: andthen_def expecting_skip)
  finally show ?thesis by (auto simp: yields_def)
qed

section \<open>Signs, terms and sums\<close>

lemma sign_other: "cur s \<noteq> CHR ''+'' \<Longrightarrow> cur s \<noteq> CHR ''-'' \<Longrightarrow> sign_loop s g = (g, s)"
  by (cases s) (simp_all add: sign_loop.simps cur_def)

text \<open>The signs in front of a value, and the value.\<close>

definition with_signs :: "i32 eval \<Rightarrow> string eval \<Rightarrow> string \<Rightarrow> i32 \<Rightarrow> bst \<Rightarrow> i32 res \<times> bst" where
  "with_signs ex se s g st = (case sign_loop s g of (sign, s) \<Rightarrow> andthen (factor_value ex se s st) (\<lambda>v s st. (Val (v * sign) s, st)))"

lemma with_signs_value:
  assumes "yields (factor_value ex se s st) x rest st" and "cur s \<noteq> CHR ''+''" and "cur s \<noteq> CHR ''-''"
  shows "yields (with_signs ex se s g st) (bind_out x (\<lambda>v. Ok (v * g))) rest st"
  using yields_map [OF assms(1), of "\<lambda>v. v * g"] by (simp add: with_signs_def sign_other [OF assms(2,3)])

lemma with_signs_neg: "head_ok s \<Longrightarrow> with_signs ex se (CHR ''-'' # s) g st = with_signs ex se s (- g) st"
  by (simp add: with_signs_def sign_loop.simps skip_head)

lemma bind_neg: "bind_out (bind_out x (\<lambda>v. Ok (- v))) (\<lambda>v. Ok (v * g)) = bind_out x (\<lambda>v. Ok (v * - (g :: i32)))"
  by (cases x) simp_all

lemma term_loop_skip: "b_skip_spaces s = b_skip_spaces s' \<Longrightarrow> term_loop n f l s st = term_loop n f l s' st"
  by (simp add: term_loop.simps)

lemma expr_loop_skip: "b_skip_spaces s = b_skip_spaces s' \<Longrightarrow> expr_loop n f l s st = expr_loop n f l s' st"
  by (simp add: expr_loop.simps)

fun mul_count :: "trm \<Rightarrow> nat" where
  "mul_count (One f) = 0"
| "mul_count (Mul t m f) = Suc (mul_count t)"

fun bin_count :: "bexp \<Rightarrow> nat" where
  "bin_count (Single t) = 0"
| "bin_count (Bin e b t) = Suc (bin_count e)"

text \<open>What happens with the value of what came before.\<close>

definition go_on :: "outcome \<Rightarrow> (i32 \<Rightarrow> i32 res \<times> bst) \<Rightarrow> bst \<Rightarrow> i32 res \<times> bst" where
  "go_on x k st = (case x of Ok v \<Rightarrow> k v | Div_Zero \<Rightarrow> (Fail, st) | Div_Trap \<Rightarrow> (Trap, st))"

lemma go_on_bind: "go_on (bind_out x f) k st = go_on x (\<lambda>v. go_on (f v) k st) st"
  by (cases x) (simp_all add: go_on_def)

lemma go_on_yields:
  assumes "yields m x rest st" and "\<And>v r. b_skip_spaces r = b_skip_spaces rest \<Longrightarrow> k v r st = k' v"
  shows "andthen m k = go_on x k' st"
  using assms by (cases x) (auto simp: yields_def andthen_def go_on_def)

lemma sdiv_fits:
  assumes "b \<noteq> 0"
  shows "quotient_fits a b \<longleftrightarrow> \<not> div_traps a b"
proof -
  have a: "- (2 ^ 31) \<le> sint a" "sint a < 2 ^ 31" using sint_ge [of a] sint_lt [of a] by simp_all
  have b: "sint b \<noteq> 0" using assms by (metis signed_eq_0_iff)
  have inj: "x = y \<longleftrightarrow> sint x = sint y" for x y :: i32 by (rule word_eq_iff_signed)
  have eqs: "a = 0x80000000 \<longleftrightarrow> sint a = - (2 ^ 31)" "b = -1 \<longleftrightarrow> sint b = -1"
    by (simp_all add: inj [of a] inj [of b])
  have "sint a sdiv sint b < 2 ^ 31 \<longleftrightarrow> \<not> (sint a = - (2 ^ 31) \<and> sint b = -1)"
  proof (cases "sint b = -1 \<or> sint b = 1")
    case True
    then show ?thesis using a by (auto simp: signed_divide_int_def mult_sgn_abs sgn_mult_abs)
  next
    case False
    with b have "2 \<le> \<bar>sint b\<bar>" by linarith
    then have "\<bar>sint a\<bar> div \<bar>sint b\<bar> \<le> \<bar>sint a\<bar> div 2" by (intro zdiv_mono2) auto
    also have "\<dots> < 2 ^ 31" using a by linarith
    finally have q: "\<bar>sint a\<bar> div \<bar>sint b\<bar> < 2 ^ 31" "0 \<le> \<bar>sint a\<bar> div \<bar>sint b\<bar>" using b by (simp_all add: pos_imp_zdiv_nonneg_iff)
    have "sgn (sint a) * sgn (sint b) * (\<bar>sint a\<bar> div \<bar>sint b\<bar>) \<le> \<bar>sint a\<bar> div \<bar>sint b\<bar>"
      using q(2) by (auto simp: sgn_if)
    then have "sint a sdiv sint b < 2 ^ 31" using q(1) by (simp add: signed_divide_int_def)
    then show ?thesis using False by simp
  qed
  then show ?thesis by (simp add: quotient_fits_def div_traps_def eqs)
qed

lemma bin_value_apply: "bin_value b = apply_op b"
  by (cases b) (auto simp: fun_eq_iff)

lemma mul_step:
  assumes "yields (f (s @ rest) st) x rest st" and "k > 0"
  shows "term_loop k f a (mul_text m @ s @ rest) st =
    go_on (bind_out x (mul_value m a)) (\<lambda>v. term_loop (k - 1) f v rest st) st"
proof -
  obtain j where k: "k = Suc j" using assms(2) by (cases k) auto
  obtain r where r: "b_skip_spaces r = b_skip_spaces rest" and m: "f (s @ rest) st = to_res x r st"
    using assms(1) by (auto simp: yields_def)
  have t: "term_loop j f v r st = term_loop j f v rest st" for v using r by (rule term_loop_skip)
  show ?thesis
    using m t by (cases m; cases x) (simp_all add: k term_loop.simps [of "Suc j"] scan_defs andthen_def go_on_def sdiv_fits i32_div_def i32_mod_def)
qed

lemma bin_step:
  assumes "yields (f (s @ rest) st) x rest st" and "k > 0" and "head_ok (s @ rest)"
  shows "expr_loop k f a (bin_text b @ s @ rest) st =
    go_on (bind_out x (\<lambda>v. Ok (bin_value b a v))) (\<lambda>v. expr_loop (k - 1) f v rest st) st"
proof -
  obtain j where k: "k = Suc j" using assms(2) by (cases k) auto
  obtain r where r: "b_skip_spaces r = b_skip_spaces rest" and m: "f (s @ rest) st = to_res x r st"
    using assms(1) by (auto simp: yields_def)
  have t: "expr_loop j f v r st = expr_loop j f v rest st" for v using r by (rule expr_loop_skip)
  have sp: "b_skip_spaces (CHR '' '' # s @ rest) = s @ rest" using skip_head [OF assms(3)] by (simp add: b_skip_spaces_def b_is_space_def)
  have "expr_op (b_skip_spaces (bin_text b @ s @ rest)) = Some (b, s @ rest)"
    using sp by (cases b) (simp_all add: expr_op_def b_name_matches_ci.simps cur_def b_up_def code_def b_is_space_def b_is_ident_tail_def
      b_is_alpha_def b_is_digit_def b_skip_spaces_def)
  then show ?thesis
    using m t by (cases x) (simp_all add: k expr_loop.simps [of "Suc j"] andthen_def go_on_def bin_value_apply)
qed

section \<open>The interpreter computes the value\<close>

text \<open>What may follow a term, and what may follow an expression.\<close>

definition ends_term :: "string \<Rightarrow> bool" where
  "ends_term s = (stops s \<and> cur (b_skip_spaces s) \<notin> {CHR ''*'', CHR ''/'', CHR ''%''})"

definition ends_exp :: "string \<Rightarrow> bool" where
  "ends_exp s = (ends_term s \<and> expr_op (b_skip_spaces s) = None)"

lemma ends_bin [simp]: "ends_term (bin_text b @ s)"
  by (cases b) (simp_all add: ends_term_def stops_def scan_defs)

lemma ends_paren [simp]: "ends_exp (CHR '')'' # s)"
  by (simp add: ends_exp_def ends_term_def expr_op_def scan_defs)

lemma ends_Nil [simp]: "ends_exp []"
  by (simp add: ends_exp_def ends_term_def expr_op_def scan_defs)

lemma term_loop_ends: "ends_term s \<Longrightarrow> term_loop n f v s st = (Val v (b_skip_spaces s), st)"
  by (simp add: term_loop.simps ends_term_def)

lemma expr_loop_ends: "ends_exp s \<Longrightarrow> expr_loop n f v s st = (Val v (b_skip_spaces s), st)"
  by (simp add: expr_loop.simps ends_exp_def)

lemma go_on_Val: "yields (go_on x (\<lambda>v. (Val v (b_skip_spaces s), st)) st) x s st"
  by (cases x) (auto simp: go_on_def yields_def b_skip_spaces_def intro: exI [where x = "b_skip_spaces s"])

lemma op_texts: "0 < length (mul_text m)" "0 < length (bin_text b)"
  by (cases m; simp) (cases b; simp)

lemma mul_count_length: "mul_count t \<le> length (trm_text t)"
proof (induction t rule: mul_count.induct)
  case (2 t m f)
  then show ?case using op_texts(1) [of m] unfolding mul_count.simps trm_text.simps length_append by linarith
qed simp

lemma bin_count_length: "bin_count e \<le> length (exp_text e)"
proof (induction e rule: bin_count.induct)
  case (2 e b t)
  then show ?case using op_texts(2) [of b] unfolding bin_count.simps exp_text.simps length_append by linarith
qed simp

lemma prim_head:
  "wf_prim p \<Longrightarrow> stops rest \<Longrightarrow> \<not> b_is_alpha (cur (prim_text p @ rest)) \<or> \<not> b_is_alpha (cur (tl (prim_text p @ rest)))"
proof (cases p)
  case (Num u)
  then show ?thesis using print_uint_digits [of u] digits_last [of "b_print_uint u"] digit_no_up by (auto simp: cur_append)
next
  case (Var i)
  moreover assume "stops rest"
  ultimately show ?thesis using stops_tail by simp
qed (simp_all add: scan_defs)

lemma evaluates:
  "\<lbrakk>wf_prim p; stops rest; 2 * length (prim_text p) \<le> n\<rbrakk> \<Longrightarrow>
     yields (with_signs (b_parse_expr n) se (prim_text p @ rest) g st) (bind_out (prim_value (vars st) p) (\<lambda>v. Ok (v * g))) rest st"
  "\<lbrakk>wf_fac f; stops rest; 2 * length (fac_text f) < n\<rbrakk> \<Longrightarrow> yields (b_parse_factor n (fac_text f @ rest) st) (fac_value (vars st) f) rest st"
  "\<lbrakk>wf_trm t; stops rest; 2 * length (trm_text t) < n; mul_count t \<le> k\<rbrakk> \<Longrightarrow>
     andthen (b_parse_factor n (trm_text t @ rest) st) (\<lambda>lhs. term_loop k (b_parse_factor n) lhs) =
     go_on (trm_value (vars st) t) (\<lambda>v. term_loop (k - mul_count t) (b_parse_factor n) v rest st) st"
  "\<lbrakk>wf_exp e; ends_term rest; 2 * length (exp_text e) < n; bin_count e \<le> k\<rbrakk> \<Longrightarrow>
     andthen (b_parse_term (b_parse_factor n) (exp_text e @ rest) st) (\<lambda>lhs. expr_loop k (b_parse_term (b_parse_factor n)) lhs) =
     go_on (exp_value (vars st) e) (\<lambda>v. expr_loop (k - bin_count e) (b_parse_term (b_parse_factor n)) v rest st) st"
proof (induction p and f and t and e arbitrary: rest n g se st and rest n st and rest n k st and rest n k st)
  case (Num u)
  have c: "cur (b_print_uint u @ rest) \<noteq> CHR ''+''" "cur (b_print_uint u @ rest) \<noteq> CHR ''-''"
    using print_uint_digits [of u] digits_last [of "b_print_uint u"] digit_no_up by (auto simp: cur_append)
  have "yields (factor_value (b_parse_expr n) se (b_print_uint u @ rest) st) (Ok u) rest st"
    by (simp add: factor_num [OF Num(2)] yields_Val)
  then show ?case using with_signs_value [OF _ c, of "b_parse_expr n" se st "Ok u" rest g] by simp
next
  case (Var i)
  have k: "code (char_of (65 + i)) = 65 + i" "code CHR ''+'' = 43" "code CHR ''-'' = 45" using Var(1) by (simp_all add: code_def)
  then have c: "cur (char_of (65 + i) # rest) \<noteq> CHR ''+''" "cur (char_of (65 + i) # rest) \<noteq> CHR ''-''" by (auto simp: cur_def)
  have "yields (Val (vars st i) (b_skip_spaces rest), st) (Ok (vars st i)) rest st" by (rule yields_Val) (simp add: b_skip_spaces_def)
  then show ?case using with_signs_value [OF _ c, of "b_parse_expr n" se st "Ok (vars st i)" rest g] factor_var [OF Var(2), of i] Var(1) by simp
next
  case (Neg p)
  have "head_ok (prim_text p @ rest)" using head_texts(1) [of p] Neg(2) by (simp add: head_append)
  then show ?case using Neg(1) [of rest n se "- g" st] Neg(2-) by (simp add: with_signs_neg bind_neg)
next
  case (Paren e)
  obtain m where n: "n = Suc m" "2 * length (exp_text e) < m" using Paren(4) by (cases n) auto
  let ?r = "CHR '')'' # rest"
  have "b_parse_expr n (exp_text e @ ?r) st = go_on (exp_value (vars st) e) (\<lambda>v. (Val v (b_skip_spaces ?r), st)) st"
    using Paren(1) [of ?r m "length (exp_text e @ ?r)" st] Paren(2) n bin_count_length [of e] ends_paren [of rest]
    by (simp add: b_parse_expr_step_def expr_loop_ends ends_exp_def del: skip_char)
  then have "yields (b_parse_expr n (exp_text e @ ?r) st) (exp_value (vars st) e) ?r st" by (simp only: go_on_Val)
  then have "yields (factor_value (b_parse_expr n) se (CHR ''('' # exp_text e @ ?r) st) (exp_value (vars st) e) rest st" by (rule factor_paren)
  then show ?case using with_signs_value by (simp add: cur_def)
next
  case (Prim p)
  obtain m where n: "n = Suc m" using Prim(4) by (cases n) auto
  let ?s = "prim_text p @ rest"
  have sk: "b_skip_spaces ?s = ?s" using head_texts(1) [of p] Prim(2) by (intro skip_head head_append) simp
  have nn: "\<not> b_name_matches_ci ?s ''NOT''" using prim_head [of p rest] Prim(2,3) by (intro not_a_name) simp_all
  have "bind_out x (\<lambda>v. Ok (v * 1)) = x" for x by (cases x) simp_all
  then have "yields (with_signs (b_parse_expr m) (b_parse_string_expr m) ?s 1 st) (prim_value (vars st) p) rest st"
    using Prim(1) [of rest m "b_parse_string_expr m" 1 st] Prim(2-4) n by simp
  then show ?case using nn by (simp add: n b_parse_factor_step_def sk with_signs_def)
next
  case (Not f)
  obtain m where n: "n = Suc m" using Not(4) by (cases n) auto
  let ?s = "fac_text f @ rest"
  have sk: "b_skip_spaces (CHR '' '' # ?s) = ?s" using skip_head [OF head_append [OF head_texts(2)], of f rest] Not(2)
    by (simp add: b_skip_spaces_def b_is_space_def)
  have nm: "b_name_matches_ci (''NOT '' @ ?s) ''NOT''" "b_skip_spaces (''NOT '' @ ?s) = ''NOT '' @ ?s" by (simp_all add: scan_defs)
  have "yields (andthen (b_parse_factor m ?s st) (\<lambda>v s st. (Val (NOT v) s, st))) (fac_value (vars st) (Not f)) rest st"
    using yields_map [OF Not(1) [of rest m st], of "\<lambda>v. NOT v"] Not(2-4) n by simp
  then show ?case using nm sk by (simp add: n b_parse_factor_step_def)
next
  case (One f)
  have y: "yields (b_parse_factor n (fac_text f @ rest) st) (fac_value (vars st) f) rest st" using One by simp
  show ?case by (simp, rule go_on_yields [OF y]) (rule term_loop_skip)
next
  case (Mul t m f)
  have y: "yields (b_parse_factor n (fac_text f @ rest) st) (fac_value (vars st) f) rest st" using Mul by simp
  have "andthen (b_parse_factor n (trm_text t @ mul_text m @ fac_text f @ rest) st) (\<lambda>lhs. term_loop k (b_parse_factor n) lhs) =
      go_on (trm_value (vars st) t) (\<lambda>v. term_loop (k - mul_count t) (b_parse_factor n) v (mul_text m @ fac_text f @ rest) st) st"
    using Mul(1) [of "mul_text m @ fac_text f @ rest" n k st] Mul(3-6) by simp
  then show ?case using mul_step [of "b_parse_factor n", OF y, of "k - mul_count t"] Mul(6) by (simp add: go_on_bind)
next
  case (Single t)
  have "b_parse_term (b_parse_factor n) (trm_text t @ rest) st = go_on (trm_value (vars st) t) (\<lambda>v. (Val v (b_skip_spaces rest), st)) st"
    using Single(1) [of rest n "length (trm_text t @ rest)" st] Single(2-4) mul_count_length [of t]
    by (simp add: b_parse_term_def term_loop_ends ends_term_def)
  then have y: "yields (b_parse_term (b_parse_factor n) (trm_text t @ rest) st) (trm_value (vars st) t) rest st" by (simp only: go_on_Val)
  show ?case by (simp, rule go_on_yields [OF y]) (rule expr_loop_skip)
next
  case (Bin e b t)
  have "b_parse_term (b_parse_factor n) (trm_text t @ rest) st = go_on (trm_value (vars st) t) (\<lambda>v. (Val v (b_skip_spaces rest), st)) st"
    using Bin(2) [of rest n "length (trm_text t @ rest)" st] Bin(3-5) mul_count_length [of t]
    by (simp add: b_parse_term_def term_loop_ends ends_term_def)
  then have y: "yields (b_parse_term (b_parse_factor n) (trm_text t @ rest) st) (trm_value (vars st) t) rest st" by (simp only: go_on_Val)
  have h: "head_ok (trm_text t @ rest)" using head_texts(3) [of t] Bin(3) by (simp add: head_append)
  have "andthen (b_parse_term (b_parse_factor n) (exp_text e @ bin_text b @ trm_text t @ rest) st) (\<lambda>lhs. expr_loop k (b_parse_term (b_parse_factor n)) lhs) =
      go_on (exp_value (vars st) e) (\<lambda>v. expr_loop (k - bin_count e) (b_parse_term (b_parse_factor n)) v (bin_text b @ trm_text t @ rest) st) st"
    using Bin(1) [of "bin_text b @ trm_text t @ rest" n k st] Bin(3-6) by simp
  then show ?case using bin_step [of "b_parse_term (b_parse_factor n)", OF y, of "k - bin_count e"] h Bin(6) by (simp add: go_on_bind)
qed



end
