(* ===== verification/Memory.thy ===== *)
theory Memory
  imports Prelude
begin

text \<open>
  The memory manager, \<open>src/kernel/memory.c\<close>: the bitmaps of physical and virtual pages, the x86-64
  page tables, and the kernel heap. Bitmaps are byte arrays; physical memory is a function from
  addresses to 64-bit words, which is how the page tables, the heap headers and the zeroed pages are
  accessed; a virtual access goes through \<open>paging_get_phys\<close>. Page numbers are \<open>nat\<close>, addresses \<open>u64\<close>.
  TLB flushes have no effect on this state and are not modelled. The multiboot structure, read only,
  is a byte function of its own.
\<close>

abbreviation MEMORY_PAGE_SIZE :: u64 where "MEMORY_PAGE_SIZE \<equiv> 4096"
abbreviation MEMORY_MAX_PHYS :: u64 where "MEMORY_MAX_PHYS \<equiv> 0x100000000"
abbreviation MEMORY_MAX_PAGES :: nat where "MEMORY_MAX_PAGES \<equiv> 1048576"
abbreviation MEMORY_VIRT_BASE :: u64 where "MEMORY_VIRT_BASE \<equiv> 0xFFFF900000000000"
abbreviation MEMORY_VIRT_PAGES :: nat where "MEMORY_VIRT_PAGES \<equiv> 16384"
abbreviation MEMORY_VIRT_LIMIT :: u64 where "MEMORY_VIRT_LIMIT \<equiv> 0xFFFF900004000000"
abbreviation MEMORY_TEMP_PAGE_INDEX :: nat where "MEMORY_TEMP_PAGE_INDEX \<equiv> 16383"
abbreviation MEMORY_TEMP_PAGE_VADDR :: u64 where "MEMORY_TEMP_PAGE_VADDR \<equiv> 0xFFFF900003FFF000"
abbreviation KMALLOC_HEADER_MAGIC :: u64 where "KMALLOC_HEADER_MAGIC \<equiv> 0x4B4D414C4C4F435F"
abbreviation PAGE_ADDR_MASK :: u64 where "PAGE_ADDR_MASK \<equiv> 0x000FFFFFFFFFF000"
abbreviation PAGE_LARGE_ADDR_MASK :: u64 where "PAGE_LARGE_ADDR_MASK \<equiv> 0x000FFFFFFFE00000"
abbreviation PAGE_FLAGS_MASK :: u64 where "PAGE_FLAGS_MASK \<equiv> 0xFFF"
abbreviation PAGE_FLAG_PRESENT :: u64 where "PAGE_FLAG_PRESENT \<equiv> 0x001"
abbreviation PAGE_FLAG_WRITABLE :: u64 where "PAGE_FLAG_WRITABLE \<equiv> 0x002"
abbreviation PAGE_FLAG_USER :: u64 where "PAGE_FLAG_USER \<equiv> 0x004"
abbreviation PAGE_FLAG_HUGE :: u64 where "PAGE_FLAG_HUGE \<equiv> 0x080"
abbreviation PAGE_FLAG_NO_EXECUTE :: u64 where "PAGE_FLAG_NO_EXECUTE \<equiv> 0x8000000000000000"

record mem_state =
  phys_bitmap :: "nat \<Rightarrow> u8"
  virt_bitmap :: "nat \<Rightarrow> u8"
  total_page_count :: u64
  free_page_count :: u64
  pmem :: "u64 \<Rightarrow> u64"
  cr3 :: u64

section \<open>Bitmaps\<close>

definition bm_is_free :: "(nat \<Rightarrow> u8) \<Rightarrow> nat \<Rightarrow> bool" where
  "bm_is_free bm i = (bm (i div 8) AND push_bit (i mod 8) 1 = 0)"

definition bm_mark_used :: "(nat \<Rightarrow> u8) \<Rightarrow> nat \<Rightarrow> nat \<Rightarrow> u8" where
  "bm_mark_used bm i = bm(i div 8 := bm (i div 8) OR push_bit (i mod 8) 1)"

definition bm_mark_free :: "(nat \<Rightarrow> u8) \<Rightarrow> nat \<Rightarrow> nat \<Rightarrow> u8" where
  "bm_mark_free bm i = bm(i div 8 := bm (i div 8) AND NOT (push_bit (i mod 8) 1))"

definition page_is_free :: "mem_state \<Rightarrow> nat \<Rightarrow> bool" where
  "page_is_free m i = bm_is_free (phys_bitmap m) i"

definition virt_page_is_free :: "mem_state \<Rightarrow> nat \<Rightarrow> bool" where
  "virt_page_is_free m i = bm_is_free (virt_bitmap m) i"

definition page_mark_used :: "nat \<Rightarrow> mem_state \<Rightarrow> mem_state" where
  "page_mark_used i m = m\<lparr>phys_bitmap := bm_mark_used (phys_bitmap m) i\<rparr>"

definition page_mark_free :: "nat \<Rightarrow> mem_state \<Rightarrow> mem_state" where
  "page_mark_free i m = m\<lparr>phys_bitmap := bm_mark_free (phys_bitmap m) i\<rparr>"

definition virt_page_mark_used :: "nat \<Rightarrow> mem_state \<Rightarrow> mem_state" where
  "virt_page_mark_used i m = m\<lparr>virt_bitmap := bm_mark_used (virt_bitmap m) i\<rparr>"

definition virt_page_mark_free :: "nat \<Rightarrow> mem_state \<Rightarrow> mem_state" where
  "virt_page_mark_free i m = m\<lparr>virt_bitmap := bm_mark_free (virt_bitmap m) i\<rparr>"

definition align_up :: "u64 \<Rightarrow> u64 \<Rightarrow> u64" where
  "align_up v align = (v + align - 1) AND NOT (align - 1)"

definition align_down :: "u64 \<Rightarrow> u64 \<Rightarrow> u64" where
  "align_down v align = v AND NOT (align - 1)"

section \<open>Searching for a run of free pages\<close>

text \<open>The loop of \<open>find_virtual_run\<close> and \<open>phys_alloc_pages\<close>: \<open>run\<close> free pages end before \<open>page\<close>, the first of
  them is \<open>start\<close>.\<close>

function run_scan :: "(nat \<Rightarrow> bool) \<Rightarrow> nat \<Rightarrow> nat \<Rightarrow> nat \<Rightarrow> nat \<Rightarrow> nat \<Rightarrow> nat option" where
  "run_scan is_free limit count page run start =
     (if page < limit then
        if is_free page then
          (let start' = (if run = 0 then page else start); run' = run + 1
           in if run' = count then Some start' else run_scan is_free limit count (page + 1) run' start')
        else run_scan is_free limit count (page + 1) 0 start
      else None)"
  by pat_completeness auto
termination by (relation "measure (\<lambda>(f, limit, count, page, run, start). limit - page)") auto

declare run_scan.simps [simp del]

definition find_virtual_run :: "mem_state \<Rightarrow> u64 \<Rightarrow> nat" where
  "find_virtual_run m count =
     (case run_scan (virt_page_is_free m) MEMORY_VIRT_PAGES (unat count) 0 0 0 of
        Some s \<Rightarrow> s | None \<Rightarrow> MEMORY_VIRT_PAGES)"

definition mark_virtual_run :: "nat \<Rightarrow> nat \<Rightarrow> bool \<Rightarrow> mem_state \<Rightarrow> mem_state" where
  "mark_virtual_run start count used m =
     fold (\<lambda>i. if used then virt_page_mark_used (start + i) else virt_page_mark_free (start + i)) [0..<count] m"

section \<open>Regions\<close>

text \<open>The loops run over page-aligned addresses; here over the page numbers.\<close>

definition release_page :: "nat \<Rightarrow> mem_state \<Rightarrow> mem_state" where
  "release_page page m =
     (if \<not> page_is_free m page
      then (page_mark_free page m)\<lparr>total_page_count := total_page_count m + 1, free_page_count := free_page_count m + 1\<rparr>
      else m)"

definition release_region :: "u64 \<Rightarrow> u64 \<Rightarrow> mem_state \<Rightarrow> mem_state" where
  "release_region start_addr end_addr m =
     (if start_addr \<ge> MEMORY_MAX_PHYS then m
      else let end_addr' = (if end_addr > MEMORY_MAX_PHYS then MEMORY_MAX_PHYS else end_addr);
               start = align_up start_addr MEMORY_PAGE_SIZE;
               stop = align_down end_addr' MEMORY_PAGE_SIZE
           in fold release_page [unat (start div MEMORY_PAGE_SIZE) ..< unat (stop div MEMORY_PAGE_SIZE)] m)"

definition reserve_page :: "nat \<Rightarrow> mem_state \<Rightarrow> mem_state" where
  "reserve_page page m =
     (if page < MEMORY_MAX_PAGES \<and> page_is_free m page
      then (page_mark_used page m)\<lparr>free_page_count := free_page_count m - 1\<rparr> else m)"

definition reserve_region :: "u64 \<Rightarrow> u64 \<Rightarrow> mem_state \<Rightarrow> mem_state" where
  "reserve_region start_addr end_addr m =
     (let start = align_down start_addr MEMORY_PAGE_SIZE;
          stop = align_up end_addr MEMORY_PAGE_SIZE;
          stop' = (if stop > MEMORY_MAX_PHYS then MEMORY_MAX_PHYS else stop)
      in fold reserve_page [unat (start div MEMORY_PAGE_SIZE) ..< unat (stop' div MEMORY_PAGE_SIZE)] m)"

section \<open>Initialisation from the multiboot memory map\<close>

definition rd32_at :: "(u64 \<Rightarrow> u8) \<Rightarrow> u64 \<Rightarrow> u32" where
  "rd32_at b a = ucast (b a) OR push_bit 8 (ucast (b (a + 1))) OR push_bit 16 (ucast (b (a + 2))) OR push_bit 24 (ucast (b (a + 3)))"

definition rd64_at :: "(u64 \<Rightarrow> u8) \<Rightarrow> u64 \<Rightarrow> u64" where
  "rd64_at b a = ucast (rd32_at b a) OR push_bit 32 (ucast (rd32_at b (a + 4)))"

text \<open>The entries of one memory-map tag. None: an entry size of 0 makes the loop run forever.\<close>

partial_function (option) memmap_entries ::
    "(u64 \<Rightarrow> u8) \<Rightarrow> u64 \<Rightarrow> u64 \<Rightarrow> u64 \<Rightarrow> mem_state \<Rightarrow> mem_state option" where
  "memmap_entries b entry_size end_off entry_off m =
     (if entry_off + entry_size \<le> end_off then
        memmap_entries b entry_size end_off (entry_off + entry_size)
          (if rd32_at b (entry_off + 16) = 1
           then release_region (rd64_at b entry_off) (rd64_at b entry_off + rd64_at b (entry_off + 8)) m else m)
      else Some m)"

partial_function (option) mb2_tags :: "(u64 \<Rightarrow> u8) \<Rightarrow> u64 \<Rightarrow> mem_state \<Rightarrow> mem_state option" where
  "mb2_tags b offset m =
     (if rd32_at b offset = 0 then Some m
      else do {
        m' \<leftarrow> (if rd32_at b offset = 6
               then memmap_entries b (ucast (rd32_at b (offset + 8))) (offset + ucast (rd32_at b (offset + 4))) (offset + 16) m
               else Some m);
        mb2_tags b (offset + ucast ((rd32_at b (offset + 4) + 7) AND NOT 7)) m' })"

definition memory_init :: "(u64 \<Rightarrow> u8) \<Rightarrow> u64 \<Rightarrow> u64 \<Rightarrow> u64 \<Rightarrow> mem_state \<Rightarrow> mem_state option" where
  "memory_init b kernel_start kernel_end mb2_info_addr m =
     (let m0 = virt_page_mark_used MEMORY_TEMP_PAGE_INDEX
                 (m\<lparr>phys_bitmap := (\<lambda>_. 0xFF), virt_bitmap := (\<lambda>_. 0), total_page_count := 0, free_page_count := 0\<rparr>)
      in if mb2_info_addr = 0 then Some m0
         else do {
           m1 \<leftarrow> mb2_tags b (mb2_info_addr + 8) m0;
           let m2 = reserve_region 0 0x100000 m1;
           let m3 = reserve_region kernel_start kernel_end m2;
           Some (if rd32_at b mb2_info_addr \<noteq> 0
                 then reserve_region mb2_info_addr (mb2_info_addr + ucast (rd32_at b mb2_info_addr)) m3 else m3) })"

section \<open>Physical pages\<close>

definition phys_alloc_pages :: "mem_state \<Rightarrow> u64 \<Rightarrow> u64 \<times> mem_state" where
  "phys_alloc_pages m count =
     (if count = 0 then (0, m)
      else (case run_scan (page_is_free m) MEMORY_MAX_PAGES (unat count) 0 0 0 of
              None \<Rightarrow> (0, m)
            | Some start \<Rightarrow>
                (of_nat start * MEMORY_PAGE_SIZE,
                 (fold (\<lambda>i. page_mark_used (start + i)) [0..<unat count] m)\<lparr>free_page_count := free_page_count m - count\<rparr>)))"

definition phys_alloc_page :: "mem_state \<Rightarrow> u64 \<times> mem_state" where
  "phys_alloc_page m = phys_alloc_pages m 1"

definition free_one :: "nat \<Rightarrow> mem_state \<Rightarrow> mem_state" where
  "free_one page m =
     (if page < MEMORY_MAX_PAGES \<and> \<not> page_is_free m page
      then (page_mark_free page m)\<lparr>free_page_count := free_page_count m + 1\<rparr> else m)"

text \<open>\<open>page + i\<close> is at most 2 to the 53 here, since \<open>count\<close> pages were allocated together.\<close>

definition phys_free_pages :: "u64 \<Rightarrow> u64 \<Rightarrow> mem_state \<Rightarrow> mem_state" where
  "phys_free_pages phys_addr count m =
     fold (\<lambda>i. free_one (unat (phys_addr div MEMORY_PAGE_SIZE) + i)) [0..<unat count] m"

definition phys_free_page :: "u64 \<Rightarrow> mem_state \<Rightarrow> mem_state" where
  "phys_free_page phys_addr m = phys_free_pages phys_addr 1 m"

section \<open>Page tables\<close>

definition pml4_index :: "u64 \<Rightarrow> u64" where "pml4_index addr = drop_bit 39 addr AND 0x1FF"
definition pdpt_index :: "u64 \<Rightarrow> u64" where "pdpt_index addr = drop_bit 30 addr AND 0x1FF"
definition pd_index :: "u64 \<Rightarrow> u64" where "pd_index addr = drop_bit 21 addr AND 0x1FF"
definition pt_index :: "u64 \<Rightarrow> u64" where "pt_index addr = drop_bit 12 addr AND 0x1FF"

definition page_table_from_entry :: "u64 \<Rightarrow> u64" where
  "page_table_from_entry entry = entry AND PAGE_ADDR_MASK"

definition root_page_table :: "mem_state \<Rightarrow> u64" where
  "root_page_table m = cr3 m AND PAGE_ADDR_MASK"

text \<open>The address of \<open>table[index]\<close>, and reading and writing a word of physical memory.\<close>

definition slot :: "u64 \<Rightarrow> u64 \<Rightarrow> u64" where "slot table index = table + 8 * index"

definition set_word :: "u64 \<Rightarrow> u64 \<Rightarrow> mem_state \<Rightarrow> mem_state" where
  "set_word a v m = m\<lparr>pmem := (pmem m)(a := v)\<rparr>"

definition zero_page :: "u64 \<Rightarrow> mem_state \<Rightarrow> mem_state" where
  "zero_page p m = m\<lparr>pmem := (\<lambda>a. if a - p < MEMORY_PAGE_SIZE then 0 else pmem m a)\<rparr>"

definition alloc_page_table :: "mem_state \<Rightarrow> u64 option \<times> mem_state" where
  "alloc_page_table m =
     (case phys_alloc_page m of (phys, m1) \<Rightarrow> if phys = 0 then (None, m1) else (Some phys, zero_page phys m1))"

definition present :: "u64 \<Rightarrow> bool" where "present e = (e AND PAGE_FLAG_PRESENT \<noteq> 0)"
definition huge :: "u64 \<Rightarrow> bool" where "huge e = (e AND PAGE_FLAG_HUGE \<noteq> 0)"

text \<open>The argument is the address of the entry.\<close>

definition ensure_next_table :: "mem_state \<Rightarrow> u64 \<Rightarrow> u64 option \<times> mem_state" where
  "ensure_next_table m entry =
     (if present (pmem m entry) then
        if huge (pmem m entry) then (None, m) else (Some (page_table_from_entry (pmem m entry)), m)
      else (case alloc_page_table m of
              (None, m1) \<Rightarrow> (None, m1)
            | (Some table, m1) \<Rightarrow>
                (Some table, set_word entry ((table AND PAGE_ADDR_MASK) OR PAGE_FLAG_PRESENT OR PAGE_FLAG_WRITABLE) m1)))"

text \<open>The two lines after each \<open>ensure_next_table\<close> of \<open>paging_map_page\<close>.\<close>

definition widen_entry :: "u64 \<Rightarrow> u64 \<Rightarrow> mem_state \<Rightarrow> mem_state" where
  "widen_entry flags entry m =
     (let m1 = (if flags AND PAGE_FLAG_USER \<noteq> 0 then set_word entry (pmem m entry OR PAGE_FLAG_USER) m else m)
      in if flags AND PAGE_FLAG_WRITABLE \<noteq> 0 then set_word entry (pmem m1 entry OR PAGE_FLAG_WRITABLE) m1 else m1)"

definition leaf_entry :: "u64 \<Rightarrow> u64 \<Rightarrow> u64" where
  "leaf_entry phys_addr flags =
     (phys_addr AND PAGE_ADDR_MASK) OR (flags AND (PAGE_FLAGS_MASK OR PAGE_FLAG_NO_EXECUTE)) OR PAGE_FLAG_PRESENT"

definition paging_map_page :: "mem_state \<Rightarrow> u64 \<Rightarrow> u64 \<Rightarrow> u64 \<Rightarrow> int \<times> mem_state" where
  "paging_map_page m virt_addr phys_addr flags =
     (if virt_addr AND (MEMORY_PAGE_SIZE - 1) \<noteq> 0 \<or> phys_addr AND (MEMORY_PAGE_SIZE - 1) \<noteq> 0 then (-1, m)
      else let pml4e = slot (root_page_table m) (pml4_index virt_addr) in
        (case ensure_next_table m pml4e of
           (None, m1) \<Rightarrow> (-2, m1)
         | (Some pdpt, m1) \<Rightarrow>
             let m1 = widen_entry flags pml4e m1; pdpte = slot pdpt (pdpt_index virt_addr) in
             (case ensure_next_table m1 pdpte of
                (None, m2) \<Rightarrow> (-3, m2)
              | (Some pd, m2) \<Rightarrow>
                  let m2 = widen_entry flags pdpte m2; pde = slot pd (pd_index virt_addr) in
                  (case ensure_next_table m2 pde of
                     (None, m3) \<Rightarrow> (-4, m3)
                   | (Some pt, m3) \<Rightarrow>
                       let m3 = widen_entry flags pde m3; entry = slot pt (pt_index virt_addr) in
                       if present (pmem m3 entry) then (-5, m3)
                       else (0, set_word entry (leaf_entry phys_addr flags) m3)))))"

text \<open>The walk shared by \<open>paging_set_page_flags\<close> and \<open>paging_unmap_page\<close>: the address of the entry of a
  present 4 KB page.\<close>

definition find_leaf :: "mem_state \<Rightarrow> u64 \<Rightarrow> u64 option" where
  "find_leaf m virt_addr =
     (let e4 = pmem m (slot (root_page_table m) (pml4_index virt_addr)) in
      if \<not> present e4 then None
      else let e3 = pmem m (slot (page_table_from_entry e4) (pdpt_index virt_addr)) in
        if \<not> present e3 then None
        else let e2 = pmem m (slot (page_table_from_entry e3) (pd_index virt_addr)) in
          if \<not> present e2 \<or> huge e2 then None
          else let a = slot (page_table_from_entry e2) (pt_index virt_addr) in
            if \<not> present (pmem m a) then None else Some a)"

definition paging_set_page_flags :: "mem_state \<Rightarrow> u64 \<Rightarrow> u64 \<Rightarrow> int \<times> mem_state" where
  "paging_set_page_flags m virt_addr flags =
     (if virt_addr AND (MEMORY_PAGE_SIZE - 1) \<noteq> 0 then (-1, m)
      else (case find_leaf m virt_addr of
              None \<Rightarrow> (-1, m)
            | Some a \<Rightarrow> (0, set_word a (leaf_entry (pmem m a AND PAGE_ADDR_MASK) flags) m)))"

definition paging_split_huge_page :: "mem_state \<Rightarrow> u64 \<Rightarrow> int \<times> mem_state" where
  "paging_split_huge_page m virt_addr =
     (if virt_addr AND (MEMORY_PAGE_SIZE - 1) \<noteq> 0 then (-1, m)
      else let e4 = pmem m (slot (root_page_table m) (pml4_index virt_addr)) in
        if \<not> present e4 then (0, m)
        else let e3 = pmem m (slot (page_table_from_entry e4) (pdpt_index virt_addr)) in
          if \<not> present e3 then (0, m)
          else let pde = slot (page_table_from_entry e3) (pd_index virt_addr) in
            if \<not> present (pmem m pde) then (0, m)
            else if \<not> huge (pmem m pde) then (0, m)
            else let huge_phys = pmem m pde AND PAGE_LARGE_ADDR_MASK;
                     huge_flags = pmem m pde AND (PAGE_FLAG_PRESENT OR PAGE_FLAG_WRITABLE)
                 in (case alloc_page_table m of
                       (None, m1) \<Rightarrow> (-1, m1)
                     | (Some new_pt, m1) \<Rightarrow>
                         (0, set_word pde ((new_pt AND PAGE_ADDR_MASK) OR PAGE_FLAG_PRESENT OR PAGE_FLAG_WRITABLE)
                              (fold (\<lambda>i. set_word (slot new_pt (of_nat i))
                                       ((huge_phys + of_nat i * MEMORY_PAGE_SIZE) OR huge_flags)) [0..<512] m1))))"

definition paging_unmap_page :: "u64 \<Rightarrow> mem_state \<Rightarrow> mem_state" where
  "paging_unmap_page virt_addr m =
     (if virt_addr AND (MEMORY_PAGE_SIZE - 1) \<noteq> 0 then m
      else (case find_leaf m virt_addr of None \<Rightarrow> m | Some a \<Rightarrow> set_word a 0 m))"

definition paging_get_phys :: "mem_state \<Rightarrow> u64 \<Rightarrow> u64" where
  "paging_get_phys m virt_addr =
     (let e4 = pmem m (slot (root_page_table m) (pml4_index virt_addr)) in
      if \<not> present e4 then 0
      else let e3 = pmem m (slot (page_table_from_entry e4) (pdpt_index virt_addr)) in
        if \<not> present e3 then 0
        else let e2 = pmem m (slot (page_table_from_entry e3) (pd_index virt_addr)) in
          if \<not> present e2 then 0
          else if huge e2 then (e2 AND PAGE_LARGE_ADDR_MASK) OR (virt_addr AND 0x1FFFFF)
          else let e1 = pmem m (slot (page_table_from_entry e2) (pt_index virt_addr)) in
            if \<not> present e1 then 0
            else (e1 AND PAGE_ADDR_MASK) OR (virt_addr AND (MEMORY_PAGE_SIZE - 1)))"

text \<open>The result and the four entries written through the out-pointers.\<close>

definition paging_get_walk :: "mem_state \<Rightarrow> u64 \<Rightarrow> int \<times> u64 \<times> u64 \<times> u64 \<times> u64" where
  "paging_get_walk m virt_addr =
     (let e4 = pmem m (slot (root_page_table m) (pml4_index virt_addr)) in
      if \<not> present e4 then (-1, e4, 0, 0, 0)
      else let e3 = pmem m (slot (page_table_from_entry e4) (pdpt_index virt_addr)) in
        if \<not> present e3 then (-1, e4, e3, 0, 0)
        else let e2 = pmem m (slot (page_table_from_entry e3) (pd_index virt_addr)) in
          if \<not> present e2 then (-1, e4, e3, e2, 0)
          else if huge e2 then (1, e4, e3, e2, 0)
          else let e1 = pmem m (slot (page_table_from_entry e2) (pt_index virt_addr)) in
            (if \<not> present e1 then -1 else 0, e4, e3, e2, e1))"

section \<open>Virtual pages\<close>

definition virt_page_addr :: "nat \<Rightarrow> u64" where
  "virt_page_addr i = MEMORY_VIRT_BASE + of_nat i * MEMORY_PAGE_SIZE"

definition virt_reserve_pages :: "mem_state \<Rightarrow> u64 \<Rightarrow> u64 \<times> mem_state" where
  "virt_reserve_pages m count =
     (if count = 0 then (0, m)
      else let virt_page = find_virtual_run m count in
        if virt_page \<ge> MEMORY_VIRT_PAGES then (0, m)
        else (virt_page_addr virt_page, mark_virtual_run virt_page (unat count) True m))"

text \<open>The mapping loop: the number of the page that failed, or None.\<close>

fun map_loop :: "nat \<Rightarrow> u64 \<Rightarrow> nat list \<Rightarrow> mem_state \<Rightarrow> nat option \<times> mem_state" where
  "map_loop virt_page phys [] m = (None, m)"
| "map_loop virt_page phys (i # is) m =
     (case paging_map_page m (virt_page_addr (virt_page + i)) (phys + of_nat i * MEMORY_PAGE_SIZE) PAGE_FLAG_WRITABLE of
        (rc, m') \<Rightarrow> if rc \<noteq> 0 then (Some i, m') else map_loop virt_page phys is m')"

definition virt_alloc_pages :: "mem_state \<Rightarrow> u64 \<Rightarrow> u64 \<times> mem_state" where
  "virt_alloc_pages m count =
     (if count = 0 then (0, m)
      else let virt_page = find_virtual_run m count in
        if virt_page \<ge> MEMORY_VIRT_PAGES then (0, m)
        else (case phys_alloc_pages m count of (phys, m1) \<Rightarrow>
          if phys = 0 then (0, m1)
          else (case map_loop virt_page phys [0..<unat count] (mark_virtual_run virt_page (unat count) True m1) of
                  (None, m2) \<Rightarrow> (virt_page_addr virt_page, m2)
                | (Some i, m2) \<Rightarrow>
                    (0, phys_free_pages phys count
                          (mark_virtual_run virt_page (unat count) False
                             (fold (\<lambda>j. paging_unmap_page (virt_page_addr (virt_page + j))) (rev [0..<i]) m2))))))"

definition virt_free_one :: "u64 \<Rightarrow> nat \<Rightarrow> nat \<Rightarrow> mem_state \<Rightarrow> mem_state" where
  "virt_free_one virt_addr virt_page i m =
     (let page_virt = virt_addr + of_nat i * MEMORY_PAGE_SIZE;
          phys = paging_get_phys m page_virt;
          m1 = (if phys \<noteq> 0 then phys_free_page (phys AND PAGE_ADDR_MASK) (paging_unmap_page page_virt m) else m)
      in virt_page_mark_free (virt_page + i) m1)"

definition virt_free_pages :: "u64 \<Rightarrow> u64 \<Rightarrow> mem_state \<Rightarrow> mem_state" where
  "virt_free_pages addr count m =
     (if addr = 0 \<or> count = 0 then m
      else if addr < MEMORY_VIRT_BASE \<or> addr \<ge> MEMORY_VIRT_LIMIT then m
      else if addr AND (MEMORY_PAGE_SIZE - 1) \<noteq> 0 then m
      else let virt_page = unat ((addr - MEMORY_VIRT_BASE) div MEMORY_PAGE_SIZE)
           in fold (virt_free_one addr virt_page) [0..<min (unat count) (MEMORY_VIRT_PAGES - virt_page)] m)"

section \<open>Loops over pages\<close>

text \<open>The values of the variable of a loop \<open>for (page = start; page < stop; page += 4096)\<close> whose bounds are a
  whole number of pages apart.\<close>

definition page_range :: "u64 \<Rightarrow> u64 \<Rightarrow> u64 list" where
  "page_range start stop =
     (if start < stop then map (\<lambda>k. start + of_nat k * MEMORY_PAGE_SIZE) [0..<unat ((stop - start) div MEMORY_PAGE_SIZE)] else [])"

text \<open>The body of such a loop in the user heap and in the ELF loader.\<close>

definition release_mapping :: "u64 \<Rightarrow> mem_state \<Rightarrow> mem_state" where
  "release_mapping page m =
     (let phys = paging_get_phys m page in
      if phys \<noteq> 0 then phys_free_page phys (paging_unmap_page page m) else m)"

section \<open>Bytes\<close>

text \<open>A byte in the word that holds it, and an access through a virtual address.\<close>

definition get_byte :: "mem_state \<Rightarrow> u64 \<Rightarrow> u8" where
  "get_byte m a = ucast (drop_bit (8 * unat (a AND 7)) (pmem m (a AND NOT 7)))"

definition set_byte :: "u64 \<Rightarrow> u8 \<Rightarrow> mem_state \<Rightarrow> mem_state" where
  "set_byte a v m =
     (let w = a AND NOT 7; k = 8 * unat (a AND 7)
      in set_word w ((pmem m w AND NOT (push_bit k 0xFF)) OR push_bit k (ucast v)) m)"

definition vload_byte :: "mem_state \<Rightarrow> u64 \<Rightarrow> u8" where
  "vload_byte m a = get_byte m (paging_get_phys m a)"

definition vstore_byte :: "u64 \<Rightarrow> u8 \<Rightarrow> mem_state \<Rightarrow> mem_state" where
  "vstore_byte a v m = set_byte (paging_get_phys m a) v m"

section \<open>The kernel heap\<close>

text \<open>A word access through a virtual address.\<close>

definition vload :: "mem_state \<Rightarrow> u64 \<Rightarrow> u64" where
  "vload m a = pmem m (paging_get_phys m a)"

definition vstore :: "u64 \<Rightarrow> u64 \<Rightarrow> mem_state \<Rightarrow> mem_state" where
  "vstore a v m = set_word (paging_get_phys m a) v m"

definition kmalloc :: "mem_state \<Rightarrow> u64 \<Rightarrow> u64 \<times> mem_state" where
  "kmalloc m sz =
     (if sz = 0 then (0, m)
      else let header_size = align_up 32 16;
               payload_size = align_up sz 16;
               total_bytes = header_size + payload_size;
               pages = (total_bytes + MEMORY_PAGE_SIZE - 1) div MEMORY_PAGE_SIZE
           in (case virt_alloc_pages m pages of (base, m1) \<Rightarrow>
                 if base = 0 then (0, m1)
                 else (base + header_size,
                       vstore (base + 24) 0 (vstore (base + 16) sz (vstore (base + 8) pages
                         (vstore base KMALLOC_HEADER_MAGIC m1))))))"

definition kfree :: "u64 \<Rightarrow> mem_state \<Rightarrow> mem_state" where
  "kfree ptr m =
     (if ptr = 0 then m
      else let header_size = align_up 32 16 in
        if ptr < MEMORY_VIRT_BASE + header_size \<or> ptr \<ge> MEMORY_VIRT_LIMIT then m
        else let header_addr = ptr - header_size in
          if vload m header_addr \<noteq> KMALLOC_HEADER_MAGIC \<or> vload m (header_addr + 8) = 0 then m
          else let m1 = vstore header_addr 0 m
               in virt_free_pages header_addr (vload m1 (header_addr + 8)) m1)"

definition memory_zero_phys_page :: "u64 \<Rightarrow> mem_state \<Rightarrow> mem_state" where
  "memory_zero_phys_page phys_addr m =
     (if phys_addr AND (MEMORY_PAGE_SIZE - 1) \<noteq> 0 then m
      else (case paging_map_page m MEMORY_TEMP_PAGE_VADDR phys_addr PAGE_FLAG_WRITABLE of (rc, m1) \<Rightarrow>
              if rc \<noteq> 0 then m1
              else paging_unmap_page MEMORY_TEMP_PAGE_VADDR
                     (zero_page (paging_get_phys m1 MEMORY_TEMP_PAGE_VADDR) m1)))"

end
