(* ===== verification/Elf.thy ===== *)
theory Elf
  imports Memory
begin

text \<open>
  The ELF loader, \<open>src/kernel/elf.c\<close>: validation of an image, its symbols, the table of active images,
  loading and unloading. The bytes an image pointer reaches are a function \<open>b\<close> of the address, read
  outside the buffer as well as inside, as the C code would; loading writes through the page tables of
  \<open>Memory\<close>. The visitors take the callback as a function on its context.
\<close>

abbreviation ELF_OK :: int where "ELF_OK \<equiv> 0"
abbreviation ELF_ERR_NULL :: int where "ELF_ERR_NULL \<equiv> -1"
abbreviation ELF_ERR_MAGIC :: int where "ELF_ERR_MAGIC \<equiv> -2"
abbreviation ELF_ERR_CLASS :: int where "ELF_ERR_CLASS \<equiv> -3"
abbreviation ELF_ERR_TYPE :: int where "ELF_ERR_TYPE \<equiv> -4"
abbreviation ELF_ERR_ARCH :: int where "ELF_ERR_ARCH \<equiv> -5"
abbreviation ELF_ERR_PHDR :: int where "ELF_ERR_PHDR \<equiv> -6"
abbreviation ELF_ERR_MAP :: int where "ELF_ERR_MAP \<equiv> -7"
abbreviation ELF_ERR_RANGE :: int where "ELF_ERR_RANGE \<equiv> -8"
abbreviation ELF_ERR_SHDR :: int where "ELF_ERR_SHDR \<equiv> -9"
abbreviation ELF_ERR_NOSYM :: int where "ELF_ERR_NOSYM \<equiv> -10"
abbreviation ELF_ERR_OVERLAP :: int where "ELF_ERR_OVERLAP \<equiv> -11"
abbreviation ELF_ERR_ENTRY :: int where "ELF_ERR_ENTRY \<equiv> -12"
abbreviation ELF_ERR_INTERP :: int where "ELF_ERR_INTERP \<equiv> -13"

abbreviation PT_LOAD :: u32 where "PT_LOAD \<equiv> 1"
abbreviation PT_INTERP :: u32 where "PT_INTERP \<equiv> 3"
abbreviation PF_X :: u32 where "PF_X \<equiv> 1"
abbreviation PF_W :: u32 where "PF_W \<equiv> 2"
abbreviation SHT_SYMTAB :: u32 where "SHT_SYMTAB \<equiv> 2"
abbreviation SHT_STRTAB :: u32 where "SHT_STRTAB \<equiv> 3"
abbreviation SHT_DYNSYM :: u32 where "SHT_DYNSYM \<equiv> 11"
abbreviation ELF_ACTIVE_IMAGE_MAX :: nat where "ELF_ACTIVE_IMAGE_MAX \<equiv> 8"

section \<open>The structures of a file\<close>

record elf64_ehdr =
  e_ident :: "u8 list"
  e_type :: u16
  e_machine :: u16
  e_version :: u32
  e_entry :: u64
  e_phoff :: u64
  e_shoff :: u64
  e_ehsize :: u16
  e_phentsize :: u16
  e_phnum :: u16
  e_shentsize :: u16
  e_shnum :: u16
  e_shstrndx :: u16

record elf64_phdr =
  p_type :: u32
  p_flags :: u32
  p_offset :: u64
  p_vaddr :: u64
  p_filesz :: u64
  p_memsz :: u64
  p_align :: u64

record elf64_shdr =
  sh_name :: u32
  sh_type :: u32
  sh_flags :: u64
  sh_addr :: u64
  sh_offset :: u64
  sh_size :: u64
  sh_link :: u32
  sh_info :: u32
  sh_entsize :: u64

record elf64_sym =
  st_name :: u32
  st_info :: u8
  st_shndx :: u16
  st_value :: u64
  st_size :: u64

type_synonym bytes_at = "u64 \<Rightarrow> u8"

definition rd16_at :: "bytes_at \<Rightarrow> u64 \<Rightarrow> u16" where
  "rd16_at b a = ucast (b a) OR push_bit 8 (ucast (b (a + 1)))"

definition ehdr_at :: "bytes_at \<Rightarrow> u64 \<Rightarrow> elf64_ehdr" where
  "ehdr_at b d = \<lparr>e_ident = map (\<lambda>k. b (d + of_nat k)) [0..<16], e_type = rd16_at b (d + 16),
     e_machine = rd16_at b (d + 18), e_version = rd32_at b (d + 20), e_entry = rd64_at b (d + 24),
     e_phoff = rd64_at b (d + 32), e_shoff = rd64_at b (d + 40), e_ehsize = rd16_at b (d + 52),
     e_phentsize = rd16_at b (d + 54), e_phnum = rd16_at b (d + 56), e_shentsize = rd16_at b (d + 58),
     e_shnum = rd16_at b (d + 60), e_shstrndx = rd16_at b (d + 62)\<rparr>"

definition phdr_at :: "bytes_at \<Rightarrow> u64 \<Rightarrow> elf64_phdr" where
  "phdr_at b a = \<lparr>p_type = rd32_at b a, p_flags = rd32_at b (a + 4), p_offset = rd64_at b (a + 8),
     p_vaddr = rd64_at b (a + 16), p_filesz = rd64_at b (a + 32), p_memsz = rd64_at b (a + 40),
     p_align = rd64_at b (a + 48)\<rparr>"

definition shdr_at :: "bytes_at \<Rightarrow> u64 \<Rightarrow> elf64_shdr" where
  "shdr_at b a = \<lparr>sh_name = rd32_at b a, sh_type = rd32_at b (a + 4), sh_flags = rd64_at b (a + 8),
     sh_addr = rd64_at b (a + 16), sh_offset = rd64_at b (a + 24), sh_size = rd64_at b (a + 32),
     sh_link = rd32_at b (a + 40), sh_info = rd32_at b (a + 44), sh_entsize = rd64_at b (a + 56)\<rparr>"

definition sym_at :: "bytes_at \<Rightarrow> u64 \<Rightarrow> elf64_sym" where
  "sym_at b a = \<lparr>st_name = rd32_at b a, st_info = b (a + 4), st_shndx = rd16_at b (a + 6),
     st_value = rd64_at b (a + 8), st_size = rd64_at b (a + 16)\<rparr>"

section \<open>Helpers\<close>

definition align_up_page :: "u64 \<Rightarrow> u64" where
  "align_up_page v = (v + MEMORY_PAGE_SIZE - 1) AND NOT (MEMORY_PAGE_SIZE - 1)"

definition add_overflows_ulong :: "u64 \<Rightarrow> u64 \<Rightarrow> bool" where
  "add_overflows_ulong a c = (a + c < a)"

definition is_power_of_two_ulong :: "u64 \<Rightarrow> bool" where
  "is_power_of_two_ulong v = (v \<noteq> 0 \<and> v AND (v - 1) = 0)"

definition rollback_mapped_pages :: "(u64 \<times> u64) list \<Rightarrow> mem_state \<Rightarrow> mem_state" where
  "rollback_mapped_pages mapped m = fold (\<lambda>(v, p) m. phys_free_page p (paging_unmap_page v m)) (rev mapped) m"

definition check_magic :: "u8 list \<Rightarrow> bool" where
  "check_magic ident = (ident ! 0 = 0x7F \<and> ident ! 1 = 0x45 \<and> ident ! 2 = 0x4C \<and> ident ! 3 = 0x46)"

definition validate_section_headers :: "elf64_ehdr \<Rightarrow> u64 \<Rightarrow> int" where
  "validate_section_headers e len =
     (if e_shoff e = 0 \<or> e_shnum e = 0 \<or> e_shentsize e < 64 then ELF_ERR_SHDR
      else if e_shoff e \<ge> len then ELF_ERR_SHDR
      else if ucast (e_shnum e) > (len - e_shoff e) div ucast (e_shentsize e) then ELF_ERR_SHDR
      else ELF_OK)"

definition validate_elf64_image :: "bytes_at \<Rightarrow> u64 \<Rightarrow> u64 \<Rightarrow> int" where
  "validate_elf64_image b d len =
     (if d = 0 then ELF_ERR_NULL
      else if len < 64 then ELF_ERR_MAGIC
      else let e = ehdr_at b d in
        if \<not> check_magic (e_ident e) then ELF_ERR_MAGIC
        else if e_ident e ! 4 \<noteq> 2 then ELF_ERR_CLASS
        else if e_ident e ! 5 \<noteq> 1 then ELF_ERR_CLASS
        else if e_ident e ! 6 \<noteq> 1 then ELF_ERR_CLASS
        else if e_type e \<noteq> 2 \<and> e_type e \<noteq> 3 then ELF_ERR_TYPE
        else if e_machine e \<noteq> 62 then ELF_ERR_ARCH
        else if e_version e \<noteq> 1 then ELF_ERR_ARCH
        else if e_ehsize e < 64 then ELF_ERR_CLASS
        else ELF_OK)"

definition section_header_at :: "bytes_at \<Rightarrow> u64 \<Rightarrow> elf64_ehdr \<Rightarrow> u64 \<Rightarrow> elf64_shdr" where
  "section_header_at b d e index = shdr_at b (d + e_shoff e + index * ucast (e_shentsize e))"

text \<open>The characters from \<open>offset\<close> to the first NUL before \<open>size\<close>, none when there is no NUL.\<close>

definition string_at :: "bytes_at \<Rightarrow> u64 \<Rightarrow> u64 \<Rightarrow> u64 \<Rightarrow> u8 list" where
  "string_at b base sz offset =
     (if offset \<ge> sz then []
      else let cs = map (\<lambda>k. b (base + offset + of_nat k)) [0..<unat (sz - offset)]
           in if 0 \<in> set cs then takeWhile (\<lambda>c. c \<noteq> 0) cs else [])"

section \<open>Symbols\<close>

text \<open>A symbol with its name. \<open>section_symbols\<close> is the body the three loops over the sections share: an
  error, or the entries of one symbol table in order (none for a section that is skipped). Only
  \<open>count_symbols\<close> checks the type of the string table.\<close>

record elf_symbol =
  sy_name :: "u8 list"
  sy_value :: u64
  sy_size :: u64
  sy_info :: u8
  sy_shndx :: u16

definition symbol_of :: "bytes_at \<Rightarrow> u64 \<Rightarrow> u64 \<Rightarrow> elf64_sym \<Rightarrow> elf_symbol" where
  "symbol_of b str_base str_size s =
     \<lparr>sy_name = string_at b str_base str_size (ucast (st_name s)), sy_value = st_value s, sy_size = st_size s,
      sy_info = st_info s, sy_shndx = st_shndx s\<rparr>"

definition section_symbols :: "bool \<Rightarrow> bytes_at \<Rightarrow> u64 \<Rightarrow> u64 \<Rightarrow> elf64_ehdr \<Rightarrow> elf64_shdr \<Rightarrow> int + elf_symbol list" where
  "section_symbols check_type b d len e symtab =
     (if sh_type symtab \<noteq> SHT_SYMTAB \<and> sh_type symtab \<noteq> SHT_DYNSYM then Inr []
      else if sh_entsize symtab < 24 \<or> sh_size symtab < sh_entsize symtab then Inr []
      else if sh_offset symtab + sh_size symtab > len then Inl ELF_ERR_SHDR
      else if sh_link symtab \<ge> ucast (e_shnum e) then Inl ELF_ERR_SHDR
      else let strtab = section_header_at b d e (ucast (sh_link symtab)) in
        if check_type \<and> sh_type strtab \<noteq> SHT_STRTAB then Inl ELF_ERR_SHDR
        else if sh_offset strtab + sh_size strtab > len then Inl ELF_ERR_SHDR
        else Inr (map (\<lambda>j. symbol_of b (d + sh_offset strtab) (sh_size strtab)
                          (sym_at b (d + sh_offset symtab + of_nat j * sh_entsize symtab)))
                    [0..<unat (sh_size symtab div sh_entsize symtab)]))"

definition sections :: "bytes_at \<Rightarrow> u64 \<Rightarrow> elf64_ehdr \<Rightarrow> elf64_shdr list" where
  "sections b d e = map (\<lambda>i. section_header_at b d e (of_nat i)) [0..<unat (e_shnum e)]"

text \<open>Named and defined: the two tests that begin each inner loop.\<close>

definition usable_symbol :: "elf_symbol \<Rightarrow> bool" where
  "usable_symbol s = (sy_name s \<noteq> [] \<and> sy_shndx s \<noteq> 0)"

fun count_loop :: "bytes_at \<Rightarrow> u64 \<Rightarrow> u64 \<Rightarrow> elf64_ehdr \<Rightarrow> elf64_shdr list \<Rightarrow> u64 \<Rightarrow> int + u64" where
  "count_loop b d len e [] count = Inr count"
| "count_loop b d len e (sh # shs) count =
     (case section_symbols True b d len e sh of
        Inl rc \<Rightarrow> Inl rc
      | Inr syms \<Rightarrow> count_loop b d len e shs (fold (\<lambda>s c. if usable_symbol s then c + 1 else c) syms count))"

text \<open>The result and \<open>*out_count\<close>.\<close>

definition count_symbols :: "bytes_at \<Rightarrow> u64 \<Rightarrow> u64 \<Rightarrow> elf64_ehdr \<Rightarrow> int \<times> u64" where
  "count_symbols b d len e =
     (if validate_section_headers e len \<noteq> ELF_OK then (ELF_ERR_SHDR, 0)
      else (case count_loop b d len e (sections b d e) 0 of
              Inl rc \<Rightarrow> (rc, 0)
            | Inr count \<Rightarrow> if count = 0 then (ELF_ERR_NOSYM, 0) else (ELF_OK, count)))"

section \<open>Program headers\<close>

definition get_program_header_window :: "elf64_ehdr \<Rightarrow> u64 \<Rightarrow> int" where
  "get_program_header_window e len =
     (if e_phoff e = 0 \<or> e_phnum e = 0 \<or> e_phentsize e < 56 then ELF_ERR_PHDR
      else if e_phoff e \<ge> len then ELF_ERR_PHDR
      else if ucast (e_phnum e) > (len - e_phoff e) div ucast (e_phentsize e) then ELF_ERR_PHDR
      else ELF_OK)"

definition phdr_addr :: "u64 \<Rightarrow> elf64_ehdr \<Rightarrow> nat \<Rightarrow> u64" where
  "phdr_addr d e i = d + e_phoff e + of_nat i * ucast (e_phentsize e)"

definition phdrs :: "bytes_at \<Rightarrow> u64 \<Rightarrow> elf64_ehdr \<Rightarrow> elf64_phdr list" where
  "phdrs b d e = map (\<lambda>i. phdr_at b (phdr_addr d e i)) [0..<unat (e_phnum e)]"

definition load_range_step :: "elf64_phdr \<Rightarrow> u64 \<times> u64 \<Rightarrow> u64 \<times> u64" where
  "load_range_step ph r =
     (case r of (base, stop) \<Rightarrow>
        if p_type ph \<noteq> PT_LOAD \<or> p_memsz ph = 0 then (base, stop)
        else let seg_end = p_vaddr ph + p_memsz ph
             in (if base = 0 \<or> p_vaddr ph < base then p_vaddr ph else base, if seg_end > stop then seg_end else stop))"

definition collect_load_range :: "bytes_at \<Rightarrow> u64 \<Rightarrow> elf64_ehdr \<Rightarrow> u64 \<times> u64" where
  "collect_load_range b d e = fold load_range_step (phdrs b d e) (0, 0)"

definition page_floor :: "u64 \<Rightarrow> u64" where
  "page_floor v = v AND NOT (MEMORY_PAGE_SIZE - 1)"

text \<open>The loop over the later headers, and the loop over all of them; \<open>ELF_OK\<close> means it ran to its end.\<close>

fun check_overlaps :: "u64 \<Rightarrow> u64 \<Rightarrow> elf64_phdr list \<Rightarrow> int" where
  "check_overlaps page_start page_end [] = ELF_OK"
| "check_overlaps page_start page_end (q # qs) =
     (if p_type q \<noteq> PT_LOAD \<or> p_memsz q = 0 then check_overlaps page_start page_end qs
      else if add_overflows_ulong (p_vaddr q) (p_memsz q) then ELF_ERR_RANGE
      else if page_start < align_up_page (p_vaddr q + p_memsz q) \<and> page_floor (p_vaddr q) < page_end then ELF_ERR_OVERLAP
      else check_overlaps page_start page_end qs)"

definition check_segment :: "u64 \<Rightarrow> elf64_phdr \<Rightarrow> elf64_phdr list \<Rightarrow> int" where
  "check_segment len ph later =
     (if p_offset ph + p_filesz ph > len then ELF_ERR_RANGE
      else if p_memsz ph < p_filesz ph then ELF_ERR_RANGE
      else if p_memsz ph = 0 then ELF_OK
      else if add_overflows_ulong (p_vaddr ph) (p_memsz ph) then ELF_ERR_RANGE
      else if add_overflows_ulong (p_offset ph) (p_filesz ph) then ELF_ERR_RANGE
      else if p_align ph > 1 \<and> \<not> is_power_of_two_ulong (p_align ph) then ELF_ERR_PHDR
      else if p_align ph > 1 \<and> p_vaddr ph AND (p_align ph - 1) \<noteq> p_offset ph AND (p_align ph - 1) then ELF_ERR_PHDR
      else check_overlaps (page_floor (p_vaddr ph)) (align_up_page (p_vaddr ph + p_memsz ph)) later)"

fun check_segments :: "u64 \<Rightarrow> elf64_phdr list \<Rightarrow> int" where
  "check_segments len [] = ELF_OK"
| "check_segments len (ph # phs) =
     (if p_type ph \<noteq> PT_LOAD then check_segments len phs
      else if check_segment len ph phs \<noteq> ELF_OK then check_segment len ph phs
      else check_segments len phs)"

definition entry_in :: "u64 \<Rightarrow> elf64_phdr \<Rightarrow> bool" where
  "entry_in entry ph =
     (\<not> (p_type ph \<noteq> PT_LOAD \<or> p_memsz ph = 0) \<and> entry \<ge> p_vaddr ph \<and> entry < p_vaddr ph + p_memsz ph)"

definition validate_load_segments :: "bytes_at \<Rightarrow> u64 \<Rightarrow> u64 \<Rightarrow> elf64_ehdr \<Rightarrow> int" where
  "validate_load_segments b d len e =
     (let phs = phdrs b d e in
      if \<exists>ph \<in> set phs. p_type ph = PT_INTERP then ELF_ERR_INTERP
      else if check_segments len phs \<noteq> ELF_OK then check_segments len phs
      else if \<not> (\<exists>ph \<in> set phs. p_type ph = PT_LOAD) then ELF_ERR_PHDR
      else if \<exists>ph \<in> set phs. entry_in (e_entry e) ph then ELF_OK
      else ELF_ERR_ENTRY)"

end
