(* ===== verification/Elf_Load.thy ===== *)
theory Elf_Load
  imports Elf
begin

text \<open>
  The public calls of \<open>src/kernel/elf.c\<close>: image information, the visitors, symbol lookup, the table of
  active images, loading and unloading.
\<close>

section \<open>Active images\<close>

record elf_active_image =
  im_used :: bool
  im_data :: u64
  im_len :: u64
  im_load_bias :: u64
  im_load_base :: u64
  im_load_end :: u64

definition is_image :: "u64 \<Rightarrow> u64 \<Rightarrow> elf_active_image \<Rightarrow> bool" where
  "is_image d len im = (im_used im \<and> im_data im = d \<and> im_len im = len)"

fun find_active_image_bias :: "elf_active_image list \<Rightarrow> u64 \<Rightarrow> u64 \<Rightarrow> u64" where
  "find_active_image_bias [] d len = 0"
| "find_active_image_bias (im # ims) d len =
     (if is_image d len im then im_load_bias im else find_active_image_bias ims d len)"

text \<open>The index of the entry a loop stops at, the length when it runs to the end.\<close>

fun index_where :: "('a \<Rightarrow> bool) \<Rightarrow> 'a list \<Rightarrow> nat" where
  "index_where P [] = 0"
| "index_where P (x # xs) = (if P x then 0 else Suc (index_where P xs))"

definition register_active_image :: "u64 \<Rightarrow> u64 \<Rightarrow> u64 \<Rightarrow> u64 \<Rightarrow> u64 \<Rightarrow> elf_active_image list \<Rightarrow> elf_active_image list" where
  "register_active_image d len bias base stop ims =
     (if d = 0 \<or> len = 0 \<or> stop \<le> base then ims
      else let i = index_where (is_image d len) ims; free_slot = index_where (\<lambda>im. \<not> im_used im) ims in
        if i < length ims then ims[i := (ims ! i)\<lparr>im_load_bias := bias, im_load_base := base, im_load_end := stop\<rparr>]
        else if free_slot = length ims then ims
        else ims[free_slot := \<lparr>im_used = True, im_data = d, im_len = len, im_load_bias = bias, im_load_base = base, im_load_end = stop\<rparr>])"

definition unregister_active_image :: "u64 \<Rightarrow> u64 \<Rightarrow> elf_active_image list \<Rightarrow> elf_active_image list" where
  "unregister_active_image d len ims =
     (let i = index_where (is_image d len) ims in
      if i < length ims
      then ims[i := \<lparr>im_used = False, im_data = 0, im_len = 0, im_load_bias = 0, im_load_base = 0, im_load_end = 0\<rparr>]
      else ims)"

section \<open>Information\<close>

record elf_info =
  inf_type :: u16
  inf_machine :: u16
  inf_phnum :: u16
  inf_shnum :: u16
  inf_entry :: u64
  inf_load_base :: u64
  inf_load_end :: u64
  inf_symbol_count :: u64

definition elf_get_info :: "bytes_at \<Rightarrow> u64 \<Rightarrow> u64 \<Rightarrow> elf_info \<Rightarrow> int \<times> elf_info" where
  "elf_get_info b d len out =
     (let rc = validate_elf64_image b d len in
      if rc \<noteq> ELF_OK then (rc, out)
      else let e = ehdr_at b d;
               out1 = \<lparr>inf_type = e_type e, inf_machine = e_machine e, inf_phnum = e_phnum e, inf_shnum = e_shnum e,
                       inf_entry = e_entry e, inf_load_base = 0, inf_load_end = 0, inf_symbol_count = 0\<rparr>
        in if e_phoff e \<noteq> 0 \<and> e_phnum e \<noteq> 0 \<and> get_program_header_window e len \<noteq> ELF_OK
           then (get_program_header_window e len, out1)
           else let out2 = (if e_phoff e \<noteq> 0 \<and> e_phnum e \<noteq> 0
                            then out1\<lparr>inf_load_base := fst (collect_load_range b d e), inf_load_end := snd (collect_load_range b d e)\<rparr>
                            else out1);
                    (rc2, count) = count_symbols b d len e;
                    out3 = out2\<lparr>inf_symbol_count := count\<rparr>
             in if rc2 \<noteq> ELF_OK \<and> rc2 \<noteq> ELF_ERR_NOSYM then (rc2, out3)
                else (ELF_OK, if rc2 = ELF_ERR_NOSYM then out3\<lparr>inf_symbol_count := 0\<rparr> else out3))"

section \<open>Visitors\<close>

text \<open>A visitor takes an item and its context and answers whether to stop, with the new context.\<close>

fun visit_all :: "('a \<Rightarrow> 'c \<Rightarrow> bool \<times> 'c) \<Rightarrow> 'a list \<Rightarrow> 'c \<Rightarrow> bool \<times> 'c" where
  "visit_all v [] c = (False, c)"
| "visit_all v (x # xs) c = (case v x c of (stop, c') \<Rightarrow> if stop then (True, c') else visit_all v xs c')"

definition elf_visit_program_headers ::
    "bytes_at \<Rightarrow> u64 \<Rightarrow> u64 \<Rightarrow> (nat \<times> elf64_phdr \<Rightarrow> 'c \<Rightarrow> bool \<times> 'c) \<Rightarrow> 'c \<Rightarrow> int \<times> 'c" where
  "elf_visit_program_headers b d len visit ctx =
     (let rc = validate_elf64_image b d len; e = ehdr_at b d in
      if rc \<noteq> ELF_OK then (rc, ctx)
      else if get_program_header_window e len \<noteq> ELF_OK then (get_program_header_window e len, ctx)
      else (ELF_OK, snd (visit_all visit (List.enumerate 0 (phdrs b d e)) ctx)))"

fun visit_sections :: "bytes_at \<Rightarrow> u64 \<Rightarrow> u64 \<Rightarrow> (nat \<times> u8 list \<times> elf64_shdr \<Rightarrow> 'c \<Rightarrow> bool \<times> 'c) \<Rightarrow> (u32 \<Rightarrow> u8 list) \<Rightarrow>
    nat \<Rightarrow> elf64_shdr list \<Rightarrow> 'c \<Rightarrow> int \<times> 'c" where
  "visit_sections b d len visit name_of i [] ctx = (ELF_OK, ctx)"
| "visit_sections b d len visit name_of i (sh # shs) ctx =
     (if sh_offset sh + sh_size sh > len \<and> sh_type sh \<noteq> 8 then (ELF_ERR_SHDR, ctx)
      else (case visit (i, name_of (sh_name sh), sh) ctx of
              (stop, ctx') \<Rightarrow> if stop then (ELF_OK, ctx')
                             else visit_sections b d len visit name_of (i + 1) shs ctx'))"

definition elf_visit_sections ::
    "bytes_at \<Rightarrow> u64 \<Rightarrow> u64 \<Rightarrow> (nat \<times> u8 list \<times> elf64_shdr \<Rightarrow> 'c \<Rightarrow> bool \<times> 'c) \<Rightarrow> 'c \<Rightarrow> int \<times> 'c" where
  "elf_visit_sections b d len visit ctx =
     (let rc = validate_elf64_image b d len; e = ehdr_at b d in
      if rc \<noteq> ELF_OK then (rc, ctx)
      else if validate_section_headers e len \<noteq> ELF_OK then (validate_section_headers e len, ctx)
      else if e_shstrndx e < e_shnum e then
        let shstr = section_header_at b d e (ucast (e_shstrndx e)) in
        if sh_type shstr \<noteq> SHT_STRTAB then (ELF_ERR_SHDR, ctx)
        else if sh_offset shstr + sh_size shstr > len then (ELF_ERR_SHDR, ctx)
        else visit_sections b d len visit (\<lambda>n. string_at b (d + sh_offset shstr) (sh_size shstr) (ucast n)) 0 (sections b d e) ctx
      else visit_sections b d len visit (\<lambda>n. []) 0 (sections b d e) ctx)"

text \<open>The number of symbols visited so far, and whether the visitor stopped the walk.\<close>

fun visit_symbol_list :: "(elf_symbol \<Rightarrow> 'c \<Rightarrow> bool \<times> 'c) \<Rightarrow> elf_symbol list \<Rightarrow> u64 \<Rightarrow> 'c \<Rightarrow> bool \<times> u64 \<times> 'c" where
  "visit_symbol_list visit [] visited ctx = (False, visited, ctx)"
| "visit_symbol_list visit (s # ss) visited ctx =
     (if \<not> usable_symbol s then visit_symbol_list visit ss visited ctx
      else (case visit s ctx of
              (stop, ctx') \<Rightarrow> if stop then (True, visited + 1, ctx') else visit_symbol_list visit ss (visited + 1) ctx'))"

fun visit_symbol_sections :: "bytes_at \<Rightarrow> u64 \<Rightarrow> u64 \<Rightarrow> elf64_ehdr \<Rightarrow> (elf_symbol \<Rightarrow> 'c \<Rightarrow> bool \<times> 'c) \<Rightarrow>
    elf64_shdr list \<Rightarrow> u64 \<Rightarrow> 'c \<Rightarrow> int \<times> 'c" where
  "visit_symbol_sections b d len e visit [] visited ctx = (if visited = 0 then ELF_ERR_NOSYM else ELF_OK, ctx)"
| "visit_symbol_sections b d len e visit (sh # shs) visited ctx =
     (case section_symbols False b d len e sh of
        Inl rc \<Rightarrow> (rc, ctx)
      | Inr syms \<Rightarrow> (case visit_symbol_list visit syms visited ctx of
          (stop, visited', ctx') \<Rightarrow> if stop then (ELF_OK, ctx') else visit_symbol_sections b d len e visit shs visited' ctx'))"

definition elf_visit_symbols :: "bytes_at \<Rightarrow> u64 \<Rightarrow> u64 \<Rightarrow> (elf_symbol \<Rightarrow> 'c \<Rightarrow> bool \<times> 'c) \<Rightarrow> 'c \<Rightarrow> int \<times> 'c" where
  "elf_visit_symbols b d len visit ctx =
     (let rc = validate_elf64_image b d len; e = ehdr_at b d in
      if rc \<noteq> ELF_OK then (rc, ctx)
      else if validate_section_headers e len \<noteq> ELF_OK then (validate_section_headers e len, ctx)
      else visit_symbol_sections b d len e visit (sections b d e) 0 ctx)"

section \<open>Symbol lookup\<close>

record best_symbol =
  found_containing :: bool
  found_preceding :: bool
  best_sym :: elf_symbol
  best_offset :: u64

definition consider_symbol :: "u64 \<Rightarrow> elf_symbol \<Rightarrow> best_symbol \<Rightarrow> best_symbol" where
  "consider_symbol addr s best =
     (if \<not> usable_symbol s \<or> addr < sy_value s then best
      else if sy_info s AND 0x0F \<notin> {2, 1, 0} then best
      else if sy_size s \<noteq> 0 \<and> addr < sy_value s + sy_size s then
        (if \<not> found_containing best \<or> sy_value s > sy_value (best_sym best)
         then best\<lparr>best_sym := s, best_offset := addr - sy_value s, found_containing := True\<rparr> else best)
      else if \<not> found_containing best \<and> (\<not> found_preceding best \<or> sy_value s > sy_value (best_sym best))
      then best\<lparr>best_sym := s, best_offset := addr - sy_value s, found_preceding := True\<rparr>
      else best)"

fun find_loop :: "bytes_at \<Rightarrow> u64 \<Rightarrow> u64 \<Rightarrow> elf64_ehdr \<Rightarrow> u64 \<Rightarrow> elf64_shdr list \<Rightarrow> best_symbol \<Rightarrow> int + best_symbol" where
  "find_loop b d len e addr [] best = Inr best"
| "find_loop b d len e addr (sh # shs) best =
     (case section_symbols False b d len e sh of
        Inl rc \<Rightarrow> Inl rc
      | Inr syms \<Rightarrow> find_loop b d len e addr shs (fold (consider_symbol addr) syms best))"

text \<open>The uninitialised \<open>best_sym\<close> is not read before it is set; any value stands for it here.\<close>

definition no_symbol :: best_symbol where
  "no_symbol = \<lparr>found_containing = False, found_preceding = False,
     best_sym = \<lparr>sy_name = [], sy_value = 0, sy_size = 0, sy_info = 0, sy_shndx = 0\<rparr>, best_offset = 0\<rparr>"

definition elf_find_symbol_by_addr :: "bytes_at \<Rightarrow> u64 \<Rightarrow> u64 \<Rightarrow> u64 \<Rightarrow> int + (elf_symbol \<times> u64)" where
  "elf_find_symbol_by_addr b d len addr =
     (let rc = validate_elf64_image b d len; e = ehdr_at b d in
      if rc \<noteq> ELF_OK then Inl rc
      else if validate_section_headers e len \<noteq> ELF_OK then Inl (validate_section_headers e len)
      else (case find_loop b d len e addr (sections b d e) no_symbol of
              Inl rc \<Rightarrow> Inl rc
            | Inr best \<Rightarrow> if \<not> found_containing best \<and> \<not> found_preceding best then Inl ELF_ERR_NOSYM
                          else Inr (best_sym best, best_offset best)))"

text \<open>The symbol, its offset, and the range of the image.\<close>

fun elf_symbolize_active_addr :: "bytes_at \<Rightarrow> u64 \<Rightarrow> elf_active_image list \<Rightarrow> int + (elf_symbol \<times> u64 \<times> u64 \<times> u64)" where
  "elf_symbolize_active_addr b addr [] = Inl ELF_ERR_NOSYM"
| "elf_symbolize_active_addr b addr (im # ims) =
     (if \<not> im_used im then elf_symbolize_active_addr b addr ims
      else if addr < im_load_base im \<or> addr \<ge> im_load_end im then elf_symbolize_active_addr b addr ims
      else if im_load_bias im \<noteq> 0 \<and> addr < im_load_bias im then elf_symbolize_active_addr b addr ims
      else (case elf_find_symbol_by_addr b (im_data im) (im_len im) (if im_load_bias im \<noteq> 0 then addr - im_load_bias im else addr) of
              Inl rc \<Rightarrow> elf_symbolize_active_addr b addr ims
            | Inr (s, off) \<Rightarrow> Inr (s, off, im_load_base im, im_load_end im)))"

section \<open>Loading\<close>

definition copy_in :: "bytes_at \<Rightarrow> u64 \<Rightarrow> u64 \<Rightarrow> u64 \<Rightarrow> mem_state \<Rightarrow> mem_state" where
  "copy_in b dst src n m = fold (\<lambda>k. vstore_byte (dst + of_nat k) (b (src + of_nat k))) [0..<unat n] m"

definition final_flags :: "elf64_phdr \<Rightarrow> u64" where
  "final_flags ph =
     (PAGE_FLAG_PRESENT OR PAGE_FLAG_USER) OR (if p_flags ph AND PF_W \<noteq> 0 then PAGE_FLAG_WRITABLE else 0)
       OR (if p_flags ph AND PF_X = 0 then PAGE_FLAG_NO_EXECUTE else 0)"

text \<open>The body of the page loop: the result code, the memory, and the pages mapped so far.\<close>

definition load_page :: "bytes_at \<Rightarrow> u64 \<Rightarrow> elf64_phdr \<Rightarrow> u64 \<Rightarrow> u64 \<Rightarrow> u64 \<Rightarrow> mem_state \<times> (u64 \<times> u64) list \<Rightarrow>
    int \<times> mem_state \<times> (u64 \<times> u64) list" where
  "load_page b d ph bias vaddr_start page st =
     (let (m, mapped) = st;
          (rc0, m0) = (if paging_get_phys m page \<noteq> 0
                       then (case paging_split_huge_page m page of (rc, m') \<Rightarrow>
                               if rc \<noteq> 0 then (ELF_ERR_MAP, m')
                               else let m'' = paging_unmap_page page m'
                                    in (if paging_get_phys m'' page \<noteq> 0 then ELF_ERR_MAP else ELF_OK, m''))
                       else (ELF_OK, m))
      in if rc0 \<noteq> ELF_OK then (ELF_ERR_MAP, rollback_mapped_pages mapped m0, mapped)
         else let (phys, m1) = phys_alloc_page m0 in
           if phys = 0 then (ELF_ERR_MAP, rollback_mapped_pages mapped m1, mapped)
           else let (rc, m2) = paging_map_page m1 page phys (PAGE_FLAG_PRESENT OR PAGE_FLAG_WRITABLE OR PAGE_FLAG_USER) in
             if rc \<noteq> 0 then (ELF_ERR_MAP, rollback_mapped_pages mapped (phys_free_page phys m2), mapped)
             else if length mapped \<ge> 1024
             then (ELF_ERR_MAP, rollback_mapped_pages mapped (phys_free_page phys (paging_unmap_page page m2)), mapped)
             else let mapped' = mapped @ [(page, phys)];
                      m3 = zero_page (paging_get_phys m2 page) m2;
                      page_off = page - vaddr_start;
                      copy_end = page_off + MEMORY_PAGE_SIZE;
                      seg_file_start = (p_vaddr ph + bias) - vaddr_start;
                      seg_file_end = seg_file_start + p_filesz ph
               in if copy_end \<le> seg_file_start \<or> page_off \<ge> seg_file_end then (ELF_OK, m3, mapped')
                  else let clamp_start = (if page_off < seg_file_start then seg_file_start else page_off);
                           clamp_end = (if copy_end > seg_file_end then seg_file_end else copy_end);
                           src_base = d + p_offset ph - seg_file_start;
                           m4 = copy_in b (page + (clamp_start - page_off)) (src_base + clamp_start) (clamp_end - clamp_start) m3;
                           (rc5, m5) = paging_set_page_flags m4 page (final_flags ph)
                    in if rc5 \<noteq> 0 then (ELF_ERR_MAP, rollback_mapped_pages mapped' m5, mapped') else (ELF_OK, m5, mapped'))"

fun load_pages :: "bytes_at \<Rightarrow> u64 \<Rightarrow> elf64_phdr \<Rightarrow> u64 \<Rightarrow> u64 \<Rightarrow> u64 list \<Rightarrow> mem_state \<times> (u64 \<times> u64) list \<Rightarrow>
    int \<times> mem_state \<times> (u64 \<times> u64) list" where
  "load_pages b d ph bias vaddr_start [] st = (ELF_OK, st)"
| "load_pages b d ph bias vaddr_start (page # pages) st =
     (case load_page b d ph bias vaddr_start page st of
        (rc, st') \<Rightarrow> if rc \<noteq> ELF_OK then (rc, st') else load_pages b d ph bias vaddr_start pages st')"

fun load_segments :: "bytes_at \<Rightarrow> u64 \<Rightarrow> u64 \<Rightarrow> elf64_ehdr \<Rightarrow> u64 \<Rightarrow> nat list \<Rightarrow> mem_state \<times> (u64 \<times> u64) list \<Rightarrow>
    int \<times> mem_state \<times> (u64 \<times> u64) list" where
  "load_segments b d len e bias [] st = (ELF_OK, st)"
| "load_segments b d len e bias (i # is) st =
     (let ph = phdr_at b (phdr_addr d e i) in
      if p_type ph \<noteq> PT_LOAD then load_segments b d len e bias is st
      else if e_phoff e + of_nat i * ucast (e_phentsize e) + 56 > len then (ELF_ERR_PHDR, st)
      else if p_memsz ph = 0 then load_segments b d len e bias is st
      else let vaddr_start = page_floor (p_vaddr ph + bias);
               vaddr_end = align_up_page (p_vaddr ph + bias + p_memsz ph)
           in (case load_pages b d ph bias vaddr_start (page_range vaddr_start vaddr_end) st of
                 (rc, st') \<Rightarrow> if rc \<noteq> ELF_OK then (rc, st') else load_segments b d len e bias is st'))"

record elf_exec =
  ex_entry :: u64
  ex_load_base :: u64
  ex_load_end :: u64

record elf_state =
  el_mem :: mem_state
  el_images :: "elf_active_image list"

definition elf_load :: "bytes_at \<Rightarrow> u64 \<Rightarrow> u64 \<Rightarrow> elf_exec \<Rightarrow> elf_state \<Rightarrow> int \<times> elf_exec \<times> elf_state" where
  "elf_load b d len out s =
     (if d = 0 \<or> len < 64 then (ELF_ERR_NULL, out, s)
      else let e = ehdr_at b d in
        if \<not> check_magic (e_ident e) then (ELF_ERR_MAGIC, out, s)
        else if e_ident e ! 4 \<noteq> 2 then (ELF_ERR_CLASS, out, s)
        else if e_type e \<noteq> 2 \<and> e_type e \<noteq> 3 then (ELF_ERR_TYPE, out, s)
        else if e_machine e \<noteq> 62 then (ELF_ERR_ARCH, out, s)
        else let bias = (if e_type e = 3 then 0xFFFF900003800000 else 0) in
          if get_program_header_window e len \<noteq> ELF_OK then (ELF_ERR_PHDR, out, s)
          else if validate_load_segments b d len e \<noteq> ELF_OK then (validate_load_segments b d len e, out, s)
          else (case load_segments b d len e bias [0..<unat (e_phnum e)] (el_mem s, []) of
            (rc, m, mapped) \<Rightarrow>
              if rc \<noteq> ELF_OK then (rc, out, s\<lparr>el_mem := m\<rparr>)
              else let (base, stop) = collect_load_range b d e;
                       (base', stop') = (if stop > base then (base + bias, stop + bias) else (base, stop))
                   in (ELF_OK,
                       \<lparr>ex_entry = e_entry e + bias, ex_load_base = (if stop > base then base' else 0),
                        ex_load_end = (if stop > base then stop' else 0)\<rparr>,
                       \<lparr>el_mem = m, el_images = register_active_image d len bias base' stop' (el_images s)\<rparr>)))"

section \<open>Unloading\<close>

definition unload_segment :: "u64 \<Rightarrow> elf64_phdr \<Rightarrow> mem_state \<Rightarrow> mem_state" where
  "unload_segment bias ph m =
     (if p_type ph \<noteq> PT_LOAD then m
      else fold release_mapping (page_range (page_floor (p_vaddr ph + bias)) (align_up_page (p_vaddr ph + bias + p_memsz ph))) m)"

definition elf_unload :: "bytes_at \<Rightarrow> u64 \<Rightarrow> u64 \<Rightarrow> elf_state \<Rightarrow> elf_state" where
  "elf_unload b d len s =
     (if d = 0 \<or> len < 64 then s
      else let e = ehdr_at b d in
        if \<not> check_magic (e_ident e) \<or> e_ident e ! 4 \<noteq> 2 \<or> get_program_header_window e len \<noteq> ELF_OK then s
        else let bias = find_active_image_bias (el_images s) d len
             in \<lparr>el_mem = fold (unload_segment bias) (phdrs b d e) (el_mem s),
                 el_images = unregister_active_image d len (el_images s)\<rparr>)"

end
