(* ===== verification/Elf_Props.thy ===== *)
theory Elf_Props
  imports Elf_Load
begin

text \<open>
  What the checks of \<open>src/kernel/elf.c\<close> give: the headers they accept lie in the buffer, the segments they
  accept lie in the file and apart in memory, and symbol lookup finds the best symbol. The checks on the
  sections are weaker: a sum wraps around.
\<close>

section \<open>Words\<close>

lemma add_no_wrap:
  assumes "\<not> add_overflows_ulong a c"
  shows "unat (a + c) = unat a + unat c" and "unat a + unat c < 18446744073709551616"
proof -
  have "a \<le> a + c" using assms by (simp add: add_overflows_ulong_def)
  then have "unat (a + c) = unat a + unat c" by (simp add: unat_plus_simple)
  then show "unat (a + c) = unat a + unat c" and "unat a + unat c < 18446744073709551616"
    using unat_bounds(4) [of "a + c"] by simp_all
qed

lemma unat_low_bits: "unat (v AND 4095 :: u64) = unat v mod 4096"
proof -
  have "v AND 4095 = take_bit 12 v" by (simp add: take_bit_eq_mask mask_eq_exp_minus_1)
  moreover have "unat (take_bit 12 v) = take_bit 12 (unat v)" by (rule unsigned_take_bit_eq)
  ultimately show ?thesis by (simp only:) (simp add: take_bit_eq_mod)
qed

lemma split_mask: "(v AND NOT m) + (v AND m) = (v :: u64)"
proof -
  have "(v AND NOT m) + (v AND m) = (v AND NOT m) OR (v AND m)"
    by (rule disjunctive_add) (auto simp: bit_and_iff bit_not_iff)
  also have "\<dots> = v" by (rule bit_word_eqI) (auto simp: bit_or_iff bit_and_iff bit_not_iff)
  finally show ?thesis .
qed

lemma unat_clear_low: "unat (v AND NOT 4095 :: u64) = unat v div 4096 * 4096"
proof -
  have s: "(v AND NOT 4095) + (v AND 4095) = v" by (rule split_mask)
  have le: "v AND NOT 4095 \<le> v" by (rule word_and_le2)
  then have "unat v = unat (v AND NOT 4095) + unat (v AND 4095)"
    using s unat_plus_simple [of "v AND NOT 4095" "v AND 4095"] by simp
  then show ?thesis using unat_low_bits [of v] by (simp add: minus_mod_eq_div_mult [symmetric])
qed

lemma unat_page_floor: "unat (page_floor v) = unat v div 4096 * 4096"
  using unat_clear_low [of v] by (simp add: page_floor_def)

lemma unat_align_up_page:
  assumes "unat v \<le> 18446744073709547520"
  shows "unat (align_up_page v) = (unat v + 4095) div 4096 * 4096"
proof -
  have "unat (v + 4095) = unat v + 4095" using assms by (subst unat_add_lem [THEN iffD1]) simp_all
  then show ?thesis using unat_clear_low [of "v + 4095"] by (simp add: align_up_page_def add.commute)
qed

section \<open>Header tables\<close>

lemma table_inside:
  assumes "off < len" and "count \<le> (len - off) div es" and "i < unat count"
  shows "unat off + i * unat (es :: u64) + unat es \<le> unat len"
proof -
  have "unat count \<le> unat ((len - off) div es)" using assms(2) by (simp add: word_le_nat_alt)
  also have "\<dots> = (unat len - unat off) div unat es"
    using assms(1) by (simp add: unat_div unat_sub order_less_imp_le)
  finally have "Suc i \<le> (unat len - unat off) div unat es" using assms(3) by simp
  then have "Suc i * unat es \<le> unat len - unat off"
    by (rule order_trans [OF mult_le_mono1]) simp
  then show ?thesis using assms(1) by (simp add: word_less_nat_alt)
qed

lemma phdr_inside:
  assumes "get_program_header_window e len = ELF_OK" and "i < unat (e_phnum e)"
  shows "unat (e_phoff e) + i * unat (e_phentsize e) + 56 \<le> unat len"
proof -
  have w: "e_phoff e < len" "ucast (e_phnum e) \<le> (len - e_phoff e) div ucast (e_phentsize e)" "56 \<le> e_phentsize e"
    using assms(1) by (auto simp: get_program_header_window_def split: if_splits)
  have "unat (ucast (e_phnum e) :: u64) = unat (e_phnum e)" "unat (ucast (e_phentsize e) :: u64) = unat (e_phentsize e)"
    using unat_bounds(2) [of "e_phnum e"] unat_bounds(2) [of "e_phentsize e"]
    by (simp_all add: unsigned_ucast_eq take_bit_nat_eq_self)
  moreover have "56 \<le> unat (e_phentsize e)" using w(3) by (simp add: word_le_nat_alt)
  ultimately show ?thesis using table_inside [OF w(1,2), of i] assms(2) by simp
qed

lemma unat_upcast16 [simp]: "unat (ucast (x :: u16) :: u64) = unat x"
  using unat_bounds(2) [of x] by (simp add: unsigned_ucast_eq take_bit_nat_eq_self)

lemma shdr_inside:
  assumes "validate_section_headers e len = ELF_OK" and "i < unat (e_shnum e)"
  shows "unat (e_shoff e) + i * unat (e_shentsize e) + 64 \<le> unat len"
proof -
  have w: "e_shoff e < len" "ucast (e_shnum e) \<le> (len - e_shoff e) div ucast (e_shentsize e)" "64 \<le> e_shentsize e"
    using assms(1) by (auto simp: validate_section_headers_def split: if_splits)
  have "64 \<le> unat (e_shentsize e)" using w(3) by (simp add: word_le_nat_alt)
  then show ?thesis using table_inside [OF w(1,2), of i] assms(2) by simp
qed

lemma unat_table_addr:
  assumes "unat (d :: u64) + unat (len :: u64) \<le> 18446744073709551616" and "unat (off :: u64) + i * unat es + n \<le> unat len" and "0 < n"
  shows "unat (d + off + of_nat i * ucast (es :: u16)) = unat d + unat off + i * unat es"
proof -
  have b: "unat d + unat off + i * unat es < 18446744073709551616" using assms by simp
  have "unat (of_nat i * ucast es :: u64) = i * unat es"
  proof -
    have "(of_nat i * ucast es :: u64) = of_nat (i * unat es)" by simp
    moreover have "i * unat es < 18446744073709551616" using b by simp
    ultimately show ?thesis by (simp only: unat_of_nat) simp
  qed
  moreover have "unat (d + off) = unat d + unat off" using b by (subst unat_add_lem [THEN iffD1]) simp_all
  ultimately show ?thesis using b by (subst unat_add_lem [THEN iffD1]) simp_all
qed

text \<open>C39: A header table the window checks accept lies in the buffer: for every index below the count the
  program header (56 bytes) and the section header (64 bytes) end within \<open>len\<close>, and when the buffer does
  not wrap around the address space the address computed for it is that of the header, none of the
  64-bit additions and products wrapping.\<close>

theorem headers_inside:
  assumes "unat d + unat len \<le> 18446744073709551616"
  shows "(get_program_header_window e len = ELF_OK \<longrightarrow> (\<forall>i < unat (e_phnum e).
      unat (e_phoff e) + i * unat (e_phentsize e) + 56 \<le> unat len \<and>
      unat (phdr_addr d e i) = unat d + unat (e_phoff e) + i * unat (e_phentsize e))) \<and>
    (validate_section_headers e len = ELF_OK \<longrightarrow> (\<forall>i < unat (e_shnum e).
      unat (e_shoff e) + i * unat (e_shentsize e) + 64 \<le> unat len \<and>
      section_header_at b d e (of_nat i) = shdr_at b (of_nat (unat d + unat (e_shoff e) + i * unat (e_shentsize e)))))"
proof (intro conjI impI allI)
  fix i assume a: "get_program_header_window e len = ELF_OK" "i < unat (e_phnum e)"
  show p: "unat (e_phoff e) + i * unat (e_phentsize e) + 56 \<le> unat len" by (rule phdr_inside [OF a])
  show "unat (phdr_addr d e i) = unat d + unat (e_phoff e) + i * unat (e_phentsize e)"
    unfolding phdr_addr_def by (rule unat_table_addr [OF assms p]) simp
next
  fix i assume a: "validate_section_headers e len = ELF_OK" "i < unat (e_shnum e)"
  show p: "unat (e_shoff e) + i * unat (e_shentsize e) + 64 \<le> unat len" by (rule shdr_inside [OF a])
  show "section_header_at b d e (of_nat i) = shdr_at b (of_nat (unat d + unat (e_shoff e) + i * unat (e_shentsize e)))"
    by (simp add: section_header_at_def flip: unat_table_addr [OF assms p zero_less_numeral])
qed

text \<open>A header of two program headers and three section headers in a buffer of 400 bytes.\<close>

definition demo_ehdr :: elf64_ehdr where
  "demo_ehdr = \<lparr>e_ident = [0x7F, 0x45, 0x4C, 0x46, 2, 1, 1], e_type = 2, e_machine = 62, e_version = 1, e_entry = 0x400000,
     e_phoff = 64, e_shoff = 176, e_ehsize = 64, e_phentsize = 56, e_phnum = 2, e_shentsize = 64, e_shnum = 3, e_shstrndx = 0\<rparr>"

theorem headers_inside_witness: "unat (phdr_addr 0x8000 demo_ehdr 1) = 0x8000 + 120"
proof -
  have "get_program_header_window demo_ehdr 400 = ELF_OK" by (simp add: demo_ehdr_def get_program_header_window_def)
  with headers_inside [of "0x8000" 400 demo_ehdr] show ?thesis by (simp add: demo_ehdr_def)
qed

section \<open>Load segments\<close>

definition loads :: "elf64_phdr \<Rightarrow> bool" where
  "loads ph \<longleftrightarrow> p_type ph = PT_LOAD \<and> p_memsz ph \<noteq> 0"

text \<open>What the checks establish of one segment; its pages, by number; and that it ends before the last page of
  the address space.\<close>

definition seg_ok :: "u64 \<Rightarrow> elf64_phdr \<Rightarrow> bool" where
  "seg_ok len ph \<longleftrightarrow> unat (p_offset ph) + unat (p_filesz ph) \<le> unat len \<and> p_filesz ph \<le> p_memsz ph \<and>
     unat (p_vaddr ph) + unat (p_memsz ph) < 18446744073709551616"

definition seg_pages :: "elf64_phdr \<Rightarrow> nat set" where
  "seg_pages ph = {unat (p_vaddr ph) div 4096 .. (unat (p_vaddr ph) + unat (p_memsz ph) - 1) div 4096}"

definition below_top :: "elf64_phdr \<Rightarrow> bool" where
  "below_top ph \<longleftrightarrow> unat (p_vaddr ph) + unat (p_memsz ph) \<le> 18446744073709547520"

lemma check_segment_ok:
  assumes "check_segment len ph later = ELF_OK"
  shows "seg_ok len ph"
    and "p_memsz ph \<noteq> 0 \<Longrightarrow> check_overlaps (page_floor (p_vaddr ph)) (align_up_page (p_vaddr ph + p_memsz ph)) later = ELF_OK"
proof -
  have c: "p_offset ph + p_filesz ph \<le> len" "p_filesz ph \<le> p_memsz ph"
    using assms by (auto simp: check_segment_def not_less split: if_splits)
  show "seg_ok len ph"
  proof (cases "p_memsz ph = 0")
    case True
    with c have "p_filesz ph = 0" by simp
    with True c show ?thesis using unat_bounds(4) [of "p_vaddr ph"] by (simp add: seg_ok_def word_le_nat_alt)
  next
    case False
    then have n: "\<not> add_overflows_ulong (p_vaddr ph) (p_memsz ph)" "\<not> add_overflows_ulong (p_offset ph) (p_filesz ph)"
      using assms by (auto simp: check_segment_def split: if_splits)
    show ?thesis using add_no_wrap [OF n(1)] add_no_wrap [OF n(2)] c by (simp add: seg_ok_def word_le_nat_alt)
  qed
  show "check_overlaps (page_floor (p_vaddr ph)) (align_up_page (p_vaddr ph + p_memsz ph)) later = ELF_OK" if "p_memsz ph \<noteq> 0"
    using assms that by (auto simp: check_segment_def split: if_splits)
qed

lemma check_overlaps_ok:
  "check_overlaps a b qs = ELF_OK \<Longrightarrow> q \<in> set qs \<Longrightarrow> loads q \<Longrightarrow>
     \<not> (a < align_up_page (p_vaddr q + p_memsz q) \<and> page_floor (p_vaddr q) < b)"
  by (induction a b qs rule: check_overlaps.induct) (auto simp: loads_def split: if_splits)

lemma check_segments_ok:
  assumes "check_segments len phs = ELF_OK"
  shows "\<forall>ph \<in> set phs. p_type ph = PT_LOAD \<longrightarrow> seg_ok len ph"
    and "\<forall>i j. i < j \<and> j < length phs \<and> loads (phs ! i) \<and> loads (phs ! j) \<longrightarrow>
      \<not> (page_floor (p_vaddr (phs ! i)) < align_up_page (p_vaddr (phs ! j) + p_memsz (phs ! j)) \<and>
         page_floor (p_vaddr (phs ! j)) < align_up_page (p_vaddr (phs ! i) + p_memsz (phs ! i)))"
proof -
  show "\<forall>ph \<in> set phs. p_type ph = PT_LOAD \<longrightarrow> seg_ok len ph"
    using assms by (induction len phs rule: check_segments.induct) (auto dest: check_segment_ok(1) split: if_splits)
  show "\<forall>i j. i < j \<and> j < length phs \<and> loads (phs ! i) \<and> loads (phs ! j) \<longrightarrow>
      \<not> (page_floor (p_vaddr (phs ! i)) < align_up_page (p_vaddr (phs ! j) + p_memsz (phs ! j)) \<and>
         page_floor (p_vaddr (phs ! j)) < align_up_page (p_vaddr (phs ! i) + p_memsz (phs ! i)))"
    using assms
  proof (induction len phs rule: check_segments.induct)
    case (2 len ph phs)
    have rest: "check_segments len phs = ELF_OK" using "2.prems" by (simp split: if_splits)
    have first: "p_type ph = PT_LOAD \<longrightarrow> check_segment len ph phs = ELF_OK" using "2.prems" by (auto split: if_splits)
    note IH = "2.IH"(1) [OF _ rest] "2.IH"(2) [OF _ _ rest]
    show ?case
    proof (intro allI impI, goal_cases)
      case (1 i j)
      show ?case
      proof (cases i)
        case 0
        with 1 have "phs ! (j - 1) \<in> set phs" "(ph # phs) ! j = phs ! (j - 1)" by (auto simp: nth_Cons split: nat.split)
        moreover have "check_overlaps (page_floor (p_vaddr ph)) (align_up_page (p_vaddr ph + p_memsz ph)) phs = ELF_OK"
          using 1 0 first check_segment_ok(2) by (simp add: loads_def)
        ultimately show ?thesis using check_overlaps_ok 1 0 by auto
      next
        case (Suc k)
        have "k < j - 1" "j - 1 < length phs" "(ph # phs) ! j = phs ! (j - 1)" "(ph # phs) ! i = phs ! k"
          using 1 Suc by (auto simp: nth_Cons split: nat.split)
        moreover have "i < j \<and> j < length phs \<and> loads (phs ! i) \<and> loads (phs ! j) \<Longrightarrow>
          \<not> (page_floor (p_vaddr (phs ! i)) < align_up_page (p_vaddr (phs ! j) + p_memsz (phs ! j)) \<and>
             page_floor (p_vaddr (phs ! j)) < align_up_page (p_vaddr (phs ! i) + p_memsz (phs ! i)))" for i j
          using IH first by (cases "p_type ph = PT_LOAD") blast+
        ultimately show ?thesis using 1 by presburger
      qed
    qed
  qed simp
qed

lemma windows_apart:
  assumes "loads p" "loads q" "below_top p" "below_top q" "seg_ok len p" "seg_ok len q"
    and "\<not> (page_floor (p_vaddr p) < align_up_page (p_vaddr q + p_memsz q) \<and>
         page_floor (p_vaddr q) < align_up_page (p_vaddr p + p_memsz p))"
  shows "seg_pages p \<inter> seg_pages q = {}"
proof -
  have up: "unat (align_up_page (p_vaddr r + p_memsz r)) = (unat (p_vaddr r) + unat (p_memsz r) + 4095) div 4096 * 4096"
    if "below_top r" for r
  proof -
    have "unat (p_vaddr r + p_memsz r) = unat (p_vaddr r) + unat (p_memsz r)"
      using that by (subst unat_add_lem [THEN iffD1]) (simp_all add: below_top_def)
    then show ?thesis using that unat_align_up_page [of "p_vaddr r + p_memsz r"] by (simp add: below_top_def)
  qed
  have last_page: "(x + n - 1) div 4096 < y div 4096" if "(x + n + 4095) div 4096 * 4096 \<le> y div 4096 * 4096" "0 < n" for x n y :: nat
  proof -
    have "(x + n + 4095) div 4096 = (x + n - 1) div 4096 + 1" using that(2) by (simp add: div_add_self2 [symmetric])
    then show ?thesis using that(1) by simp
  qed
  have pos: "0 < unat (p_memsz p)" "0 < unat (p_memsz q)" using assms(1,2) by (simp_all add: loads_def unat_gt_0)
  have "(unat (p_vaddr q) + unat (p_memsz q) + 4095) div 4096 * 4096 \<le> unat (p_vaddr p) div 4096 * 4096 \<or>
    (unat (p_vaddr p) + unat (p_memsz p) + 4095) div 4096 * 4096 \<le> unat (p_vaddr q) div 4096 * 4096"
    using assms(7) up [OF assms(3)] up [OF assms(4)] by (simp add: word_less_nat_alt unat_page_floor not_less disj_commute)
  then show ?thesis
    using last_page [of "unat (p_vaddr q)" "unat (p_memsz q)" "unat (p_vaddr p)"] pos
      last_page [of "unat (p_vaddr p)" "unat (p_memsz p)" "unat (p_vaddr q)"]
    by (auto simp: seg_pages_def)
qed

lemma load_segments_view:
  assumes "validate_load_segments b d len e = ELF_OK"
  shows "\<forall>ph \<in> set (phdrs b d e). p_type ph \<noteq> PT_INTERP"
    and "\<forall>ph \<in> set (phdrs b d e). p_type ph = PT_LOAD \<longrightarrow> seg_ok len ph"
    and "\<exists>ph \<in> set (phdrs b d e). loads ph \<and> p_vaddr ph \<le> e_entry e \<and> unat (e_entry e) < unat (p_vaddr ph) + unat (p_memsz ph)"
    and "check_segments len (phdrs b d e) = ELF_OK"
proof -
  show i: "\<forall>ph \<in> set (phdrs b d e). p_type ph \<noteq> PT_INTERP" and c: "check_segments len (phdrs b d e) = ELF_OK"
    using assms by (auto simp: validate_load_segments_def Let_def split: if_splits)
  show s: "\<forall>ph \<in> set (phdrs b d e). p_type ph = PT_LOAD \<longrightarrow> seg_ok len ph"
    by (rule check_segments_ok(1) [OF c])
  have "\<exists>ph \<in> set (phdrs b d e). entry_in (e_entry e) ph"
    using assms by (auto simp: validate_load_segments_def Let_def split: if_splits)
  then obtain ph where ph: "ph \<in> set (phdrs b d e)" "entry_in (e_entry e) ph" by blast
  then have l: "loads ph" and r: "p_vaddr ph \<le> e_entry e" "e_entry e < p_vaddr ph + p_memsz ph"
    by (auto simp: entry_in_def loads_def)
  from s ph(1) l have "unat (p_vaddr ph) + unat (p_memsz ph) < 18446744073709551616" by (simp add: seg_ok_def loads_def)
  then have "unat (p_vaddr ph + p_memsz ph) = unat (p_vaddr ph) + unat (p_memsz ph)"
    by (subst unat_add_lem [THEN iffD1]) simp_all
  with r(2) have "unat (e_entry e) < unat (p_vaddr ph) + unat (p_memsz ph)" by (simp add: word_less_nat_alt)
  with ph(1) l r(1) show "\<exists>ph \<in> set (phdrs b d e). loads ph \<and> p_vaddr ph \<le> e_entry e \<and>
      unat (e_entry e) < unat (p_vaddr ph) + unat (p_memsz ph)" by blast
qed


text \<open>The bytes of a small file: a header and one program header, text at 0x400000.\<close>

definition demo_file :: bytes_at where
  "demo_file a =
     (let bytes = [0x7F, 0x45, 0x4C, 0x46, 2, 1, 1, 0, 0, 0, 0, 0, 0, 0, 0, 0, 2, 0, 62, 0, 1, 0, 0, 0,
                   0x10, 0, 0x40, 0, 0, 0, 0, 0, 64, 0, 0, 0, 0, 0, 0, 0, 0, 0, 0, 0, 0, 0, 0, 0,
                   0, 0, 0, 0, 64, 0, 56, 0, 1, 0, 0, 0, 0, 0, 0, 0,
                   1, 0, 0, 0, 5, 0, 0, 0, 0, 0, 0, 0, 0, 0, 0, 0, 0, 0, 0x40, 0, 0, 0, 0, 0, 0, 0, 0x40, 0, 0, 0, 0, 0,
                   0x80, 0, 0, 0, 0, 0, 0, 0, 0x80, 0, 0, 0, 0, 0, 0, 0, 0, 0x10, 0, 0, 0, 0, 0, 0]
      in if 0x8000 \<le> a \<and> unat (a - 0x8000) < length bytes then bytes ! unat (a - 0x8000) else 0)"

lemma demo_file_phdrs:
  "phdrs demo_file 0x8000 (ehdr_at demo_file 0x8000) =
     [\<lparr>p_type = 1, p_flags = 5, p_offset = 0, p_vaddr = 0x400000, p_filesz = 0x80, p_memsz = 0x80, p_align = 0x1000\<rparr>]"
  "e_entry (ehdr_at demo_file 0x8000) = 0x400010"
  by (simp_all add: phdrs_def phdr_at_def phdr_addr_def ehdr_at_def demo_file_def rd16_at_def rd32_at_def rd64_at_def)


section \<open>Symbol lookup\<close>

text \<open>The reference: among the symbols at or below the address, the first with the greatest value of those
  whose extent covers it, or of all when none does.\<close>

definition eligible :: "u64 \<Rightarrow> elf_symbol \<Rightarrow> bool" where
  "eligible addr s \<longleftrightarrow> usable_symbol s \<and> sy_value s \<le> addr \<and> sy_info s AND 0x0F \<in> {0, 1, 2}"

definition covers :: "u64 \<Rightarrow> elf_symbol \<Rightarrow> bool" where
  "covers addr s \<longleftrightarrow> sy_size s \<noteq> 0 \<and> addr < sy_value s + sy_size s"

definition highest :: "elf_symbol list \<Rightarrow> elf_symbol" where
  "highest syms = fold (\<lambda>s best. if sy_value s > sy_value best then s else best) (tl syms) (hd syms)"

definition best_symbol_of :: "u64 \<Rightarrow> elf_symbol list \<Rightarrow> elf_symbol option" where
  "best_symbol_of addr syms =
     (let below = filter (eligible addr) syms; inside = filter (covers addr) below
      in if inside \<noteq> [] then Some (highest inside) else if below \<noteq> [] then Some (highest below) else None)"

fun all_symbols :: "bytes_at \<Rightarrow> u64 \<Rightarrow> u64 \<Rightarrow> elf64_ehdr \<Rightarrow> elf64_shdr list \<Rightarrow> int + elf_symbol list" where
  "all_symbols b d len e [] = Inr []"
| "all_symbols b d len e (sh # shs) =
     (case section_symbols False b d len e sh of
        Inl rc \<Rightarrow> Inl rc
      | Inr syms \<Rightarrow> (case all_symbols b d len e shs of Inl rc \<Rightarrow> Inl rc | Inr rest \<Rightarrow> Inr (syms @ rest)))"

lemma find_loop_all:
  "find_loop b d len e addr shs best =
     (case all_symbols b d len e shs of Inl rc \<Rightarrow> Inl rc | Inr syms \<Rightarrow> Inr (fold (consider_symbol addr) syms best))"
  by (induction shs arbitrary: best) (auto split: sum.split)

lemma highest_snoc: "syms \<noteq> [] \<Longrightarrow>
    highest (syms @ [s]) = (if sy_value s > sy_value (highest syms) then s else highest syms)"
  by (cases syms) (simp_all add: highest_def)

text \<open>What the loop holds after the symbols \<open>syms\<close>.\<close>

definition best_after :: "u64 \<Rightarrow> elf_symbol list \<Rightarrow> best_symbol \<Rightarrow> bool" where
  "best_after addr syms best \<longleftrightarrow>
     (let below = filter (eligible addr) syms; inside = filter (covers addr) below in
      found_containing best = (inside \<noteq> []) \<and> (found_containing best \<or> found_preceding best) = (below \<noteq> []) \<and>
      (below \<noteq> [] \<longrightarrow> best_sym best = (if inside \<noteq> [] then highest inside else highest below) \<and>
         best_offset best = addr - sy_value (best_sym best)))"

lemma best_after_snoc:
  assumes "best_after addr syms best"
  shows "best_after addr (syms @ [s]) (consider_symbol addr s best)"
proof (cases "eligible addr s")
  case False
  then have "consider_symbol addr s best = best" by (auto simp: consider_symbol_def eligible_def not_less)
  with False assms show ?thesis by (simp add: best_after_def)
next
  case el: True
  then have e: "usable_symbol s" "\<not> addr < sy_value s" "sy_info s AND 0x0F \<in> {2, 1, 0}"
    by (auto simp: eligible_def not_less)
  show ?thesis
  proof (cases "covers addr s")
    case True
    with e have c: "consider_symbol addr s best =
        (if \<not> found_containing best \<or> sy_value s > sy_value (best_sym best)
         then best\<lparr>best_sym := s, best_offset := addr - sy_value s, found_containing := True\<rparr> else best)"
      by (simp add: consider_symbol_def covers_def)
    show ?thesis
    proof (cases "filter (covers addr) (filter (eligible addr) syms) = []")
      case True
      with \<open>covers addr s\<close> el assms c show ?thesis by (simp add: best_after_def Let_def highest_def)
    next
      case False
      then have "filter (eligible addr) syms \<noteq> []" by (metis filter.simps(1))
      with False \<open>covers addr s\<close> el assms c highest_snoc [OF False, of s]
      show ?thesis by (simp add: best_after_def Let_def)
    qed
  next
    case False
    with e have c: "consider_symbol addr s best =
        (if \<not> found_containing best \<and> (\<not> found_preceding best \<or> sy_value s > sy_value (best_sym best))
         then best\<lparr>best_sym := s, best_offset := addr - sy_value s, found_preceding := True\<rparr> else best)"
      by (auto simp: consider_symbol_def covers_def)
    show ?thesis
    proof (cases "filter (eligible addr) syms = []")
      case True
      with False el assms c show ?thesis by (simp add: best_after_def Let_def highest_def)
    next
      case below: False
      with False el assms c highest_snoc [OF below, of s] show ?thesis by (auto simp: best_after_def Let_def)
    qed
  qed
qed

lemma best_after_fold: "best_after addr syms (fold (consider_symbol addr) syms no_symbol)"
proof (induction syms rule: rev_induct)
  case Nil
  show ?case by (simp add: best_after_def no_symbol_def)
next
  case (snoc s syms)
  then show ?case using best_after_snoc by simp
qed

text \<open>C40: \<open>elf_find_symbol_by_addr\<close>, whose loop keeps the best symbol so far over all symbol tables and may
  replace a merely preceding symbol by a covering one, equals the reference: the highest covering symbol,
  or the highest preceding one when none covers the address, with its distance; and it reports the error
  of the first table that fails its checks.\<close>

theorem elf_find_symbol_reference:
  "elf_find_symbol_by_addr b d len addr =
     (let e = ehdr_at b d in
      if validate_elf64_image b d len \<noteq> ELF_OK then Inl (validate_elf64_image b d len)
      else if validate_section_headers e len \<noteq> ELF_OK then Inl (validate_section_headers e len)
      else (case all_symbols b d len e (sections b d e) of
              Inl rc \<Rightarrow> Inl rc
            | Inr syms \<Rightarrow>
                (case best_symbol_of addr syms of
                   None \<Rightarrow> Inl ELF_ERR_NOSYM
                 | Some s \<Rightarrow> Inr (s, addr - sy_value s))))"
proof -
  have "(if \<not> found_containing best \<and> \<not> found_preceding best then Inl ELF_ERR_NOSYM else Inr (best_sym best, best_offset best)) =
      (case best_symbol_of addr syms of None \<Rightarrow> Inl ELF_ERR_NOSYM | Some s \<Rightarrow> Inr (s, addr - sy_value s))"
    if best_def: "best = fold (consider_symbol addr) syms no_symbol" for syms best
    using best_after_fold [of addr syms] unfolding best_def [symmetric]
    by (auto simp: best_after_def best_symbol_of_def Let_def split: if_splits)
  then show ?thesis by (simp add: elf_find_symbol_by_addr_def find_loop_all Let_def split: sum.split)
qed

section \<open>A sum that wraps\<close>

text \<open>The range check of a symbol table, \<open>sh_offset + sh_size > len\<close>, is made on the wrapped sum. A table
  whose offset is 24 below 2 to the 64 and whose size is 24 passes it whatever the length of the file, and
  its symbol is read from the 24 bytes before the buffer.\<close>

theorem symbol_table_reads_before_buffer:
  assumes "sh_type sh = SHT_SYMTAB" and "sh_entsize sh = 24" and "sh_size sh = 24" and "sh_offset sh = -24"
    and "sh_link sh < ucast (e_shnum e)"
    and "sh_offset (section_header_at b d e (ucast (sh_link sh))) + sh_size (section_header_at b d e (ucast (sh_link sh))) \<le> len"
  shows "section_symbols False b d len e sh =
    Inr [symbol_of b (d + sh_offset (section_header_at b d e (ucast (sh_link sh))))
           (sh_size (section_header_at b d e (ucast (sh_link sh)))) (sym_at b (d - 24))]"
  using assms by (simp add: section_symbols_def Let_def not_less not_le)

definition demo_symtab :: elf64_shdr where
  "demo_symtab = \<lparr>sh_name = 0, sh_type = 2, sh_flags = 0, sh_addr = 0, sh_offset = -24, sh_size = 24, sh_link = 0,
     sh_info = 0, sh_entsize = 24\<rparr>"

theorem symbol_table_reads_before_buffer_witness:
  "section_symbols False (\<lambda>a. if a < 0x8000 then 1 else 0) 0x8000 400 demo_ehdr demo_symtab =
     Inr [\<lparr>sy_name = [], sy_value = 0x0101010101010101, sy_size = 0x0101010101010101, sy_info = 1, sy_shndx = 0x0101\<rparr>]"
proof -
  let ?b = "\<lambda>a. if a < 0x8000 then 1 else 0 :: u8"
  have "section_symbols False ?b 0x8000 400 demo_ehdr demo_symtab =
    Inr [symbol_of ?b (0x8000 + sh_offset (section_header_at ?b 0x8000 demo_ehdr (ucast (sh_link demo_symtab))))
           (sh_size (section_header_at ?b 0x8000 demo_ehdr (ucast (sh_link demo_symtab)))) (sym_at ?b (0x8000 - 24))]"
    by (rule symbol_table_reads_before_buffer)
      (simp_all add: demo_symtab_def demo_ehdr_def section_header_at_def shdr_at_def rd64_at_def rd32_at_def)
  then show ?thesis
    by (simp add: symbol_of_def string_at_def sym_at_def section_header_at_def shdr_at_def rd64_at_def rd32_at_def rd16_at_def
      demo_symtab_def demo_ehdr_def)
qed

end
