(* ===== verification/Fat_Dir.thy ===== *)
theory Fat_Dir
  imports Fat_Disk
begin

text \<open>
  Names, directories and paths of \<open>src/kernel/fat32.c\<close>. A directory is a chain of clusters whose sectors hold
  16 entries of 32 bytes each.
\<close>

section \<open>Names\<close>

definition upcase :: "char \<Rightarrow> char" where
  "upcase c = (if of_char c \<ge> (97 :: nat) \<and> of_char c \<le> (122 :: nat) then char_of (of_char c - 32 :: nat) else c)"

fun str_case_eq :: "string \<Rightarrow> string \<Rightarrow> bool" where
  "str_case_eq (a # as) (b # bs) = (if upcase a \<noteq> upcase b then False else str_case_eq as bs)"
| "str_case_eq as bs = (as = [] \<and> bs = [])"

fun name_loop :: "string \<Rightarrow> u8 list \<Rightarrow> nat \<Rightarrow> nat \<Rightarrow> bool \<Rightarrow> u8 list option" where
  "name_loop [] out base_len ext_len in_ext = (if base_len = 0 then None else Some out)"
| "name_loop (ch # cs) out base_len ext_len in_ext =
     (let c = upcase ch in
      if c = CHR ''/'' \<or> c = CHR 0x5C then None
      else if c = CHR ''.'' then if in_ext then None else name_loop cs out base_len ext_len True
      else if \<not> in_ext then
        if base_len \<ge> 8 then None else name_loop cs (out[base_len := byte_of_char c]) (base_len + 1) ext_len in_ext
      else if ext_len \<ge> 3 then None
      else name_loop cs (out[8 + ext_len := byte_of_char c]) base_len (ext_len + 1) in_ext)"

definition fat32_name_to_83 :: "string option \<Rightarrow> u8 list option" where
  "fat32_name_to_83 nm =
     (case nm of None \<Rightarrow> None | Some n \<Rightarrow> if n = [] then None else name_loop n (replicate 11 0x20) 0 0 False)"

text \<open>The length of a field without its trailing blanks.\<close>

fun trim_len :: "(nat \<Rightarrow> u8) \<Rightarrow> nat \<Rightarrow> nat" where
  "trim_len f 0 = 0"
| "trim_len f (Suc n) = (if f n = 0x20 then trim_len f n else Suc n)"

text \<open>\<open>entry\<close> starts at \<open>off\<close> in \<open>sec\<close>. The result is the C string in \<open>out\<close>: a NUL among the bytes ends it.\<close>

definition fat83_to_name :: "u8 list \<Rightarrow> nat \<Rightarrow> nat \<Rightarrow> string" where
  "fat83_to_name sec off out_sz =
     (let end_base = trim_len (\<lambda>j. sec ! (off + j)) 8;
          end_ext = trim_len (\<lambda>j. sec ! (off + 8 + j)) 3;
          out1 = take (out_sz - 1) (map (\<lambda>j. char_of_byte (sec ! (off + j))) [0..<end_base]);
          out2 = (if end_ext > 0 \<and> length out1 + 2 < out_sz
                  then take (out_sz - 1) (out1 @ CHR ''.'' # map (\<lambda>j. char_of_byte (sec ! (off + 8 + j))) [0..<end_ext])
                  else out1)
      in takeWhile (\<lambda>c. c \<noteq> CHR 0x00) out2)"

text \<open>The name as a listing shows it.\<close>

definition listed_name :: "u8 list \<Rightarrow> nat \<Rightarrow> string" where
  "listed_name sec off =
     (let nm = fat83_to_name sec off 40 in
      if sec ! (off + 11) AND FAT32_ATTR_DIRECTORY \<noteq> 0 then take 38 nm @ ''/'' else nm)"

section \<open>Entries\<close>

definition entry_first_cluster :: "u8 list \<Rightarrow> u32" where
  "entry_first_cluster entry = push_bit 16 (ucast (rd16 entry 20)) OR ucast (rd16 entry 26)"

text \<open>On the entry at \<open>off\<close> in a sector.\<close>

definition entry_set_first_cluster :: "nat \<Rightarrow> u32 \<Rightarrow> sector \<Rightarrow> sector" where
  "entry_set_first_cluster off cluster sec =
     sec[off + 20 := byte_n 2 cluster, off + 21 := byte_n 3 cluster,
         off + 26 := byte_n 0 cluster, off + 27 := byte_n 1 cluster]"

definition entry_set_size :: "nat \<Rightarrow> u64 \<Rightarrow> sector \<Rightarrow> sector" where
  "entry_set_size off sz sec =
     sec[off + 28 := byte_n 0 sz, off + 29 := byte_n 1 sz, off + 30 := byte_n 2 sz, off + 31 := byte_n 3 sz]"

definition entry_name_is_dot_or_dotdot :: "u8 list \<Rightarrow> nat \<Rightarrow> bool" where
  "entry_name_is_dot_or_dotdot sec off =
     (if sec ! off = 0x2E then True
      else if sec ! off = 0x2E \<and> sec ! (off + 1) = 0x2E then True
      else if sec ! off = 0x2E \<and> sec ! (off + 1) = 0x20 \<and> sec ! (off + 2) = 0x20 then True
      else if sec ! off = 0x2E \<and> sec ! (off + 1) = 0x2E \<and> sec ! (off + 2) = 0x20 then True
      else False)"

text \<open>A fresh entry: 32 zero bytes, the name, the attribute.\<close>

definition put_new_entry :: "nat \<Rightarrow> u8 list \<Rightarrow> u8 \<Rightarrow> sector \<Rightarrow> sector" where
  "put_new_entry off name83 attr sec =
     (take off sec @ name83 @ replicate 21 0 @ drop (off + 32) sec)[off + 11 := attr]"

section \<open>Searching a directory\<close>

datatype scan = Scan_End | Scan_Hit nat | Scan_More

fun find_in_sector :: "u8 list \<Rightarrow> sector \<Rightarrow> nat list \<Rightarrow> scan" where
  "find_in_sector name83 sec [] = Scan_More"
| "find_in_sector name83 sec (off # offs) =
     (if sec ! off = 0x00 then Scan_End
      else if sec ! off = 0xE5 then find_in_sector name83 sec offs
      else if sec ! (off + 11) = FAT32_ATTR_LFN then find_in_sector name83 sec offs
      else if take 11 (drop off sec) = name83 then Scan_Hit off
      else find_in_sector name83 sec offs)"

fun free_in_sector :: "sector \<Rightarrow> nat list \<Rightarrow> nat option" where
  "free_in_sector sec [] = None"
| "free_in_sector sec (off # offs) =
     (if sec ! off = 0x00 \<or> sec ! off = 0xE5 then Some off else free_in_sector sec offs)"

definition entry_offs :: "nat list" where
  "entry_offs = map (\<lambda>k. 32 * k) [0..<16]"

definition cluster_lbas :: "'d fat_state \<Rightarrow> u32 \<Rightarrow> u32 list" where
  "cluster_lbas s cluster = map (\<lambda>i. cluster_to_lba s cluster + of_nat i) [0..<unat (sectors_per_cluster s)]"

text \<open>Over the sectors of a cluster; the inner None: not in this cluster.\<close>

type_synonym entry_pos = "u32 \<times> nat \<times> u8 list"

fun find_in_sectors :: "u8 list \<Rightarrow> u32 list \<Rightarrow> ('d, entry_pos option) fat" where
  "find_in_sectors name83 [] = ok None"
| "find_in_sectors name83 (lba # lbas) =
     chk (fat32_read_sector_cached lba False) (\<lambda>sec.
       case find_in_sector name83 sec entry_offs of
         Scan_End \<Rightarrow> err
       | Scan_Hit off \<Rightarrow> ok (Some (lba, off, take 32 (drop off sec)))
       | Scan_More \<Rightarrow> find_in_sectors name83 lbas)"

fun free_in_sectors :: "u32 list \<Rightarrow> ('d, (u32 \<times> nat) option) fat" where
  "free_in_sectors [] = ok None"
| "free_in_sectors (lba # lbas) =
     chk (fat32_read_sector_cached lba False) (\<lambda>sec.
       case free_in_sector sec entry_offs of Some off \<Rightarrow> ok (Some (lba, off)) | None \<Rightarrow> free_in_sectors lbas)"

definition in_chain :: "'d fat_state \<Rightarrow> u32 \<Rightarrow> bool" where
  "in_chain s cluster = (fat32_cluster_is_valid s cluster \<and> cluster < FAT32_EOC)"

definition find_body :: "u8 list \<Rightarrow> u32 \<Rightarrow> ('d, u32 + entry_pos) fat" where
  "find_body name83 cluster s =
     (if \<not> in_chain s cluster then err s
      else chk (find_in_sectors name83 (cluster_lbas s cluster)) (\<lambda>r.
        case r of
          Some p \<Rightarrow> ok (Inr p)
        | None \<Rightarrow> chk (fat32_next_cluster cluster) (\<lambda>nxt. if nxt \<ge> FAT32_EOC then err else ok (Inl nxt))) s)"

definition fat32_find_entry_in_dir :: "u32 \<Rightarrow> u8 list \<Rightarrow> ('d, entry_pos) fat" where
  "fat32_find_entry_in_dir dir_cluster name83 = loop (find_body name83) dir_cluster"

text \<open>A zeroed cluster appended to the chain that ends at \<open>cluster\<close>.\<close>

definition extend_dir :: "u32 \<Rightarrow> ('d, u32 \<times> nat) fat" where
  "extend_dir cluster =
     chk fat32_alloc_cluster (\<lambda>new_cluster.
       attempt (fat32_set_cluster_value cluster new_cluster) (\<lambda>r.
         case r of
           None \<Rightarrow> attempt (fat32_free_chain new_cluster) (\<lambda>_. err)
         | Some _ \<Rightarrow> (\<lambda>s. ok (cluster_to_lba s new_cluster, 0) s)))"

definition free_entry_body :: "u32 \<Rightarrow> ('d, u32 + u32 \<times> nat) fat" where
  "free_entry_body cluster s =
     (if \<not> in_chain s cluster then err s
      else chk (free_in_sectors (cluster_lbas s cluster)) (\<lambda>r.
        case r of
          Some p \<Rightarrow> ok (Inr p)
        | None \<Rightarrow> chk (fat32_next_cluster cluster) (\<lambda>nxt s1.
            if nxt \<ge> FAT32_EOC then chk (extend_dir cluster) (\<lambda>p. ok (Inr p)) s1
            else if \<not> fat32_cluster_is_valid s1 nxt then err s1
            else ok (Inl nxt) s1)) s)"

definition fat32_find_free_entry_in_dir :: "u32 \<Rightarrow> ('d, u32 \<times> nat) fat" where
  "fat32_find_free_entry_in_dir dir_cluster = loop free_entry_body dir_cluster"

section \<open>The root directory\<close>

text \<open>\<open>fat32_find_root_entry\<close> takes the contents of the caller's \<open>out_entry\<close>, since on one path it succeeds
  without writing it: where the chain of the root ends it appends a cluster, as a search for a free entry
  would. There it also writes through \<open>out_entry_lba\<close> and \<open>out_entry_off\<close> when they are null.\<close>

definition find_root_body :: "u8 list \<Rightarrow> u8 list \<Rightarrow> u32 \<Rightarrow> ('d, u32 + entry_pos) fat" where
  "find_root_body name83 entry0 cluster s =
     (if \<not> in_chain s cluster then err s
      else chk (find_in_sectors name83 (cluster_lbas s cluster)) (\<lambda>r.
        case r of
          Some p \<Rightarrow> ok (Inr p)
        | None \<Rightarrow> chk (fat32_next_cluster cluster) (\<lambda>nxt s1.
            if nxt \<ge> FAT32_EOC then chk (extend_dir cluster) (\<lambda>(lba, off). ok (Inr (lba, off, entry0))) s1
            else if \<not> fat32_cluster_is_valid s1 nxt then err s1
            else ok (Inl nxt) s1)) s)"

definition fat32_find_root_entry :: "string option \<Rightarrow> u8 list \<Rightarrow> ('d, entry_pos) fat" where
  "fat32_find_root_entry nm entry0 s =
     (case fat32_name_to_83 nm of None \<Rightarrow> err s | Some name83 \<Rightarrow> loop (find_root_body name83 entry0) (root_cluster s) s)"

definition free_root_body :: "u32 \<Rightarrow> ('d, u32 + u32 \<times> nat) fat" where
  "free_root_body cluster s =
     (if \<not> in_chain s cluster then err s
      else chk (free_in_sectors (cluster_lbas s cluster)) (\<lambda>r.
        case r of
          Some p \<Rightarrow> ok (Inr p)
        | None \<Rightarrow> chk (fat32_next_cluster cluster) (\<lambda>nxt. if nxt \<ge> FAT32_EOC then err else ok (Inl nxt))) s)"

definition fat32_find_free_root_entry :: "('d, u32 \<times> nat) fat" where
  "fat32_find_free_root_entry s = loop free_root_body (root_cluster s) s"

section \<open>Paths\<close>

definition is_sep :: "char \<Rightarrow> bool" where
  "is_sep c = (c = CHR ''/'' \<or> c = CHR 0x5C)"

fun part_loop :: "string \<Rightarrow> string \<Rightarrow> nat \<Rightarrow> (string \<times> string) option" where
  "part_loop [] out out_sz = Some (out, [])"
| "part_loop (c # p) out out_sz =
     (if is_sep c then Some (out, c # p)
      else if length out + 1 \<ge> out_sz then None
      else part_loop p (out @ [c]) out_sz)"

text \<open>The next component and the rest of the path; None when it does not fit.\<close>

definition path_next_part :: "string \<Rightarrow> nat \<Rightarrow> (string \<times> string) option" where
  "path_next_part path out_sz = part_loop (dropWhile is_sep path) [] out_sz"

definition fat32_get_parent_cluster :: "u32 \<Rightarrow> ('d, u32) fat" where
  "fat32_get_parent_cluster dir_cluster s =
     (if dir_cluster = root_cluster s then ok (root_cluster s) s
      else attempt (fat32_find_entry_in_dir dir_cluster (0x2E # 0x2E # replicate 9 0x20)) (\<lambda>r s1.
        case r of
          None \<Rightarrow> ok (root_cluster s1) s1
        | Some (lba, off, entry) \<Rightarrow>
            ok (if entry_first_cluster entry < 2 then root_cluster s1 else entry_first_cluster entry) s1) s)"

text \<open>One step down into the directory named \<open>part\<close>.\<close>

definition enter_dir :: "u32 \<Rightarrow> string \<Rightarrow> ('d, u32) fat" where
  "enter_dir cur part =
     (case fat32_name_to_83 (Some part) of
        None \<Rightarrow> err
      | Some name83 \<Rightarrow>
          chk (fat32_find_entry_in_dir cur name83) (\<lambda>(lba, off, entry).
            if entry ! 11 AND FAT32_ATTR_DIRECTORY = 0 then err
            else if entry_first_cluster entry < 2 then err
            else ok (entry_first_cluster entry)))"

definition resolve_dir_body :: "u32 \<times> string \<Rightarrow> ('d, u32 \<times> string + u32) fat" where
  "resolve_dir_body cp =
     (case cp of (cur, p) \<Rightarrow>
       (case path_next_part p 16 of
          None \<Rightarrow> err
        | Some (part, np) \<Rightarrow>
            if part = [] then ok (Inr cur)
            else if part = ''.'' then ok (Inl (cur, np))
            else if part = ''..'' then chk (fat32_get_parent_cluster cur) (\<lambda>parent. ok (Inl (parent, np)))
            else chk (enter_dir cur part) (\<lambda>c. ok (Inl (c, np)))))"

definition fat32_resolve_dir_cluster :: "string option \<Rightarrow> ('d, u32) fat" where
  "fat32_resolve_dir_cluster path s =
     (if \<not> mounted s then err s
      else (case path of
              None \<Rightarrow> ok (root_cluster s) s
            | Some p \<Rightarrow> if p = [] \<or> p = ''/'' then ok (root_cluster s) s else loop resolve_dir_body (root_cluster s, p) s))"

text \<open>The loop stops with the directory reached and the last component.\<close>

definition parent_body :: "u32 \<times> string \<Rightarrow> ('d, u32 \<times> string + u32 \<times> string) fat" where
  "parent_body cp =
     (case cp of (cur, p) \<Rightarrow>
       (case path_next_part p 16 of
          None \<Rightarrow> err
        | Some (part, np) \<Rightarrow>
            if part = [] then ok (Inr (cur, []))
            else (case path_next_part np 16 of
                    None \<Rightarrow> err
                  | Some (check, _) \<Rightarrow>
                      if check = [] then ok (Inr (cur, part))
                      else if part = ''.'' then ok (Inl (cur, np))
                      else if part = ''..'' then chk (fat32_get_parent_cluster cur) (\<lambda>parent. ok (Inl (parent, np)))
                      else chk (enter_dir cur part) (\<lambda>c. ok (Inl (c, np))))))"

definition fat32_resolve_parent_and_leaf :: "string option \<Rightarrow> ('d, u32 \<times> u8 list) fat" where
  "fat32_resolve_parent_and_leaf path s =
     (if \<not> mounted s then err s
      else (case path of
              None \<Rightarrow> err s
            | Some p \<Rightarrow> chk (loop parent_body (root_cluster s, p)) (\<lambda>(cur, last_part).
                if last_part = [] then err
                else if last_part = ''.'' \<or> last_part = ''..'' then err
                else (case fat32_name_to_83 (Some last_part) of None \<Rightarrow> err | Some name83 \<Rightarrow> ok (cur, name83))) s))"

end
