(* ===== verification/Fat_Files.thy ===== *)
theory Fat_Files
  imports Fat_Dir
begin

text \<open>
  The calls of \<open>src/kernel/fat32.c\<close> on files and directories, by root name and by path.
\<close>

section \<open>Listing\<close>

text \<open>Both listings walk the entries in order. The result: whether the walk is over (an end mark, or room for
  no more names) and the names so far.\<close>

fun ls_scan :: "bool \<Rightarrow> u8 list \<Rightarrow> int \<Rightarrow> nat list \<Rightarrow> string list \<Rightarrow> bool \<times> string list" where
  "ls_scan skip_dots sec max_entries [] names = (False, names)"
| "ls_scan skip_dots sec max_entries (off # offs) names =
     (if sec ! off = 0x00 then (True, names)
      else if sec ! off = 0xE5 then ls_scan skip_dots sec max_entries offs names
      else if sec ! (off + 11) = FAT32_ATTR_LFN then ls_scan skip_dots sec max_entries offs names
      else if skip_dots \<and> entry_name_is_dot_or_dotdot sec off then ls_scan skip_dots sec max_entries offs names
      else let names' = names @ [listed_name sec off]
           in if int (length names') \<ge> max_entries then (True, names') else ls_scan skip_dots sec max_entries offs names')"

fun ls_sectors :: "int \<Rightarrow> u32 list \<Rightarrow> string list \<Rightarrow> ('d, bool \<times> string list) fat" where
  "ls_sectors max_entries [] names = ok (False, names)"
| "ls_sectors max_entries (lba # lbas) names =
     chk (fat32_read_sector_cached lba False) (\<lambda>sec.
       case ls_scan False sec max_entries entry_offs names of
         (stop, names') \<Rightarrow> if stop then ok (True, names') else ls_sectors max_entries lbas names')"

definition ls_root_body :: "int \<Rightarrow> u32 \<times> string list \<Rightarrow> ('d, u32 \<times> string list + string list) fat" where
  "ls_root_body max_entries cn s =
     (case cn of (cluster, names) \<Rightarrow>
        if \<not> in_chain s cluster then ok (Inr names) s
        else chk (ls_sectors max_entries (cluster_lbas s cluster) names) (\<lambda>(stop, names').
          if stop then ok (Inr names')
          else chk (fat32_next_cluster cluster) (\<lambda>nxt. ok (if nxt \<ge> FAT32_EOC then Inr names' else Inl (nxt, names')))) s)"

definition fat32_ls_root :: "int \<Rightarrow> ('d, string list) fat" where
  "fat32_ls_root max_entries s =
     (if \<not> mounted s \<or> max_entries \<le> 0 then err s else loop (ls_root_body max_entries) (root_cluster s, []) s)"

text \<open>The batches a cluster is read in: first sector and length.\<close>

definition sectors_per_read :: "'d fat_state \<Rightarrow> nat" where
  "sectors_per_read s =
     (case fdev s of Some dv \<Rightarrow> if dev_read_sectors dv \<noteq> None then unat (io_batch_sectors s) else 1 | None \<Rightarrow> 1)"

definition batches :: "'d fat_state \<Rightarrow> u32 \<Rightarrow> (u32 \<times> nat) list" where
  "batches s cluster =
     (let spc = unat (sectors_per_cluster s); step = sectors_per_read s in
      map (\<lambda>k. (cluster_to_lba s cluster + of_nat (k * step), min step (spc - k * step))) [0..<(spc + step - 1) div step])"

fun ls_batches :: "int \<Rightarrow> (u32 \<times> nat) list \<Rightarrow> string list \<Rightarrow> ('d, bool \<times> string list) fat" where
  "ls_batches max_entries [] names = ok (False, names)"
| "ls_batches max_entries ((lba, n) # bs) names =
     chk (fat32_read_data_sectors lba n) (\<lambda>buf.
       case ls_scan True buf max_entries (map (\<lambda>k. 32 * k) [0..<16 * n]) names of
         (stop, names') \<Rightarrow> if stop then ok (True, names') else ls_batches max_entries bs names')"

definition ls_dir_body :: "int \<Rightarrow> u32 \<times> string list \<Rightarrow> ('d, u32 \<times> string list + string list) fat" where
  "ls_dir_body max_entries cn s =
     (case cn of (cluster, names) \<Rightarrow>
        if \<not> in_chain s cluster then ok (Inr names) s
        else chk (ls_batches max_entries (batches s cluster) names) (\<lambda>(stop, names').
          if stop then ok (Inr names')
          else chk (fat32_next_cluster cluster) (\<lambda>nxt. ok (if nxt \<ge> FAT32_EOC then Inr names' else Inl (nxt, names')))) s)"

definition fat32_ls_dir_cluster :: "u32 \<Rightarrow> int \<Rightarrow> ('d, string list) fat" where
  "fat32_ls_dir_cluster dir_cluster max_entries s =
     (if \<not> mounted s \<or> max_entries \<le> 0 then err s else loop (ls_dir_body max_entries) (dir_cluster, []) s)"

definition fat32_ls_path :: "string option \<Rightarrow> int \<Rightarrow> ('d, string list) fat" where
  "fat32_ls_path path max_entries =
     chk (fat32_resolve_dir_cluster path) (\<lambda>dir_cluster. fat32_ls_dir_cluster dir_cluster max_entries)"

section \<open>Reading a file\<close>

text \<open>The bytes read so far are all that \<open>written\<close> counts; the caller's buffer gets those below its capacity.
  The results are the bytes in the buffer and \<open>*out_size\<close>.\<close>

fun read_sectors_until :: "u64 \<Rightarrow> u32 list \<Rightarrow> u8 list \<Rightarrow> ('d, u8 list) fat" where
  "read_sectors_until file_size [] data = ok data"
| "read_sectors_until file_size (lba # lbas) data =
     (if length data < unat file_size then
        chk (fat32_read_sector_cached lba False) (\<lambda>sec.
          read_sectors_until file_size lbas (data @ take (unat file_size - length data) (take 512 sec)))
      else ok data)"

definition read_root_body :: "u64 \<Rightarrow> u32 \<times> u8 list \<Rightarrow> ('d, u32 \<times> u8 list + u8 list) fat" where
  "read_root_body file_size cd s =
     (case cd of (cur, data) \<Rightarrow>
        if \<not> (cur \<ge> 2 \<and> cur < FAT32_EOC \<and> length data < unat file_size) then ok (Inr data) s
        else chk (read_sectors_until file_size (cluster_lbas s cur) data) (\<lambda>data'.
             chk (fat32_next_cluster cur) (\<lambda>nxt. ok (if nxt \<ge> FAT32_EOC then Inr data' else Inl (nxt, data')))) s)"

definition out_size :: "u64 \<Rightarrow> u64 \<Rightarrow> u64" where
  "out_size file_size out_capacity = (if file_size < out_capacity then file_size else out_capacity)"

text \<open>The entry of a file in the root, by the name a listing shows, in any case.\<close>

fun match_in_sector :: "string \<Rightarrow> sector \<Rightarrow> nat list \<Rightarrow> scan" where
  "match_in_sector nm sec [] = Scan_More"
| "match_in_sector nm sec (off # offs) =
     (if sec ! off = 0x00 then Scan_End
      else if sec ! off = 0xE5 then match_in_sector nm sec offs
      else if sec ! (off + 11) = FAT32_ATTR_LFN then match_in_sector nm sec offs
      else if str_case_eq (fat83_to_name sec off 40) nm then Scan_Hit off
      else match_in_sector nm sec offs)"

text \<open>The outer None: go on; the inner one: the end mark.\<close>

fun match_in_sectors :: "string \<Rightarrow> u32 list \<Rightarrow> ('d, u8 list option option) fat" where
  "match_in_sectors nm [] = ok None"
| "match_in_sectors nm (lba # lbas) =
     chk (fat32_read_sector_cached lba False) (\<lambda>sec.
       case match_in_sector nm sec entry_offs of
         Scan_End \<Rightarrow> ok (Some None)
       | Scan_Hit off \<Rightarrow> ok (Some (Some (take 32 (drop off sec))))
       | Scan_More \<Rightarrow> match_in_sectors nm lbas)"

definition match_body :: "string \<Rightarrow> u32 \<Rightarrow> ('d, u32 + u8 list option) fat" where
  "match_body nm cluster s =
     (if \<not> in_chain s cluster then ok (Inr None) s
      else chk (match_in_sectors nm (cluster_lbas s cluster)) (\<lambda>r.
        case r of
          Some e \<Rightarrow> ok (Inr e)
        | None \<Rightarrow> chk (fat32_next_cluster cluster) (\<lambda>nxt. ok (if nxt \<ge> FAT32_EOC then Inr None else Inl nxt))) s)"

definition fat32_read_file_root :: "string option \<Rightarrow> u64 \<Rightarrow> ('d, u8 list \<times> u64) fat" where
  "fat32_read_file_root nm out_capacity s =
     (case (mounted s, nm) of
        (True, Some n) \<Rightarrow>
          chk (loop (match_body n) (root_cluster s)) (\<lambda>r.
            case r of
              None \<Rightarrow> err
            | Some entry \<Rightarrow>
                if entry_first_cluster entry < 2 \<or> entry ! 11 AND FAT32_ATTR_DIRECTORY \<noteq> 0 then err
                else let file_size = ucast (rd32 entry 28)
                     in chk (loop (read_root_body file_size) (entry_first_cluster entry, [])) (\<lambda>data.
                          ok (take (unat out_capacity) data, out_size file_size out_capacity))) s
      | _ \<Rightarrow> err s)"

fun read_batches_until :: "u64 \<Rightarrow> (u32 \<times> nat) list \<Rightarrow> u8 list \<Rightarrow> ('d, u8 list) fat" where
  "read_batches_until file_size [] data = ok data"
| "read_batches_until file_size ((lba, n) # bs) data =
     (if length data < unat file_size then
        chk (fat32_read_data_sectors lba n) (\<lambda>buf.
          read_batches_until file_size bs (data @ take (unat file_size - length data) (take (512 * n) buf)))
      else ok data)"

definition read_entry_body :: "u64 \<Rightarrow> u32 \<times> u8 list \<Rightarrow> ('d, u32 \<times> u8 list + u8 list) fat" where
  "read_entry_body file_size cd s =
     (case cd of (cur, data) \<Rightarrow>
        if \<not> (cur \<ge> 2 \<and> cur < FAT32_EOC \<and> length data < unat file_size) then ok (Inr data) s
        else chk (read_batches_until file_size (batches s cur) data) (\<lambda>data'.
          if length data' \<ge> unat file_size then ok (Inr data')
          else chk (fat32_next_cluster cur) (\<lambda>nxt. ok (if nxt \<ge> FAT32_EOC then Inr data' else Inl (nxt, data')))) s)"

definition fat32_read_file_entry :: "u8 list \<Rightarrow> u64 \<Rightarrow> ('d, u8 list \<times> u64) fat" where
  "fat32_read_file_entry entry out_capacity =
     (let file_size = ucast (rd32 entry 28) in
      if entry ! 11 AND FAT32_ATTR_DIRECTORY \<noteq> 0 then err
      else if entry_first_cluster entry < 2 then ok ([], 0)
      else chk (loop (read_entry_body file_size) (entry_first_cluster entry, [])) (\<lambda>data.
             ok (take (unat out_capacity) data, out_size file_size out_capacity)))"

text \<open>What every call by path begins with.\<close>

definition begin_call :: "string \<Rightarrow> string option \<Rightarrow> (u32 \<times> u8 list \<Rightarrow> ('d, 'a) fat) \<Rightarrow> ('d, 'a) fat" where
  "begin_call op path k s =
     (let s0 = fat32_clear_error s in
      if \<not> mounted s0 \<or> path = None then fail_msg (op @ '': invalid arguments or unmounted'') s0
      else chk (or_msg (op @ '': path resolution failed'') (fat32_resolve_parent_and_leaf path)) k s0)"

definition done_call :: "'a \<Rightarrow> ('d, 'a) fat" where
  "done_call a s = ok a (fat32_clear_error s)"

definition fat32_read_file_path :: "string option \<Rightarrow> u64 \<Rightarrow> ('d, u8 list \<times> u64) fat" where
  "fat32_read_file_path path out_capacity =
     begin_call ''read'' path (\<lambda>(parent, name83).
       chk (or_msg ''read: file not found'' (fat32_find_entry_in_dir parent name83)) (\<lambda>(lba, off, entry).
       chk (or_msg ''read: file data read failed'' (fat32_read_file_entry entry out_capacity)) done_call))"

text \<open>Directory or not, and the size.\<close>

definition fat32_stat_path :: "string option \<Rightarrow> ('d, bool \<times> u32) fat" where
  "fat32_stat_path path s =
     (if \<not> mounted s then err s
      else if path = None \<or> path = Some [] \<or> path = Some ''/'' then ok (True, 0) s
      else attempt (fat32_resolve_dir_cluster path) (\<lambda>r.
        case r of
          Some _ \<Rightarrow> ok (True, 0)
        | None \<Rightarrow>
            chk (fat32_resolve_parent_and_leaf path) (\<lambda>(parent, name83).
            chk (fat32_find_entry_in_dir parent name83) (\<lambda>(lba, off, entry).
              let dir = (entry ! 11 AND FAT32_ATTR_DIRECTORY \<noteq> 0) in ok (dir, if dir then 0 else rd32 entry 28)))) s)"

fun count_free :: "nat list \<Rightarrow> u64 \<Rightarrow> ('d, u64) fat" where
  "count_free [] n = ok n"
| "count_free (c # cs) n = chk (fat32_next_cluster (of_nat c)) (\<lambda>nxt. count_free cs (if nxt = 0 then n + 1 else n))"

definition fat32_get_free_bytes :: "('d, u64) fat" where
  "fat32_get_free_bytes s =
     (if \<not> mounted s then err s
      else chk (count_free [2..<unat (max_data_cluster s) + 1] 0) (\<lambda>n s1.
             ok (n * (ucast (sectors_per_cluster s1) * ucast (bytes_per_sector s1))) s1) s)"

section \<open>Creating a file\<close>

definition edit_sector :: "u32 \<Rightarrow> (sector \<Rightarrow> sector) \<Rightarrow> ('d, unit) fat" where
  "edit_sector lba f = chk (fat32_read_sector_cached lba False) (\<lambda>sec. fat32_write_sector_uncached lba (f sec))"

definition edit_sector_msg :: "string \<Rightarrow> string \<Rightarrow> u32 \<Rightarrow> (sector \<Rightarrow> sector) \<Rightarrow> ('d, unit) fat" where
  "edit_sector_msg rd_msg wr_msg lba f =
     chk (or_msg rd_msg (fat32_read_sector_cached lba False)) (\<lambda>sec. or_msg wr_msg (fat32_write_sector_uncached lba (f sec)))"

definition fat32_touch_file_root :: "string option \<Rightarrow> ('d, unit) fat" where
  "fat32_touch_file_root nm s =
     (if \<not> mounted s \<or> nm = None then err s
      else attempt (fat32_find_root_entry nm []) (\<lambda>r.
        case r of
          Some _ \<Rightarrow> ok ()
        | None \<Rightarrow>
            (case fat32_name_to_83 nm of
               None \<Rightarrow> err
             | Some name83 \<Rightarrow>
                 chk fat32_find_free_root_entry (\<lambda>(lba, off). edit_sector lba (put_new_entry off name83 0x20)))) s)"

definition fat32_touch_file_path :: "string option \<Rightarrow> ('d, unit) fat" where
  "fat32_touch_file_path path =
     begin_call ''touch'' path (\<lambda>(parent, name83).
       attempt (fat32_find_entry_in_dir parent name83) (\<lambda>r.
         case r of
           Some (lba, off, entry) \<Rightarrow>
             if entry ! 11 AND FAT32_ATTR_DIRECTORY \<noteq> 0 then fail_msg ''touch: target is a directory'' else done_call ()
         | None \<Rightarrow>
             chk (or_msg ''touch: no free directory entry'' (fat32_find_free_entry_in_dir parent)) (\<lambda>(lba, off).
             chk (edit_sector_msg ''touch: read directory sector failed'' ''touch: write directory sector failed''
                    lba (put_new_entry off name83 0x20)) (\<lambda>_. done_call ()))))"

section \<open>Writing a file\<close>

text \<open>The two writing calls differ in how they find the entry and in that only the one by path sets a message;
  \<open>loud\<close> tells them apart. The buffer is the list of its \<open>size\<close> bytes.\<close>

definition report :: "bool \<Rightarrow> string \<Rightarrow> ('d, 'a) fat" where
  "report loud msg = (if loud then fail_msg msg else err)"

definition or_report :: "bool \<Rightarrow> string \<Rightarrow> ('d, 'a) fat \<Rightarrow> ('d, 'a) fat" where
  "or_report loud msg m = attempt m (\<lambda>r. case r of None \<Rightarrow> report loud msg | Some a \<Rightarrow> ok a)"

definition drop_chain :: "u32 \<Rightarrow> ('d, unit) fat" where
  "drop_chain first = (if first \<ge> 2 then attempt (fat32_free_chain first) (\<lambda>_. ok ()) else ok ())"

text \<open>The loop that allocates and links; its variables are the first and the previous cluster.\<close>

fun alloc_chain :: "bool \<Rightarrow> nat \<Rightarrow> u32 \<Rightarrow> u32 \<Rightarrow> ('d, u32 \<times> u32) fat" where
  "alloc_chain loud 0 first prev = ok (first, prev)"
| "alloc_chain loud (Suc n) first prev =
     attempt fat32_alloc_cluster (\<lambda>r.
       case r of
         None \<Rightarrow> chk (drop_chain first) (\<lambda>_. report loud ''write: no free cluster or FAT write error'')
       | Some cur \<Rightarrow>
           let first' = (if first = 0 then cur else first) in
           attempt (if prev \<ge> 2 then fat32_set_cluster_value prev cur else ok ()) (\<lambda>r.
             case r of
               None \<Rightarrow> chk (drop_chain first') (\<lambda>_. report loud ''write: failed to link cluster chain'')
             | Some _ \<Rightarrow> alloc_chain loud n first' cur))"

definition needed_clusters :: "'d fat_state \<Rightarrow> u64 \<Rightarrow> u32" where
  "needed_clusters s sz =
     (if sz = 0 then 0
      else ucast ((sz + ucast (sectors_per_cluster s) * 512 - 1) div (ucast (sectors_per_cluster s) * 512)))"

text \<open>The next 512 bytes of the data, or the last ones and zeros.\<close>

definition data_sector :: "u8 list \<Rightarrow> nat \<Rightarrow> sector" where
  "data_sector data pos = take 512 (drop pos data) @ replicate (512 - length (take 512 (drop pos data))) 0"

fun write_sectors :: "bool \<Rightarrow> u8 list \<Rightarrow> u32 list \<Rightarrow> nat \<Rightarrow> ('d, nat) fat" where
  "write_sectors loud data [] written = ok written"
| "write_sectors loud data (lba # lbas) written =
     (if written < length data then
        chk (or_report loud ''write: sector write failed'' (fat32_write_sector_uncached lba (data_sector data written)))
          (\<lambda>_. write_sectors loud data lbas (min (written + 512) (length data)))
      else ok written)"

definition write_body :: "bool \<Rightarrow> u8 list \<Rightarrow> u32 \<times> nat \<Rightarrow> ('d, u32 \<times> nat + unit) fat" where
  "write_body loud data cw s =
     (case cw of (cur, written) \<Rightarrow>
        if \<not> (cur \<ge> 2 \<and> written < length data) then ok (Inr ()) s
        else chk (write_sectors loud data (cluster_lbas s cur) written) (\<lambda>written'.
          if written' \<ge> length data then ok (Inr ())
          else chk (or_report loud ''write: failed to advance cluster chain'' (fat32_next_cluster cur)) (\<lambda>nxt.
            ok (if nxt \<ge> FAT32_EOC then Inr () else Inl (nxt, written')))) s)"

text \<open>Everything after the entry is known: free the old chain, allocate, write the data, update the entry.\<close>

definition write_contents :: "bool \<Rightarrow> u8 list \<Rightarrow> entry_pos \<Rightarrow> ('d, unit) fat" where
  "write_contents loud data p =
     (case p of (lba, off, entry) \<Rightarrow>
        if entry ! 11 AND FAT32_ATTR_DIRECTORY \<noteq> 0 then report loud ''write: target is a directory''
        else chk (if entry_first_cluster entry \<ge> 2
                  then or_report loud ''write: failed to free previous data chain'' (fat32_free_chain (entry_first_cluster entry))
                  else ok ()) (\<lambda>_ s.
             chk (alloc_chain loud (unat (needed_clusters s (of_nat (length data)))) 0 0) (\<lambda>(first, prev).
             chk (attempt (if prev \<ge> 2 then fat32_set_cluster_value prev 0x0FFFFFFF else ok ()) (\<lambda>r.
                    case r of
                      None \<Rightarrow> chk (drop_chain first) (\<lambda>_. report loud ''write: failed to terminate cluster chain'')
                    | Some _ \<Rightarrow> ok ())) (\<lambda>_.
             chk (loop (write_body loud data) (first, 0)) (\<lambda>_.
             chk (or_report loud ''write: read directory entry sector failed'' (fat32_read_sector_cached lba False)) (\<lambda>sec.
               or_report loud ''write: update directory entry failed''
                 (fat32_write_sector_uncached lba
                    (entry_set_size off (of_nat (length data)) (entry_set_first_cluster off first (sec[off + 11 := 0x20])))))))) s))"

text \<open>\<open>junk\<close> is what the uninitialised \<open>entry\<close> holds; see \<open>fat32_find_root_entry\<close>.\<close>

definition fat32_write_file_root :: "u8 list \<Rightarrow> string option \<Rightarrow> u8 list option \<Rightarrow> ('d, unit) fat" where
  "fat32_write_file_root junk nm data s =
     (case (mounted s, nm, data) of
        (True, Some n, Some bytes) \<Rightarrow>
          attempt (fat32_find_root_entry (Some n) junk) (\<lambda>r.
            case r of
              Some p \<Rightarrow> write_contents False bytes p
            | None \<Rightarrow>
                chk (fat32_touch_file_root (Some n)) (\<lambda>_.
                chk (fat32_find_root_entry (Some n) junk) (write_contents False bytes))) s
      | _ \<Rightarrow> err s)"

definition fat32_write_file_path :: "string option \<Rightarrow> u8 list option \<Rightarrow> ('d, unit) fat" where
  "fat32_write_file_path path data =
     begin_call ''write'' (if data = None then None else path) (\<lambda>(parent, name83).
       attempt (fat32_find_entry_in_dir parent name83) (\<lambda>r.
         chk (case r of
                Some p \<Rightarrow> ok p
              | None \<Rightarrow>
                  attempt (fat32_touch_file_path path) (\<lambda>t.
                    case t of
                      None \<Rightarrow> (\<lambda>s. if fs_last_error s = [] then fail_msg ''write: create target entry failed'' s else err s)
                    | Some _ \<Rightarrow> or_msg ''write: lookup after create failed'' (fat32_find_entry_in_dir parent name83)))
         (\<lambda>p. chk (write_contents True (the data) p) (\<lambda>_. done_call ()))))"

section \<open>Removing, directories, attributes\<close>

definition mark_deleted :: "nat \<Rightarrow> sector \<Rightarrow> sector" where
  "mark_deleted off sec = sec[off := 0xE5]"

definition fat32_delete_file_root :: "u8 list \<Rightarrow> string option \<Rightarrow> ('d, unit) fat" where
  "fat32_delete_file_root junk nm s =
     (if \<not> mounted s \<or> nm = None then err s
      else chk (fat32_find_root_entry nm junk) (\<lambda>(lba, off, entry).
        if entry ! 11 AND FAT32_ATTR_DIRECTORY \<noteq> 0 then err
        else chk (if entry_first_cluster entry \<ge> 2 then fat32_free_chain (entry_first_cluster entry) else ok ()) (\<lambda>_.
             edit_sector lba (mark_deleted off))) s)"

text \<open>The sector of a new directory: \<open>.\<close> and \<open>..\<close>.\<close>

definition dot_entries :: "u32 \<Rightarrow> u32 \<Rightarrow> sector \<Rightarrow> sector" where
  "dot_entries cluster parent sec =
     entry_set_first_cluster 32 parent (put_new_entry 32 (0x2E # 0x2E # replicate 9 0x20) FAT32_ATTR_DIRECTORY
       (entry_set_first_cluster 0 cluster (put_new_entry 0 (0x2E # replicate 10 0x20) FAT32_ATTR_DIRECTORY sec)))"

text \<open>\<open>if (m fails) { fat32_free_chain(cluster); ... }\<close>\<close>

definition or_free :: "string \<Rightarrow> u32 \<Rightarrow> ('d, 'a) fat \<Rightarrow> ('d, 'a) fat" where
  "or_free msg cluster m =
     attempt m (\<lambda>r. case r of None \<Rightarrow> attempt (fat32_free_chain cluster) (\<lambda>_. fail_msg msg) | Some a \<Rightarrow> ok a)"

definition fat32_mkdir_path :: "string option \<Rightarrow> ('d, unit) fat" where
  "fat32_mkdir_path path =
     begin_call ''mkdir'' path (\<lambda>(parent, name83).
       attempt (fat32_find_entry_in_dir parent name83) (\<lambda>r.
         case r of
           Some _ \<Rightarrow> fail_msg ''mkdir: target already exists''
         | None \<Rightarrow>
             chk (or_msg ''mkdir: no free directory entry'' (fat32_find_free_entry_in_dir parent)) (\<lambda>(entry_lba, off).
             chk (or_msg ''mkdir: no free cluster or FAT write error'' fat32_alloc_cluster) (\<lambda>cluster s.
               let lba = cluster_to_lba s cluster in
               chk (for_each (\<lambda>a. or_free ''mkdir: zeroing directory cluster failed'' cluster
                                (fat32_write_sector_uncached a (replicate 512 0))) (cluster_lbas s cluster)) (\<lambda>_.
               chk (or_free ''mkdir: read new directory cluster failed'' cluster (fat32_read_sector_cached lba False)) (\<lambda>sec.
               chk (or_free ''mkdir: write dot entries failed'' cluster
                      (fat32_write_sector_uncached lba (dot_entries cluster parent sec))) (\<lambda>_.
               chk (or_free ''mkdir: read parent directory sector failed'' cluster (fat32_read_sector_cached entry_lba False)) (\<lambda>sec.
               chk (or_free ''mkdir: write parent directory entry failed'' cluster
                      (fat32_write_sector_uncached entry_lba
                        (entry_set_first_cluster off cluster (put_new_entry off name83 FAT32_ATTR_DIRECTORY sec)))) (\<lambda>_.
               done_call ()))))) s))))"

definition fat32_remove_path :: "string option \<Rightarrow> ('d, unit) fat" where
  "fat32_remove_path path =
     begin_call ''remove'' path (\<lambda>(parent, name83).
       chk (or_msg ''remove: target not found'' (fat32_find_entry_in_dir parent name83)) (\<lambda>(lba, off, entry).
       let first = entry_first_cluster entry in
       chk (if entry ! 11 AND FAT32_ATTR_DIRECTORY \<noteq> 0 then
              if first < 2 then fail_msg ''remove: invalid directory cluster''
              else chk (or_msg ''remove: cannot enumerate directory'' (fat32_ls_dir_cluster first 2)) (\<lambda>names.
                if names \<noteq> [] then fail_msg ''remove: directory not empty''
                else or_msg ''remove: failed to free directory chain'' (fat32_free_chain first))
            else if first \<ge> 2 then or_msg ''remove: failed to free file chain'' (fat32_free_chain first)
            else ok ()) (\<lambda>_.
       chk (edit_sector_msg ''remove: read directory sector failed'' ''remove: write directory sector failed''
              lba (mark_deleted off)) (\<lambda>_. done_call ()))))"

definition fat32_get_attr_path :: "string option \<Rightarrow> ('d, u8) fat" where
  "fat32_get_attr_path path =
     begin_call ''attr'' path (\<lambda>(parent, name83).
       chk (or_msg ''attr: target not found'' (fat32_find_entry_in_dir parent name83)) (\<lambda>(lba, off, entry).
       done_call (entry ! 11)))"

definition new_attr :: "u8 \<Rightarrow> u8 \<Rightarrow> u8 \<Rightarrow> u8" where
  "new_attr old_attr set_mask clear_mask =
     (((old_attr OR set_mask) AND NOT clear_mask) AND NOT (FAT32_ATTR_DIRECTORY OR 0x08))
       OR (old_attr AND (FAT32_ATTR_DIRECTORY OR 0x08))"

definition fat32_set_attr_path :: "string option \<Rightarrow> u8 \<Rightarrow> u8 \<Rightarrow> ('d, u8) fat" where
  "fat32_set_attr_path path set_mask clear_mask =
     begin_call ''attr'' path (\<lambda>(parent, name83).
       chk (or_msg ''attr: target not found'' (fat32_find_entry_in_dir parent name83)) (\<lambda>(lba, off, entry).
       let attr = new_attr (entry ! 11) set_mask clear_mask in
       if attr AND 0x0F = FAT32_ATTR_LFN then fail_msg ''attr: invalid attribute combination''
       else chk (edit_sector_msg ''attr: read directory sector failed'' ''attr: write directory sector failed''
                   lba (\<lambda>sec. sec[off + 11 := attr])) (\<lambda>_. done_call attr)))"

end
