(* ===== verification/Fat_Names.thy ===== *)
theory Fat_Names
  imports Fat_Dir
begin

text \<open>
  The 8.3 names of \<open>src/kernel/fat32.c\<close>: which names \<open>fat32_name_to_83\<close> accepts, the 11 bytes it makes of them,
  and that \<open>fat83_to_name\<close> reads the name back in capitals.
\<close>

section \<open>Capitals\<close>

lemma upcase_cases: "upcase c = c \<or> (65 \<le> (of_char (upcase c) :: nat) \<and> (of_char (upcase c) :: nat) \<le> 90 \<and> 97 \<le> (of_char c :: nat) \<and> (of_char c :: nat) \<le> 122)"
  by (auto simp: upcase_def)

lemma upcase_eq_iff:
  assumes "(of_char d :: nat) < 65 \<or> ((of_char d :: nat) > 90 \<and> (of_char d :: nat) < 97)"
  shows "upcase c = d \<longleftrightarrow> c = d"
proof -
  have "upcase d = d" using assms by (auto simp: upcase_def)
  with upcase_cases [of c] assms show ?thesis by auto
qed

lemma upcase_marks: "upcase c = CHR ''/'' \<longleftrightarrow> c = CHR ''/''" "upcase c = CHR 0x5C \<longleftrightarrow> c = CHR 0x5C" "upcase c = CHR ''.'' \<longleftrightarrow> c = CHR ''.''"
  "upcase c = CHR '' '' \<longleftrightarrow> c = CHR '' ''" "upcase c = CHR 0x00 \<longleftrightarrow> c = CHR 0x00"
  by (rule upcase_eq_iff; simp)+

section \<open>Making the eleven bytes\<close>

definition name_bytes :: "string \<Rightarrow> u8 list" where
  "name_bytes cs = map (\<lambda>c. byte_of_char (upcase c)) cs"

definition put_at :: "nat \<Rightarrow> 'a list \<Rightarrow> 'a list \<Rightarrow> 'a list" where
  "put_at k xs out = take k out @ xs @ drop (k + length xs) out"

lemma put_at_Cons:
  assumes "k < length out"
  shows "put_at (Suc k) xs (out[k := x]) = put_at k (x # xs) out"
  using assms by (simp add: put_at_def take_Suc_conv_app_nth)

lemma put_at_Nil [simp]: "put_at k [] out = out"
  by (simp add: put_at_def)

text \<open>Before and behind the first dot.\<close>

definition base_part :: "string \<Rightarrow> string" where "base_part n = takeWhile (\<lambda>c. c \<noteq> CHR ''.'') n"
definition ext_part :: "string \<Rightarrow> string" where "ext_part n = tl (dropWhile (\<lambda>c. c \<noteq> CHR ''.'') n)"

definition is_83 :: "string \<Rightarrow> bool" where
  "is_83 n = (base_part n \<noteq> [] \<and> length (base_part n) \<le> 8 \<and> length (ext_part n) \<le> 3 \<and> CHR ''.'' \<notin> set (ext_part n) \<and>
     (\<forall>c \<in> set n. \<not> is_sep c))"

definition pad :: "nat \<Rightarrow> u8 list \<Rightarrow> u8 list" where
  "pad k xs = xs @ replicate (k - length xs) 0x20"

lemma name_loop_ext:
  assumes "el \<le> 3" and "length out = 11"
  shows "name_loop cs out bl el True =
    (if (\<forall>c \<in> set cs. \<not> is_sep c \<and> c \<noteq> CHR ''.'') \<and> el + length cs \<le> 3 \<and> bl \<noteq> 0 then Some (put_at (8 + el) (name_bytes cs) out) else None)"
  using assms
proof (induction cs arbitrary: out el)
  case Nil
  then show ?case by (simp add: name_bytes_def)
next
  case (Cons c cs)
  show ?case
  proof (cases "is_sep c \<or> c = CHR ''.'' \<or> el = 3")
    case True
    then show ?thesis by (auto simp: Let_def upcase_marks is_sep_def)
  next
    case False
    then have "name_loop (c # cs) out bl el True = name_loop cs (out[8 + el := byte_of_char (upcase c)]) bl (el + 1) True"
      using Cons.prems by (simp add: Let_def upcase_marks is_sep_def)
    with Cons.IH [of "el + 1" "out[8 + el := byte_of_char (upcase c)]"] Cons.prems False put_at_Cons [of "8 + el" out]
    show ?thesis by (auto simp: name_bytes_def)
  qed
qed

lemma name_loop_base:
  assumes "bl \<le> 8" and "length out = 11"
  shows "name_loop cs out bl 0 False =
    (if (\<forall>c \<in> set cs. \<not> is_sep c) \<and> bl + length (base_part cs) \<le> 8 \<and> bl + length (base_part cs) \<noteq> 0 \<and> length (ext_part cs) \<le> 3 \<and> CHR ''.'' \<notin> set (ext_part cs)
     then Some (put_at 8 (name_bytes (ext_part cs)) (put_at bl (name_bytes (base_part cs)) out)) else None)"
  using assms
proof (induction cs arbitrary: out bl)
  case Nil
  then show ?case by (simp add: name_bytes_def base_part_def ext_part_def)
next
  case (Cons c cs)
  show ?case
  proof (cases "c = CHR ''.''")
    case True
    then have "name_loop (c # cs) out bl 0 False = name_loop cs out bl 0 True" by (simp add: upcase_def)
    moreover have "base_part (c # cs) = []" "ext_part (c # cs) = cs" using True by (simp_all add: base_part_def ext_part_def)
    ultimately show ?thesis using True Cons.prems name_loop_ext [of 0 out cs bl] by (auto simp: is_sep_def name_bytes_def)
  next
    case dot: False
    have parts: "base_part (c # cs) = c # base_part cs" "ext_part (c # cs) = ext_part cs"
      using dot by (simp_all add: base_part_def ext_part_def)
    show ?thesis
    proof (cases "is_sep c \<or> bl = 8")
      case True
      then show ?thesis using dot parts by (auto simp: Let_def upcase_marks is_sep_def)
    next
      case False
      then have "name_loop (c # cs) out bl 0 False = name_loop cs (out[bl := byte_of_char (upcase c)]) (bl + 1) 0 False"
        using Cons.prems dot by (simp add: Let_def upcase_marks is_sep_def)
      with Cons.IH [of "bl + 1" "out[bl := byte_of_char (upcase c)]"] Cons.prems False parts put_at_Cons [of bl out]
      show ?thesis by (auto simp: name_bytes_def)
    qed
  qed
qed

lemma name_to_83:
  "fat32_name_to_83 (Some n) =
    (if is_83 n then Some (pad 8 (name_bytes (base_part n)) @ pad 3 (name_bytes (ext_part n))) else None)"
proof (cases "is_83 n")
  case True
  then have "n \<noteq> []" by (auto simp: is_83_def base_part_def)
  moreover have "put_at 8 (name_bytes (ext_part n)) (put_at 0 (name_bytes (base_part n)) (replicate 11 0x20))
      = pad 8 (name_bytes (base_part n)) @ pad 3 (name_bytes (ext_part n))"
    using True by (simp add: put_at_def pad_def name_bytes_def is_83_def drop_replicate)
  ultimately show ?thesis using True name_loop_base [of 0 "replicate 11 0x20" n] by (simp add: fat32_name_to_83_def is_83_def)
next
  case False
  then show ?thesis using name_loop_base [of 0 "replicate 11 0x20" n] by (auto simp: fat32_name_to_83_def is_83_def)
qed

section \<open>Reading the name back\<close>

lemma trim_len_pad:
  assumes "length xs \<le> n" and "\<And>j. j < n \<Longrightarrow> f j = (xs @ replicate (n - length xs) 0x20) ! j" and "xs = [] \<or> last xs \<noteq> 0x20"
  shows "trim_len f n = length xs"
  using assms
proof (induction n)
  case (Suc n)
  show ?case
  proof (cases "length xs = Suc n")
    case True
    have "f n = last xs" using Suc.prems(2) [of n] True by (cases xs) (auto simp: nth_append last_conv_nth)
    with True Suc.prems(3) show ?thesis by auto
  next
    case False
    have "f n = 0x20" using Suc.prems(2) [of n] Suc.prems(1) False by (simp add: nth_append)
    moreover have "trim_len f n = length xs"
    proof (rule Suc.IH)
      fix j assume "j < n"
      then show "f j = (xs @ replicate (n - length xs) 0x20) ! j"
        using Suc.prems(2) [of j] by (cases "j < length xs") (auto simp: nth_append)
    qed (use Suc.prems False in auto)
    ultimately show ?thesis by simp
  qed
qed simp

lemma char_of_byte_of_char [simp]: "char_of_byte (byte_of_char c) = c"
proof -
  have "byte_of_char c = of_nat (of_char c)" by (rule of_nat_of_char [symmetric])
  then have "unat (byte_of_char c) = of_char c" by (simp add: unat_of_nat)
  then show ?thesis by simp
qed

lemma name_bytes_last:
  assumes "xs \<noteq> []" and "last xs \<noteq> CHR '' ''"
  shows "last (name_bytes xs) \<noteq> 0x20"
proof
  assume "last (name_bytes xs) = 0x20"
  then have "byte_of_char (upcase (last xs)) = 0x20" using assms(1) by (simp add: name_bytes_def last_map)
  then have "upcase (last xs) = char_of_byte 0x20" by (metis char_of_byte_of_char)
  moreover have "char_of_byte 0x20 = CHR '' ''" by code_simp
  ultimately show False using assms(2) by (simp add: upcase_marks)
qed

lemma read_back:
  assumes "is_83 n" and "last (base_part n) \<noteq> CHR '' ''" and "ext_part n = [] \<or> last (ext_part n) \<noteq> CHR '' ''" and "CHR 0x00 \<notin> set n"
  shows "fat83_to_name (pad 8 (name_bytes (base_part n)) @ pad 3 (name_bytes (ext_part n)) @ rest) 0 40 =
    map upcase (base_part n) @ (if ext_part n = [] then [] else CHR ''.'' # map upcase (ext_part n))"
proof -
  let ?b = "name_bytes (base_part n)" and ?e = "name_bytes (ext_part n)"
  let ?sec = "pad 8 ?b @ pad 3 ?e @ rest"
  have len: "length ?b \<le> 8" "length ?e \<le> 3" "base_part n \<noteq> []" "length ?b = length (base_part n)" "length ?e = length (ext_part n)"
    using assms(1) by (auto simp: is_83_def name_bytes_def)
  have lp: "length (pad 8 ?b) = 8" "length (pad 3 ?e) = 3" using len by (simp_all add: pad_def)
  have tb: "trim_len (\<lambda>j. ?sec ! (0 + j)) 8 = length ?b"
    using len(1,3) name_bytes_last [OF len(3) assms(2)] lp
    by (intro trim_len_pad) (simp_all add: nth_append [of "pad 8 ?b"] pad_def [of 8 ?b, symmetric])
  have te: "trim_len (\<lambda>j. ?sec ! (0 + 8 + j)) 3 = length ?e"
    using len(2) name_bytes_last [of "ext_part n"] assms(3) lp
    by (intro trim_len_pad) (auto simp: pad_def nth_append name_bytes_def)
  have mb: "map (\<lambda>j. char_of_byte (?sec ! (0 + j))) [0..<length ?b] = map upcase (base_part n)"
    using len(1) by (intro nth_equalityI) (simp_all add: pad_def nth_append name_bytes_def)
  have me: "map (\<lambda>j. char_of_byte (?sec ! (0 + 8 + j))) [0..<length ?e] = map upcase (ext_part n)"
    using len(2) lp by (intro nth_equalityI) (simp_all add: nth_append pad_def [of 3] name_bytes_def)
  have sub: "set (base_part n) \<subseteq> set n" "set (ext_part n) \<subseteq> set n"
    unfolding base_part_def ext_part_def
    by (auto dest: set_takeWhileD) (metis in_set_dropD list.set_sel(2) dropWhile_eq_drop tl_Nil)
  have "upcase c \<noteq> CHR 0x00" if "c \<in> set n" for c using that assms(4) upcase_marks(5) [of c] by metis
  then have nul: "\<forall>c \<in> set (map upcase (base_part n) @ CHR ''.'' # map upcase (ext_part n)). c \<noteq> CHR 0x00"
    using sub by fastforce
  show ?thesis
    using len nul unfolding fat83_to_name_def Let_def tb te mb me
    by (auto simp: takeWhile_eq_all_conv)
qed



end
