(* ===== verification/Fat_Alloc.thy ===== *)
theory Fat_Alloc
  imports Fat_Table Fat_Dir
begin

text \<open>
  \<open>fat32_alloc_cluster\<close> and \<open>fat32_free_chain\<close> of \<open>src/kernel/fat32.c\<close> over a device that keeps what is written to
  it: which links they change, and that freeing a chain always ends.
\<close>

section \<open>Taking a cluster\<close>

lemma cluster_above_table:
  assumes "table_fits s" and "fat32_cluster_is_valid s c" and "lba \<in> set (cluster_lbas s c)"
  shows "data_start_lba s \<le> lba"
proof -
  let ?m = "unat (max_data_cluster s)" and ?k = "unat (sectors_per_cluster s)" and ?d = "unat (data_start_lba s)"
  from assms(3) obtain k where k: "k < ?k" "lba = cluster_to_lba s c + of_nat k" by (auto simp: cluster_lbas_def)
  have c: "2 \<le> unat c" "unat c \<le> ?m" using assms(2) by (auto simp: valid_bounds)
  have e: "?d + (?m - 1) * ?k \<le> 4294967296" using assms(1) by (simp add: table_fits_def)
  have "(unat c - 2 + 1) * ?k \<le> (?m - 1) * ?k" using c by (intro mult_le_mono1) simp
  then have b: "?d + (unat c - 2) * ?k + k < 4294967296" using e k(1) by (simp add: algebra_simps)
  have "unat (c - 2) = unat c - 2" using c(1) by (simp add: unat_sub word_le_nat_alt)
  then have p: "unat ((c - 2) * ucast (sectors_per_cluster s)) = (unat c - 2) * ?k"
    using b unat_bounds(1) [of "sectors_per_cluster s"] by (simp add: unat_word_ariths unsigned_ucast_eq take_bit_nat_eq_self)
  have q: "unat (cluster_to_lba s c) = ?d + (unat c - 2) * ?k"
    using b p by (simp add: cluster_to_lba_def unat_word_ariths(1))
  have "unat lba = ?d + (unat c - 2) * ?k + k"
    using b q k unat_bounds(1) [of "sectors_per_cluster s"] by (simp add: unat_word_ariths(1) unat_of_nat)
  then show ?thesis by (simp add: word_le_nat_alt)
qed

context block_laws begin

lemma zero_sectors:
  assumes "coherent rd wr contents s" and "for_each (\<lambda>i. fat32_write_sector_uncached (base + of_nat i) (replicate 512 0)) xs s = Some (Some u, s')"
  shows "keeps s s' \<and> alloc_hint_cluster s' = alloc_hint_cluster s \<and>
    contents (disk s') = (\<lambda>lba. if lba \<in> (\<lambda>i. base + of_nat i) ` set xs then replicate 512 0 else contents (disk s) lba)"
  using assms
proof (induction xs arbitrary: s)
  case Nil
  then show ?case by (simp add: ok_def keeps_def)
next
  case (Cons i xs)
  from chk_SomeD [OF Cons.prems(2) [unfolded for_each.simps]] obtain s1 where
    w: "fat32_write_sector_uncached (base + of_nat i) (replicate 512 0) s = Some (Some (), s1)"
    and b: "for_each (\<lambda>i. fat32_write_sector_uncached (base + of_nat i) (replicate 512 0)) xs s1 = Some (Some u, s')" by auto
  from write_uncached [OF Cons.prems(1) _ w] have f: "coherent rd wr contents s1" "geometry s1 = geometry s"
    "contents (disk s1) = (contents (disk s))(base + of_nat i := replicate 512 0)" "alloc_hint_cluster s1 = alloc_hint_cluster s" by auto
  from Cons.IH [OF f(1) b] f show ?case by (auto simp: keeps_def fun_eq_iff)
qed

lemma take_cluster:
  assumes "coherent rd wr contents s" and "table_fits s" and "take_cluster c s = Some (Some r, s')"
  shows "r = c \<and> fat32_cluster_is_valid s c \<and> keeps s s' \<and> fat32_cluster_is_valid s (alloc_hint_cluster s') \<and>
    contents (disk s') = (\<lambda>lba. if lba \<in> set (cluster_lbas s c) then replicate 512 0 else put_link s c 0x0FFFFFFF (contents (disk s)) lba)"
proof -
  from chk_SomeD [OF assms(3) [unfolded take_cluster_def]] obtain s1 where
    a: "fat32_set_cluster_value c 0x0FFFFFFF s = Some (Some (), s1)" and
    b: "chk (for_each (\<lambda>i. fat32_write_sector_uncached (cluster_to_lba s1 c + of_nat i) (replicate 512 0))
            [0..<unat (sectors_per_cluster s1)]) (\<lambda>_.
     chk (modify_st (\<lambda>s. s\<lparr>alloc_hint_cluster := (if c < max_data_cluster s then c + 1 else 2)\<rparr>)) (\<lambda>_.
     ok c)) s1 = Some (Some r, s')" by auto
  note f1 = set_cluster_value [OF assms(1,2) a]
  from chk_SomeD [OF b] obtain s2 where
    z: "for_each (\<lambda>i. fat32_write_sector_uncached (cluster_to_lba s1 c + of_nat i) (replicate 512 0)) [0..<unat (sectors_per_cluster s1)] s1 = Some (Some (), s2)"
    and e: "r = c" "s' = s2\<lparr>alloc_hint_cluster := (if c < max_data_cluster s2 then c + 1 else 2)\<rparr>"
    by (auto simp: chk_def modify_st_def ok_def)
  have g1: "geometry s1 = geometry s" using f1 by (simp add: keeps_def)
  note f2 = zero_sectors [OF _ z]
  have g2: "geometry s2 = geometry s" using f2 f1 by (simp add: keeps_def)
  have v: "fat32_cluster_is_valid s (if c < max_data_cluster s2 then c + 1 else 2)"
  proof -
    have "c \<le> max_data_cluster s" "2 \<le> c" "data_clusters s \<noteq> 0" using f1 by (auto simp: fat32_cluster_is_valid_def split: if_splits)
    then show ?thesis using geometry_cong(9) [OF g2] unat_bounds(3) [of "max_data_cluster s"]
      by (auto simp: valid_bounds word_le_nat_alt word_less_nat_alt unat_word_ariths split: if_splits)
  qed
  have "set (cluster_lbas s c) = (\<lambda>i. cluster_to_lba s1 c + of_nat i) ` set [0..<unat (sectors_per_cluster s1)]"
    by (simp add: cluster_lbas_def geometry_cong [OF g1])
  then show ?thesis using f1 f2 e v g2 by (auto simp: keeps_def coherent_def geometry_def fun_eq_iff)
qed

end

context block_laws begin

lemma alloc_scan:
  assumes "coherent rd wr contents s" and "table_fits s" and "alloc_scan cs s = Some (Some (Some c), s')"
  shows "\<exists>s1. keeps s s1 \<and> contents (disk s1) = contents (disk s) \<and> link_in s (contents (disk s)) 0 c = 0 \<and>
    take_cluster c s1 = Some (Some c, s')"
  using assms
proof (induction cs arbitrary: s)
  case Nil
  then show ?case by (simp add: ok_def)
next
  case (Cons n cs)
  from chk_SomeD [OF Cons.prems(3) [unfolded alloc_scan.simps]] obtain v s1 where
    v: "fat32_next_cluster (of_nat n) s = Some (Some v, s1)"
    and r: "(if v = 0 then chk (take_cluster (of_nat n)) (\<lambda>r. ok (Some r)) else alloc_scan cs) s1 = Some (Some (Some c), s')" by auto
  note f = next_cluster [OF Cons.prems(1) v]
  have g: "geometry s1 = geometry s" and co: "coherent rd wr contents s1" and d: "contents (disk s1) = contents (disk s)"
    using f by (auto simp: keeps_def)
  have fits: "table_fits s1" using Cons.prems(2) link_in_geometry(3) [OF g] by simp
  show ?case
  proof (cases "v = 0")
    case True
    with r have t: "take_cluster (of_nat n) s1 = Some (Some c, s')" by (auto simp: ok_def dest!: chk_SomeD)
    with take_cluster [OF co fits t] f True show ?thesis by (intro exI [of _ s1]) (auto simp: keeps_def)
  next
    case False
    with r have "alloc_scan cs s1 = Some (Some (Some c), s')" by simp
    from Cons.IH [OF co fits this] show ?thesis using g d link_in_geometry(1) [OF g] by (auto simp: keeps_def)
  qed
qed

lemma alloc_cluster:
  assumes "coherent rd wr contents s" and "table_fits s" and "fat32_alloc_cluster s = Some (Some c, s')"
  shows "fat32_cluster_is_valid s c \<and> link_in s (contents (disk s)) 0 c = 0 \<and> keeps s s' \<and>
    fat32_cluster_is_valid s (alloc_hint_cluster s') \<and>
    contents (disk s') = (\<lambda>lba. if lba \<in> set (cluster_lbas s c) then replicate 512 0 else put_link s c 0x0FFFFFFF (contents (disk s)) lba)"
proof -
  have "\<exists>cs. alloc_scan cs s = Some (Some (Some c), s')"
    using assms(3) by (auto simp: fat32_alloc_cluster_def Let_def ok_def err_def dest!: chk_SomeD split: option.splits)
  then obtain cs where "alloc_scan cs s = Some (Some (Some c), s')" ..
  from alloc_scan [OF assms(1,2) this] obtain s1 where s1: "keeps s s1" "contents (disk s1) = contents (disk s)"
    "link_in s (contents (disk s)) 0 c = 0" "take_cluster c s1 = Some (Some c, s')" by auto
  have g: "geometry s1 = geometry s" and co: "coherent rd wr contents s1" using s1 by (auto simp: keeps_def)
  have fits: "table_fits s1" using assms(2) link_in_geometry(3) [OF g] by simp
  from take_cluster [OF co fits s1(4)] s1 link_in_geometry [OF g] geometry_cong [OF g]
  show ?thesis by (simp add: keeps_def cluster_lbas_def cong: if_cong)
qed

lemma alloc_links:
  assumes "coherent rd wr contents s" and "table_fits s" and "fat32_alloc_cluster s = Some (Some c, s')"
    and "fat32_cluster_is_valid s c'" and "i < unat (fat_count s)"
  shows "link_in s (contents (disk s')) i c' = (if c' = c then 0x0FFFFFFF else link_in s (contents (disk s)) i c')"
proof -
  note f = alloc_cluster [OF assms(1-3)]
  have "contents (disk s') lba = put_link s c 0x0FFFFFFF (contents (disk s)) lba" if "lba < data_start_lba s" for lba
    using f that cluster_above_table [OF assms(2), of c lba] by (auto simp: fun_eq_iff)
  from link_in_cong [OF assms(2,4,5) this]
  have "link_in s (contents (disk s')) i c' = link_in s (put_link s c 0x0FFFFFFF (contents (disk s))) i c'" by auto
  with link_in_put_link [OF assms(2) _ assms(4,5), where c = c and img = "contents (disk s)" and v = "0x0FFFFFFF"] f contents_length show ?thesis by simp
qed

end

section \<open>Freeing a chain\<close>

text \<open>The clusters a chain visits: from one of the volume to the one it links to, while that is one of the volume.\<close>

inductive on_chain :: "(u32 \<Rightarrow> bool) \<Rightarrow> (u32 \<Rightarrow> u32) \<Rightarrow> u32 \<Rightarrow> u32 \<Rightarrow> bool" for valid link first where
  chain_start: "valid first \<Longrightarrow> on_chain valid link first first"
| chain_next: "on_chain valid link first c \<Longrightarrow> valid (link c) \<Longrightarrow> on_chain valid link first (link c)"

lemma on_chain_valid: "on_chain valid link first c \<Longrightarrow> valid c"
  by (induction rule: on_chain.induct) auto

lemma on_chain_first: "on_chain valid link first c \<Longrightarrow> valid first"
  by (induction rule: on_chain.induct) auto

lemma on_chain_cut:
  assumes "valid first" and "\<not> valid 0" and "\<And>c. valid c \<Longrightarrow> link' c = (if c = first then 0 else link c)"
  shows "on_chain valid link first c \<longleftrightarrow> c = first \<or> on_chain valid link' (link first) c"
proof
  assume "on_chain valid link first c"
  then show "c = first \<or> on_chain valid link' (link first) c"
  proof (induction rule: on_chain.induct)
    case (chain_next c)
    show ?case
    proof (cases "c = first")
      case True
      with chain_next show ?thesis by (auto intro: on_chain.chain_start)
    next
      case False
      then have *: "on_chain valid link' (link first) c" using chain_next by simp
      have "link' c = link c" using assms(3) [OF on_chain_valid [OF *]] False by simp
      with on_chain.chain_next [OF *] chain_next show ?thesis by simp
    qed
  qed simp
next
  assume "c = first \<or> on_chain valid link' (link first) c"
  then show "on_chain valid link first c"
  proof
    assume "c = first"
    then show ?thesis using assms(1) by (auto intro: on_chain.chain_start)
  next
    assume "on_chain valid link' (link first) c"
    then show ?thesis
    proof (induction rule: on_chain.induct)
      case chain_start
      then show ?case using assms(1) by (auto intro: on_chain.intros)
    next
      case (chain_next c)
      have "c \<noteq> first"
      proof
        assume "c = first"
        with chain_next(1) have "link' c = 0" using assms(1,3) by simp
        with chain_next(2) assms(2) show False by simp
      qed
      then have "link' c = link c" using assms(3) [OF on_chain_valid [OF chain_next(1)]] by simp
      with chain_next show ?case by (auto intro: on_chain.chain_next)
    qed
  qed
qed

context block_laws begin

lemma chk_modify: "chk (modify_st f) k s = k () (f s)"
  by (simp add: chk_def modify_st_def)

lemma keeps_hint: "keeps s s2 \<Longrightarrow> keeps s (s2\<lparr>alloc_hint_cluster := h\<rparr>)"
  by (auto simp: keeps_def coherent_def geometry_def)

text \<open>One turn: the cluster's link becomes zero.\<close>

lemma free_body_step:
  assumes "coherent rd wr contents s" and "table_fits s" and "fat32_cluster_is_valid s c" and "free_body c s = Some (Some r, s')"
  shows "keeps s s' \<and> contents (disk s') = put_link s c 0 (contents (disk s)) \<and>
    (let v = link_in s (contents (disk s)) 0 c in (r = Inr () \<and> \<not> fat32_cluster_is_valid s v) \<or> r = Inl v)"
proof -
  have eoc: "c < FAT32_EOC" using assms(2,3) by (auto simp: valid_bounds table_fits_def word_less_nat_alt)
  have "free_body c s = chk (fat32_next_cluster c) (\<lambda>nxt.
           chk (fat32_set_cluster_value c 0) (\<lambda>_.
           chk (modify_st (\<lambda>s. if \<not> fat32_cluster_is_valid s (alloc_hint_cluster s) \<or> c < alloc_hint_cluster s
                              then s\<lparr>alloc_hint_cluster := c\<rparr> else s)) (\<lambda>_.
           if nxt \<ge> FAT32_EOC then ok (Inr ()) else ok (Inl nxt)))) s" using assms(3) eoc by (simp add: free_body_def)
  from chk_SomeD [OF this [unfolded assms(4), symmetric]] obtain v s1 where v: "fat32_next_cluster c s = Some (Some v, s1)"
    and k: "chk (fat32_set_cluster_value c 0) (\<lambda>_.
           chk (modify_st (\<lambda>s. if \<not> fat32_cluster_is_valid s (alloc_hint_cluster s) \<or> c < alloc_hint_cluster s
                              then s\<lparr>alloc_hint_cluster := c\<rparr> else s)) (\<lambda>_.
           if v \<ge> FAT32_EOC then ok (Inr ()) else ok (Inl v))) s1 = Some (Some r, s')" by blast
  note f = next_cluster [OF assms(1) v]
  have g: "geometry s1 = geometry s" and co: "coherent rd wr contents s1" and d: "contents (disk s1) = contents (disk s)"
    using f by (auto simp: keeps_def)
  have fits: "table_fits s1" using assms(2) link_in_geometry(3) [OF g] by simp
  let ?h = "\<lambda>s. if \<not> fat32_cluster_is_valid s (alloc_hint_cluster s) \<or> c < alloc_hint_cluster s then s\<lparr>alloc_hint_cluster := c\<rparr> else s"
  from chk_SomeD [OF k] obtain u s2 where w: "fat32_set_cluster_value c 0 s1 = Some (Some u, s2)"
    and k2: "(if v \<ge> FAT32_EOC then ok (Inr ()) else ok (Inl v)) (?h s2) = Some (Some r, s')"
    unfolding chk_modify by blast
  have r: "r = (if v \<ge> FAT32_EOC then Inr () else Inl v)"
    and e: "s' = (if \<not> fat32_cluster_is_valid s2 (alloc_hint_cluster s2) \<or> c < alloc_hint_cluster s2 then s2\<lparr>alloc_hint_cluster := c\<rparr> else s2)"
    using k2 by (auto simp only: ok_SomeD option.inject if_True if_False split: if_split_asm)
  note f2 = set_cluster_value [OF co fits w]
  have "keeps s s2" using f2 g by (simp add: keeps_def)
  then have "keeps s s'" by (simp add: e keeps_hint)
  moreover have "disk s' = disk s2" by (simp add: e)
  then have "contents (disk s') = put_link s c 0 (contents (disk s))" using f2 by (simp add: d link_in_geometry(4) [OF g])
  moreover have "\<not> fat32_cluster_is_valid s v" if "v \<ge> FAT32_EOC"
    using that assms(2) by (auto simp: valid_bounds table_fits_def word_le_nat_alt)
  ultimately show ?thesis using f r by auto
qed

end

section \<open>Calls that return\<close>

text \<open>Nothing but a loop along a chain can fail to return.\<close>

definition returns :: "'x option \<Rightarrow> bool" where "returns x = (x \<noteq> None)"

lemma ok_returns [simp]: "returns (ok a s)" by (simp add: ok_def returns_def)

lemma err_returns [simp]: "returns (err s)" by (simp add: err_def returns_def)

lemma chk_returns: "returns (m s) \<Longrightarrow> (\<And>a s. returns (k a s)) \<Longrightarrow> returns (chk m k s)"
  unfolding returns_def by (auto simp: chk_def split: option.splits)

lemma for_each_returns: "(\<And>x s. returns (f x s)) \<Longrightarrow> returns (for_each f xs s)"
  by (induction xs arbitrary: s) (auto intro: chk_returns)

lemma read_sector_returns [simp]: "returns (fat32_read_sector_cached lba b s)"
  by (simp add: fat32_read_sector_cached_def Let_def split: option.split bool.split prod.split)

lemma write_sector_returns [simp]: "returns (fat32_write_sector_uncached lba sec s)"
  by (simp add: fat32_write_sector_uncached_def split: option.split bool.split prod.split)

lemma next_cluster_returns [simp]: "returns (fat32_next_cluster c s)"
  by (auto simp: fat32_next_cluster_def Let_def intro: chk_returns)

lemma set_cluster_value_returns [simp]: "returns (fat32_set_cluster_value c v s)"
  by (auto simp: fat32_set_cluster_value_def Let_def intro!: for_each_returns chk_returns)

lemma free_body_returns [simp]: "returns (free_body c s)"
  by (auto simp: free_body_def modify_st_def [unfolded ok_def [symmetric]] intro!: chk_returns)

context block_laws begin

abbreviation links :: "'d fat_state \<Rightarrow> 'd fat_state \<Rightarrow> nat \<Rightarrow> u32 \<Rightarrow> u32" where
  "links s0 s \<equiv> link_in s0 (contents (disk s))"

lemma free_loop:
  assumes "coherent rd wr contents s" and "table_fits s"
  shows "\<exists>r s'. loop free_body c s = Some (r, s') \<and> (r = Some () \<longrightarrow> keeps s s' \<and>
    (\<forall>i c'. i < unat (fat_count s) \<longrightarrow> fat32_cluster_is_valid s c' \<longrightarrow>
       link_in s (contents (disk s')) i c' =
         (if on_chain (fat32_cluster_is_valid s) (link_in s (contents (disk s)) 0) c c' then 0 else link_in s (contents (disk s)) i c')) \<and>
    (\<forall>lba \<ge> data_start_lba s. contents (disk s') lba = contents (disk s) lba))"
  using assms
proof (induction "card {x. fat32_cluster_is_valid s x \<and> link_in s (contents (disk s)) 0 x \<noteq> 0} + (if fat32_cluster_is_valid s c then 1 else 0)"
    arbitrary: s c rule: less_induct)
  case less
  let ?v = "fat32_cluster_is_valid s" and ?l = "link_in s (contents (disk s))"
  show ?case
  proof (cases "?v c")
    case False
    then have "loop free_body c s = Some (Some (), s)"
      by (simp add: loop.simps [of free_body c] free_body_def ok_def)
    moreover have "\<not> on_chain ?v (?l 0) c c'" for c' using on_chain_first False by blast
    ultimately show ?thesis using less.prems by (auto simp: keeps_def)
  next
    case valid: True
    obtain q s1 where q: "free_body c s = Some (q, s1)" using free_body_returns [of c s] by (cases "free_body c s") (auto simp: returns_def)
    show ?thesis
    proof (cases q)
      case None
      with q show ?thesis by (simp add: loop.simps [of free_body c])
    next
      case (Some r)
      let ?n = "?l 0 c"
      note f = free_body_step [OF less.prems valid q [unfolded Some]]
      have k: "keeps s s1" and img: "contents (disk s1) = put_link s c 0 (contents (disk s))"
        and r: "(r = Inr () \<and> \<not> ?v ?n) \<or> r = Inl ?n" using f by (auto simp: Let_def)
      have g: "geometry s1 = geometry s" and co: "coherent rd wr contents s1" using k by (auto simp: keeps_def)
      have fits: "table_fits s1" using less.prems(2) link_in_geometry(3) [OF g] by simp
      have v1: "fat32_cluster_is_valid s1 = ?v" using geometry_cong [OF g] by simp
      have l1: "link_in s (contents (disk s1)) i x = (if x = c then 0 else ?l i x)" if "i < unat (fat_count s)" "?v x" for i x
        using link_in_put_link [OF less.prems(2) valid that(2,1), of "contents (disk s)" 0] contents_length img by simp
      have fc: "0 < unat (fat_count s)" using less.prems(2) by (simp add: table_fits_def)
      have d1: "contents (disk s1) lba = contents (disk s) lba" if "data_start_lba s \<le> lba" for lba
        using put_link_data [OF less.prems(2) valid that] img by simp
      have zero: "\<not> ?v 0" by (simp add: fat32_cluster_is_valid_def)
      have cut: "on_chain ?v (?l 0) c x \<longleftrightarrow> x = c \<or> on_chain ?v (link_in s (contents (disk s1)) 0) ?n x" for x
        by (rule on_chain_cut [OF valid zero]) (simp add: l1 fc)
      show ?thesis
      proof (cases "r = Inl ?n")
        case False
        with r have r': "r = Inr ()" "\<not> ?v ?n" by auto
        have "loop free_body c s = Some (Some (), s1)" using q Some r' by (simp add: loop.simps [of free_body c])
        moreover have "\<not> on_chain ?v (link_in s (contents (disk s1)) 0) ?n x" for x using on_chain_first r'(2) by blast
        ultimately show ?thesis using k l1 d1 cut by auto
      next
        case True
        have step: "loop free_body c s = loop free_body ?n s1" using q Some True by (simp add: loop.simps [of free_body c])
        let ?A = "{x. ?v x \<and> ?l 0 x \<noteq> 0}" and ?B = "{x. ?v x \<and> link_in s (contents (disk s1)) 0 x \<noteq> 0}"
        have BA: "?B = ?A - {c}" using l1 [OF fc] by (auto split: if_splits)
        have "card ?B + (if ?v ?n then 1 else 0) < card ?A + 1"
        proof (cases "?n = 0")
          case True
          then have "?B = ?A" using BA by auto
          with True zero show ?thesis by simp
        next
          case False
          then have "c \<in> ?A" using valid by simp
          then have "card ?B < card ?A" unfolding BA by (intro psubset_card_mono) auto
          then show ?thesis by simp
        qed
        then have "card {x. fat32_cluster_is_valid s1 x \<and> link_in s1 (contents (disk s1)) 0 x \<noteq> 0} + (if fat32_cluster_is_valid s1 ?n then 1 else 0)
          < card ?A + (if ?v c then 1 else 0)" using valid v1 link_in_geometry(1) [OF g] by simp
        from less.hyps [OF this co fits] obtain r2 s2 where ih: "loop free_body ?n s1 = Some (r2, s2)"
          and post: "r2 = Some () \<Longrightarrow> keeps s1 s2 \<and>
            (\<forall>i c'. i < unat (fat_count s) \<longrightarrow> ?v c' \<longrightarrow> link_in s (contents (disk s2)) i c' =
               (if on_chain ?v (link_in s (contents (disk s1)) 0) ?n c' then 0 else link_in s (contents (disk s1)) i c')) \<and>
            (\<forall>lba \<ge> data_start_lba s. contents (disk s2) lba = contents (disk s1) lba)"
          unfolding v1 link_in_geometry(1) [OF g] geometry_cong(8,12) [OF g] by blast
        have "keeps s s2 \<and> (\<forall>i c'. i < unat (fat_count s) \<longrightarrow> ?v c' \<longrightarrow> link_in s (contents (disk s2)) i c' =
               (if on_chain ?v (?l 0) c c' then 0 else ?l i c')) \<and> (\<forall>lba \<ge> data_start_lba s. contents (disk s2) lba = contents (disk s) lba)"
          if "r2 = Some ()"
          using post [OF that] g l1 d1 cut by (auto simp: keeps_def)
        with step ih show ?thesis by auto
      qed
    qed
  qed
qed

end

end
