(* ===== verification/Fat_Volume.thy ===== *)
theory Fat_Volume
  imports Fat_Alloc
begin

text \<open>
  A mounted FAT32 volume as a whole: what \<open>fat32_mount\<close> establishes and what the table operations promise, with a
  device in memory on which they run.
\<close>

section \<open>Mounting\<close>

lemma err_SomeD: "err s = Some (r, s') \<longleftrightarrow> r = None \<and> s' = s"
  by (auto simp: err_def)

lemma fail_msg_not_Some [simp]: "fail_msg msg s \<noteq> Some (Some a, s')"
  by (simp add: fail_msg_def err_def)

text \<open>The sizes in the boot sector as they are meant, without the wrap-around of 32 bits.\<close>

definition sizes_sound :: "'d fat_state \<Rightarrow> bool" where
  "sizes_sound s =
     (unat (reserved_sectors s) + unat (fat_count s) * unat (sectors_per_fat s) < unat (total_sectors s) \<and>
      unat (start_lba s) + unat (total_sectors s) \<le> 4294967296 \<and>
      unat (total_sectors s) div unat (sectors_per_cluster s) < 268435447 \<and>
      4 * (unat (total_sectors s) div unat (sectors_per_cluster s) + 2) \<le> 512 * unat (sectors_per_fat s))"

definition data_start_rel :: "'d fat_state \<Rightarrow> u32" where
  "data_start_rel s = ucast (reserved_sectors s) + ucast (fat_count s) * sectors_per_fat s"

text \<open>What a mounted volume is.\<close>

definition volume_ok :: "'d fat_state \<Rightarrow> bool" where
  "volume_ok s =
     (mounted s \<and> bytes_per_sector s = 512 \<and> sectors_per_cluster s \<noteq> 0 \<and> fat_count s \<noteq> 0 \<and> sectors_per_fat s \<noteq> 0 \<and>
      data_start_rel s < total_sectors s \<and>
      data_clusters s = (total_sectors s - data_start_rel s) div ucast (sectors_per_cluster s) \<and> data_clusters s \<noteq> 0 \<and>
      max_data_cluster s = data_clusters s + 1 \<and> fat32_cluster_is_valid s (root_cluster s) \<and>
      fat_start_lba s = start_lba s + ucast (reserved_sectors s) \<and> data_start_lba s = start_lba s + data_start_rel s \<and>
      fs_last_error s = [] \<and> (\<forall>e \<in> set (data_cache s) \<union> set (fat_cache s). \<not> ce_valid e))"

lemma geometry_mounts:
  assumes "mount_geometry s = Some (Some u, s')"
  shows "volume_ok s' \<and> fdev s' = fdev s \<and> disk s' = disk s"
proof -
  have "volume_ok s'" "fdev s' = fdev s" "disk s' = disk s"
    using assms clear_sound
    by (auto simp: mount_geometry_def Let_def ok_SomeD volume_ok_def data_start_rel_def fat32_clear_error_def fat32_flush_cache_def fat32_cluster_is_valid_def
        add.assoc split: if_split_asm)
  then show ?thesis by simp
qed

lemma volume_table_fits:
  assumes "volume_ok s" and "sizes_sound s"
  shows "table_fits s"
proof -
  let ?r = "unat (reserved_sectors s)" and ?f = "unat (fat_count s) * unat (sectors_per_fat s)" and ?t = "unat (total_sectors s)"
    and ?k = "unat (sectors_per_cluster s)" and ?b = "unat (start_lba s)" and ?n = "unat (data_clusters s)"
  have sz: "?r + ?f < ?t" "?b + ?t \<le> 4294967296" "?t div ?k < 268435447" "4 * (?t div ?k + 2) \<le> 512 * unat (sectors_per_fat s)"
    using assms(2) by (auto simp: sizes_sound_def)
  have u: "unat (ucast (reserved_sectors s) :: u32) = ?r" "unat (ucast (fat_count s) :: u32) = unat (fat_count s)"
    "unat (ucast (sectors_per_cluster s) :: u32) = ?k"
    using unat_bounds(2) [of "reserved_sectors s"] unat_bounds(1) [of "fat_count s"] unat_bounds(1) [of "sectors_per_cluster s"]
    by (simp_all add: unsigned_ucast_eq take_bit_nat_eq_self)
  have t: "?t < 4294967296" by (rule unat_bounds(3))
  have "unat (ucast (fat_count s) * sectors_per_fat s :: u32) = ?f" using sz(1) t by (simp add: unat_word_ariths u)
  then have d: "unat (data_start_rel s) = ?r + ?f" using sz(1) t by (simp add: data_start_rel_def unat_word_ariths(1) u)
  have k: "0 < ?k" and fc: "0 < unat (fat_count s)" using assms(1) by (auto simp: volume_ok_def unat_gt_0)
  have n: "?n = (?t - (?r + ?f)) div ?k"
    using assms(1) sz(1) by (simp add: volume_ok_def unat_div u unat_sub d word_le_nat_alt)
  also have "\<dots> \<le> ?t div ?k" by (simp add: div_le_mono)
  finally have nk: "?n \<le> ?t div ?k" .
  have m: "unat (max_data_cluster s) = ?n + 1" using assms(1) nk sz(3) by (simp add: volume_ok_def unat_word_ariths)
  have fs: "unat (fat_start_lba s) = ?b + ?r" using assms(1) sz by (simp add: volume_ok_def unat_word_ariths(1) u)
  have ds: "unat (data_start_lba s) = ?b + (?r + ?f)" using assms(1) sz by (simp add: volume_ok_def unat_word_ariths(1) d)
  have "?n * ?k \<le> ?t - (?r + ?f)" unfolding n by simp
  then have "?b + (?r + ?f) + ?n * ?k \<le> 4294967296" using sz by linarith
  then show ?thesis using assms(1) k fc m fs ds nk sz(3,4) by (simp add: table_fits_def volume_ok_def)
qed

lemma mount_volume:
  assumes "fat32_mount dv s = Some (Some u, s')"
  shows "volume_ok s' \<and> fdev s' = dv \<and> dv \<noteq> None \<and> (\<exists>rd. map_option dev_read_sector dv = Some (Some rd))"
proof -
  from assms obtain d where d: "dv = Some d" by (cases dv) (auto simp: fat32_mount_def)
  with assms obtain rd where rd: "dev_present d" "dev_read_sector d = Some rd"
    by (cases "dev_present d"; cases "dev_read_sector d") (auto simp: fat32_mount_def)
  have "\<exists>lba sec s1. mount_geometry (set_fields d lba sec s1) = Some (Some u, s')"
    using assms
    by (auto simp: fat32_mount_def d rd Let_def or_msg_def dest!: chk_SomeD split: if_split_asm) blast+
  then obtain lba sec s1 where "mount_geometry (set_fields d lba sec s1) = Some (Some u, s')" by blast
  from geometry_mounts [OF this] show ?thesis by (auto simp: d rd set_fields_def)
qed



section \<open>A device that never fails\<close>

locale reliable_block = block_laws rd wr contents
  for rd :: "u32 \<Rightarrow> 'd \<Rightarrow> sector option \<times> 'd" and wr and contents +
  assumes rd_succeeds: "\<exists>sec. fst (rd lba d) = Some sec"
    and wr_succeeds: "fst (wr lba sec d)"
begin

lemma read_ok:
  assumes "coherent rd wr contents s"
  shows "\<exists>s'. fat32_read_sector_cached lba b s = Some (Some (contents (disk s) lba), s')"
proof -
  from assms obtain dv where dv: "mounted s" "fdev s = Some dv" "dev_read_sector dv = Some rd"
    by (auto simp: coherent_def)
  obtain sec d where r: "rd lba (disk s) = (Some sec, d)" using rd_succeeds [of lba "disk s"] by (cases "rd lba (disk s)") auto
  have "\<exists>sec s'. fat32_read_sector_cached lba b s = Some (Some sec, s')"
    by (simp add: fat32_read_sector_cached_def dv r ok_def Let_def split: option.split prod.split)
  then obtain sec s' where "fat32_read_sector_cached lba b s = Some (Some sec, s')" by blast
  with read_cached [OF assms this] show ?thesis by auto
qed

lemma write_ok:
  assumes "coherent rd wr contents s"
  shows "\<exists>s'. fat32_write_sector_uncached lba sec s = Some (Some (), s')"
proof -
  from assms obtain dv where dv: "mounted s" "fdev s = Some dv" "dev_write_sector dv = Some wr"
    by (auto simp: coherent_def)
  obtain d where r: "wr lba sec (disk s) = (True, d)" using wr_succeeds [of lba sec "disk s"] by (cases "wr lba sec (disk s)") auto
  show ?thesis by (simp add: fat32_write_sector_uncached_def dv r ok_def)
qed

lemma next_cluster_ok:
  assumes "coherent rd wr contents s" and "table_fits s" and "fat32_cluster_is_valid s c" and "\<not> bad_link s (link_in s (contents (disk s)) 0 c)"
  shows "\<exists>s'. fat32_next_cluster c s = Some (Some (link_in s (contents (disk s)) 0 c), s')"
proof -
  obtain s1 where r: "fat32_read_sector_cached (fat_start_lba s + fat_sector_of s c) True s
      = Some (Some (contents (disk s) (fat_start_lba s + fat_sector_of s c)), s1)" using read_ok [OF assms(1)] by blast
  have g: "geometry s1 = geometry s" using read_cached [OF assms(1) r] by simp
  have o: "\<not> ent_off_of s c > ucast (bytes_per_sector s) - 4"
    using entry_place(2) [OF assms(2,3)] assms(2) mod_less_divisor [of 128 "unat c"]
    by (simp add: table_fits_def word_less_nat_alt)
  show ?thesis using assms(3,4) r o
    by (simp add: fat32_next_cluster_def chk_def link_in_def fat_lba_def Let_def ok_def)
qed

lemma copies_ok:
  assumes "coherent rd wr contents s" and "\<And>s. length (contents (disk s) x) = 512"
  shows "\<exists>s'. for_each (\<lambda>i. chk (fat32_read_sector_cached (f i) True) (\<lambda>sec. fat32_write_sector_uncached (f i) (put_entry v off sec))) xs s
    = Some (Some (), s')"
  using assms
proof (induction xs arbitrary: s)
  case (Cons i xs)
  obtain s1 where r: "fat32_read_sector_cached (f i) True s = Some (Some (contents (disk s) (f i)), s1)" using read_ok [OF Cons.prems(1)] by blast
  have c1: "coherent rd wr contents s1" using read_cached [OF Cons.prems(1) r] by simp
  obtain s2 where w: "fat32_write_sector_uncached (f i) (put_entry v off (contents (disk s) (f i))) s1 = Some (Some (), s2)"
    using write_ok [OF c1] by blast
  have "coherent rd wr contents s2" using write_uncached [OF c1 _ w] contents_length by simp
  from Cons.IH [OF this Cons.prems(2)] r w show ?case by (simp add: chk_def)
qed (simp add: ok_def)

lemma set_cluster_value_ok:
  assumes "coherent rd wr contents s" and "table_fits s" and "fat32_cluster_is_valid s c" and "\<not> bad_link s v"
  shows "\<exists>s'. fat32_set_cluster_value c v s = Some (Some (), s')"
proof -
  have o: "\<not> ent_off_of s c > ucast (bytes_per_sector s) - 4"
    using entry_place(2) [OF assms(2,3)] assms(2) mod_less_divisor [of 128 "unat c"]
    by (simp add: table_fits_def word_less_nat_alt)
  show ?thesis using assms(3,4) o copies_ok [OF assms(1) contents_length]
    by (simp add: fat32_set_cluster_value_def Let_def)
qed

lemma zeros_ok:
  assumes "coherent rd wr contents s"
  shows "\<exists>s'. for_each (\<lambda>i. fat32_write_sector_uncached (f i) (replicate 512 0)) xs s = Some (Some (), s')"
  using assms
proof (induction xs arbitrary: s)
  case (Cons i xs)
  obtain s1 where w: "fat32_write_sector_uncached (f i) (replicate 512 0) s = Some (Some (), s1)" using write_ok [OF Cons.prems] by blast
  have "coherent rd wr contents s1" using write_uncached [OF Cons.prems _ w] by simp
  from Cons.IH [OF this] w show ?case by (simp add: chk_def)
qed (simp add: ok_def)

lemma take_cluster_ok:
  assumes "coherent rd wr contents s" and "table_fits s" and "fat32_cluster_is_valid s c"
  shows "\<exists>s'. take_cluster c s = Some (Some c, s')"
proof -
  have "\<not> bad_link s 0x0FFFFFFF" by (simp add: bad_link_def)
  from set_cluster_value_ok [OF assms this] obtain s1 where a: "fat32_set_cluster_value c 0x0FFFFFFF s = Some (Some (), s1)" by blast
  have c1: "coherent rd wr contents s1" using set_cluster_value [OF assms(1,2) a] by (simp add: keeps_def)
  show ?thesis using a zeros_ok [OF c1, of "\<lambda>i. cluster_to_lba s1 c + of_nat i" "[0..<unat (sectors_per_cluster s1)]"]
    by (auto simp: take_cluster_def chk_def modify_st_def ok_def)
qed

lemma alloc_scan_ok:
  assumes "coherent rd wr contents s" and "table_fits s"
    and "\<And>n. n \<in> set cs \<Longrightarrow> fat32_cluster_is_valid s (of_nat n) \<and> \<not> bad_link s (link_in s (contents (disk s)) 0 (of_nat n))"
  shows "\<exists>s'. alloc_scan cs s = Some (Some (map_option of_nat (List.find (\<lambda>n. link_in s (contents (disk s)) 0 (of_nat n) = 0) cs)), s')"
  using assms
proof (induction cs arbitrary: s)
  case (Cons n cs)
  have n: "fat32_cluster_is_valid s (of_nat n)" "\<not> bad_link s (link_in s (contents (disk s)) 0 (of_nat n))" using Cons.prems(3) by auto
  obtain s1 where r: "fat32_next_cluster (of_nat n) s = Some (Some (link_in s (contents (disk s)) 0 (of_nat n)), s1)"
    using next_cluster_ok [OF Cons.prems(1,2) n] by blast
  have f: "coherent rd wr contents s1" "geometry s1 = geometry s" "contents (disk s1) = contents (disk s)"
    using next_cluster [OF Cons.prems(1) r] by (auto simp: keeps_def)
  have fits: "table_fits s1" using Cons.prems(2) link_in_geometry(3) [OF f(2)] by simp
  show ?case
  proof (cases "link_in s (contents (disk s)) 0 (of_nat n) = 0")
    case True
    have "fat32_cluster_is_valid s1 (of_nat n)" using n(1) geometry_cong(3) [OF f(2)] by simp
    from take_cluster_ok [OF f(1) fits this] r True show ?thesis by (auto simp: chk_def ok_def)
  next
    case False
    have "\<exists>s'. alloc_scan cs s1 = Some (Some (map_option of_nat (List.find (\<lambda>n. link_in s1 (contents (disk s1)) 0 (of_nat n) = 0) cs)), s')"
      by (rule Cons.IH [OF f(1) fits])
        (use Cons.prems(3) link_in_geometry(1) [OF f(2)] geometry_cong(3,4) [OF f(2)] f(3) in auto)
    with r False link_in_geometry(1) [OF f(2)] f(3) show ?thesis by (simp add: chk_def)
  qed
qed (simp add: ok_def)

end

text \<open>Freeing does not fail where the links are possible.\<close>

context reliable_block begin

lemma free_body_ok:
  assumes "coherent rd wr contents s" and "table_fits s" and "fat32_cluster_is_valid s c" and "\<not> bad_link s (link_in s (contents (disk s)) 0 c)"
  shows "\<exists>r s'. free_body c s = Some (Some r, s')"
proof -
  obtain s1 where n: "fat32_next_cluster c s = Some (Some (link_in s (contents (disk s)) 0 c), s1)" using next_cluster_ok [OF assms] by blast
  have f: "coherent rd wr contents s1" "geometry s1 = geometry s" using next_cluster [OF assms(1) n] by (auto simp: keeps_def)
  have "table_fits s1" "fat32_cluster_is_valid s1 c" "\<not> bad_link s1 0"
    using assms(2,3) link_in_geometry(3) [OF f(2)] geometry_cong(3) [OF f(2)] by (simp_all add: bad_link_def)
  from set_cluster_value_ok [OF f(1) this] obtain s2 where "fat32_set_cluster_value c 0 s1 = Some (Some (), s2)" by blast
  with n show ?thesis by (auto simp: free_body_def chk_def modify_st_def ok_def)
qed

lemma free_ok:
  assumes "loop free_body c s = Some (r, s')" and "coherent rd wr contents s" and "table_fits s"
    and "\<And>x. on_chain (fat32_cluster_is_valid s) (link_in s (contents (disk s)) 0) c x \<Longrightarrow> \<not> bad_link s (link_in s (contents (disk s)) 0 x)"
  shows "r \<noteq> None"
proof -
  let ?on = "\<lambda>s. on_chain (fat32_cluster_is_valid s) (link_in s (contents (disk s)) 0)"
  let ?I = "\<lambda>c s. coherent rd wr contents s \<and> table_fits s \<and> (\<forall>x. ?on s c x \<longrightarrow> \<not> bad_link s (link_in s (contents (disk s)) 0 x))"
  have "fst (r, s') \<noteq> None"
  proof (rule loop_rule [where I = ?I and Q = "\<lambda>r _. r \<noteq> None", OF assms(1)])
    fix c s q s1
    assume i: "?I c s" and run: "free_body c s = Some (q, s1)"
    let ?v = "fat32_cluster_is_valid s" and ?l = "link_in s (contents (disk s)) 0"
    show "case q of None \<Rightarrow> None \<noteq> None | Some (Inl c') \<Rightarrow> ?I c' s1 | Some (Inr a) \<Rightarrow> Some a \<noteq> None"
    proof (cases "?v c")
      case False
      with run show ?thesis by (auto simp: free_body_def ok_def)
    next
      case True
      with i have "\<not> bad_link s (?l c)" by (auto intro: on_chain.chain_start)
      with free_body_ok [of s c] i True run obtain p where q: "q = Some p" by auto
      note f = free_body_step [OF _ _ True run [unfolded q]]
      have k: "keeps s s1" "contents (disk s1) = put_link s c 0 (contents (disk s))" "p = Inr () \<or> p = Inl (?l c)"
        using f i by (auto simp: Let_def)
      have g: "geometry s1 = geometry s" using k(1) by (simp add: keeps_def)
      have fc: "0 < unat (fat_count s)" using i by (simp add: table_fits_def)
      have l1: "link_in s (contents (disk s1)) 0 x = (if x = c then 0 else ?l x)" if "?v x" for x
        using link_in_put_link [OF _ True that fc, of "contents (disk s)" 0] i contents_length k(2) by simp
      have cut: "on_chain ?v ?l c x \<longleftrightarrow> x = c \<or> on_chain ?v (link_in s (contents (disk s1)) 0) (?l c) x" for x
        by (rule on_chain_cut [where valid = ?v, OF True]) (simp_all add: fat32_cluster_is_valid_def l1)
      have "\<not> bad_link s (link_in s (contents (disk s1)) 0 x)" if "on_chain ?v (link_in s (contents (disk s1)) 0) (?l c) x" for x
        using cut [of x] that l1 [OF on_chain_valid [OF that]] i by (auto simp: bad_link_def split: if_splits)
      then show ?thesis
        using k q i g by (auto simp: keeps_def link_in_geometry [OF g] geometry_cong [OF g] split: sum.split)
    qed
  qed (use assms(2-4) in auto)
  then show ?thesis by simp
qed

end

text \<open>The clusters in the order of the search.\<close>

definition search_order :: "'d fat_state \<Rightarrow> nat list" where
  "search_order s = (let start = (if fat32_cluster_is_valid s (alloc_hint_cluster s) then unat (alloc_hint_cluster s) else 2) in
     [start..<unat (max_data_cluster s) + 1] @ [2..<start])"

lemma search_order_valid:
  assumes "data_clusters s \<noteq> 0" and "n \<in> set (search_order s)"
  shows "fat32_cluster_is_valid s (of_nat n)" and "unat (of_nat n :: u32) = n"
proof -
  have n: "2 \<le> n" "n \<le> unat (max_data_cluster s)" using assms(2) by (auto simp: search_order_def Let_def valid_bounds split: if_splits)
  then show "unat (of_nat n :: u32) = n" using unat_bounds(3) [of "max_data_cluster s"] by (simp add: unat_of_nat)
  with n assms(1) show "fat32_cluster_is_valid s (of_nat n)" by (simp add: valid_bounds)
qed

lemma in_search_order: "fat32_cluster_is_valid s c \<Longrightarrow> unat c \<in> set (search_order s)"
  by (auto simp: search_order_def Let_def valid_bounds)

section \<open>The table as a map\<close>




text \<open>A cluster with an impossible link, such as the mark of a bad cluster 0x0FFFFFF7, ends the search for
  a free one: when the hint names it, \<open>fat32_alloc_cluster\<close> fails, however many clusters are free.\<close>

theorem alloc_stops_at_bad_link:
  assumes "block_laws rd wr contents" and "coherent rd wr contents s"
    and "fat32_cluster_is_valid s (alloc_hint_cluster s)"
    and "bad_link s (link_in s (contents (disk s)) 0 (alloc_hint_cluster s))"
  shows "\<exists>s'. fat32_alloc_cluster s = Some (None, s') \<and> contents (disk s') = contents (disk s)"
proof -
  let ?h = "alloc_hint_cluster s"
  have le: "unat ?h < unat (max_data_cluster s) + 1" using assms(3) by (simp add: valid_bounds)
  obtain r s1 where n: "fat32_next_cluster ?h s = Some (r, s1)"
    using next_cluster_returns [of ?h s] by (cases "fat32_next_cluster ?h s") (auto simp: returns_def)
  note f = block_laws.next_cluster [OF assms(1,2) n]
  then have "r = None" using assms(4) by (cases r) auto
  then have "fat32_alloc_cluster s = Some (None, s1)"
    using n assms(3) upt_conv_Cons [OF le] by (simp add: fat32_alloc_cluster_def chk_def)
  then show ?thesis using f by auto
qed

 
lemma alloc_first_free:
  assumes "reliable_block rd wr contents" and "coherent rd wr contents s" and "table_fits s" and "data_clusters s \<noteq> 0"
    and "\<And>n. n \<in> set (search_order s) \<Longrightarrow> \<not> bad_link s (link_in s (contents (disk s)) 0 (of_nat n))"
  shows "\<exists>s'. fat32_alloc_cluster s
    = Some (map_option of_nat (List.find (\<lambda>n. link_in s (contents (disk s)) 0 (of_nat n) = 0) (search_order s)), s')"
proof -
  from reliable_block.alloc_scan_ok [OF assms(1-3), of "search_order s"] search_order_valid(1) [OF assms(4)] assms(5)
  obtain s' where "alloc_scan (search_order s) s
      = Some (Some (map_option of_nat (List.find (\<lambda>n. link_in s (contents (disk s)) 0 (of_nat n) = 0) (search_order s))), s')" by blast
  then show ?thesis
    unfolding fat32_alloc_cluster_def search_order_def Let_def chk_def by (auto simp: ok_def err_def split: option.split)
qed


definition the_default :: "'a \<Rightarrow> 'a option \<Rightarrow> 'a" where
  "the_default d x = (case x of None \<Rightarrow> d | Some a \<Rightarrow> a)"

lemma the_default_simps [simp]: "the_default d None = d" "the_default d (Some a) = a"
  by (simp_all add: the_default_def)

section \<open>A device in memory\<close>

type_synonym ram = "u32 \<Rightarrow> sector"

definition ram_contents :: "ram \<Rightarrow> u32 \<Rightarrow> sector" where
  "ram_contents d lba = take 512 (d lba @ replicate 512 0)"

definition ram_read :: "u32 \<Rightarrow> ram \<Rightarrow> sector option \<times> ram" where
  "ram_read lba d = (Some (ram_contents d lba), d)"

definition ram_write :: "u32 \<Rightarrow> sector \<Rightarrow> ram \<Rightarrow> bool \<times> ram" where
  "ram_write lba sec d = (True, d(lba := sec))"

definition ram_device :: "ram block_device" where
  "ram_device = \<lparr>dev_present = True, dev_sector_count = 20, dev_read_sector = Some ram_read, dev_write_sector = Some ram_write,
     dev_read_sectors = None, dev_write_sectors = None\<rparr>"

interpretation ram: reliable_block ram_read ram_write ram_contents
  by unfold_locales (auto simp: ram_read_def ram_write_def ram_contents_def intro!: ext)

text \<open>A volume of 20 sectors: one reserved, two copies of a table of one sector, 17 clusters of one sector.
  Cluster 2 is the root, 3 and 4 link to each other, 5 is marked bad, the rest is free.\<close>

definition demo_boot :: sector where
  "demo_boot = map (\<lambda>i. the_default 0 (map_of [(12, 2), (13, 1), (14, 1), (16, 2), (32, 20), (36, 1), (44, 2),
     (82, 0x46), (83, 0x41), (84, 0x54), (85, 0x33), (86, 0x32), (510, 0x55), (511, 0xAA)] i)) [0..<512]"

definition demo_table :: sector where
  "demo_table = map (\<lambda>i. the_default 0 (map_of [(8, 0xFF), (9, 0xFF), (10, 0xFF), (11, 0x0F), (12, 4), (16, 3),
     (20, 0xF7), (21, 0xFF), (22, 0xFF), (23, 0x0F)] i)) [0..<512]"

definition demo_ram :: ram where
  "demo_ram = (\<lambda>lba. if lba = 0 then demo_boot else if lba = 1 \<or> lba = 2 then demo_table else replicate 512 7)"

definition demo_blank :: "ram fat_state" where
  "demo_blank = \<lparr>mounted = False, fdev = None, start_lba = 0, bytes_per_sector = 0, sectors_per_cluster = 0, reserved_sectors = 0,
     fat_count = 0, sectors_per_fat = 0, root_cluster = 0, fat_start_lba = 0, data_start_lba = 0, total_sectors = 0, data_clusters = 0,
     max_data_cluster = 0, alloc_hint_cluster = 0, fs_last_error = [], io_batch_sectors = 1, data_cache_enabled = True,
     fat_cache_enabled = True, cache_age_counter = 1, data_cache = [], fat_cache = [], disk = demo_ram\<rparr>"

definition demo_volume :: "ram fat_state" where
  "demo_volume = demo_blank\<lparr>mounted := True, fdev := Some ram_device, bytes_per_sector := 512, sectors_per_cluster := 1,
     reserved_sectors := 1, fat_count := 2, sectors_per_fat := 1, root_cluster := 2, fat_start_lba := 1, data_start_lba := 3,
     total_sectors := 20, data_clusters := 17, max_data_cluster := 18, alloc_hint_cluster := 6\<rparr>"

lemma demo_volume_ok: "coherent ram_read ram_write ram_contents (demo_volume\<lparr>alloc_hint_cluster := h\<rparr>)" "table_fits (demo_volume\<lparr>alloc_hint_cluster := h\<rparr>)"
  by (simp_all add: coherent_def table_fits_def demo_volume_def demo_blank_def ram_device_def)

lemma demo_contents:
  "ram_contents demo_ram 0 = demo_boot" "ram_contents demo_ram 1 = demo_table" "ram_contents demo_ram 2 = demo_table"
  by (simp_all add: ram_contents_def demo_ram_def demo_boot_def demo_table_def)

lemma demo_mount:
  "\<exists>s'. fat32_mount (Some ram_device) demo_blank = Some (Some (), s') \<and> sizes_sound s' \<and> root_cluster s' = 2"
  by (simp add: fat32_mount_def ram_device_def ram_read_def or_msg_def dev_read_def chk_def attempt_def demo_blank_def demo_contents ok_def
      fat32_clear_error_def boot_is_fat32_def demo_boot_def rd16_def rd32_def mount_geometry_def set_fields_def fat32_cluster_is_valid_def
      fat32_flush_cache_def fat32_cache_clear_def sizes_sound_def)

lemma demo_bad:
  "bad_link (demo_volume\<lparr>alloc_hint_cluster := 5\<rparr>) (link_in (demo_volume\<lparr>alloc_hint_cluster := 5\<rparr>) (ram_contents demo_ram) 0 5)"
  by (simp add: bad_link_def link_in_def demo_volume_def demo_blank_def fat_lba_def fat_sector_of_def ent_off_of_def demo_contents
      demo_table_def rd32_def fat32_cluster_is_valid_def)

text \<open>The same volume with every cluster free.\<close>

definition empty_volume :: "ram fat_state" where
  "empty_volume = demo_volume\<lparr>disk := (\<lambda>lba. replicate 512 0)\<rparr>"

lemma empty_volume_ok: "coherent ram_read ram_write ram_contents empty_volume" "table_fits empty_volume" "data_clusters empty_volume \<noteq> 0"
  by (simp_all add: empty_volume_def coherent_def table_fits_def demo_volume_def demo_blank_def ram_device_def)

lemma empty_volume_links:
  assumes "fat32_cluster_is_valid empty_volume c"
  shows "link_in empty_volume (ram_contents (disk empty_volume)) i c = 0"
  using entry_in_sector [OF empty_volume_ok(2) assms]
  by (simp add: link_in_def rd32_def ram_contents_def empty_volume_def)

lemma empty_volume_alloc: "\<exists>s'. fat32_alloc_cluster empty_volume = Some (Some 6, s')"
proof -
  have o: "search_order empty_volume = 6 # [7..<19] @ [2..<6]"
    by (simp add: search_order_def empty_volume_def demo_volume_def demo_blank_def fat32_cluster_is_valid_def upt_conv_Cons)
  have l: "link_in empty_volume (ram_contents (disk empty_volume)) 0 (of_nat n) = 0" if "n \<in> set (search_order empty_volume)" for n
    using empty_volume_links search_order_valid(1) [OF empty_volume_ok(3) that] by blast
  have "\<exists>s'. fat32_alloc_cluster empty_volume = Some (map_option of_nat (List.find
      (\<lambda>n. link_in empty_volume (ram_contents (disk empty_volume)) 0 (of_nat n) = 0) (search_order empty_volume)), s')"
    by (rule alloc_first_free [OF ram.reliable_block_axioms empty_volume_ok]) (simp add: l bad_link_def)
  then show ?thesis using l [of 6] by (simp add: o)
qed




text \<open>The chain 3, 4, 3, ... of the demonstration volume.\<close>

lemma demo_chain:
  assumes "on_chain (fat32_cluster_is_valid demo_volume) (link_in demo_volume (ram_contents demo_ram) 0) 3 x"
  shows "x = 3 \<or> x = 4"
  using assms
proof (induction rule: on_chain.induct)
  case (chain_next c)
  have "link_in demo_volume (ram_contents demo_ram) 0 3 = 4" "link_in demo_volume (ram_contents demo_ram) 0 4 = 3"
    by (simp_all add: link_in_def demo_volume_def demo_blank_def fat_lba_def fat_sector_of_def ent_off_of_def demo_contents demo_table_def rd32_def)
  with chain_next show ?case by auto
qed simp


lemma alloc_stops_at_bad_link_witness:
  "\<exists>s'. fat32_alloc_cluster (demo_volume\<lparr>alloc_hint_cluster := 5\<rparr>) = Some (None, s') \<and>
     link_in demo_volume (ram_contents demo_ram) 0 6 = 0"
proof -
  have v: "fat32_cluster_is_valid (demo_volume\<lparr>alloc_hint_cluster := 5\<rparr>) 5"
    by (simp add: fat32_cluster_is_valid_def demo_volume_def demo_blank_def)
  have b: "bad_link (demo_volume\<lparr>alloc_hint_cluster := 5\<rparr>)
      (link_in (demo_volume\<lparr>alloc_hint_cluster := 5\<rparr>) (ram_contents (disk (demo_volume\<lparr>alloc_hint_cluster := 5\<rparr>))) 0 5)"
    using demo_bad by (simp add: demo_volume_def demo_blank_def)
  have "link_in demo_volume (ram_contents demo_ram) 0 6 = 0"
    by (simp add: link_in_def demo_volume_def demo_blank_def fat_lba_def fat_sector_of_def ent_off_of_def demo_contents demo_table_def rd32_def)
  then show ?thesis using alloc_stops_at_bad_link [OF ram.block_laws_axioms demo_volume_ok(1) [of 5]] v b by auto
qed

text \<open>A boot sector whose table has room for 128 clusters is accepted with a thousand: the entry of cluster 900
  lies behind the tables, in the data area.\<close>

lemma mount_accepts_short_table:
  "\<exists>s'. fat32_mount (Some ram_device) (demo_blank\<lparr>disk := demo_ram(0 := demo_boot[32 := 0xEB, 33 := 3])\<rparr>) = Some (Some (), s') \<and>
     fat32_cluster_is_valid s' 900 \<and> data_start_lba s' \<le> fat_lba s' 0 900"
  by (simp add: fat32_mount_def ram_device_def ram_read_def or_msg_def dev_read_def chk_def attempt_def demo_blank_def ram_contents_def ok_def
      fat32_clear_error_def boot_is_fat32_def demo_boot_def rd16_def rd32_def mount_geometry_def set_fields_def fat32_cluster_is_valid_def
      fat32_flush_cache_def fat32_cache_clear_def fat_lba_def fat_sector_of_def)

end
