(* ===== verification/Fs_Move.thy ===== *)
theory Fs_Move
  imports Fs_Calls
begin

text \<open>
  \<open>fs_mv\<close> on the abstract map: the whole subtree under the source path appears under the
  destination path, and nothing else changes. The refusal of a move into the own subtree is the walk
  \<open>reaches_up\<close> along the parent links, which decides whether one path is a prefix of the other.
\<close>

definition rename :: "fs_map \<Rightarrow> string list \<Rightarrow> string list \<Rightarrow> fs_map" where
  "rename v ps pd q =
     (if prefix pd q then v (ps @ drop (length pd) q) else if prefix ps q then None else v q)"

lemma reaches_up_prefix:
  assumes t: "fs_tree ns" and s: "walk ns 0 ps = Some src" and d: "walk ns 0 q = Some m"
  shows "reaches_up ns src m = Some (prefix ps q)"
  using d
proof (induction q arbitrary: m rule: rev_induct)
  case Nil
  then have m: "m = 0" by simp
  have up: "reaches_up ns src (nd_parent (ns 0)) = Some False"
    using fs_treeD(3) [OF t] by (subst reaches_up.simps) simp
  have "src = 0 \<longleftrightarrow> ps = []" using s walk_only_root by auto
  then show ?case using up by (subst m, subst reaches_up.simps) auto
next
  case (snoc c q)
  then obtain k where k: "walk ns 0 q = Some k" "child_of ns k c = Some m"
    by (auto simp: walk_snoc bind_eq_Some_conv)
  from child_of_Some [OF k(2)] have m: "nd_parent (ns m) = k" "m \<noteq> -1" by (auto simp: children_def in_use_def)
  have "m = src \<longleftrightarrow> ps = q @ [c]"
    using walk_unique [OF s, of "q @ [c]"] snoc.prems s by auto
  then show ?case
    using snoc.IH [OF k(1)] m by (subst reaches_up.simps) (auto simp: prefix_snoc)
qed

lemma dir_prefix:
  assumes t: "fs_tree ns" and "walk ns 0 (p @ q) = Some n" "q \<noteq> []" and "walk ns 0 p = Some m"
  shows "nd_is_dir (ns m)"
proof -
  obtain c r where q: "q = c # r" using assms(3) by (cases q) auto
  with assms obtain k where "child_of ns m c = Some k"
    by (auto simp: walk_append split: option.splits)
  from child_of_Some [OF this] file_no_children [OF t, of m] show ?thesis by auto
qed

text \<open>C12: \<open>fs_mv\<close> succeeds exactly when the source exists, the destination's parent is a directory that
  is not the source or below it, and the destination name is free; then the subtree under the source
  path is found under the destination path and every other path keeps its object.\<close>

theorem fs_mv_spec:
  assumes inv: "fs_inv s" and po: "path_ok ps" and ok: "\<forall>c \<in> set cs. name_ok c" "name_ok nm"
  shows "\<exists>rc s'. fs_mv s (Some (abs_path ps)) (Some (abs_path (cs @ [nm]))) = Some (rc, s') \<and>
    (if fs_view (nodes s) ps \<noteq> None \<and> fs_view (nodes s) cs = Some Dir \<and> fs_view (nodes s) (cs @ [nm]) = None \<and>
        \<not> prefix ps cs
     then rc = 0 \<and> fs_view (nodes s') = rename (fs_view (nodes s)) ps (cs @ [nm]) \<and> cwd_node s' = cwd_node s \<and> fs_inv s'
     else rc = -1 \<and> s' = s)"
proof -
  have t: "fs_tree (nodes s)" using inv by (rule fs_inv_tree)
  note r = resolve_abs [OF inv po] and sp = split_abs [OF inv ok(2,1)]
  show ?thesis
  proof (cases "fs_view (nodes s) ps \<noteq> None \<and> fs_view (nodes s) cs = Some Dir")
    case False
    then show ?thesis
      using walk_only_root [of "nodes s" ps] po walk_bounds [OF t, of ps]
      by (cases "walk (nodes s) 0 ps") (auto simp: fs_mv_def r sp view_None path_ok_def)
  next
    case True
    then obtain src d where src: "walk (nodes s) 0 ps = Some src" and d: "walk (nodes s) 0 cs = Some d" "nd_is_dir (nodes s d)"
      by (auto simp: view_Dir view_None)
    note su = walk_bounds [OF t src] and du = walk_bounds [OF t d(1)]
    have src0: "src \<noteq> 0" using src po walk_only_root [of "nodes s" ps] by (auto simp: path_ok_def)
    have res: "resolve_path s (Some (abs_path ps)) = Some src" using r src by simp
    have spl: "split_parent_and_name s (Some (abs_path (cs @ [nm]))) = Some (Some (d, nm))" using sp True d by simp
    have up: "reaches_up (nodes s) src d = Some (prefix ps cs)" by (rule reaches_up_prefix [OF t src d(1)])
    have below: "(if nd_is_dir (nodes s src) then reaches_up (nodes s) src d else Some False) = Some (prefix ps cs)"
    proof (cases "nd_is_dir (nodes s src)")
      case False
      have "\<not> prefix ps cs"
      proof
        assume "prefix ps cs"
        then obtain z where z: "cs = ps @ z" by (auto simp: prefix_def)
        with False dir_prefix [OF t, of ps z d src] d src show False by (cases z) auto
      qed
      with False show ?thesis by simp
    qed (simp add: up)
    note fc = find_child_child_of [OF t conjunct1 [OF du], of nm]
    have w: "walk (nodes s) 0 (cs @ [nm]) = child_of (nodes s) d nm" using d by (simp add: walk_snoc)
    show ?thesis
    proof (cases "fs_view (nodes s) (cs @ [nm]) = None \<and> \<not> prefix ps cs")
      case go: True
      then have no: "nd_name (nodes s j) \<noteq> nm" if "j \<in> children (nodes s) d" for j
        using that view_child_None [OF d(1), of nm] by blast
      have up': "reaches_up (nodes s) src d = Some False" using up go by simp
      obtain ns where mv: "fs_mv s (Some (abs_path ps)) (Some (abs_path (cs @ [nm]))) =
          Some (0, s\<lparr>nodes := moved ns src d nm\<rparr>)" and ne: "d \<noteq> src"
        and ns: "fs_forest ns {src}" "same_nodes (nodes s) ns" "\<forall>j. nd_size (ns j) = nd_size (nodes s j)"
          "\<forall>j. nd_data (ns j) = nd_data (nodes s j)"
        using fs_mv_moved [OF inv res conjunct1 [OF su] src0 spl conjunct1 [OF du] d(2) ok(2) no up'] .
      note simps = same_nodes_simps [OF ns(2)]
      note tr = moved_tree [OF t ns(1,2) spec [OF ns(3)] conjunct1 [OF su] src0 conjunct1 [OF du] d(2) ok(2) no up']
      have "fs_view (moved ns src d nm) q = rename (fs_view (nodes s)) ps (cs @ [nm]) q" for q
        unfolding rename_def length_append_singleton Suc_eq_plus1
      proof (rule moved_view [OF t tr(1) conjunct1 [OF su] src0 d(1) src _ no])
        show "\<not> prefix ps cs" using go by simp
        show "in_use (moved ns src d nm) j = in_use (nodes s) j" for j
          using simps(1) [of j] su du by (auto simp: moved_def in_use_def)
        show "obj_of (moved ns src d nm j) = obj_of (nodes s j)" for j
          using ns(3,4) by (auto simp: moved_def obj_of_def simps)
      qed (use ne in \<open>auto simp: moved_def simps\<close>)
      then have "fs_view (moved ns src d nm) = rename (fs_view (nodes s)) ps (cs @ [nm])" by blast
      moreover have "fs_inv (s\<lparr>nodes := moved ns src d nm\<rparr>)" using tr by (intro fs_inv_keeps [OF inv]) simp_all
      ultimately show ?thesis unfolding mv using go True by simp
    next
      case False
      have "fs_mv s (Some (abs_path ps)) (Some (abs_path (cs @ [nm]))) = Some (-1, s)"
      proof (cases "child_of (nodes s) d nm")
        case None
        with False w have "prefix ps cs" by (simp add: view_None)
        then show ?thesis unfolding fs_mv_def res spl bind.bind_lunit option.case prod.case fc below
          using d(2) None by simp
      next
        case (Some j)
        with child_of_Some [OF Some] have "j \<noteq> -1" using children_pos [of j "nodes s" d] by simp
        then show ?thesis unfolding fs_mv_def res spl bind.bind_lunit option.case prod.case fc
          using d(2) Some by simp
      qed
      with False show ?thesis by auto
    qed
  qed
qed

theorem fs_mv_spec_witness:
  "\<exists>s1 s2. fs_mkdir fs_demo (Some ''/a'') = Some (0, s1) \<and> fs_mv s1 (Some ''/a'') (Some ''/b'') = Some (0, s2) \<and>
     fs_view (nodes s2) [''b''] = Some Dir \<and> fs_view (nodes s2) [''a''] = None"
proof -
  obtain s1 where s1: "fs_mkdir fs_demo (Some ''/a'') = Some (0, s1)" "fs_inv s1"
    and v: "fs_view (nodes s1) = [[] \<mapsto> Dir, [''a''] \<mapsto> Dir]" by (rule fs_demo_mkdir)
  from fs_mv_spec [OF s1(2) name_ok_a(3), of "[]" "''b''"] v s1(1) show ?thesis
    by (auto simp: name_ok_a rename_def)
qed

end
