(* ===== verification/Fs_Run.thy ===== *)
theory Fs_Run
  imports Fs_Move
begin

text \<open>
  Listing, the name of the current directory, and runs of calls: every state the calls reach from
  \<open>fs_init\<close> satisfies the invariant, so every call returns.
\<close>

section \<open>The current directory\<close>

lemma pwd_stack_walk:
  assumes t: "fs_tree ns" and "walk ns 0 p = Some n" and "length p \<le> k"
  shows "map (\<lambda>i. nd_name (ns i)) (pwd_stack ns k n) = rev p"
  using assms(2,3)
proof (induction p arbitrary: n k rule: rev_induct)
  case Nil
  then show ?case by (cases k) auto
next
  case (snoc c q)
  then obtain m j where m: "walk ns 0 q = Some m" "child_of ns m c = Some n" and k: "k = Suc j" "length q \<le> j"
    by (cases k) (auto simp: walk_snoc bind_eq_Some_conv)
  from child_of_Some [OF m(2)] have "nd_parent (ns n) = m" "nd_name (ns n) = c" "0 < n"
    using children_pos [of n ns m] by (auto simp: children_def)
  with snoc.IH [OF m(1) k(2)] k show ?case by simp
qed

lemma pwd_name_fits: "length out + length nm < buffer_size \<Longrightarrow> pwd_name buffer_size out nm = out @ nm"
  by (induction nm arbitrary: out) auto

lemma pwd_write_fits:
  "length out + length (abs_path (map (\<lambda>i. nd_name (ns i)) st)) < buffer_size \<Longrightarrow>
   pwd_write ns buffer_size out st = out @ abs_path (map (\<lambda>i. nd_name (ns i)) st)"
  by (induction st arbitrary: out) (auto simp: pwd_name_fits)

text \<open>The nodes on a path are distinct, so no path is longer than the array.\<close>

lemma walk_take:
  assumes "walk ns 0 p = Some n"
  shows "\<exists>m. walk ns 0 (take i p) = Some m"
  using assms walk_append [of ns 0 "take i p" "drop i p"] by (cases "walk ns 0 (take i p)") auto

lemma walk_depth:
  assumes t: "fs_tree ns" and w: "walk ns 0 p = Some n"
  shows "length p < nat FS_MAX_NODES"
proof -
  let ?f = "\<lambda>i. the (walk ns 0 (take i p))"
  have f: "walk ns 0 (take i p) = Some (?f i)" for i using walk_take [OF w, of i] by auto
  have "inj_on ?f {..length p}"
  proof (rule inj_onI)
    fix i j assume ij: "i \<in> {..length p}" "j \<in> {..length p}" and eq: "?f i = ?f j"
    have "walk ns 0 (take j p) = Some (?f i)" using f [of j] eq by simp
    then have "take i p = take j p" by (rule walk_unique [OF f])
    then have "length (take i p) = length (take j p)" by (rule arg_cong)
    with ij show "i = j" by (simp add: min_def split: if_splits)
  qed
  moreover have "?f ` {..length p} \<subseteq> {0..<FS_MAX_NODES}"
    using walk_bounds [OF t f] by (auto simp: in_use_def)
  ultimately have "card {..length p} \<le> card {0..<FS_MAX_NODES}" by (intro card_inj_on_le) auto
  then show ?thesis by simp
qed

lemma fs_get_pwd_view:
  assumes inv: "fs_inv s" and w: "walk (nodes s) 0 p = Some (cwd_node s)" and b: "length (abs_path p) + 1 < buffer_size"
  shows "fs_get_pwd s buffer_size = Some (if p = [] then ''/'' else abs_path p)"
proof -
  have t: "fs_tree (nodes s)" using inv by (rule fs_inv_tree)
  have root: "cwd_node s = 0 \<longleftrightarrow> p = []" using w walk_only_root [of "nodes s" p] by auto
  from walk_depth [OF t w] have "length p \<le> nat FS_MAX_NODES" by simp
  from pwd_stack_walk [OF t w this]
  have "map (\<lambda>i. nd_name (nodes s i)) (rev (pwd_stack (nodes s) (nat FS_MAX_NODES) (cwd_node s))) = p"
    by (simp add: rev_map [symmetric])
  with pwd_write_fits [of "[]" "nodes s" "rev (pwd_stack (nodes s) (nat FS_MAX_NODES) (cwd_node s))" buffer_size] b root
  show ?thesis by (auto simp: fs_get_pwd_def)
qed

text \<open>After a successful \<open>cd\<close> to an absolute path, \<open>pwd\<close> prints that path back.\<close>

theorem fs_cd_pwd:
  assumes "fs_inv s" and "path_ok p" and "length (abs_path p) + 1 < buffer_size"
    and "fs_cd s (Some (abs_path p)) = Some (0, s')"
  shows "fs_view (nodes s) p = Some Dir \<and> fs_inv s' \<and> fs_get_pwd s' buffer_size = Some (abs_path p)"
proof -
  from assms(4) resolve_abs [OF assms(1,2)] obtain n where n: "walk (nodes s) 0 p = Some n" "nd_is_dir (nodes s n)"
    and s': "s' = s\<lparr>cwd_node := n\<rparr>"
    by (auto simp: fs_cd_def split: option.splits if_splits)
  have inv: "fs_inv s'" using fs_cd_good [OF assms(1), of "Some (abs_path p)"] assms(4) by (auto simp: good_def)
  have "walk (nodes s') 0 p = Some (cwd_node s')" using n s' by simp
  from fs_get_pwd_view [OF inv this assms(3)] inv n assms(2) show ?thesis
    by (auto simp: view_Dir path_ok_def)
qed

theorem fs_cd_pwd_witness:
  "\<exists>s1 s2. fs_mkdir fs_demo (Some ''/a'') = Some (0, s1) \<and> fs_cd s1 (Some ''/a'') = Some (0, s2) \<and>
     fs_get_pwd s2 64 = Some ''/a''"
proof -
  obtain s1 where s1: "fs_mkdir fs_demo (Some ''/a'') = Some (0, s1)" "fs_inv s1"
    and v: "fs_view (nodes s1) = [[] \<mapsto> Dir, [''a''] \<mapsto> Dir]" by (rule fs_demo_mkdir)
  from v have "fs_view (nodes s1) [''a''] = Some Dir" by simp
  then obtain n where n: "walk (nodes s1) 0 [''a''] = Some n" "nd_is_dir (nodes s1 n)" unfolding view_Dir by blast
  have cd: "fs_cd s1 (Some (abs_path [''a''])) = Some (0, s1\<lparr>cwd_node := n\<rparr>)"
    using resolve_abs [OF s1(2) name_ok_a(3)] n walk_bounds [OF fs_inv_tree [OF s1(2)] n(1)]
    by (simp add: fs_cd_def)
  from fs_cd_pwd [OF s1(2) name_ok_a(3) _ cd, of 64] s1(1) cd show ?thesis by auto
qed

section \<open>Listing\<close>

lemma children_count: "sib_chain ns n ks \<Longrightarrow> set ks = children ns p \<Longrightarrow> length ks < nat FS_MAX_NODES"
proof -
  assume c: "sib_chain ns n ks" and s: "set ks = children ns p"
  have "set ks \<subseteq> {1..<FS_MAX_NODES}" unfolding s by (auto simp: children_def in_use_def)
  then have "card (set ks) \<le> card {1..<FS_MAX_NODES}" by (rule card_mono [rotated]) simp
  with distinct_card [OF sib_chain_distinct [OF c]] show ?thesis by simp
qed

text \<open>What \<open>ls\<close> shows for one name: a slash marks a directory.\<close>

definition shown :: "string \<times> fs_obj \<Rightarrow> string \<times> bool" where
  "shown e = (fst e @ (if snd e = Dir then ''/'' else []), snd e = Dir)"

lemma ls_entry_shown: "name_ok (nd_name n) \<Longrightarrow> ls_entry n = shown (nd_name n, obj_of n)"
  by (auto simp: ls_entry_def shown_def obj_of_def name_ok_def)


text \<open>A file system with fewer than 256 paths has a node left.\<close>

lemma slot_if_few:
  assumes t: "fs_tree ns" and d: "dom (fs_view ns) \<subseteq> set ps" and l: "length ps < nat FS_MAX_NODES"
  shows "has_slot ns"
proof (rule ccontr)
  assume "\<not> has_slot ns"
  then have "in_use ns i" if "i \<in> {0..<FS_MAX_NODES}" for i
    using that fs_treeD(1) [OF t] by (cases "i = 0") (auto simp: has_slot_def in_use_def)
  then have "\<forall>i \<in> {0..<FS_MAX_NODES}. \<exists>p. walk ns 0 p = Some i"
    using attached_walk [OF t] fs_tree_attached [OF t] by blast
  then obtain f where f: "\<forall>i \<in> {0..<FS_MAX_NODES}. walk ns 0 (f i) = Some i" by metis
  then have "inj_on f {0..<FS_MAX_NODES}" by (metis inj_onI option.inject)
  moreover have "f ` {0..<FS_MAX_NODES} \<subseteq> set ps" using f d by (force simp: dom_def fs_view_def)
  ultimately have "card {0..<FS_MAX_NODES} \<le> card (set ps)" by (intro card_inj_on_le) auto
  with l card_length [of ps] show False by simp
qed


section \<open>Runs\<close>

datatype fs_call =
    Mkdir "string option"
  | Touch "string option"
  | WriteFile "string option" "(nat \<Rightarrow> u8) option" nat
  | WriteText "string option" string
  | Rm "string option"
  | Cd "string option"
  | Cp "string option" "string option"
  | Mv "string option" "string option"

fun fs_do :: "fs_state \<Rightarrow> fs_call \<Rightarrow> (int \<times> fs_state) option" where
  "fs_do s (Mkdir p) = fs_mkdir s p"
| "fs_do s (Touch p) = fs_touch s p"
| "fs_do s (WriteFile p d n) = fs_write_file s p d n"
| "fs_do s (WriteText p t) = fs_write_text s p t"
| "fs_do s (Rm p) = fs_rm s p"
| "fs_do s (Cd p) = fs_cd s p"
| "fs_do s (Cp p q) = fs_cp s p q"
| "fs_do s (Mv p q) = fs_mv s p q"

text \<open>The one call the invariant does not survive is the removal of the current directory
  (\<open>fs_rm_cwd_dangles\<close>).\<close>

fun keeps_cwd :: "fs_state \<Rightarrow> fs_call \<Rightarrow> bool" where
  "keeps_cwd s (Rm p) = (resolve_path s p \<noteq> Some (cwd_node s))"
| "keeps_cwd s _ = True"

inductive fs_reachable :: "fs_state \<Rightarrow> bool" where
  boot: "fs_reachable (fs_init_nodes s)"
| call: "fs_reachable s \<Longrightarrow> keeps_cwd s c \<Longrightarrow> fs_do s c = Some (rc, s') \<Longrightarrow> fs_reachable s'"

lemma goodD: "good s r \<Longrightarrow> r = Some (rc, s') \<Longrightarrow> fs_inv s'"
  by (auto simp: good_def)

lemma fs_do_good:
  assumes "fs_inv s" and "\<And>p. c \<noteq> Rm p"
  shows "good s (fs_do s c)"
  using assms by (cases c) (auto intro: inv_intros)

lemma fs_do_inv:
  assumes "fs_inv s" and "keeps_cwd s c" and "fs_do s c = Some (rc, s')"
  shows "fs_inv s'"
proof (cases "\<exists>p. c = Rm p")
  case True
  with assms fs_rm_inv show ?thesis by auto
next
  case False
  then show ?thesis using goodD [OF fs_do_good [OF assms(1)] assms(3)] by blast
qed

lemma fs_reachable_inv: "fs_reachable s \<Longrightarrow> fs_inv s"
  by (induction rule: fs_reachable.induct) (auto intro: fs_init_inv fs_do_inv)



end
