(* ===== verification/Ksym.thy ===== *)
theory Ksym
  imports Prelude
begin

text \<open>
  Kernel symbols, \<open>src/kernel/ksym.c\<close>: a binary search in a table the build generates. The table is an
  argument: the addresses and the offsets of the names, in order of address.
\<close>

record ksym_entry =
  ks_addr :: u64
  ks_name_off :: u64

text \<open>The loop, on the bounds of the part of the table that still holds the answer. Indices are far below
  2 to the 64, so they are \<open>nat\<close>.\<close>

function ksym_search :: "ksym_entry list \<Rightarrow> u64 \<Rightarrow> nat \<Rightarrow> nat \<Rightarrow> nat" where
  "ksym_search table addr lo hi =
     (if lo < hi then
        let mid = lo + (hi - lo + 1) div 2
        in if ks_addr (table ! mid) \<le> addr then ksym_search table addr mid hi else ksym_search table addr lo (mid - 1)
      else lo)"
  by pat_completeness auto
termination by (relation "measure (\<lambda>(t, a, lo, hi). hi - lo)") auto

declare ksym_search.simps [simp del]

text \<open>The offset of the name and \<open>*out_offset\<close>; None for the null pointer.\<close>

definition ksym_lookup :: "ksym_entry list \<Rightarrow> u64 \<Rightarrow> (u64 \<times> u64) option" where
  "ksym_lookup table addr =
     (if length table = 0 then None
      else if addr < ks_addr (table ! 0) then None
      else let lo = ksym_search table addr 0 (length table - 1)
           in Some (ks_name_off (table ! lo), addr - ks_addr (table ! lo)))"

section \<open>The search\<close>

lemma ksym_search_bounds:
  assumes "lo \<le> hi" and "hi < length table" and "sorted (map ks_addr table)" and "ks_addr (table ! lo) \<le> addr"
    and "\<forall>i. hi < i \<and> i < length table \<longrightarrow> addr < ks_addr (table ! i)"
  shows "ksym_search table addr lo hi < length table \<and> ks_addr (table ! ksym_search table addr lo hi) \<le> addr \<and>
    (\<forall>i. ksym_search table addr lo hi < i \<and> i < length table \<longrightarrow> addr < ks_addr (table ! i))"
  using assms
proof (induction table addr lo hi rule: ksym_search.induct)
  case (1 table addr lo hi)
  define mid where "mid = lo + (hi - lo + 1) div 2"
  show ?case
  proof (cases "lo < hi")
    case True
    then have m: "lo < mid" "mid \<le> hi" by (simp_all add: mid_def)
    show ?thesis
    proof (cases "ks_addr (table ! mid) \<le> addr")
      case low: True
      with 1(1) [OF True mid_def low] 1(3-7) m True show ?thesis
        by (subst (1 2 3) ksym_search.simps) (simp add: mid_def Let_def)
    next
      case high: False
      have "addr < ks_addr (table ! i)" if "mid - 1 < i" "i < length table" for i
      proof -
        have "map ks_addr table ! mid \<le> map ks_addr table ! i"
          using that m 1(5) by (intro sorted_nth_mono) simp_all
        with high that m 1(4) show ?thesis by simp
      qed
      with 1(2) [OF True mid_def high] 1(3-7) m True high show ?thesis
        by (subst (1 2 3) ksym_search.simps) (simp add: mid_def Let_def)
    qed
  next
    case False
    with 1(3-7) show ?thesis by (subst (1 2 3) ksym_search.simps) simp
  qed
qed

text \<open>C30: On a table in order of address, \<open>ksym_lookup\<close> ends and answers as a scan of the whole table
  would: with the last entry that does not lie above the address, and nothing when there is none.\<close>

theorem ksym_lookup_scan:
  assumes "sorted (map ks_addr table)"
  shows "ksym_lookup table addr =
    (case filter (\<lambda>e. ks_addr e \<le> addr) table of
       [] \<Rightarrow> None
     | e # es \<Rightarrow> Some (ks_name_off (last (e # es)), addr - ks_addr (last (e # es))))"
proof (cases "table = [] \<or> addr < ks_addr (table ! 0)")
  case True
  have "\<not> ks_addr e \<le> addr" if "e \<in> set table" for e
  proof -
    from that obtain i where i: "i < length table" "e = table ! i" by (auto simp: in_set_conv_nth)
    then have "map ks_addr table ! 0 \<le> map ks_addr table ! i" by (intro sorted_nth_mono [OF assms]) simp_all
    moreover have "table \<noteq> []" using i by auto
    ultimately show ?thesis using True i by (auto simp: nth_map)
  qed
  then have "filter (\<lambda>e. ks_addr e \<le> addr) table = []" by simp
  with True show ?thesis by (auto simp: ksym_lookup_def)
next
  case False
  let ?lo = "ksym_search table addr 0 (length table - 1)"
  have lo: "?lo < length table \<and> ks_addr (table ! ?lo) \<le> addr \<and>
      (\<forall>i. ?lo < i \<and> i < length table \<longrightarrow> addr < ks_addr (table ! i))"
    using False by (intro ksym_search_bounds [OF _ _ assms]) auto
  let ?P = "\<lambda>e. ks_addr e \<le> addr"
  have d: "table = take ?lo table @ table ! ?lo # drop (Suc ?lo) table" using lo by (simp add: id_take_nth_drop)
  have nil: "filter ?P (drop (Suc ?lo) table) = []" using lo by (auto simp: filter_empty_conv in_set_conv_nth not_le)
  have "filter ?P table = filter ?P (take ?lo table @ table ! ?lo # drop (Suc ?lo) table)"
    by (rule arg_cong [OF d])
  also have "\<dots> = filter ?P (take ?lo table) @ [table ! ?lo]" using lo nil by simp
  finally have f: "filter ?P table = filter ?P (take ?lo table) @ [table ! ?lo]" .
  show ?thesis using False unfolding f by (cases "filter ?P (take ?lo table)") (auto simp: ksym_lookup_def Let_def)
qed

definition demo_syms :: "ksym_entry list" where
  "demo_syms = [\<lparr>ks_addr = 0x1000, ks_name_off = 0\<rparr>, \<lparr>ks_addr = 0x1040, ks_name_off = 6\<rparr>, \<lparr>ks_addr = 0x1040, ks_name_off = 9\<rparr>,
     \<lparr>ks_addr = 0x2000, ks_name_off = 14\<rparr>]"

theorem ksym_lookup_scan_witness: "ksym_lookup demo_syms 0x1080 = Some (9, 0x40)"
proof -
  have "sorted (map ks_addr demo_syms)" by (simp add: demo_syms_def)
  from ksym_lookup_scan [OF this, of "0x1080"] show ?thesis by (simp add: demo_syms_def)
qed

end
