(* ===== verification/Net.thy ===== *)
theory Net
  imports Prelude
begin

text \<open>
  The network stack, \<open>src/kernel/net.c\<close>: state, ARP cache, checksums, the frames it builds and the handlers of received
  ones. The Ethernet driver, the clock and the bytes a fresh stack frame holds are an interface over a state of
  their own. A received frame stays in \<open>pkt_buf\<close>; handlers get the offset of their part of it and its length.
\<close>

section \<open>State\<close>

abbreviation ETH_HLEN :: nat where "ETH_HLEN \<equiv> 14"
abbreviation ETH_TYPE_ARP :: u16 where "ETH_TYPE_ARP \<equiv> 0x0806"
abbreviation ETH_TYPE_IPV4 :: u16 where "ETH_TYPE_IPV4 \<equiv> 0x0800"
abbreviation IP_PROTO_ICMP :: u8 where "IP_PROTO_ICMP \<equiv> 1"
abbreviation IP_PROTO_TCP :: u8 where "IP_PROTO_TCP \<equiv> 6"
abbreviation IP_PROTO_UDP :: u8 where "IP_PROTO_UDP \<equiv> 17"
abbreviation TCP_FIN :: u8 where "TCP_FIN \<equiv> 0x01"
abbreviation TCP_SYN :: u8 where "TCP_SYN \<equiv> 0x02"
abbreviation TCP_RST :: u8 where "TCP_RST \<equiv> 0x04"
abbreviation TCP_PSH :: u8 where "TCP_PSH \<equiv> 0x08"
abbreviation TCP_ACK :: u8 where "TCP_ACK \<equiv> 0x10"
abbreviation ARP_CACHE_SIZE :: nat where "ARP_CACHE_SIZE \<equiv> 16"
abbreviation PING_SLOTS :: nat where "PING_SLOTS \<equiv> 8"
abbreviation NET_TCP_MAX_CONN :: nat where "NET_TCP_MAX_CONN \<equiv> 4"
abbreviation NET_TCP_BUF_SIZE :: nat where "NET_TCP_BUF_SIZE \<equiv> 4096"
abbreviation PKT_BUF_SIZE :: nat where "PKT_BUF_SIZE \<equiv> 2048"

type_synonym ip4 = "u8 list"
type_synonym mac6 = "u8 list"

record net_config =
  nc_ip :: ip4
  nc_gateway :: ip4
  nc_netmask :: ip4
  nc_dns :: ip4
  nc_mac :: mac6

record arp_entry =
  ae_ip :: ip4
  ae_mac :: mac6
  ae_valid :: bool

record ping_slot =
  ps_seq :: u16
  ps_send_tick :: u64
  ps_rtt_ms :: u64
  ps_active :: bool
  ps_replied :: bool

text \<open>\<open>ur_data\<close> is the offset in \<open>pkt_buf\<close> the pointer of the code stands for.\<close>

record udp_rx =
  ur_waiting :: bool
  ur_port :: u16
  ur_src_ip :: ip4
  ur_src_port :: u16
  ur_data :: nat
  ur_data_len :: nat
  ur_received :: bool

datatype tcp_state = TCP_CLOSED | TCP_SYN_SENT | TCP_ESTABLISHED | TCP_FIN_WAIT_1 | TCP_FIN_WAIT_2 | TCP_CLOSE_WAIT
  | TCP_LAST_ACK | TCP_TIME_WAIT

text \<open>\<open>tc_rx\<close> holds the first \<open>rx_len\<close> bytes of \<open>rx_buf\<close>.\<close>

record tcp_conn =
  tc_active :: bool
  tc_state :: tcp_state
  tc_remote_ip :: ip4
  tc_local_port :: u16
  tc_remote_port :: u16
  tc_seq :: u32
  tc_ack :: u32
  tc_rx :: "u8 list"
  tc_rx_fin :: bool

record 'n net_st =
  net_cfg :: net_config
  arp_cache :: "arp_entry list"
  ping_slots :: "ping_slot list"
  rx_slot :: udp_rx
  tcp_conns :: "tcp_conn list"
  tcp_next_port :: u16
  pkt_buf :: "nat \<Rightarrow> u8"
  net_ser :: string
  nic :: 'n

text \<open>\<open>e1000_send\<close>, \<open>e1000_poll_rx\<close> (its result, and the bytes it copied when that is positive), \<open>e1000_init\<close>,
  \<open>e1000_get_mac\<close>, \<open>pci_scan\<close>, \<open>timer_ticks\<close>, and what the frame buffer on the stack of \<open>send_eth\<close> holds at entry.\<close>

record 'n nic_ops =
  no_send :: "u8 list \<Rightarrow> 'n \<Rightarrow> int \<times> 'n"
  no_poll :: "nat \<Rightarrow> 'n \<Rightarrow> (int \<times> u8 list) \<times> 'n"
  no_init :: "'n \<Rightarrow> int \<times> 'n"
  no_mac :: "'n \<Rightarrow> mac6"
  no_scan :: "'n \<Rightarrow> 'n"
  no_ticks :: "'n \<Rightarrow> u64 \<times> 'n"
  no_stack :: "'n \<Rightarrow> nat \<Rightarrow> u8"

definition net_set_defaults :: "'n nic_ops \<Rightarrow> 'n net_st \<Rightarrow> 'n net_st" where
  "net_set_defaults N s = s\<lparr>net_cfg := \<lparr>nc_ip = [10, 0, 2, 15], nc_gateway = [10, 0, 2, 2],
     nc_netmask = [255, 255, 255, 0], nc_dns = [10, 0, 2, 3], nc_mac = no_mac N (nic s)\<rparr>\<rparr>"

section \<open>Byte order\<close>

definition htons :: "u16 \<Rightarrow> u16" where
  "htons v = drop_bit 8 v OR push_bit 8 v"

definition htonl :: "u32 \<Rightarrow> u32" where
  "htonl v = (drop_bit 24 v AND 0xFF) OR (drop_bit 8 v AND 0xFF00) OR (push_bit 8 v AND 0xFF0000) OR (push_bit 24 v AND 0xFF000000)"

text \<open>How the machine lays a word out in memory, and back.\<close>

definition store16 :: "u16 \<Rightarrow> u8 list" where
  "store16 v = [ucast v, ucast (drop_bit 8 v)]"

definition store32 :: "u32 \<Rightarrow> u8 list" where
  "store32 v = [ucast v, ucast (drop_bit 8 v), ucast (drop_bit 16 v), ucast (drop_bit 24 v)]"

definition load16 :: "u8 \<Rightarrow> u8 \<Rightarrow> u16" where
  "load16 b0 b1 = ucast b0 OR push_bit 8 (ucast b1)"

definition load32 :: "u8 \<Rightarrow> u8 \<Rightarrow> u8 \<Rightarrow> u8 \<Rightarrow> u32" where
  "load32 b0 b1 b2 b3 = ucast b0 OR push_bit 8 (ucast b1) OR push_bit 16 (ucast b2) OR push_bit 24 (ucast b3)"

definition pkt16 :: "'n net_st \<Rightarrow> nat \<Rightarrow> u16" where
  "pkt16 s off = htons (load16 (pkt_buf s off) (pkt_buf s (off + 1)))"

definition pkt32 :: "'n net_st \<Rightarrow> nat \<Rightarrow> u32" where
  "pkt32 s off = htonl (load32 (pkt_buf s off) (pkt_buf s (off + 1)) (pkt_buf s (off + 2)) (pkt_buf s (off + 3)))"

definition pkt_bytes :: "'n net_st \<Rightarrow> nat \<Rightarrow> nat \<Rightarrow> u8 list" where
  "pkt_bytes s off n = map (\<lambda>i. pkt_buf s (off + i)) [0..<n]"

section \<open>The ARP cache\<close>

definition arp_cache_put :: "ip4 \<Rightarrow> mac6 \<Rightarrow> 'n net_st \<Rightarrow> 'n net_st" where
  "arp_cache_put ip mac s =
     (let c = arp_cache s in
      case List.find (\<lambda>i. ae_valid (c ! i) \<and> ae_ip (c ! i) = ip) [0..<ARP_CACHE_SIZE] of
        Some i \<Rightarrow> s\<lparr>arp_cache := c[i := (c ! i)\<lparr>ae_mac := mac\<rparr>]\<rparr>
      | None \<Rightarrow>
          (case List.find (\<lambda>i. \<not> ae_valid (c ! i)) [0..<ARP_CACHE_SIZE] of
             Some i \<Rightarrow> s\<lparr>arp_cache := c[i := \<lparr>ae_ip = ip, ae_mac = mac, ae_valid = True\<rparr>]\<rparr>
           | None \<Rightarrow> s\<lparr>arp_cache := c[0 := \<lparr>ae_ip = ip, ae_mac = mac, ae_valid = True\<rparr>]\<rparr>))"

definition arp_lookup :: "ip4 \<Rightarrow> 'n net_st \<Rightarrow> mac6 option" where
  "arp_lookup ip s =
     map_option (\<lambda>i. ae_mac (arp_cache s ! i))
       (List.find (\<lambda>i. ae_valid (arp_cache s ! i) \<and> ae_ip (arp_cache s ! i) = ip) [0..<ARP_CACHE_SIZE])"

section \<open>Checksums\<close>

function fold_carries :: "u64 \<Rightarrow> u64" where
  "fold_carries v = (if drop_bit 16 v \<noteq> 0 then fold_carries ((v AND 0xFFFF) + drop_bit 16 v) else v)"
  by pat_completeness auto

lemma carry_split: "unat (v AND 0xFFFF) = unat v mod 65536" "unat (drop_bit 16 v) = unat v div 65536" for v :: u64
proof -
  have t: "v AND 0xFFFF = take_bit 16 v" by (simp add: take_bit_eq_mask mask_eq_exp_minus_1)
  have "unat (take_bit 16 v) = take_bit 16 (unat v)" by (rule unsigned_take_bit_eq)
  also have "take_bit 16 (unat v) = unat v mod 65536" by (simp add: take_bit_eq_mod)
  finally show "unat (v AND 0xFFFF) = unat v mod 65536" unfolding t .
  show "unat (drop_bit 16 v) = unat v div 65536" by (simp add: drop_bit_eq_div unat_div)
qed

lemma carry_less: "n div 65536 \<noteq> 0 \<Longrightarrow> n mod 65536 + n div 65536 < (n :: nat)"
  using div_mult_mod_eq [of n 65536] by linarith

lemma unat_carries: "unat ((v AND 0xFFFF) + drop_bit 16 v) = unat v mod 65536 + unat v div 65536" for v :: u64
proof -
  have "unat v < 18446744073709551616" by (rule unat_bounds)
  then have "unat v mod 65536 + unat v div 65536 < 18446744073709551616" by linarith
  then show ?thesis unfolding carry_split [symmetric] by (subst unat_add_lem [THEN iffD1]) simp_all
qed

termination fold_carries
proof (relation "measure unat")
  fix v :: u64
  assume "drop_bit 16 v \<noteq> 0"
  then have "unat v div 65536 \<noteq> 0" by (metis carry_split(2) unat_eq_zero)
  then have "unat v mod 65536 + unat v div 65536 < unat v" by (metis carry_less)
  then show "((v AND 0xFFFF) + drop_bit 16 v, v) \<in> measure unat" by (simp only: unat_carries in_measure)
qed simp

declare fold_carries.simps [simp del]

text \<open>The 16-bit words of a buffer as the machine reads them, and a trailing single byte.\<close>

fun sum_words :: "u8 list \<Rightarrow> u64" where
  "sum_words (a # b # bs) = ucast (load16 a b) + sum_words bs"
| "sum_words [a] = ucast a"
| "sum_words [] = 0"

definition ip_checksum :: "u8 list \<Rightarrow> u16" where
  "ip_checksum data = NOT (ucast (fold_carries (sum_words data)))"

section \<open>Sending\<close>

definition send_eth :: "'n nic_ops \<Rightarrow> mac6 \<Rightarrow> u16 \<Rightarrow> u8 list \<Rightarrow> 'n net_st \<Rightarrow> int \<times> 'n net_st" where
  "send_eth N dst_mac ethertype payload s =
     (if length payload + ETH_HLEN > 1518 then (-1, s)
      else let written = dst_mac @ nc_mac (net_cfg s) @ store16 (htons ethertype) @ payload;
               n = ETH_HLEN + length payload;
               total_len = (if n < 60 then 60 else n);
               frame = written @ map (no_stack N (nic s)) [n..<total_len];
               (rc, e) = no_send N frame (nic s)
           in (rc, s\<lparr>nic := e\<rparr>))"

definition bcast_mac :: mac6 where
  "bcast_mac = [0xFF, 0xFF, 0xFF, 0xFF, 0xFF, 0xFF]"

definition arp_packet :: "u16 \<Rightarrow> mac6 \<Rightarrow> ip4 \<Rightarrow> 'n net_st \<Rightarrow> u8 list" where
  "arp_packet opcode target_mac target_ip s =
     store16 (htons 1) @ store16 (htons 0x0800) @ [6, 4] @ store16 (htons opcode)
       @ nc_mac (net_cfg s) @ nc_ip (net_cfg s) @ target_mac @ target_ip"

definition arp_request :: "'n nic_ops \<Rightarrow> ip4 \<Rightarrow> 'n net_st \<Rightarrow> 'n net_st" where
  "arp_request N ip s = snd (send_eth N bcast_mac ETH_TYPE_ARP (arp_packet 1 [0, 0, 0, 0, 0, 0] ip s) s)"

definition arp_reply :: "'n nic_ops \<Rightarrow> mac6 \<Rightarrow> ip4 \<Rightarrow> 'n net_st \<Rightarrow> 'n net_st" where
  "arp_reply N dst_mac dst_ip s = snd (send_eth N dst_mac ETH_TYPE_ARP (arp_packet 2 dst_mac dst_ip s) s)"

text \<open>An IPv4 header without options, its checksum taken over the header with a zero there.\<close>

definition ipv4_fields :: "nat \<Rightarrow> u8 \<Rightarrow> ip4 \<Rightarrow> ip4 \<Rightarrow> u16 \<Rightarrow> u8 list" where
  "ipv4_fields total_len proto src dst checksum =
     [0x45, 0] @ store16 (htons (of_nat total_len)) @ [0, 0, 0, 0, 64, proto] @ store16 checksum @ src @ dst"

definition ipv4_header :: "nat \<Rightarrow> u8 \<Rightarrow> ip4 \<Rightarrow> ip4 \<Rightarrow> u8 list" where
  "ipv4_header total_len proto src dst =
     ipv4_fields total_len proto src dst (ip_checksum (ipv4_fields total_len proto src dst 0))"

section \<open>Received frames\<close>

definition handle_arp :: "'n nic_ops \<Rightarrow> nat \<Rightarrow> nat \<Rightarrow> 'n net_st \<Rightarrow> 'n net_st" where
  "handle_arp N off len s =
     (if len < 28 then s
      else if pkt16 s off \<noteq> 1 \<or> pkt16 s (off + 2) \<noteq> 0x0800 then s
      else if pkt_buf s (off + 4) \<noteq> 6 \<or> pkt_buf s (off + 5) \<noteq> 4 then s
      else let opcode = pkt16 s (off + 6); sender_mac = pkt_bytes s (off + 8) 6; sender_ip = pkt_bytes s (off + 14) 4;
               target_ip = pkt_bytes s (off + 24) 4; s1 = arp_cache_put sender_ip sender_mac s
           in if opcode = 1 \<and> target_ip = nc_ip (net_cfg s1) then arp_reply N sender_mac sender_ip s1 else s1)"

definition ping_ident :: u16 where "ping_ident = 0x1234"

definition set_byte_list :: "u8 list \<Rightarrow> nat \<Rightarrow> u8 list \<Rightarrow> u8 list" where
  "set_byte_list bs i ws = take i bs @ ws @ drop (i + length ws) bs"

definition icmp_reply :: "u8 list \<Rightarrow> u8 list" where
  "icmp_reply request =
     (let blank = set_byte_list (set_byte_list request 0 [0]) 2 [0, 0]
      in set_byte_list blank 2 (store16 (ip_checksum blank)))"

definition handle_icmp :: "'n nic_ops \<Rightarrow> nat \<Rightarrow> nat \<Rightarrow> ip4 \<Rightarrow> 'n net_st \<Rightarrow> 'n net_st" where
  "handle_icmp N off len src_ip s =
     (if len < 8 then s
      else if pkt_buf s off = 8 \<and> pkt_buf s (off + 1) = 0 then
        if len + 20 > 1500 then s
        else let reply = ipv4_header (20 + len) IP_PROTO_ICMP (nc_ip (net_cfg s)) src_ip @ icmp_reply (pkt_bytes s off len)
             in (case arp_lookup src_ip s of Some dst_mac \<Rightarrow> snd (send_eth N dst_mac ETH_TYPE_IPV4 reply s) | None \<Rightarrow> s)
      else if pkt_buf s off = 0 \<and> pkt_buf s (off + 1) = 0 then
        (case List.find (\<lambda>i. ps_active (ping_slots s ! i) \<and> pkt16 s (off + 4) = ping_ident \<and>
                 pkt16 s (off + 6) = ps_seq (ping_slots s ! i)) [0..<PING_SLOTS] of
           None \<Rightarrow> s
         | Some i \<Rightarrow>
             let (now, e) = no_ticks N (nic s); slot = ping_slots s ! i
             in s\<lparr>ping_slots := (ping_slots s)[i := slot\<lparr>ps_rtt_ms := (now - ps_send_tick slot) * 10, ps_active := False, ps_replied := True\<rparr>],
                   nic := e\<rparr>)
      else s)"

text \<open>The decimal digits, least significant first, as the loop collects them.\<close>

fun rev_digits :: "nat \<Rightarrow> string" where
  "rev_digits n = (if n = 0 then [] else char_of (48 + n mod 10) # rev_digits (n div 10))"

declare rev_digits.simps [simp del]

definition net_number :: "nat \<Rightarrow> string" where
  "net_number n = (if n = 0 then ''0'' else rev (rev_digits n))"

definition net_log :: "string \<Rightarrow> 'n net_st \<Rightarrow> 'n net_st" where
  "net_log text s = s\<lparr>net_ser := net_ser s @ text\<rparr>"

definition handle_udp :: "nat \<Rightarrow> nat \<Rightarrow> ip4 \<Rightarrow> 'n net_st \<Rightarrow> 'n net_st" where
  "handle_udp off len src_ip s =
     (if len < 8 then s
      else let src_port = pkt16 s off; dst_port = pkt16 s (off + 2); udp_len = unat (pkt16 s (off + 4))
        in if udp_len < 8 \<or> udp_len > len then s
           else if ur_waiting (rx_slot s) \<and> dst_port = ur_port (rx_slot s) \<and> \<not> ur_received (rx_slot s)
           then s\<lparr>rx_slot := (rx_slot s)\<lparr>ur_src_ip := src_ip, ur_src_port := src_port, ur_data := off + 8,
                   ur_data_len := udp_len - 8, ur_received := True\<rparr>\<rparr>
           else net_log (''[net] UDP '' @ net_number (unat src_port) @ '' -> '' @ net_number (unat dst_port)
                  @ '' len='' @ net_number (udp_len - 8) @ [CHR 0x0D, CHR 0x0A]) s)"

end
