(* ===== verification/Net_Tcp.thy ===== *)
theory Net_Tcp
  imports Net
begin

text \<open>
  The waiting half of \<open>src/kernel/net.c\<close>: address resolution, TCP, polling, and the calls the shell makes. Handling a TCP
  segment may send one, sending may wait for an ARP reply, and waiting polls for frames, so \<open>net_poll\<close> calls itself through
  its handlers. A number bounds the depth of that nesting and the turns of each waiting loop; None is the run that needs
  more.
\<close>

section \<open>Waiting\<close>

type_synonym 'n poller = "'n net_st \<Rightarrow> 'n net_st option"

definition ticks :: "'n nic_ops \<Rightarrow> 'n net_st \<Rightarrow> u64 \<times> 'n net_st" where
  "ticks N s = (let (t, e) = no_ticks N (nic s) in (t, s\<lparr>nic := e\<rparr>))"

text \<open>\<open>while (timer_ticks() < deadline) { net_poll(); if (...) return ...; }\<close>\<close>

fun wait_for :: "nat \<Rightarrow> 'n nic_ops \<Rightarrow> 'n poller \<Rightarrow> u64 \<Rightarrow> ('n net_st \<Rightarrow> 'r option) \<Rightarrow> 'n net_st \<Rightarrow> ('r option \<times> 'n net_st) option" where
  "wait_for 0 N poll deadline found s = None"
| "wait_for (Suc n) N poll deadline found s =
     (let (t, s1) = ticks N s in
      if t < deadline then do {
        s2 \<leftarrow> poll s1;
        (case found s2 of Some r \<Rightarrow> Some (Some r, s2) | None \<Rightarrow> wait_for n N poll deadline found s2) }
      else Some (None, s1))"

definition same_subnet :: "ip4 \<Rightarrow> 'n net_st \<Rightarrow> bool" where
  "same_subnet dst_ip s =
     list_all (\<lambda>i. dst_ip ! i AND nc_netmask (net_cfg s) ! i = nc_ip (net_cfg s) ! i AND nc_netmask (net_cfg s) ! i) [0..<4]"

definition resolve_mac :: "nat \<Rightarrow> 'n nic_ops \<Rightarrow> 'n poller \<Rightarrow> ip4 \<Rightarrow> 'n net_st \<Rightarrow> (mac6 option \<times> 'n net_st) option" where
  "resolve_mac n N poll dst_ip s =
     (let target = (if same_subnet dst_ip s then dst_ip else nc_gateway (net_cfg s)) in
      case arp_lookup target s of
        Some mac \<Rightarrow> Some (Some mac, s)
      | None \<Rightarrow>
          (case ticks N (arp_request N target s) of
             (t, s1) \<Rightarrow> wait_for n N poll (t + 200) (arp_lookup target) s1))"

section \<open>TCP segments\<close>

definition upd_conn :: "nat \<Rightarrow> (tcp_conn \<Rightarrow> tcp_conn) \<Rightarrow> 'n net_st \<Rightarrow> 'n net_st" where
  "upd_conn i f s = s\<lparr>tcp_conns := (tcp_conns s)[i := f (tcp_conns s ! i)]\<rparr>"

text \<open>The words of the segment in host order; an odd last byte is the high half of a word.\<close>

fun sum_net_words :: "u8 list \<Rightarrow> u64" where
  "sum_net_words (a # b # bs) = ucast (htons (load16 a b)) + sum_net_words bs"
| "sum_net_words [a] = push_bit 8 (ucast a)"
| "sum_net_words [] = 0"

definition ip_half :: "ip4 \<Rightarrow> nat \<Rightarrow> u64" where
  "ip_half ip i = push_bit 8 (ucast (ip ! i)) OR ucast (ip ! (i + 1))"

definition pseudo_sum :: "ip4 \<Rightarrow> ip4 \<Rightarrow> nat \<Rightarrow> u64" where
  "pseudo_sum src_ip dst_ip tcp_len =
     ip_half src_ip 0 + ip_half src_ip 2 + ip_half dst_ip 0 + ip_half dst_ip 2 + ucast IP_PROTO_TCP + ucast (of_nat tcp_len :: u16)"

definition tcp_checksum :: "ip4 \<Rightarrow> ip4 \<Rightarrow> u8 list \<Rightarrow> u16" where
  "tcp_checksum src_ip dst_ip seg =
     htons (NOT (ucast (fold_carries (pseudo_sum src_ip dst_ip (length seg) + sum_net_words seg))))"

definition tcp_fields :: "tcp_conn \<Rightarrow> u8 \<Rightarrow> u16 \<Rightarrow> u8 list \<Rightarrow> u8 list" where
  "tcp_fields c flags checksum data =
     store16 (htons (tc_local_port c)) @ store16 (htons (tc_remote_port c)) @ store32 (htonl (tc_seq c)) @ store32 (htonl (tc_ack c))
       @ [0x50, flags] @ store16 (htons (of_nat NET_TCP_BUF_SIZE)) @ store16 checksum @ [0, 0] @ data"

definition tcp_segment :: "net_config \<Rightarrow> tcp_conn \<Rightarrow> u8 \<Rightarrow> u8 list \<Rightarrow> u8 list" where
  "tcp_segment cfg c flags data =
     tcp_fields c flags (tcp_checksum (nc_ip cfg) (tc_remote_ip c) (tcp_fields c flags 0 data)) data"

definition tcp_send_segment :: "nat \<Rightarrow> 'n nic_ops \<Rightarrow> 'n poller \<Rightarrow> nat \<Rightarrow> u8 \<Rightarrow> u8 list \<Rightarrow> 'n net_st \<Rightarrow> (int \<times> 'n net_st) option" where
  "tcp_send_segment n N poll i flags data s =
     (if 20 + length data + 20 > 1500 then Some (-1, s)
      else do {
        (mac, s1) \<leftarrow> resolve_mac n N poll (tc_remote_ip (tcp_conns s ! i)) s;
        Some (case mac of
                None \<Rightarrow> (-1, s1)
              | Some dst_mac \<Rightarrow>
                  let c = tcp_conns s1 ! i; cfg = net_cfg s1
                  in send_eth N dst_mac ETH_TYPE_IPV4
                       (ipv4_header (40 + length data) IP_PROTO_TCP (nc_ip cfg) (tc_remote_ip c) @ tcp_segment cfg c flags data) s1) })"

text \<open>The next three are the branches of \<open>handle_tcp\<close> that send; \<open>ack\<close> sends an empty segment with \<open>TCP_ACK\<close>.\<close>

definition tcp_take_data :: "'n poller \<Rightarrow> nat \<Rightarrow> u32 \<Rightarrow> u8 list \<Rightarrow> 'n poller" where
  "tcp_take_data ack i seq_num data s =
     (let c = tcp_conns s ! i in
      if data \<noteq> [] \<and> seq_num = tc_ack c then
        let space = NET_TCP_BUF_SIZE - length (tc_rx c); copy = (if length data < space then length data else space)
        in ack (upd_conn i (\<lambda>c. c\<lparr>tc_rx := tc_rx c @ take copy data, tc_ack := seq_num + of_nat (length data)\<rparr>) s)
      else Some s)"

definition tcp_established :: "'n poller \<Rightarrow> nat \<Rightarrow> u8 \<Rightarrow> u32 \<Rightarrow> u8 list \<Rightarrow> 'n poller" where
  "tcp_established ack i flags seq_num data s = do {
     s1 \<leftarrow> tcp_take_data ack i seq_num data s;
     if flags AND TCP_FIN \<noteq> 0
     then ack (upd_conn i (\<lambda>c. c\<lparr>tc_ack := (if data = [] then seq_num + 1 else tc_ack c), tc_rx_fin := True,
                                  tc_state := TCP_CLOSE_WAIT\<rparr>) s1)
     else Some s1 }"

definition tcp_fin_wait_1 :: "'n poller \<Rightarrow> nat \<Rightarrow> u8 \<Rightarrow> u32 \<Rightarrow> u32 \<Rightarrow> 'n poller" where
  "tcp_fin_wait_1 ack i flags seq_num ack_num s =
     (if flags AND TCP_ACK = 0 then Some s
      else if flags AND TCP_FIN \<noteq> 0
      then map_option (upd_conn i (\<lambda>c. c\<lparr>tc_active := False, tc_state := TCP_CLOSED\<rparr>))
             (ack (upd_conn i (\<lambda>c. c\<lparr>tc_seq := ack_num, tc_ack := seq_num + 1, tc_state := TCP_TIME_WAIT\<rparr>) s))
      else Some (upd_conn i (\<lambda>c. c\<lparr>tc_seq := ack_num, tc_state := TCP_FIN_WAIT_2\<rparr>) s))"

text \<open>What the state of the connection makes of a segment that is not a reset.\<close>

definition tcp_step :: "'n poller \<Rightarrow> nat \<Rightarrow> u8 \<Rightarrow> u32 \<Rightarrow> u32 \<Rightarrow> u8 list \<Rightarrow> 'n poller" where
  "tcp_step ack i flags seq_num ack_num data s =
     (case tc_state (tcp_conns s ! i) of
        TCP_SYN_SENT \<Rightarrow>
          if flags AND (TCP_SYN OR TCP_ACK) = TCP_SYN OR TCP_ACK
          then ack (upd_conn i (\<lambda>c. c\<lparr>tc_ack := seq_num + 1, tc_seq := ack_num, tc_state := TCP_ESTABLISHED\<rparr>) s)
          else Some s
      | TCP_ESTABLISHED \<Rightarrow> tcp_established ack i flags seq_num data s
      | TCP_FIN_WAIT_1 \<Rightarrow> tcp_fin_wait_1 ack i flags seq_num ack_num s
      | TCP_FIN_WAIT_2 \<Rightarrow>
          if flags AND TCP_FIN \<noteq> 0
          then map_option (upd_conn i (\<lambda>c. c\<lparr>tc_active := False, tc_state := TCP_CLOSED\<rparr>))
                 (ack (upd_conn i (\<lambda>c. c\<lparr>tc_ack := seq_num + 1\<rparr>) s))
          else Some s
      | TCP_LAST_ACK \<Rightarrow>
          Some (if flags AND TCP_ACK \<noteq> 0 then upd_conn i (\<lambda>c. c\<lparr>tc_active := False, tc_state := TCP_CLOSED\<rparr>) s else s)
      | _ \<Rightarrow> Some s)"

definition tcp_find :: "u16 \<Rightarrow> u16 \<Rightarrow> ip4 \<Rightarrow> 'n net_st \<Rightarrow> nat option" where
  "tcp_find dst_port src_port src_ip s =
     List.find (\<lambda>i. let c = tcp_conns s ! i in tc_active c \<and> tc_local_port c = dst_port \<and> tc_remote_port c = src_port \<and>
       tc_remote_ip c = src_ip) [0..<NET_TCP_MAX_CONN]"

definition handle_tcp :: "(nat \<Rightarrow> 'n poller) \<Rightarrow> nat \<Rightarrow> nat \<Rightarrow> ip4 \<Rightarrow> 'n poller" where
  "handle_tcp ack off len src_ip s =
     (if len < 20 then Some s
      else let src_port = pkt16 s off; dst_port = pkt16 s (off + 2); seq_num = pkt32 s (off + 4); ack_num = pkt32 s (off + 8);
               flags = pkt_buf s (off + 13); hdr_len = unat (drop_bit 4 (pkt_buf s (off + 12)) AND 0x0F) * 4
        in if hdr_len < 20 \<or> hdr_len > len then Some s
           else (case tcp_find dst_port src_port src_ip s of
                   None \<Rightarrow> Some s
                 | Some i \<Rightarrow>
                     if flags AND TCP_RST \<noteq> 0 then Some (upd_conn i (\<lambda>c. c\<lparr>tc_active := False, tc_state := TCP_CLOSED\<rparr>) s)
                     else tcp_step (ack i) i flags seq_num ack_num (pkt_bytes s (off + hdr_len) (len - hdr_len)) s))"

section \<open>Frames and polling\<close>

definition handle_ipv4 :: "'n nic_ops \<Rightarrow> (nat \<Rightarrow> 'n poller) \<Rightarrow> nat \<Rightarrow> nat \<Rightarrow> 'n poller" where
  "handle_ipv4 N ack off len s =
     (if len < 20 \<or> drop_bit 4 (pkt_buf s off) \<noteq> 4 then Some s
      else let hdr_len = unat (pkt_buf s off AND 0x0F) * 4; total_len = unat (pkt16 s (off + 2)) in
        if hdr_len < 20 \<or> total_len < hdr_len \<or> total_len > len then Some s
        else if pkt_bytes s (off + 16) 4 \<noteq> nc_ip (net_cfg s) \<and> pkt_bytes s (off + 16) 4 \<noteq> [255, 255, 255, 255] then Some s
        else let proto = pkt_buf s (off + 9); src_ip = pkt_bytes s (off + 12) 4; poff = off + hdr_len; plen = total_len - hdr_len in
          if proto = IP_PROTO_ICMP then Some (handle_icmp N poff plen src_ip s)
          else if proto = IP_PROTO_TCP then handle_tcp ack poff plen src_ip s
          else if proto = IP_PROTO_UDP then Some (handle_udp poff plen src_ip s)
          else Some s)"

definition handle_frame :: "'n nic_ops \<Rightarrow> (nat \<Rightarrow> 'n poller) \<Rightarrow> nat \<Rightarrow> 'n poller" where
  "handle_frame N ack len s =
     (if len < ETH_HLEN then Some s
      else let etype = pkt16 s 12 in
        if etype = ETH_TYPE_ARP then Some (handle_arp N ETH_HLEN (len - ETH_HLEN) s)
        else if etype = ETH_TYPE_IPV4 then handle_ipv4 N ack ETH_HLEN (len - ETH_HLEN) s
        else Some s)"

text \<open>\<open>e1000_poll_rx\<close> writes the frame over the front of \<open>pkt_buf\<close>.\<close>

definition store_frame :: "u8 list \<Rightarrow> 'n net_st \<Rightarrow> 'n net_st" where
  "store_frame frame s = s\<lparr>pkt_buf := (\<lambda>i. if i < length frame then frame ! i else pkt_buf s i)\<rparr>"

fun poll_frames :: "'n nic_ops \<Rightarrow> (nat \<Rightarrow> 'n poller) \<Rightarrow> nat \<Rightarrow> 'n poller" where
  "poll_frames N ack 0 s = Some s"
| "poll_frames N ack (Suc k) s =
     (case no_poll N PKT_BUF_SIZE (nic s) of
        ((rc, frame), e) \<Rightarrow>
          if rc \<le> 0 then Some (s\<lparr>nic := e\<rparr>)
          else handle_frame N ack (length frame) (store_frame frame (s\<lparr>nic := e\<rparr>)) \<bind> poll_frames N ack k)"

text \<open>\<open>send_ack n\<close> is \<open>tcp_send_segment(c, TCP_ACK, NULL, 0)\<close> with its result dropped.\<close>

definition send_ack :: "nat \<Rightarrow> 'n nic_ops \<Rightarrow> 'n poller \<Rightarrow> nat \<Rightarrow> 'n poller" where
  "send_ack n N poll i s = map_option snd (tcp_send_segment n N poll i TCP_ACK [] s)"

fun net_poll :: "nat \<Rightarrow> 'n nic_ops \<Rightarrow> 'n poller" where
  "net_poll 0 N s = None"
| "net_poll (Suc n) N s = poll_frames N (send_ack n N (net_poll n N)) 64 s"

end
