(* ===== verification/Net_Calls.thy ===== *)
theory Net_Calls
  imports Net_Tcp
begin

text \<open>The calls of \<open>src/kernel/net.c\<close>: ping, UDP, DHCP, DNS and TCP connections. \<open>n\<close> bounds the turns of every wait.\<close>

section \<open>Start-up and ping\<close>

definition net_init :: "'n nic_ops \<Rightarrow> 'n net_st \<Rightarrow> int \<times> 'n net_st" where
  "net_init N s =
     (let s1 = s\<lparr>arp_cache := map (\<lambda>e. e\<lparr>ae_valid := False\<rparr>) (arp_cache s), ping_slots := map (\<lambda>p. p\<lparr>ps_active := False\<rparr>) (ping_slots s)\<rparr>;
          s2 = net_log (''[net] scanning PCI bus...'' @ [CHR 0x0D, CHR 0x0A]) s1;
          (rc, e) = no_init N (no_scan N (nic s2)); s3 = s2\<lparr>nic := e\<rparr>
      in if rc \<noteq> 0
         then (-1, net_log (''[net] no NIC found, networking disabled'' @ [CHR 0x0D, CHR 0x0A]
                   @ ''[net] hint: pass -netdev user,id=net0 -device e1000,netdev=net0 to QEMU'' @ [CHR 0x0D, CHR 0x0A]) s3)
         else (0, net_log (''[net] stack ready: IP 10.0.2.15'' @ [CHR 0x0D, CHR 0x0A]) (net_set_defaults N s3)))"

definition echo_request :: "u16 \<Rightarrow> u8 list" where
  "echo_request seq =
     (let blank = [8, 0, 0, 0] @ store16 (htons ping_ident) @ store16 (htons seq) @ map (\<lambda>i. of_nat (65 + i mod 26)) [0..<32]
      in set_byte_list blank 2 (store16 (ip_checksum blank)))"

definition net_ping :: "nat \<Rightarrow> 'n nic_ops \<Rightarrow> ip4 \<Rightarrow> u16 \<Rightarrow> 'n net_st \<Rightarrow> (int \<times> 'n net_st) option" where
  "net_ping n N dst_ip seq s =
     (case List.find (\<lambda>i. \<not> ps_active (ping_slots s ! i) \<and> \<not> ps_replied (ping_slots s ! i)) [0..<PING_SLOTS] of
        None \<Rightarrow> Some (-1, s)
      | Some slot \<Rightarrow> do {
          (mac, s1) \<leftarrow> resolve_mac n N (net_poll n N) dst_ip s;
          Some (case mac of
                  None \<Rightarrow> (-1, s1)
                | Some dst_mac \<Rightarrow>
                    let pkt = ipv4_header 60 IP_PROTO_ICMP (nc_ip (net_cfg s1)) dst_ip @ echo_request seq;
                        (now, s2) = ticks N s1
                    in send_eth N dst_mac ETH_TYPE_IPV4 pkt
                         (s2\<lparr>ping_slots := (ping_slots s2)[slot := \<lparr>ps_seq = seq, ps_send_tick = now, ps_rtt_ms = 0,
                                                              ps_active = True, ps_replied = False\<rparr>]\<rparr>)) })"

definition net_ping_check :: "u16 \<Rightarrow> 'n net_st \<Rightarrow> (int \<times> u64 option) \<times> 'n net_st" where
  "net_ping_check seq s =
     (case List.find (\<lambda>i. ps_replied (ping_slots s ! i) \<and> ps_seq (ping_slots s ! i) = seq) [0..<PING_SLOTS] of
        None \<Rightarrow> ((0, None), s)
      | Some i \<Rightarrow> ((1, Some (ps_rtt_ms (ping_slots s ! i))),
                   s\<lparr>ping_slots := (ping_slots s)[i := (ping_slots s ! i)\<lparr>ps_replied := False\<rparr>]\<rparr>))"

section \<open>UDP\<close>

definition udp_segment :: "u16 \<Rightarrow> u16 \<Rightarrow> u8 list \<Rightarrow> u8 list" where
  "udp_segment src_port dst_port data =
     store16 (htons src_port) @ store16 (htons dst_port) @ store16 (htons (of_nat (8 + length data))) @ [0, 0] @ data"

definition net_udp_send :: "nat \<Rightarrow> 'n nic_ops \<Rightarrow> ip4 \<Rightarrow> u16 \<Rightarrow> u16 \<Rightarrow> u8 list \<Rightarrow> 'n net_st \<Rightarrow> (int \<times> 'n net_st) option" where
  "net_udp_send n N dst_ip src_port dst_port data s =
     (if length data + 20 + 8 > 1500 then Some (-1, s)
      else do {
        (mac, s1) \<leftarrow> resolve_mac n N (net_poll n N) dst_ip s;
        Some (case mac of
                None \<Rightarrow> (-1, s1)
              | Some dst_mac \<Rightarrow>
                  send_eth N dst_mac ETH_TYPE_IPV4
                    (ipv4_header (28 + length data) IP_PROTO_UDP (nc_ip (net_cfg s1)) dst_ip @ udp_segment src_port dst_port data) s1) })"

definition net_udp_send_broadcast :: "'n nic_ops \<Rightarrow> u16 \<Rightarrow> u16 \<Rightarrow> u8 list \<Rightarrow> 'n net_st \<Rightarrow> int \<times> 'n net_st" where
  "net_udp_send_broadcast N src_port dst_port data s =
     (if length data + 20 + 8 > 1500 then (-1, s)
      else send_eth N bcast_mac ETH_TYPE_IPV4
             (ipv4_header (28 + length data) IP_PROTO_UDP [0, 0, 0, 0] [255, 255, 255, 255] @ udp_segment src_port dst_port data) s)"

text \<open>The bytes are copied out of \<open>pkt_buf\<close> once \<open>net_poll\<close> has come back; an empty list is the 0 of the code.\<close>

definition udp_recv_wait :: "nat \<Rightarrow> 'n nic_ops \<Rightarrow> u16 \<Rightarrow> nat \<Rightarrow> u64 \<Rightarrow> 'n net_st \<Rightarrow> (u8 list \<times> 'n net_st) option" where
  "udp_recv_wait n N port max_len timeout_t s =
     (let (t, s1) = ticks N s; s2 = s1\<lparr>rx_slot := (rx_slot s1)\<lparr>ur_waiting := True, ur_port := port, ur_received := False\<rparr>\<rparr> in do {
        (got, s3) \<leftarrow> wait_for n N (net_poll n N) (t + timeout_t)
          (\<lambda>s. if ur_received (rx_slot s)
               then Some (pkt_bytes s (ur_data (rx_slot s)) (if ur_data_len (rx_slot s) > max_len then max_len else ur_data_len (rx_slot s)))
               else None) s2;
        Some (case got of None \<Rightarrow> [] | Some bs \<Rightarrow> bs, s3\<lparr>rx_slot := (rx_slot s3)\<lparr>ur_waiting := False, ur_received := False\<rparr>\<rparr>) })"

section \<open>DHCP\<close>

definition dhcp_packet :: "u32 \<Rightarrow> mac6 \<Rightarrow> u8 list \<Rightarrow> u8 list" where
  "dhcp_packet xid mac options =
     [1, 1, 6, 0] @ store32 (htonl xid) @ [0, 0] @ store16 (htons 0x8000) @ replicate 16 0 @ mac @ replicate (10 + 64 + 128) 0
       @ [99, 130, 83, 99] @ options @ replicate (312 - length options) 0"

definition dhcp_build_discover :: "u32 \<Rightarrow> mac6 \<Rightarrow> u8 list" where
  "dhcp_build_discover xid mac = dhcp_packet xid mac [53, 1, 1, 55, 3, 1, 3, 6, 255]"

definition dhcp_build_request :: "u32 \<Rightarrow> mac6 \<Rightarrow> ip4 \<Rightarrow> ip4 \<Rightarrow> u8 list" where
  "dhcp_build_request xid mac server_ip offered_ip =
     dhcp_packet xid mac ([53, 1, 3, 50, 4] @ offered_ip @ [54, 4] @ server_ip @ [55, 3, 1, 3, 6, 255])"

record dhcp_options =
  do_type :: int
  do_server :: ip4
  do_subnet :: ip4
  do_router :: ip4
  do_dns :: ip4

definition dhcp_option :: "u8 \<Rightarrow> u8 list \<Rightarrow> dhcp_options \<Rightarrow> dhcp_options" where
  "dhcp_option opt value r =
     (if opt = 53 then if length value \<ge> 1 then r\<lparr>do_type := int (unat (value ! 0))\<rparr> else r
      else if length value < 4 then r
      else if opt = 54 then r\<lparr>do_server := take 4 value\<rparr>
      else if opt = 1 then r\<lparr>do_subnet := take 4 value\<rparr>
      else if opt = 3 then r\<lparr>do_router := take 4 value\<rparr>
      else if opt = 6 then r\<lparr>do_dns := take 4 value\<rparr>
      else r)"

text \<open>The loop over the options that are left.\<close>

function dhcp_parse_options :: "u8 list \<Rightarrow> dhcp_options \<Rightarrow> dhcp_options" where
  "dhcp_parse_options opts r =
     (case opts of
        [] \<Rightarrow> r
      | opt # rest \<Rightarrow>
          if opt = 255 then r
          else if opt = 0 then dhcp_parse_options rest r
          else (case rest of
                  [] \<Rightarrow> r
                | len # body \<Rightarrow>
                    if unat len > length body then r
                    else dhcp_parse_options (drop (unat len) body) (dhcp_option opt (take (unat len) body) r)))"
  by pat_completeness auto
termination by (relation "measure (\<lambda>(opts, r). length opts)") auto

declare dhcp_parse_options.simps [simp del]

definition no_options :: dhcp_options where
  "no_options = \<lparr>do_type = 0, do_server = [0, 0, 0, 0], do_subnet = [0, 0, 0, 0], do_router = [0, 0, 0, 0], do_dns = [0, 0, 0, 0]\<rparr>"

definition dhcp_xid :: u32 where "dhcp_xid = 0x54473131"

text \<open>The checks on a reply, for the offer and for the acknowledgement: the address it gives and its options.\<close>

definition dhcp_reply :: "int \<Rightarrow> u8 list \<Rightarrow> (ip4 \<times> dhcp_options) option" where
  "dhcp_reply msg_type reply =
     (if length reply < 240 then None
      else if reply ! 0 \<noteq> 2 then None
      else if (push_bit 24 (ucast (reply ! 4)) OR push_bit 16 (ucast (reply ! 5)) OR push_bit 8 (ucast (reply ! 6)) OR ucast (reply ! 7) :: u32) \<noteq> dhcp_xid
      then None
      else let r = dhcp_parse_options (drop 240 reply) no_options
           in if do_type r \<noteq> msg_type then None else Some (take 4 (drop 16 reply), r))"

definition pick_ip :: "ip4 \<Rightarrow> ip4 \<Rightarrow> ip4" where
  "pick_ip new old = (if list_ex (\<lambda>b. b \<noteq> 0) new then new else old)"

definition net_dhcp_request :: "nat \<Rightarrow> 'n nic_ops \<Rightarrow> 'n net_st \<Rightarrow> (int \<times> 'n net_st) option" where
  "net_dhcp_request n N s =
     (case net_udp_send_broadcast N 68 67 (dhcp_build_discover dhcp_xid (nc_mac (net_cfg s))) s of
        (rc, s1) \<Rightarrow>
          if rc \<noteq> 0 then Some (-1, s1)
          else do {
            (reply, s2) \<leftarrow> udp_recv_wait n N 68 600 500 s1;
            (case dhcp_reply 2 reply of
               None \<Rightarrow> Some (-1, s2)
             | Some (offered_ip, offer) \<Rightarrow>
                 (case net_udp_send_broadcast N 68 67 (dhcp_build_request dhcp_xid (nc_mac (net_cfg s2)) (do_server offer) offered_ip) s2 of
                    (rc2, s3) \<Rightarrow>
                      if rc2 \<noteq> 0 then Some (-1, s3)
                      else do {
                        (reply2, s4) \<leftarrow> udp_recv_wait n N 68 600 500 s3;
                        Some (case dhcp_reply 5 reply2 of
                                None \<Rightarrow> (-1, s4)
                              | Some (ip, r) \<Rightarrow>
                                  let cfg = net_cfg s4
                                  in (0, s4\<lparr>net_cfg := cfg\<lparr>nc_ip := ip, nc_gateway := pick_ip (do_router r) (nc_gateway cfg),
                                       nc_netmask := pick_ip (do_subnet r) (nc_netmask cfg), nc_dns := pick_ip (do_dns r) (nc_dns cfg)\<rparr>\<rparr>)) })) })"

section \<open>DNS\<close>

text \<open>The labels of the name that are left, with \<open>pos\<close> bytes of the packet written.\<close>

function dns_labels :: "nat \<Rightarrow> nat \<Rightarrow> string \<Rightarrow> u8 list option" where
  "dns_labels buf_size pos name =
     (if name = [] then Some []
      else let lbl = takeWhile (\<lambda>c. c \<noteq> CHR ''.'') name; rest = drop (length lbl + 1) name in
        if lbl = [] \<or> length lbl > 63 then None
        else if pos + 1 + length lbl \<ge> buf_size then None
        else map_option (\<lambda>r. of_nat (length lbl) # map byte_of_char lbl @ r) (dns_labels buf_size (pos + 1 + length lbl) rest))"
  by pat_completeness auto
termination by (relation "measure (\<lambda>(b, p, name). length name)") auto

declare dns_labels.simps [simp del]

definition dns_build_query :: "nat \<Rightarrow> string \<Rightarrow> u16 \<Rightarrow> u8 list option" where
  "dns_build_query buf_size hostname txid =
     (if 12 + length hostname + 2 + 4 > buf_size then None
      else map_option (\<lambda>labels. [ucast (drop_bit 8 txid), ucast (txid AND 0xFF), 1, 0, 0, 1, 0, 0, 0, 0, 0, 0] @ labels @ [0, 0, 1, 0, 1])
             (dns_labels buf_size 12 hostname))"

text \<open>Reads of the response buffer: a function of the position, so that a read past the received length is one of
  what lies there.\<close>

definition dns_u16 :: "(nat \<Rightarrow> u8) \<Rightarrow> nat \<Rightarrow> u16" where
  "dns_u16 buf pos = push_bit 8 (ucast (buf pos)) OR ucast (buf (pos + 1))"

function dns_skip_name :: "(nat \<Rightarrow> u8) \<Rightarrow> nat \<Rightarrow> nat \<Rightarrow> nat" where
  "dns_skip_name buf len pos =
     (if pos < len then
        if buf pos = 0 then pos + 1
        else if buf pos AND 0xC0 = 0xC0 then pos + 2
        else dns_skip_name buf len (pos + 1 + unat (buf pos))
      else pos)"
  by pat_completeness auto
termination by (relation "measure (\<lambda>(b, len, pos). len - pos)") auto

declare dns_skip_name.simps [simp del]

fun dns_skip_questions :: "(nat \<Rightarrow> u8) \<Rightarrow> nat \<Rightarrow> nat \<Rightarrow> nat \<Rightarrow> nat" where
  "dns_skip_questions buf len 0 pos = pos"
| "dns_skip_questions buf len (Suc k) pos = dns_skip_questions buf len k (dns_skip_name buf len pos + 4)"

fun dns_answers :: "(nat \<Rightarrow> u8) \<Rightarrow> nat \<Rightarrow> nat \<Rightarrow> nat \<Rightarrow> ip4 option" where
  "dns_answers buf len 0 pos = None"
| "dns_answers buf len (Suc k) pos =
     (if pos \<ge> len then None
      else let p = dns_skip_name buf len pos in
        if p + 10 > len then None
        else let rdlen = unat (dns_u16 buf (p + 8)) in
          if dns_u16 buf p = 1 \<and> dns_u16 buf (p + 2) = 1 \<and> rdlen = 4 \<and> p + 10 + 4 \<le> len
          then Some (map (\<lambda>i. buf (p + 10 + i)) [0..<4])
          else dns_answers buf len k (p + 10 + rdlen))"

definition dns_parse_response :: "(nat \<Rightarrow> u8) \<Rightarrow> nat \<Rightarrow> u16 \<Rightarrow> ip4 option" where
  "dns_parse_response buf len txid =
     (if len < 12 then None
      else if dns_u16 buf 0 \<noteq> txid then None
      else if dns_u16 buf 2 AND 0x8000 = 0 then None
      else if dns_u16 buf 2 AND 0x000F \<noteq> 0 then None
      else dns_answers buf len (unat (dns_u16 buf 6)) (dns_skip_questions buf len (unat (dns_u16 buf 4)) 12))"

text \<open>The rest of the receive buffer, \<open>rest\<close>, is what an earlier call left there.\<close>

definition net_dns_resolve :: "nat \<Rightarrow> 'n nic_ops \<Rightarrow> (nat \<Rightarrow> u8) \<Rightarrow> string \<Rightarrow> 'n net_st \<Rightarrow> (ip4 option \<times> 'n net_st) option" where
  "net_dns_resolve n N rest hostname s =
     (case dns_build_query 512 hostname 0xDA01 of
        None \<Rightarrow> Some (None, s)
      | Some q \<Rightarrow> do {
          (rc, s1) \<leftarrow> net_udp_send n N (nc_dns (net_cfg s)) 1053 53 q s;
          if rc \<noteq> 0 then Some (None, s1)
          else do {
            (reply, s2) \<leftarrow> udp_recv_wait n N 1053 512 300 s1;
            Some (if reply = [] then None
                  else dns_parse_response (\<lambda>i. if i < length reply then reply ! i else rest i) (length reply) 0xDA01, s2) } })"

section \<open>TCP connections\<close>

definition net_tcp_connect :: "nat \<Rightarrow> 'n nic_ops \<Rightarrow> ip4 \<Rightarrow> u16 \<Rightarrow> 'n net_st \<Rightarrow> (int \<times> 'n net_st) option" where
  "net_tcp_connect n N dst_ip dst_port s =
     (case List.find (\<lambda>i. \<not> tc_active (tcp_conns s ! i)) [0..<NET_TCP_MAX_CONN] of
        None \<Rightarrow> Some (-1, s)
      | Some i \<Rightarrow>
          let port = tcp_next_port s; (t, s1) = ticks N (s\<lparr>tcp_next_port := (if port + 1 = 0 then 49152 else port + 1)\<rparr>);
              s2 = upd_conn i (\<lambda>_. \<lparr>tc_active = True, tc_state = TCP_SYN_SENT, tc_remote_ip = dst_ip, tc_local_port = port,
                     tc_remote_port = dst_port, tc_seq = 1000 + ucast t, tc_ack = 0, tc_rx = [], tc_rx_fin = False\<rparr>) s1
          in do {
            (rc, s3) \<leftarrow> tcp_send_segment n N (net_poll n N) i TCP_SYN [] s2;
            if rc \<noteq> 0 then Some (-1, upd_conn i (\<lambda>c. c\<lparr>tc_active := False\<rparr>) s3)
            else (case ticks N (upd_conn i (\<lambda>c. c\<lparr>tc_seq := tc_seq c + 1\<rparr>) s3) of
                    (t4, s4) \<Rightarrow> do {
                      (r, s5) \<leftarrow> wait_for n N (net_poll n N) (t4 + 500)
                        (\<lambda>s. if tc_state (tcp_conns s ! i) = TCP_ESTABLISHED then Some True
                             else if tc_state (tcp_conns s ! i) = TCP_CLOSED then Some False else None) s4;
                      Some (case r of
                              Some True \<Rightarrow> (int i, s5)
                            | Some False \<Rightarrow> (-1, upd_conn i (\<lambda>c. c\<lparr>tc_active := False\<rparr>) s5)
                            | None \<Rightarrow> (-1, upd_conn i (\<lambda>c. c\<lparr>tc_active := False, tc_state := TCP_CLOSED\<rparr>) s5)) }) })"

text \<open>The loop over chunks of at most 1400 bytes.\<close>

function tcp_send_chunks :: "nat \<Rightarrow> 'n nic_ops \<Rightarrow> nat \<Rightarrow> u8 list \<Rightarrow> 'n net_st \<Rightarrow> (int \<times> 'n net_st) option" where
  "tcp_send_chunks n N i data s =
     (if data = [] then Some (0, s)
      else let chunk = take 1400 data in do {
        (rc, s1) \<leftarrow> tcp_send_segment n N (net_poll n N) i (TCP_ACK OR TCP_PSH) chunk s;
        if rc \<noteq> 0 then Some (-1, s1)
        else (case ticks N (upd_conn i (\<lambda>c. c\<lparr>tc_seq := tc_seq c + of_nat (length chunk)\<rparr>) s1) of
                (t, s2) \<Rightarrow> do {
                  (r, s3) \<leftarrow> wait_for n N (net_poll n N) (t + 2) (\<lambda>_. None :: unit option) s2;
                  tcp_send_chunks n N i (drop 1400 data) s3 }) })"
  by pat_completeness auto
termination by (relation "measure (\<lambda>(n, N, i, data, s). length data)") auto

declare tcp_send_chunks.simps [simp del]

definition conn_index :: "int \<Rightarrow> nat option" where
  "conn_index conn = (if conn < 0 \<or> conn \<ge> int NET_TCP_MAX_CONN then None else Some (nat conn))"

definition net_tcp_send :: "nat \<Rightarrow> 'n nic_ops \<Rightarrow> int \<Rightarrow> u8 list \<Rightarrow> 'n net_st \<Rightarrow> (int \<times> 'n net_st) option" where
  "net_tcp_send n N conn data s =
     (case conn_index conn of
        None \<Rightarrow> Some (-1, s)
      | Some i \<Rightarrow>
          if \<not> tc_active (tcp_conns s ! i) \<or> tc_state (tcp_conns s ! i) \<noteq> TCP_ESTABLISHED then Some (-1, s)
          else tcp_send_chunks n N i data s)"

definition net_tcp_recv :: "nat \<Rightarrow> 'n nic_ops \<Rightarrow> int \<Rightarrow> nat \<Rightarrow> u64 \<Rightarrow> 'n net_st \<Rightarrow> ((int \<times> u8 list) \<times> 'n net_st) option" where
  "net_tcp_recv n N conn buf_size timeout_ticks s =
     (case conn_index conn of
        None \<Rightarrow> Some ((-1, []), s)
      | Some i \<Rightarrow>
          if \<not> tc_active (tcp_conns s ! i) then Some ((-1, []), s)
          else (case ticks N s of (t, s1) \<Rightarrow> do {
            (r, s2) \<leftarrow> wait_for n N (net_poll n N) (t + timeout_ticks)
              (\<lambda>s. let c = tcp_conns s ! i in
                if tc_rx c \<noteq> [] then Some (take (if length (tc_rx c) < buf_size then length (tc_rx c) else buf_size) (tc_rx c))
                else if tc_rx_fin c \<or> tc_state c = TCP_CLOSE_WAIT \<or> tc_state c = TCP_CLOSED then Some [] else None) s1;
            Some (case r of
                    None \<Rightarrow> ((-1, []), s2)
                  | Some bs \<Rightarrow> ((int (length bs), bs), upd_conn i (\<lambda>c. c\<lparr>tc_rx := drop (length bs) (tc_rx c)\<rparr>) s2)) }))"

text \<open>\<open>while (timer_ticks() < deadline && c->active) net_poll();\<close>\<close>

fun wait_inactive :: "nat \<Rightarrow> 'n nic_ops \<Rightarrow> u64 \<Rightarrow> nat \<Rightarrow> nat \<Rightarrow> 'n poller" where
  "wait_inactive 0 N deadline i n s = None"
| "wait_inactive (Suc k) N deadline i n s =
     (let (t, s1) = ticks N s in
      if t < deadline \<and> tc_active (tcp_conns s1 ! i) then net_poll n N s1 \<bind> wait_inactive k N deadline i n
      else Some s1)"

definition tcp_send_fin :: "nat \<Rightarrow> 'n nic_ops \<Rightarrow> nat \<Rightarrow> tcp_state \<Rightarrow> 'n poller" where
  "tcp_send_fin n N i st s = do {
     (rc, s1) \<leftarrow> tcp_send_segment n N (net_poll n N) i (TCP_FIN OR TCP_ACK) [] (upd_conn i (\<lambda>c. c\<lparr>tc_state := st\<rparr>) s);
     (case ticks N (upd_conn i (\<lambda>c. c\<lparr>tc_seq := tc_seq c + 1\<rparr>) s1) of (t, s2) \<Rightarrow> wait_inactive n N (t + 200) i n s2) }"

definition net_tcp_close :: "nat \<Rightarrow> 'n nic_ops \<Rightarrow> int \<Rightarrow> 'n poller" where
  "net_tcp_close n N conn s =
     (case conn_index conn of
        None \<Rightarrow> Some s
      | Some i \<Rightarrow>
          if \<not> tc_active (tcp_conns s ! i) then Some s
          else do {
            s1 \<leftarrow> (if tc_state (tcp_conns s ! i) = TCP_ESTABLISHED then tcp_send_fin n N i TCP_FIN_WAIT_1 s
                   else if tc_state (tcp_conns s ! i) = TCP_CLOSE_WAIT then tcp_send_fin n N i TCP_LAST_ACK s
                   else Some s);
            Some (upd_conn i (\<lambda>c. c\<lparr>tc_active := False, tc_state := TCP_CLOSED\<rparr>) s1) })"

end
