(* ===== verification/Net_Check.thy ===== *)
theory Net_Check
  imports Net_Calls
begin

text \<open>The checksums of \<open>src/kernel/net.c\<close>: a receiver that sums a header the kernel built finds it correct.\<close>

section \<open>One's complement sums\<close>

lemma carry_mod: "(n mod 65536 + n div 65536) mod 65535 = n mod (65535 :: nat)"
proof -
  have "n = (n mod 65536 + n div 65536) + n div 65536 * 65535" using div_mult_mod_eq [of n 65536] by linarith
  then show ?thesis by (metis mod_mult_self1)
qed

lemma fold_carries_spec:
  "unat (fold_carries v) < 65536 \<and> unat (fold_carries v) mod 65535 = unat v mod 65535 \<and> (fold_carries v = 0 \<longleftrightarrow> v = 0)"
proof (induction v rule: fold_carries.induct)
  case (1 v)
  show ?case
  proof (cases "drop_bit 16 v = 0")
    case True
    then have "unat v div 65536 = 0" by (metis carry_split(2) unat_0)
    then have "unat v < 65536" by (simp add: div_eq_0_iff)
    with True show ?thesis by (subst (1 2 3) fold_carries.simps) simp
  next
    case False
    let ?w = "(v AND 0xFFFF) + drop_bit 16 v"
    have f: "fold_carries v = fold_carries ?w" using False by (subst fold_carries.simps) simp
    have w: "unat ?w = unat v mod 65536 + unat v div 65536" by (rule unat_carries)
    have m: "unat ?w mod 65535 = unat v mod 65535" unfolding w by (rule carry_mod)
    have "unat v div 65536 \<noteq> 0" using False by (metis carry_split(2) unat_eq_zero)
    then have z: "?w \<noteq> 0" "v \<noteq> 0" using w False by (metis add_is_0 unat_0, auto)
    from 1 [OF False] m z show ?thesis unfolding f by metis
  qed
qed

lemma unat_not16: "unat (NOT w) = 65535 - unat (w :: u16)"
proof -
  have "unat (-1 - w) = unat (-1 :: u16) - unat w" by (rule unat_sub) simp
  moreover have "unat (-1 :: u16) = 65535" by (simp add: unsigned_minus_1_eq_mask mask_eq_exp_minus_1)
  moreover have "NOT w = -1 - w" by (simp only: not_eq_complement diff_conv_add_uminus add.commute)
  ultimately show ?thesis by (simp only:)
qed

text \<open>Adding the complement of the folded sum gives a sum that folds to all ones.\<close>

lemma complement_folds:
  assumes "unat v < 9223372036854775808"
  shows "fold_carries (v + ucast (NOT (ucast (fold_carries v) :: u16))) = 0xFFFF"
proof -
  note f = fold_carries_spec [of v]
  let ?c = "NOT (ucast (fold_carries v) :: u16)"
  have "unat (ucast (fold_carries v) :: u16) = unat (fold_carries v)" using f by (simp add: unsigned_ucast_eq take_bit_nat_eq_self)
  then have c: "unat (ucast ?c :: u64) = 65535 - unat (fold_carries v)"
    using unat_not16 [of "ucast (fold_carries v)"] by (simp add: unsigned_ucast_eq take_bit_nat_eq_self)
  have s: "unat (v + ucast ?c) = unat v + (65535 - unat (fold_carries v))"
    using assms c by (subst unat_add_lem [THEN iffD1]) simp_all
  let ?w = "v + ucast ?c"
  note g = fold_carries_spec [of ?w]
  have "(unat v + (65535 - unat (fold_carries v))) mod 65535 = 0"
  proof -
    have "unat (fold_carries v) \<le> 65535" using f by simp
    then have "(unat v + (65535 - unat (fold_carries v))) mod 65535 = (unat (fold_carries v) + (65535 - unat (fold_carries v))) mod 65535"
      using f by (metis mod_add_left_eq)
    also have "unat (fold_carries v) + (65535 - unat (fold_carries v)) = 65535" using \<open>unat (fold_carries v) \<le> 65535\<close> by simp
    finally show ?thesis by simp
  qed
  then have m: "unat (fold_carries ?w) mod 65535 = 0" using g s by metis
  have "unat v + (65535 - unat (fold_carries v)) \<noteq> 0"
  proof (cases "v = 0")
    case True
    then have "fold_carries v = 0" using f by blast
    then show ?thesis by simp
  next
    case False
    then show ?thesis by (metis add_is_0 unat_eq_zero)
  qed
  then have "?w \<noteq> 0" using s by (metis unat_0)
  then have "unat (fold_carries ?w) \<noteq> 0" using g by (metis unat_eq_zero)
  with m g have "unat (fold_carries ?w) = 65535" by (auto elim!: dvdE)
  then have "unat (fold_carries ?w) = unat (0xFFFF :: u64)" by simp
  then show ?thesis by (simp only: word_unat_eq_iff)
qed

section \<open>Sums of words\<close>

lemma length_store [simp]: "length (store16 w) = 2" "length (store32 v) = 4"
  by (simp_all add: store16_def store32_def)

lemma load_store16: "load16 (ucast w) (ucast (drop_bit 8 w)) = w"
proof (rule bit_eqI)
  fix n assume "possible_bit TYPE(16 word) n"
  then have "n < 16" by simp
  then show "bit (load16 (ucast w) (ucast (drop_bit 8 w))) n = bit w n"
    by (cases "n < 8") (auto simp: load16_def bit_or_iff bit_push_bit_iff bit_ucast_iff bit_drop_bit_eq)
qed

lemma htons_htons: "htons (htons w) = w"
proof (rule bit_eqI)
  fix n assume "possible_bit TYPE(16 word) n"
  then have "n < 16" by simp
  then show "bit (htons (htons w)) n = bit w n"
    by (cases "n < 8") (auto simp: htons_def bit_or_iff bit_push_bit_iff bit_drop_bit_eq dest: bit_imp_le_length)
qed

lemma sum_words_append: "even (length a) \<Longrightarrow> sum_words (a @ b) = sum_words a + sum_words b"
  by (induction a rule: sum_words.induct) (auto simp: add.assoc)

lemma sum_net_words_append: "even (length a) \<Longrightarrow> sum_net_words (a @ b) = sum_net_words a + sum_net_words b"
  by (induction a rule: sum_net_words.induct) (auto simp: add.assoc)

lemma sum_words_store16: "sum_words (store16 w) = ucast w" "sum_net_words (store16 w) = ucast (htons w)"
  by (simp_all add: store16_def load_store16)

text \<open>A sum of so many words cannot wrap.\<close>

lemma unat_add_small: "unat (a :: u64) + unat b < 18446744073709551616 \<Longrightarrow> unat (a + b) = unat a + unat b"
  by (subst unat_add_lem [THEN iffD1]) simp_all

lemma u16_small: "unat (ucast (w :: u16) :: u64) < 65536" "unat (ucast (b :: u8) :: u64) < 256"
  using unat_bounds(2) [of w] unat_bounds(1) [of b] by (simp_all add: unsigned_ucast_eq take_bit_nat_eq_self)

lemma sum_words_bound: "length bs \<le> 100000 \<Longrightarrow> unat (sum_words bs) \<le> 65536 * length bs"
proof (induction bs rule: sum_words.induct)
  case (1 a b bs)
  have "unat (sum_words bs) \<le> 65536 * length bs" using 1 by simp
  moreover have "unat (ucast (load16 a b) :: u64) < 65536" by (rule u16_small)
  ultimately show ?case using 1(2) unat_add_small [of "ucast (load16 a b)" "sum_words bs"] by simp
next
  case (2 a)
  then show ?case using u16_small(2) [of a] by simp
qed simp

lemma sum_net_words_bound: "length bs \<le> 100000 \<Longrightarrow> unat (sum_net_words bs) \<le> 65536 * length bs"
proof (induction bs rule: sum_net_words.induct)
  case (1 a b bs)
  have "unat (sum_net_words bs) \<le> 65536 * length bs" using 1 by simp
  moreover have "unat (ucast (htons (load16 a b)) :: u64) < 65536" by (rule u16_small)
  ultimately show ?case using 1(2) unat_add_small [of "ucast (htons (load16 a b))" "sum_net_words bs"] by simp
next
  case (2 a)
  have "unat (push_bit 8 (ucast a) :: u64) = 256 * unat (ucast a :: u64)"
  proof -
    have "push_bit 8 (ucast a :: u64) = 256 * ucast a" by (simp add: push_bit_eq_mult)
    moreover have "unat (256 * ucast a :: u64) = 256 * unat (ucast a :: u64)"
      using u16_small(2) [of a] by (subst unat_mult_lem [THEN iffD1]) simp_all
    ultimately show ?thesis by (simp only:)
  qed
  then show ?case using u16_small(2) [of a] by simp
qed simp

section \<open>Headers with their checksum\<close>

text \<open>A buffer with the checksum stored where a zero was when it was taken.\<close>

lemma checksum_verifies:
  assumes "even (length pre)" and "length pre + length post \<le> 90000"
  shows "ip_checksum (pre @ store16 (ip_checksum (pre @ [0, 0] @ post)) @ post) = 0"
proof -
  let ?z = "sum_words (pre @ [0, 0] @ post)"
  have z: "?z = sum_words pre + sum_words post"
    using assms(1) by (simp add: sum_words_append load16_def)
  let ?c = "NOT (ucast (fold_carries ?z) :: u16)"
  have "sum_words (pre @ store16 ?c @ post) = sum_words pre + (ucast ?c + sum_words post)"
  proof -
    have "sum_words (store16 ?c @ post) = sum_words (store16 ?c) + sum_words post" by (rule sum_words_append) (simp add: store16_def)
    then show ?thesis using assms(1) by (simp add: sum_words_append sum_words_store16)
  qed
  then have s: "sum_words (pre @ store16 ?c @ post) = ?z + ucast ?c" unfolding z by (simp add: add.assoc add.left_commute)
  have "unat ?z \<le> 65536 * length (pre @ [0, 0] @ post)" using assms(2) by (intro sum_words_bound) simp
  then have "unat ?z < 9223372036854775808" using assms(2) by simp
  from complement_folds [OF this] s show ?thesis unfolding ip_checksum_def by simp
qed

lemma ipv4_verifies: "length src = 4 \<Longrightarrow> length dst = 4 \<Longrightarrow> ip_checksum (ipv4_header len proto src dst) = 0"
  using checksum_verifies [of "[0x45, 0] @ store16 (htons (of_nat len)) @ [0, 0, 0, 0, 64, proto]" "src @ dst"]
  by (simp add: ipv4_header_def ipv4_fields_def store16_def)

lemma stored_at_2:
  assumes "blank = a # b # 0 # 0 # post" and "length post \<le> 80000"
  shows "ip_checksum (set_byte_list blank 2 (store16 (ip_checksum blank))) = 0"
  using checksum_verifies [of "[a, b]" post] assms by (simp add: set_byte_list_def store16_def)

lemma icmp_reply_verifies:
  assumes "4 \<le> length request" and "length request \<le> 1480"
  shows "ip_checksum (icmp_reply request) = 0"
proof -
  obtain a b c d post where r: "request = a # b # c # d # post" using assms(1)
    by (metis Suc_le_length_iff numeral_eq_Suc pred_numeral_simps(2,3) semiring_norm(26) semiring_norm(27) semiring_norm(28) eval_nat_numeral(2,3) One_nat_def)
  have "set_byte_list (set_byte_list request 0 [0]) 2 [0, 0] = 0 # b # 0 # 0 # post"
    by (simp add: r set_byte_list_def)
  from stored_at_2 [OF this] assms(2) show ?thesis unfolding icmp_reply_def Let_def by (simp add: r)
qed

lemma echo_request_verifies: "ip_checksum (echo_request seq) = 0"
  unfolding echo_request_def Let_def by (rule stored_at_2, simp add: store16_def, simp)

lemma tcp_segment_verifies:
  assumes "length data \<le> 1480"
  shows "tcp_checksum (nc_ip cfg) (tc_remote_ip c) (tcp_segment cfg c flags data) = 0"
proof -
  let ?pre = "store16 (htons (tc_local_port c)) @ store16 (htons (tc_remote_port c)) @ store32 (htonl (tc_seq c)) @ store32 (htonl (tc_ack c))
       @ [0x50, flags] @ store16 (htons (of_nat NET_TCP_BUF_SIZE))"
  let ?post = "[0, 0] @ data"
  have even: "even (length ?pre)" "length ?pre = 16" by simp_all
  have fields: "tcp_fields c flags k data = ?pre @ store16 k @ ?post" for k by (simp add: tcp_fields_def)
  define P where "P = pseudo_sum (nc_ip cfg) (tc_remote_ip c) (length data + 20)"
  have len: "length (tcp_fields c flags k data) = length data + 20" for k by (simp add: fields even(2) store16_def)
  have sum: "sum_net_words (tcp_fields c flags k data) = sum_net_words ?pre + (ucast (htons k) + sum_net_words ?post)" for k
  proof -
    have "sum_net_words (store16 k @ ?post) = sum_net_words (store16 k) + sum_net_words ?post"
      by (rule sum_net_words_append) (simp add: store16_def)
    then show ?thesis unfolding fields sum_net_words_append [OF even(1)] sum_words_store16 by (simp only:)
  qed
  define Z where "Z = P + sum_net_words (tcp_fields c flags 0 data)"
  have k: "tcp_checksum (nc_ip cfg) (tc_remote_ip c) (tcp_fields c flags 0 data) = htons (NOT (ucast (fold_carries Z)))"
    by (simp add: tcp_checksum_def len Z_def P_def)
  have "P + sum_net_words (tcp_segment cfg c flags data) = Z + ucast (NOT (ucast (fold_carries Z) :: u16))"
    unfolding tcp_segment_def k sum htons_htons Z_def by (simp add: htons_def)
  moreover have "unat Z < 9223372036854775808"
  proof -
    have h: "unat (ip_half ip i) < 65536" for ip i
    proof -
      have "ip_half ip i = ucast (load16 (ip ! (i + 1)) (ip ! i))"
        by (rule bit_word_eqI) (auto simp: ip_half_def load16_def bit_or_iff bit_push_bit_iff bit_ucast_iff dest: bit_imp_le_length)
      then show ?thesis using u16_small(1) by simp
    qed
    have "unat (sum_net_words (tcp_fields c flags 0 data)) \<le> 65536 * (length data + 20)"
      using sum_net_words_bound [of "tcp_fields c flags 0 data"] assms len by simp
    moreover have "unat P \<le> 500000"
    proof -
      note a = unat_add_small
      show ?thesis
        unfolding P_def pseudo_sum_def
        using h [of "nc_ip cfg" 0] h [of "nc_ip cfg" 2] h [of "tc_remote_ip c" 0] h [of "tc_remote_ip c" 2] u16_small(1) [of "of_nat (length data + 20)"]
        by (simp add: a)
    qed
    ultimately show ?thesis using assms unfolding Z_def by (subst unat_add_small) simp_all
  qed
  moreover have "length (tcp_segment cfg c flags data) = length data + 20" by (simp add: tcp_segment_def len)
  ultimately show ?thesis using complement_folds [of Z] by (simp add: tcp_checksum_def P_def htons_def)
qed



end
