(* ===== verification/Net_Dns.thy ===== *)
theory Net_Dns
  imports Net_Calls
begin

text \<open>The DNS resolver of \<open>src/kernel/net.c\<close>: the query it builds, and the reads of the response.\<close>

section \<open>The query\<close>

text \<open>The labels of a host name, and how a list of labels is laid out.\<close>

definition host_labels :: "string list \<Rightarrow> string \<Rightarrow> bool" where
  "host_labels ls name \<longleftrightarrow> (\<forall>l \<in> set ls. 1 \<le> length l \<and> length l \<le> 63 \<and> CHR ''.'' \<notin> set l) \<and>
     (\<exists>tail. (tail = [] \<or> tail = ''.'') \<and> concat (map (\<lambda>l. l @ ''.'') ls) = name @ tail \<and> (ls = [] \<longrightarrow> name = []))"

definition label_bytes :: "string list \<Rightarrow> u8 list" where
  "label_bytes ls = concat (map (\<lambda>l. of_nat (length l) # map byte_of_char l) ls)"

lemma dns_labels_spec:
  "dns_labels b pos name = Some bs \<Longrightarrow> \<exists>ls. host_labels ls name \<and> bs = label_bytes ls \<and> (bs = [] \<or> pos + length bs < b)"
proof (induction b pos name arbitrary: bs rule: dns_labels.induct)
  case (1 b pos name)
  show ?case
  proof (cases "name = []")
    case True
    with 1(2) have "bs = []" by (simp add: dns_labels.simps)
    with True show ?thesis by (intro exI [of _ "[]"]) (simp add: host_labels_def label_bytes_def)
  next
    case False
    let ?l = "takeWhile (\<lambda>c. c \<noteq> CHR ''.'') name" let ?rest = "drop (length ?l + 1) name"
    from 1(2) False have g: "?l \<noteq> []" "length ?l \<le> 63" "pos + 1 + length ?l < b"
      by (subst (asm) dns_labels.simps; simp add: Let_def split: if_splits)+
    from 1(2) False g obtain r where r: "dns_labels b (pos + 1 + length ?l) ?rest = Some r"
      and bs: "bs = of_nat (length ?l) # map byte_of_char ?l @ r"
      by (subst (asm) dns_labels.simps) (auto simp: Let_def)
    from 1(1) [OF False refl refl] g r obtain ls where ls: "host_labels ls ?rest" "r = label_bytes ls"
      "r = [] \<or> pos + 1 + length ?l + length r < b" by auto
    have dot: "CHR ''.'' \<notin> set ?l" by (auto dest: set_takeWhileD)
    obtain tail where tail: "tail = [] \<or> tail = ''.''" "concat (map (\<lambda>l. l @ ''.'') ls) = ?rest @ tail" "ls = [] \<longrightarrow> ?rest = []"
      "\<forall>l \<in> set ls. 1 \<le> length l \<and> length l \<le> 63 \<and> CHR ''.'' \<notin> set l"
      using ls(1) unfolding host_labels_def by blast
    obtain l where l: "l = ?l" by blast
    have fine: "1 \<le> length l \<and> length l \<le> 63 \<and> CHR ''.'' \<notin> set l" unfolding l using g dot by (simp add: Suc_le_eq)
    have "host_labels (l # ls) name"
    proof (cases "dropWhile (\<lambda>c. c \<noteq> CHR ''.'') name")
      case Nil
      with l have nm: "name = l" by (metis append_Nil2 takeWhile_dropWhile_id)
      then have "?rest = []" unfolding l [symmetric] by simp
      with tail(1,2) have "length (concat (map (\<lambda>l. l @ ''.'') ls)) \<le> 1" by auto
      then have "ls = []" using tail(4) by (cases ls) (simp, fastforce)
      then have "concat (map (\<lambda>l. l @ ''.'') (l # ls)) = name @ ''.''" using nm by simp
      then show ?thesis unfolding host_labels_def using tail(4) fine by (intro conjI exI [of _ "''.''"]) auto
    next
      case (Cons d ds)
      have d: "d = CHR ''.''" using dropWhile_eq_Cons_conv [THEN iffD1, OF Cons] by blast
      have nm: "name = l @ d # ds" unfolding l using Cons by (metis takeWhile_dropWhile_id)
      have rest: "drop (length l + 1) name = ds" unfolding nm by simp
      have "concat (map (\<lambda>l. l @ ''.'') (l # ls)) = (l @ ''.'') @ ds @ tail"
        using tail(2) [folded l, unfolded rest] by (simp only: list.map concat.simps)
      then have "concat (map (\<lambda>l. l @ ''.'') (l # ls)) = name @ tail" unfolding nm d by (simp only: append.assoc append_Cons append_Nil)
      then show ?thesis unfolding host_labels_def using tail(1,4) fine by (intro conjI exI [of _ tail]) auto
    qed
    then show ?thesis using ls(2,3) bs g l by (intro exI [of _ "l # ls"]) (auto simp: label_bytes_def)
  qed
qed

lemma label_bytes_length: "length (label_bytes ls) = length (concat (map (\<lambda>l. l @ ''.'') ls))"
  by (induction ls) (simp_all add: label_bytes_def)

lemma small_byte: "n \<le> 63 \<Longrightarrow> 1 \<le> n \<Longrightarrow> (of_nat n :: u8) \<noteq> 0 \<and> (of_nat n :: u8) AND 0xC0 \<noteq> 0xC0 \<and> unat (of_nat n :: u8) = n"
proof -
  assume n: "n \<le> 63" "1 \<le> n"
  have u: "unat (of_nat n :: u8) = n" using n by (simp add: unat_of_nat)
  have "(of_nat n :: u8) AND 0xC0 \<noteq> 0xC0"
  proof
    assume "(of_nat n :: u8) AND 0xC0 = 0xC0"
    then have "bit ((of_nat n :: u8) AND 0xC0) 7" by simp
    then have "bit (of_nat n :: u8) 7" by (simp only: bit_and_iff)
    then have "odd (unat (of_nat n :: u8) div 2 ^ 7)" by (simp only: bit_unsigned_iff [symmetric] bit_iff_odd [symmetric]) (simp add: bit_unsigned_iff)
    with u n show False by simp
  qed
  moreover have "(of_nat n :: u8) \<noteq> 0" using u n by (metis not_one_le_zero unat_0)
  ultimately show ?thesis using u by blast
qed

text \<open>Skipping the name of a packet that holds these labels stops behind them.\<close>

lemma skip_labels:
  assumes "\<forall>l \<in> set ls. 1 \<le> length l \<and> length l \<le> 63"
    and "\<forall>i < length (label_bytes ls) + 1. buf (p + i) = (label_bytes ls @ [0]) ! i" and "p + length (label_bytes ls) < len"
  shows "dns_skip_name buf len p = p + length (label_bytes ls) + 1"
  using assms
proof (induction ls arbitrary: p)
  case Nil
  then show ?case by (subst dns_skip_name.simps) (simp add: label_bytes_def)
next
  case (Cons l ls)
  let ?n = "length l"
  have lb: "label_bytes (l # ls) = of_nat ?n # map byte_of_char l @ label_bytes ls" by (simp add: label_bytes_def)
  have n: "1 \<le> ?n" "?n \<le> 63" using Cons(2) by simp_all
  have b0: "buf p = of_nat ?n" using Cons(3) [rule_format, of 0] by (simp add: lb)
  have rest: "\<forall>i < length (label_bytes ls) + 1. buf (p + 1 + ?n + i) = (label_bytes ls @ [0]) ! i"
  proof (intro allI impI)
    fix i assume "i < length (label_bytes ls) + 1"
    then have "1 + ?n + i < length (label_bytes (l # ls)) + 1" by (simp add: lb)
    from Cons(3) [rule_format, OF this] show "buf (p + 1 + ?n + i) = (label_bytes ls @ [0]) ! i" by (simp add: lb nth_append add.assoc)
  qed
  have "p + 1 + ?n + length (label_bytes ls) < len" using Cons(4) by (simp add: lb)
  from Cons(1) [OF _ rest this] Cons(2)
  have "dns_skip_name buf len (p + 1 + ?n) = p + 1 + ?n + length (label_bytes ls) + 1" by simp
  moreover have "dns_skip_name buf len p = dns_skip_name buf len (p + 1 + ?n)"
    using Cons(4) small_byte [OF n(2,1)] by (subst dns_skip_name.simps) (simp add: b0)
  ultimately show ?case by (simp add: lb)
qed

lemma dns_build_query_inv:
  assumes "dns_build_query b name txid = Some q"
  shows "\<exists>ls. host_labels ls name \<and> length q \<le> b \<and>
    q = [ucast (drop_bit 8 txid), ucast (txid AND 0xFF), 1, 0, 0, 1, 0, 0, 0, 0, 0, 0] @ label_bytes ls @ [0, 0, 1, 0, 1]"
proof -
  from assms obtain bs where bs: "dns_labels b 12 name = Some bs" "12 + length name + 2 + 4 \<le> b"
    and q: "q = [ucast (drop_bit 8 txid), ucast (txid AND 0xFF), 1, 0, 0, 1, 0, 0, 0, 0, 0, 0] @ bs @ [0, 0, 1, 0, 1]"
    by (auto simp: dns_build_query_def split: if_splits)
  from dns_labels_spec [OF bs(1)] obtain ls where ls: "host_labels ls name" "bs = label_bytes ls" by blast
  from ls(1) obtain tl where "tl = [] \<or> tl = ''.''" "concat (map (\<lambda>l. l @ ''.'') ls) = name @ tl" unfolding host_labels_def by blast
  then have "length (label_bytes ls) \<le> length name + 1" unfolding label_bytes_length by auto
  with bs(2) q ls(2) have "length q \<le> b" by simp
  with ls q show ?thesis by blast
qed

text \<open>C34: the query \<open>dns_build_query\<close> makes of a host name is the 12-byte header with the identifier, then each label of the
  name behind its length, all of 1 to 63 characters without a dot, then the end of the name and the type and class; it
  fits the buffer; and the response parser, skipping that name, stops exactly at the type.\<close>

theorem dns_query_layout:
  assumes "dns_build_query b name txid = Some q"
  shows "\<exists>ls. host_labels ls name \<and> length q \<le> b \<and>
    q = [ucast (drop_bit 8 txid), ucast (txid AND 0xFF), 1, 0, 0, 1, 0, 0, 0, 0, 0, 0] @ label_bytes ls @ [0, 0, 1, 0, 1] \<and>
    dns_skip_name (\<lambda>i. q ! i) (length q) 12 + 4 = length q"
proof -
  obtain ls where ls: "host_labels ls name" "length q \<le> b"
    "q = [ucast (drop_bit 8 txid), ucast (txid AND 0xFF), 1, 0, 0, 1, 0, 0, 0, 0, 0, 0] @ label_bytes ls @ [0, 0, 1, 0, 1]"
    using dns_build_query_inv [OF assms] by blast
  have "q ! (12 + i) = (label_bytes ls @ [0]) ! i" if "i < length (label_bytes ls) + 1" for i
    using that unfolding ls(3) by (simp add: nth_append)
  with skip_labels [of ls "\<lambda>i. q ! i" 12 "length q"] ls(1)
  have "dns_skip_name (\<lambda>i. q ! i) (length q) 12 = 12 + length (label_bytes ls) + 1"
    unfolding host_labels_def by (simp add: ls(3))
  with ls show ?thesis by (intro exI [of _ ls]) simp
qed

theorem dns_query_layout_witness:
  "\<exists>q. dns_build_query 512 ''ab.c'' 0xDA01 = Some q \<and> dns_skip_name (\<lambda>i. q ! i) (length q) 12 + 4 = length q"
proof -
  have "\<exists>q. dns_build_query 512 ''ab.c'' 0xDA01 = Some q" by (simp add: dns_build_query_def dns_labels.simps)
  with dns_query_layout [of 512 "''ab.c''" "0xDA01"] show ?thesis by blast
qed

section \<open>The response\<close>

lemma skip_name_cong:
  "(\<And>i. i < len \<Longrightarrow> buf i = buf' i) \<Longrightarrow> dns_skip_name buf len p = dns_skip_name buf' len p"
proof (induction buf len p rule: dns_skip_name.induct)
  case (1 buf len p)
  then show ?case by (subst (1 2) dns_skip_name.simps) simp
qed

lemma skip_questions_cong:
  "(\<And>i. i < len \<Longrightarrow> buf i = buf' i) \<Longrightarrow> dns_skip_questions buf len k p = dns_skip_questions buf' len k p"
  using skip_name_cong [of len buf buf'] by (induction k arbitrary: p) simp_all

lemma dns_answers_cong:
  assumes "\<And>i. i < len \<Longrightarrow> buf i = buf' i"
  shows "dns_answers buf len k p = dns_answers buf' len k p"
proof (induction k arbitrary: p)
  case (Suc k)
  have s: "dns_skip_name buf' len p = dns_skip_name buf len p" using skip_name_cong [of len buf buf'] assms by simp
  let ?p = "dns_skip_name buf len p"
  show ?case
  proof (cases "p < len \<and> ?p + 10 \<le> len")
    case True
    then have w: "dns_u16 buf' (?p + j) = dns_u16 buf (?p + j)" if "j \<le> 8" for j using assms that by (simp add: dns_u16_def)
    have d: "map (\<lambda>i. buf' (?p + 10 + i)) [0..<4] = map (\<lambda>i. buf (?p + 10 + i)) [0..<4]" if "?p + 10 + 4 \<le> len" using assms that by simp
    show ?thesis using True Suc w [of 0] w [of 2] w [of 8] d by (simp add: s Let_def)
  next
    case False
    then show ?thesis by (cases "len \<le> p") (simp_all add: s Let_def)
  qed
qed simp

text \<open>C35: \<open>dns_parse_response\<close> reads nothing behind the bytes received: two buffers that agree up to \<open>len\<close> give the same answer,
  however the names, counts and lengths inside point past the end.\<close>

theorem dns_parse_in_bounds:
  assumes "\<And>i. i < len \<Longrightarrow> buf i = buf' i"
  shows "dns_parse_response buf len txid = dns_parse_response buf' len txid"
proof (cases "len < 12")
  case False
  then have "dns_u16 buf j = dns_u16 buf' j" if "j \<le> 6" for j using assms that by (simp add: dns_u16_def)
  then show ?thesis
    using skip_questions_cong [of len buf buf'] dns_answers_cong [of len buf buf'] assms by (simp add: dns_parse_response_def)
qed (simp add: dns_parse_response_def)

theorem dns_parse_in_bounds_witness:
  "dns_parse_response (\<lambda>i. if i < 12 then 0x80 else 0) 12 0x8080 = dns_parse_response (\<lambda>i. if i < 12 then 0x80 else 0xC0) 12 0x8080"
  by (rule dns_parse_in_bounds) simp

end
