(* ===== verification/Net_Poll.thy ===== *)
theory Net_Poll
  imports Net_Calls
begin

text \<open>
  Polling: the steps a TCP connection can take while frames are handled, and the bound on the nesting of
  \<open>net_poll\<close> through its handlers.
\<close>

section \<open>Connections as state machines\<close>

text \<open>What one received segment can do to a connection. The last step is the answer to a FIN: the acknowledgement of the data
  before it may itself have polled, so the state it comes from is not the one the segment found.\<close>

inductive conn_step :: "tcp_conn \<Rightarrow> tcp_conn \<Rightarrow> bool" where
  closed: "conn_step c (c\<lparr>tc_active := False, tc_state := TCP_CLOSED\<rparr>)"
| opened: "tc_active c \<Longrightarrow> tc_state c = TCP_SYN_SENT \<Longrightarrow> conn_step c (c\<lparr>tc_ack := a, tc_seq := q, tc_state := TCP_ESTABLISHED\<rparr>)"
| data: "tc_active c \<Longrightarrow> tc_state c = TCP_ESTABLISHED \<Longrightarrow> seq = tc_ack c \<Longrightarrow>
    conn_step c (c\<lparr>tc_rx := tc_rx c @ take (NET_TCP_BUF_SIZE - length (tc_rx c)) bs, tc_ack := seq + of_nat (length bs)\<rparr>)"
| fin_1: "tc_active c \<Longrightarrow> tc_state c = TCP_FIN_WAIT_1 \<Longrightarrow> conn_step c (c\<lparr>tc_seq := q, tc_ack := a, tc_state := TCP_TIME_WAIT\<rparr>)"
| fin_2: "tc_active c \<Longrightarrow> tc_state c = TCP_FIN_WAIT_1 \<Longrightarrow> conn_step c (c\<lparr>tc_seq := q, tc_state := TCP_FIN_WAIT_2\<rparr>)"
| fin_3: "tc_active c \<Longrightarrow> tc_state c = TCP_FIN_WAIT_2 \<Longrightarrow> conn_step c (c\<lparr>tc_ack := a\<rparr>)"
| fin: "conn_step c (c\<lparr>tc_ack := a, tc_rx_fin := True, tc_state := TCP_CLOSE_WAIT\<rparr>)"

inductive_cases conn_stepE: "conn_step c c'"

abbreviation conn_steps :: "tcp_conn \<Rightarrow> tcp_conn \<Rightarrow> bool" where
  "conn_steps \<equiv> conn_step\<^sup>*\<^sup>*"

definition conns_run :: "'n net_st \<Rightarrow> 'n net_st \<Rightarrow> bool" where
  "conns_run s s' \<longleftrightarrow> length (tcp_conns s') = length (tcp_conns s) \<and>
     (\<forall>i < length (tcp_conns s). conn_steps (tcp_conns s ! i) (tcp_conns s' ! i))"

lemma conns_run_refl [simp, intro]: "conns_run s s"
  by (simp add: conns_run_def)

lemma conns_run_trans: "conns_run a b \<Longrightarrow> conns_run b c \<Longrightarrow> conns_run a c"
  unfolding conns_run_def by (metis rtranclp_trans)

lemma conns_run_same: "tcp_conns s' = tcp_conns s \<Longrightarrow> conns_run s s'"
  by (simp add: conns_run_def)

lemma conns_run_upd: "conn_step (tcp_conns s ! i) (f (tcp_conns s ! i)) \<Longrightarrow> conns_run s (upd_conn i f s)"
  by (cases "i < length (tcp_conns s)") (auto simp: conns_run_def upd_conn_def nth_list_update)

text \<open>A poller that runs connections.\<close>

definition runs_conns :: "'n poller \<Rightarrow> bool" where
  "runs_conns p \<longleftrightarrow> (\<forall>s s'. p s = Some s' \<longrightarrow> conns_run s s')"

lemma runs_connsD: "runs_conns p \<Longrightarrow> p s = Some s' \<Longrightarrow> conns_run s s'"
  by (simp add: runs_conns_def)

named_theorems conns_same

lemma conns_same_simple [conns_same]:
  "tcp_conns (snd (ticks N s)) = tcp_conns s" "tcp_conns (snd (send_eth N m e p s)) = tcp_conns s"
  "tcp_conns (arp_cache_put ip mac s) = tcp_conns s" "tcp_conns (net_log x s) = tcp_conns s"
  "tcp_conns (handle_udp off len ip s) = tcp_conns s" "tcp_conns (store_frame f s) = tcp_conns s"
  by (simp_all add: ticks_def send_eth_def arp_cache_put_def net_log_def handle_udp_def store_frame_def Let_def
    split: prod.split option.split)

lemma conns_same_handlers [conns_same]:
  "tcp_conns (arp_request N ip s) = tcp_conns s" "tcp_conns (arp_reply N mac ip s) = tcp_conns s"
  "tcp_conns (handle_arp N off len s) = tcp_conns s" "tcp_conns (handle_icmp N off len ip s) = tcp_conns s"
  by (simp_all add: arp_request_def arp_reply_def handle_arp_def handle_icmp_def Let_def conns_same split: prod.split option.split)

lemma wait_for_runs:
  assumes p: "runs_conns p"
  shows "wait_for n N p d found s = Some (r, s') \<Longrightarrow> conns_run s s'"
proof (induction n arbitrary: s)
  case (Suc n)
  obtain t s1 where t: "ticks N s = (t, s1)" by fastforce
  then have s1: "conns_run s s1" by (metis conns_run_same conns_same_simple(1) snd_conv)
  show ?case
  proof (cases "t < d")
    case True
    with Suc(2) t obtain s2 where s2: "p s1 = Some s2"
      and r: "(case found s2 of Some r \<Rightarrow> Some (Some r, s2) | None \<Rightarrow> wait_for n N p d found s2) = Some (r, s')"
      by (auto simp: bind_eq_Some_conv)
    have "conns_run s s2" using s1 runs_connsD [OF p s2] by (rule conns_run_trans)
    moreover have "conns_run s2 s'" using r Suc(1) by (cases "found s2") auto
    ultimately show ?thesis by (rule conns_run_trans)
  qed (use Suc(2) t s1 in auto)
qed simp

lemma resolve_mac_runs:
  assumes "runs_conns p" and "resolve_mac n N p ip s = Some (r, s')"
  shows "conns_run s s'"
proof -
  let ?t = "if same_subnet ip s then ip else nc_gateway (net_cfg s)"
  show ?thesis
  proof (cases "arp_lookup ?t s")
    case None
    obtain t s1 where t: "ticks N (arp_request N ?t s) = (t, s1)" by fastforce
    then have "conns_run s s1" by (metis conns_run_same conns_same_simple(1) conns_same_handlers(1) snd_conv)
    moreover have "conns_run s1 s'" using assms None t wait_for_runs [OF assms(1)] by (simp add: resolve_mac_def Let_def)
    ultimately show ?thesis by (rule conns_run_trans)
  qed (use assms(2) in \<open>simp add: resolve_mac_def Let_def\<close>)
qed

lemma tcp_send_runs:
  assumes "runs_conns p" and "tcp_send_segment n N p i flags data s = Some (r, s')"
  shows "conns_run s s'"
proof (cases "20 + length data + 20 > 1500")
  case False
  with assms(2) obtain mac s1 where r: "resolve_mac n N p (tc_remote_ip (tcp_conns s ! i)) s = Some (mac, s1)"
    and s': "tcp_conns s' = tcp_conns s1"
    by (auto simp: tcp_send_segment_def Let_def bind_eq_Some_conv conns_same split: option.splits dest!: sym [of "send_eth _ _ _ _ _"])
      (metis conns_same_simple(2) snd_conv)
  from resolve_mac_runs [OF assms(1) r] s' show ?thesis by (simp add: conns_run_def)
qed (use assms(2) in \<open>simp add: tcp_send_segment_def\<close>)

lemma send_ack_runs: "runs_conns p \<Longrightarrow> runs_conns (send_ack n N p i)"
  unfolding runs_conns_def [of "send_ack n N p i"] using tcp_send_runs by (auto simp: send_ack_def)

text \<open>A connection updated, then a poller; and the reverse.\<close>

lemma upd_then_run:
  assumes "runs_conns p" and "p (upd_conn i f s) = Some s'" and "conn_step (tcp_conns s ! i) (f (tcp_conns s ! i))"
  shows "conns_run s s'"
proof -
  have "conns_run s (upd_conn i f s)" using assms(3) by (rule conns_run_upd)
  with runs_connsD [OF assms(1,2)] show ?thesis by (blast intro: conns_run_trans)
qed

lemma run_then_close:
  assumes "conns_run s s1"
  shows "conns_run s (upd_conn i (\<lambda>c. c\<lparr>tc_active := False, tc_state := TCP_CLOSED\<rparr>) s1)"
  using assms by (rule conns_run_trans) (rule conns_run_upd, rule conn_step.closed)

lemma tcp_take_data_runs:
  assumes p: "runs_conns ack" and a: "tc_active (tcp_conns s ! i)" "tc_state (tcp_conns s ! i) = TCP_ESTABLISHED"
    and r: "tcp_take_data ack i seq bs s = Some s'"
  shows "conns_run s s'"
proof (cases "bs \<noteq> [] \<and> seq = tc_ack (tcp_conns s ! i)")
  case True
  let ?c = "tcp_conns s ! i"
  have t: "take (if length bs < 4096 - length (tc_rx ?c) then length bs else 4096 - length (tc_rx ?c)) bs = take (4096 - length (tc_rx ?c)) bs"
    by simp
  let ?f = "\<lambda>c. c\<lparr>tc_rx := tc_rx c @ take (if length bs < 4096 - length (tc_rx ?c) then length bs else 4096 - length (tc_rx ?c)) bs,
    tc_ack := seq + of_nat (length bs)\<rparr>"
  have "conn_step ?c (?f ?c)" unfolding t by (rule conn_step.data) (use a True in simp_all)
  moreover have "ack (upd_conn i ?f s) = Some s'" using r True by (simp add: tcp_take_data_def Let_def)
  ultimately show ?thesis using upd_then_run [OF p, of i ?f s s'] by blast
qed (use r in \<open>auto simp: tcp_take_data_def\<close>)

lemma tcp_step_runs:
  assumes p: "runs_conns ack" and a: "tc_active (tcp_conns s ! i)" and r: "tcp_step ack i flags seq ackn bs s = Some s'"
  shows "conns_run s s'"
proof (cases "tc_state (tcp_conns s ! i)")
  case TCP_SYN_SENT
  with r have "s' = s \<or> ack (upd_conn i (\<lambda>c. c\<lparr>tc_ack := seq + 1, tc_seq := ackn, tc_state := TCP_ESTABLISHED\<rparr>) s) = Some s'"
    by (auto simp: tcp_step_def split: if_splits)
  then show ?thesis
  proof
    assume "ack (upd_conn i (\<lambda>c. c\<lparr>tc_ack := seq + 1, tc_seq := ackn, tc_state := TCP_ESTABLISHED\<rparr>) s) = Some s'"
    then show ?thesis by (rule upd_then_run [OF p]) (rule conn_step.opened [OF a TCP_SYN_SENT])
  qed simp
next
  case TCP_ESTABLISHED
  with r obtain s1 where s1: "tcp_take_data ack i seq bs s = Some s1"
    and s': "s' = s1 \<or> ack (upd_conn i (\<lambda>c. c\<lparr>tc_ack := (if bs = [] then seq + 1 else tc_ack c), tc_rx_fin := True,
      tc_state := TCP_CLOSE_WAIT\<rparr>) s1) = Some s'"
    by (auto simp: tcp_step_def tcp_established_def bind_eq_Some_conv split: if_splits)
  note r1 = tcp_take_data_runs [OF p a TCP_ESTABLISHED s1]
  from s' have "conns_run s1 s'"
  proof
    assume "ack (upd_conn i (\<lambda>c. c\<lparr>tc_ack := (if bs = [] then seq + 1 else tc_ack c), tc_rx_fin := True, tc_state := TCP_CLOSE_WAIT\<rparr>) s1) = Some s'"
    then show ?thesis by (rule upd_then_run [OF p]) (rule conn_step.fin)
  qed simp
  with r1 show ?thesis by (rule conns_run_trans)
next
  case TCP_FIN_WAIT_1
  show ?thesis
  proof (cases "flags AND TCP_ACK = 0")
    case False
    show ?thesis
    proof (cases "flags AND TCP_FIN = 0")
      case True
      with False r TCP_FIN_WAIT_1 have "s' = upd_conn i (\<lambda>c. c\<lparr>tc_seq := ackn, tc_state := TCP_FIN_WAIT_2\<rparr>) s"
        by (simp add: tcp_step_def tcp_fin_wait_1_def)
      then show ?thesis by (simp only:) (rule conns_run_upd, rule conn_step.fin_2 [OF a TCP_FIN_WAIT_1])
    next
      case fin: False
      with False r TCP_FIN_WAIT_1 obtain s1 where
        s1: "ack (upd_conn i (\<lambda>c. c\<lparr>tc_seq := ackn, tc_ack := seq + 1, tc_state := TCP_TIME_WAIT\<rparr>) s) = Some s1"
        "s' = upd_conn i (\<lambda>c. c\<lparr>tc_active := False, tc_state := TCP_CLOSED\<rparr>) s1"
        by (auto simp: tcp_step_def tcp_fin_wait_1_def)
      from s1(1) have "conns_run s s1" by (rule upd_then_run [OF p]) (rule conn_step.fin_1 [OF a TCP_FIN_WAIT_1])
      then show ?thesis unfolding s1(2) by (rule run_then_close)
    qed
  qed (use r TCP_FIN_WAIT_1 in \<open>simp add: tcp_step_def tcp_fin_wait_1_def\<close>)
next
  case TCP_FIN_WAIT_2
  show ?thesis
  proof (cases "flags AND TCP_FIN = 0")
    case False
    with r TCP_FIN_WAIT_2 obtain s1 where s1: "ack (upd_conn i (\<lambda>c. c\<lparr>tc_ack := seq + 1\<rparr>) s) = Some s1"
      "s' = upd_conn i (\<lambda>c. c\<lparr>tc_active := False, tc_state := TCP_CLOSED\<rparr>) s1" by (auto simp: tcp_step_def)
    from s1(1) have "conns_run s s1" by (rule upd_then_run [OF p]) (rule conn_step.fin_3 [OF a TCP_FIN_WAIT_2])
    then show ?thesis unfolding s1(2) by (rule run_then_close)
  qed (use r TCP_FIN_WAIT_2 in \<open>simp add: tcp_step_def\<close>)
next
  case TCP_LAST_ACK
  with r show ?thesis using run_then_close [OF conns_run_refl] by (auto simp: tcp_step_def)
qed (use r in \<open>simp_all add: tcp_step_def\<close>)

lemma handle_tcp_runs:
  assumes p: "\<And>i. runs_conns (ack i)" and r: "handle_tcp ack off len ip s = Some s'"
  shows "conns_run s s'"
proof (cases "s' = s")
  case False
  with r obtain dp sp i flags seq ackn bs where i: "tcp_find dp sp ip s = Some i"
    and s': "s' = upd_conn i (\<lambda>c. c\<lparr>tc_active := False, tc_state := TCP_CLOSED\<rparr>) s \<or> tcp_step (ack i) i flags seq ackn bs s = Some s'"
    unfolding handle_tcp_def Let_def by (simp split: if_splits option.splits; blast)
  from i have "tc_active (tcp_conns s ! i)" by (auto simp: tcp_find_def find_Some_iff Let_def)
  with s' tcp_step_runs [OF p] run_then_close [OF conns_run_refl] show ?thesis by blast
qed simp

lemma handle_frame_runs:
  assumes p: "\<And>i. runs_conns (ack i)" and r: "handle_frame N ack len s = Some s'"
  shows "conns_run s s'"
proof -
  from r consider "tcp_conns s' = tcp_conns s" | off k ip where "handle_tcp ack off k ip s = Some s'"
    unfolding handle_frame_def handle_ipv4_def by (auto simp: Let_def conns_same split: if_splits)
  then show ?thesis using handle_tcp_runs [OF p] conns_run_same by cases blast+
qed

lemma poll_frames_runs:
  assumes p: "\<And>i. runs_conns (ack i)"
  shows "poll_frames N ack k s = Some s' \<Longrightarrow> conns_run s s'"
proof (induction k arbitrary: s)
  case (Suc k)
  obtain rc frame e where pl: "no_poll N 2048 (nic s) = ((rc, frame), e)" by (metis prod.collapse)
  show ?case
  proof (cases "rc \<le> 0")
    case True
    with Suc(2) pl show ?thesis by (auto intro: conns_run_same)
  next
    case False
    with Suc(2) pl obtain s1 where s1: "handle_frame N ack (length frame) (store_frame frame (s\<lparr>nic := e\<rparr>)) = Some s1"
      "poll_frames N ack k s1 = Some s'" by (auto simp: bind_eq_Some_conv)
    have "conns_run (store_frame frame (s\<lparr>nic := e\<rparr>)) s1" by (rule handle_frame_runs [OF p s1(1)])
    then have "conns_run s s1" by (simp add: conns_run_def store_frame_def)
    with Suc(1) [OF s1(2)] show ?thesis by (blast intro: conns_run_trans)
  qed
qed simp

lemma net_poll_runs: "runs_conns (net_poll n N)"
proof (induction n)
  case (Suc n)
  then show ?case using poll_frames_runs send_ack_runs unfolding runs_conns_def [of "net_poll (Suc n) N"] by (metis net_poll.simps(2))
qed (simp add: runs_conns_def)

section \<open>What a run keeps\<close>

definition conn_keeps :: "tcp_conn \<Rightarrow> tcp_conn \<Rightarrow> bool" where
  "conn_keeps c c' \<longleftrightarrow> (tc_active c' \<longrightarrow> tc_active c) \<and> tc_remote_ip c' = tc_remote_ip c \<and> tc_local_port c' = tc_local_port c \<and>
     tc_remote_port c' = tc_remote_port c \<and> (\<exists>bs. tc_rx c' = tc_rx c @ bs) \<and>
     (length (tc_rx c) \<le> NET_TCP_BUF_SIZE \<longrightarrow> length (tc_rx c') \<le> NET_TCP_BUF_SIZE) \<and>
     (tc_state c' = TCP_ESTABLISHED \<longrightarrow> tc_state c = TCP_SYN_SENT \<or> tc_state c = TCP_ESTABLISHED) \<and>
     (tc_state c' \<in> {TCP_SYN_SENT, TCP_FIN_WAIT_1, TCP_LAST_ACK} \<longrightarrow> tc_state c' = tc_state c) \<and>
     (tc_rx c' \<noteq> tc_rx c \<longrightarrow> tc_state c = TCP_SYN_SENT \<or> tc_state c = TCP_ESTABLISHED)"

lemma conn_step_keeps: "conn_step c c' \<Longrightarrow> conn_keeps c c'"
  by (erule conn_stepE) (auto simp: conn_keeps_def)

lemma conn_keeps_trans: "conn_keeps a b \<Longrightarrow> conn_keeps b c \<Longrightarrow> conn_keeps a c"
  unfolding conn_keeps_def by (elim conjE exE, intro conjI; metis append_assoc insertCI)

lemma conn_steps_keeps: "conn_steps c c' \<Longrightarrow> conn_keeps c c'"
  by (induction rule: rtranclp_induct) (auto simp: conn_keeps_def [of c c] intro: conn_keeps_trans conn_step_keeps)


section \<open>The bound on waiting\<close>

definition more_defined :: "'n poller \<Rightarrow> 'n poller \<Rightarrow> bool" where
  "more_defined p q \<longleftrightarrow> (\<forall>s s'. p s = Some s' \<longrightarrow> q s = Some s')"

lemma more_definedD: "more_defined p q \<Longrightarrow> p s = Some s' \<Longrightarrow> q s = Some s'"
  by (simp add: more_defined_def)

lemma wait_for_mono:
  assumes pq: "more_defined p q"
  shows "wait_for n N p d found s = Some r \<Longrightarrow> n \<le> m \<Longrightarrow> wait_for m N q d found s = Some r"
proof (induction n arbitrary: m s)
  case (Suc n)
  from Suc(3) obtain m' where m: "m = Suc m'" "n \<le> m'" by (cases m) auto
  obtain t s1 where t: "ticks N s = (t, s1)" by fastforce
  show ?case
  proof (cases "t < d")
    case True
    with Suc(2) t obtain s2 where s2: "p s1 = Some s2"
      and r: "(case found s2 of Some r \<Rightarrow> Some (Some r, s2) | None \<Rightarrow> wait_for n N p d found s2) = Some r"
      by (auto simp: bind_eq_Some_conv)
    from r Suc(1) [OF _ m(2)] have "(case found s2 of Some r \<Rightarrow> Some (Some r, s2) | None \<Rightarrow> wait_for m' N q d found s2) = Some r"
      by (cases "found s2") auto
    with True t more_definedD [OF pq s2] show ?thesis by (simp add: m(1))
  qed (use Suc(2) t m(1) in simp)
qed simp

lemma resolve_mac_mono:
  "more_defined p q \<Longrightarrow> n \<le> m \<Longrightarrow> resolve_mac n N p ip s = Some r \<Longrightarrow> resolve_mac m N q ip s = Some r"
  using wait_for_mono [of p q n N _ _ _ r m]
  by (auto simp: resolve_mac_def Let_def case_prod_beta split: option.splits)

lemma tcp_send_mono:
  assumes "more_defined p q" and "n \<le> m" and "tcp_send_segment n N p i flags data s = Some r"
  shows "tcp_send_segment m N q i flags data s = Some r"
proof (cases "20 + length data + 20 > 1500")
  case False
  with assms(3) obtain x where "resolve_mac n N p (tc_remote_ip (tcp_conns s ! i)) s = Some x"
    by (auto simp: tcp_send_segment_def bind_eq_Some_conv)
  with resolve_mac_mono [OF assms(1,2) this] assms(3) False show ?thesis by (simp add: tcp_send_segment_def)
qed (use assms(3) in \<open>simp add: tcp_send_segment_def\<close>)

lemma send_ack_mono: "more_defined p q \<Longrightarrow> n \<le> m \<Longrightarrow> more_defined (send_ack n N p i) (send_ack m N q i)"
  using tcp_send_mono [of p q n m N i TCP_ACK "[]"] by (auto simp: more_defined_def [of "send_ack n N p i"] send_ack_def)

lemma tcp_step_mono:
  assumes pq: "more_defined p q" and r: "tcp_step p i flags seq ackn bs s = Some s'"
  shows "tcp_step q i flags seq ackn bs s = Some s'"
proof -
  have take_mono: "tcp_take_data q i seq bs s = Some s1" if "tcp_take_data p i seq bs s = Some s1" for s1
    using that more_definedD [OF pq] by (auto simp: tcp_take_data_def Let_def split: if_splits)
  show ?thesis
    using r more_definedD [OF pq]
    by (cases "tc_state (tcp_conns s ! i)")
      (auto simp: tcp_step_def tcp_established_def tcp_fin_wait_1_def bind_eq_Some_conv dest!: take_mono split: if_splits)
qed

lemma handle_frame_mono:
  assumes pq: "\<And>i. more_defined (p i) (q i)" and r: "handle_frame N p len s = Some s'"
  shows "handle_frame N q len s = Some s'"
proof -
  have "handle_tcp q off k ip s = Some s'" if "handle_tcp p off k ip s = Some s'" for off k ip
    using that tcp_step_mono [OF pq] by (auto simp: handle_tcp_def Let_def split: if_splits option.splits)
  with r show ?thesis by (auto simp: handle_frame_def handle_ipv4_def Let_def split: if_splits)
qed

lemma poll_frames_mono:
  assumes pq: "\<And>i. more_defined (p i) (q i)"
  shows "poll_frames N p k s = Some s' \<Longrightarrow> poll_frames N q k s = Some s'"
proof (induction k arbitrary: s)
  case (Suc k)
  then show ?case using handle_frame_mono [OF pq] by (auto simp: bind_eq_Some_conv split: prod.splits if_splits)
qed simp

lemma net_poll_mono: "n \<le> m \<Longrightarrow> more_defined (net_poll n N) (net_poll m N)"
proof (induction n arbitrary: m)
  case (Suc n)
  then obtain m' where m: "m = Suc m'" "n \<le> m'" by (cases m) auto
  have "more_defined (send_ack n N (net_poll n N) i) (send_ack m' N (net_poll m' N) i)" for i
    using Suc(1) [OF m(2)] m(2) by (rule send_ack_mono)
  from poll_frames_mono [OF this] show ?case unfolding m(1) more_defined_def [of "net_poll (Suc n) N"] by simp
qed (simp add: more_defined_def)

section \<open>Polling without connections\<close>

definition no_conns :: "'n net_st \<Rightarrow> bool" where
  "no_conns s \<longleftrightarrow> length (tcp_conns s) = NET_TCP_MAX_CONN \<and> list_all (\<lambda>c. \<not> tc_active c) (tcp_conns s)"

lemma no_conns_frame:
  assumes "no_conns s"
  shows "\<exists>s'. handle_frame N ack len s = Some s' \<and> tcp_conns s' = tcp_conns s"
proof -
  have "tcp_find dp sp ip s = None" for dp sp ip
    using assms by (auto simp: tcp_find_def no_conns_def find_None_iff list_all_iff Let_def)
  then have "\<exists>s'. handle_tcp ack off k ip s = Some s' \<and> tcp_conns s' = tcp_conns s" for off k ip by (simp add: handle_tcp_def Let_def)
  then show ?thesis by (simp add: handle_frame_def handle_ipv4_def Let_def conns_same)
qed

lemma no_conns_poll:
  "no_conns s \<Longrightarrow> \<exists>s'. poll_frames N ack k s = Some s' \<and> tcp_conns s' = tcp_conns s"
proof (induction k arbitrary: s)
  case (Suc k)
  obtain rc frame e where p: "no_poll N 2048 (nic s) = ((rc, frame), e)" by (metis prod.collapse)
  let ?s = "store_frame frame (s\<lparr>nic := e\<rparr>)"
  have "no_conns ?s" using Suc(2) by (simp add: no_conns_def store_frame_def)
  from no_conns_frame [OF this] obtain s1 where s1: "handle_frame N ack (length frame) ?s = Some s1" "tcp_conns s1 = tcp_conns ?s"
    by blast
  moreover have "tcp_conns ?s = tcp_conns s" by (simp add: store_frame_def)
  ultimately have s1: "handle_frame N ack (length frame) ?s = Some s1" "tcp_conns s1 = tcp_conns s" by simp_all
  then have "no_conns s1" using Suc(2) by (simp add: no_conns_def)
  from Suc(1) [OF this] s1 p show ?case by auto
qed simp

text \<open>C32: polling comes back. With no TCP connection open, one level is enough for any frames the driver delivers, malformed ones
  included; and the answer never depends on the bound: a poll that came back within \<open>n\<close> gives the same for every larger one.\<close>

theorem net_poll_returns:
  assumes "no_conns s"
  shows "(\<exists>s'. net_poll (Suc n) N s = Some s' \<and> tcp_conns s' = tcp_conns s) \<and>
    (\<forall>k m s1 s'. net_poll k N s1 = Some s' \<longrightarrow> net_poll (k + m) N s1 = Some s')"
  using no_conns_poll [OF assms, of N "send_ack n N (net_poll n N)" 64] more_definedD [OF net_poll_mono [OF le_add1]]
  by auto

end
