(* ===== verification/Net_Recv.thy ===== *)
theory Net_Recv
  imports Net_Poll
begin

text \<open>Received frames of \<open>src/kernel/net.c\<close>: the ARP cache as a map, and the datagram a waiting caller gets.\<close>

section \<open>The ARP cache\<close>

lemma find_upt_upd:
  assumes "i < n" and "P i" and "\<And>j. j < i \<Longrightarrow> \<not> P j"
  shows "List.find P [0..<n] = Some i"
  using assms by (auto simp: find_Some_iff intro: exI [of _ i])

lemma find_upt_cong: "(\<And>i. i < n \<Longrightarrow> P i = Q i) \<Longrightarrow> List.find P [0..<n] = List.find Q [0..<n]"
  by (rule find_cong) auto

definition arp_full :: "'n net_st \<Rightarrow> bool" where
  "arp_full s \<longleftrightarrow> list_all ae_valid (arp_cache s)"

lemma arp_put_map:
  assumes len: "length (arp_cache s) = ARP_CACHE_SIZE"
  shows "arp_lookup ip (arp_cache_put ip mac s) = Some mac"
    and "ip' \<noteq> ip \<Longrightarrow> arp_lookup ip' (arp_cache_put ip mac s) = arp_lookup ip' s \<or>
      arp_full s \<and> arp_lookup ip s = None \<and> ip' = ae_ip (arp_cache s ! 0)"
proof -
  let ?c = "arp_cache s" let ?m = "\<lambda>ip i. ae_valid (?c ! i) \<and> ae_ip (?c ! i) = ip"
  let ?s = "arp_cache_put ip mac s"
  have "arp_lookup ip ?s = Some mac \<and> (ip' \<noteq> ip \<longrightarrow> arp_lookup ip' ?s = arp_lookup ip' s \<or>
      arp_full s \<and> arp_lookup ip s = None \<and> ip' = ae_ip (arp_cache s ! 0))"
  proof (cases "List.find (?m ip) [0..<16]")
    case (Some i)
    then have i: "i < 16" "?m ip i" "\<And>j. j < i \<Longrightarrow> \<not> ?m ip j" by (auto simp: find_Some_iff)
    have c: "arp_cache ?s = ?c[i := (?c ! i)\<lparr>ae_mac := mac\<rparr>]" using Some by (simp add: arp_cache_put_def Let_def)
    have nth: "arp_cache ?s ! j = (if j = i then (?c ! i)\<lparr>ae_mac := mac\<rparr> else ?c ! j)" if "j < 16" for j
      using that len i(1) unfolding c by (simp add: nth_list_update)
    have same: "List.find (\<lambda>j. ae_valid (arp_cache ?s ! j) \<and> ae_ip (arp_cache ?s ! j) = x) [0..<16] = List.find (?m x) [0..<16]" for x
      by (rule find_upt_cong) (simp add: nth)
    have "List.find (?m ip') [0..<16] \<noteq> Some i" if "ip' \<noteq> ip" using i(2) that by (auto simp: find_Some_iff)
    moreover have "j < 16" if "List.find (?m ip') [0..<16] = Some j" for j using that by (auto simp: find_Some_iff)
    ultimately show ?thesis using Some nth i(1) unfolding arp_lookup_def same by (cases "List.find (?m ip') [0..<16]") auto
  next
    case None
    then have none: "\<not> ?m ip j" if "j < 16" for j using that by (auto simp: find_None_iff)
    let ?new = "\<lparr>ae_ip = ip, ae_mac = mac, ae_valid = True\<rparr>"
    define i where "i = (case List.find (\<lambda>i. \<not> ae_valid (?c ! i)) [0..<16] of Some i \<Rightarrow> i | None \<Rightarrow> 0)"
    have i: "i < 16" and free: "ae_valid (?c ! i) \<Longrightarrow> arp_full s \<and> i = 0"
      unfolding i_def by (auto simp: find_Some_iff find_None_iff arp_full_def list_all_length len split: option.splits)
    have c: "arp_cache ?s = ?c[i := ?new]" using None by (auto simp: arp_cache_put_def i_def Let_def split: option.split)
    have nth: "arp_cache ?s ! j = (if j = i then ?new else ?c ! j)" if "j < 16" for j
      using that len i unfolding c by (simp add: nth_list_update)
    have "List.find (\<lambda>j. ae_valid (arp_cache ?s ! j) \<and> ae_ip (arp_cache ?s ! j) = ip) [0..<16] = Some i"
      using i none by (intro find_upt_upd) (auto simp: nth)
    then have l1: "arp_lookup ip ?s = Some mac" using nth i by (simp add: arp_lookup_def)
    have l0: "arp_lookup ip s = None" using None by (simp add: arp_lookup_def)
    have "arp_lookup ip' ?s = arp_lookup ip' s" if ne: "ip' \<noteq> ip" and "\<not> ?m ip' i"
    proof -
      have same: "List.find (\<lambda>j. ae_valid (arp_cache ?s ! j) \<and> ae_ip (arp_cache ?s ! j) = ip') [0..<16] = List.find (?m ip') [0..<16]"
        using that by (intro find_upt_cong) (auto simp: nth)
      have "j \<noteq> i \<and> j < 16" if "List.find (?m ip') [0..<16] = Some j" for j using that \<open>\<not> ?m ip' i\<close> by (auto simp: find_Some_iff)
      then show ?thesis using nth unfolding arp_lookup_def same by (cases "List.find (?m ip') [0..<16]") auto
    qed
    with l0 l1 free show ?thesis by blast
  qed
  then show "arp_lookup ip ?s = Some mac" and "ip' \<noteq> ip \<Longrightarrow> arp_lookup ip' ?s = arp_lookup ip' s \<or>
      arp_full s \<and> arp_lookup ip s = None \<and> ip' = ae_ip (arp_cache s ! 0)" by blast+
qed

text \<open>the ARP cache is a map of bounded size. After \<open>arp_cache_put\<close> the address looked up is the one just put, and every
  other address answers as before, except that a full cache gives up the address in slot 0 for a new one.\<close>

theorem arp_cache_map:
  assumes "length (arp_cache s) = ARP_CACHE_SIZE"
  shows "arp_lookup ip (arp_cache_put ip mac s) = Some mac \<and>
    (\<forall>ip'. ip' \<noteq> ip \<longrightarrow> arp_lookup ip' (arp_cache_put ip mac s) = arp_lookup ip' s \<or>
       arp_full s \<and> arp_lookup ip s = None \<and> ip' = ae_ip (arp_cache s ! 0))"
  using arp_put_map [OF assms] by blast

section \<open>A concrete stack\<close>

text \<open>Frames waiting in a queue, a clock that stands, a driver that takes every frame.\<close>

definition demo_nic :: "u8 list list nic_ops" where
  "demo_nic = \<lparr>no_send = (\<lambda>f q. (0, q)), no_poll = (\<lambda>k q. case q of [] \<Rightarrow> ((0, []), []) | f # fs \<Rightarrow> ((1, f), fs)),
     no_init = (\<lambda>q. (0, q)), no_mac = (\<lambda>q. [2, 0, 0, 0, 0, 1]), no_scan = (\<lambda>q. q), no_ticks = (\<lambda>q. (0, q)), no_stack = (\<lambda>q i. 0xAA)\<rparr>"

definition demo_conn :: tcp_conn where
  "demo_conn = \<lparr>tc_active = False, tc_state = TCP_CLOSED, tc_remote_ip = [0, 0, 0, 0], tc_local_port = 0, tc_remote_port = 0,
     tc_seq = 0, tc_ack = 0, tc_rx = [], tc_rx_fin = False\<rparr>"

definition demo_net :: "u8 list list \<Rightarrow> u8 list list net_st" where
  "demo_net frames = \<lparr>
     net_cfg = \<lparr>nc_ip = [10, 0, 2, 15], nc_gateway = [10, 0, 2, 2], nc_netmask = [255, 255, 255, 0], nc_dns = [10, 0, 2, 3],
       nc_mac = [2, 0, 0, 0, 0, 1]\<rparr>,
     arp_cache = replicate 16 \<lparr>ae_ip = [0, 0, 0, 0], ae_mac = [0, 0, 0, 0, 0, 0], ae_valid = False\<rparr>,
     ping_slots = replicate 8 \<lparr>ps_seq = 0, ps_send_tick = 0, ps_rtt_ms = 0, ps_active = False, ps_replied = False\<rparr>,
     rx_slot = \<lparr>ur_waiting = False, ur_port = 0, ur_src_ip = [], ur_src_port = 0, ur_data = 0, ur_data_len = 0, ur_received = False\<rparr>,
     tcp_conns = replicate 4 demo_conn, tcp_next_port = 49152, pkt_buf = (\<lambda>_. 0), net_ser = [], nic = frames\<rparr>"

theorem arp_cache_map_witness:
  "arp_lookup [10, 0, 2, 2] (arp_cache_put [10, 0, 2, 2] [1, 2, 3, 4, 5, 6] (demo_net [])) = Some [1, 2, 3, 4, 5, 6]"
  using arp_cache_map [of "demo_net []" "[10, 0, 2, 2]" "[1, 2, 3, 4, 5, 6]"] by (simp add: demo_net_def)

section \<open>The datagram a caller waits for\<close>

lemma other_frame:
  assumes "f ! 12 = 0x86" and "14 \<le> length f"
  shows "handle_frame N ack (length f) (store_frame f s) = Some (store_frame f s)"
proof -
  have "pkt16 (store_frame f s) 12 = htons (load16 0x86 (f ! 13))" using assms by (simp add: pkt16_def store_frame_def)
  then have "bit (pkt16 (store_frame f s) 12) 15" by (simp add: htons_def load16_def bit_or_iff bit_push_bit_iff bit_drop_bit_eq bit_ucast_iff)
  then have "pkt16 (store_frame f s) 12 \<noteq> ETH_TYPE_ARP" "pkt16 (store_frame f s) 12 \<noteq> ETH_TYPE_IPV4" by auto
  then show ?thesis using assms(2) by (simp add: handle_frame_def Let_def)
qed

text \<open>C36: the data a waiting caller copies is not the datagram it waited for when another frame arrives in the same
  \<open>net_poll\<close>. A handler leaves a pointer into \<open>pkt_buf\<close>; when the datagram is the last frame, the bytes behind it are its own,
  but a further frame of a type the stack ignores is read over it, and the caller gets the bytes of that frame.\<close>

theorem udp_reply_overwritten:
  assumes "handle_frame N ack (length f1) (store_frame f1 s) = Some s1" and "pkt_buf s1 = pkt_buf (store_frame f1 s)"
    and "ur_received (rx_slot s1)" and "ur_data (rx_slot s1) + ur_data_len (rx_slot s1) \<le> length f1"
    and "f2 ! 12 = 0x86" and "length f1 \<le> length f2" and "14 \<le> length f1"
    and "no_poll N PKT_BUF_SIZE (nic s1) = ((1, f2), e1)" and "no_poll N PKT_BUF_SIZE e1 = ((0, x), e2)"
  shows "\<exists>s2. poll_frames N ack (Suc (Suc k)) s1 = Some s2 \<and> ur_received (rx_slot s2) \<and>
    pkt_bytes s1 (ur_data (rx_slot s1)) (ur_data_len (rx_slot s1)) = take (ur_data_len (rx_slot s1)) (drop (ur_data (rx_slot s1)) f1) \<and>
    pkt_bytes s2 (ur_data (rx_slot s2)) (ur_data_len (rx_slot s2)) = take (ur_data_len (rx_slot s1)) (drop (ur_data (rx_slot s1)) f2)"
proof -
  let ?s2 = "(store_frame f2 (s1\<lparr>nic := e1\<rparr>))\<lparr>nic := e2\<rparr>"
  have "handle_frame N ack (length f2) (store_frame f2 (s1\<lparr>nic := e1\<rparr>)) = Some (store_frame f2 (s1\<lparr>nic := e1\<rparr>))"
    using assms(5-7) by (intro other_frame) simp_all
  then have "poll_frames N ack (Suc (Suc k)) s1 = Some ?s2" using assms(8,9) by (simp add: store_frame_def)
  moreover have "pkt_bytes s1 (ur_data (rx_slot s1)) (ur_data_len (rx_slot s1)) = take (ur_data_len (rx_slot s1)) (drop (ur_data (rx_slot s1)) f1)"
    using assms(2,4) by (intro nth_equalityI) (auto simp: pkt_bytes_def store_frame_def)
  moreover have "pkt_bytes ?s2 (ur_data (rx_slot ?s2)) (ur_data_len (rx_slot ?s2)) = take (ur_data_len (rx_slot s1)) (drop (ur_data (rx_slot s1)) f2)"
    using assms(4,6) by (intro nth_equalityI) (auto simp: pkt_bytes_def store_frame_def)
  moreover have "ur_received (rx_slot ?s2)" using assms(3) by (simp add: store_frame_def)
  ultimately show ?thesis by blast
qed

definition demo_datagram :: "u8 list" where
  "demo_datagram = [2, 0, 0, 0, 0, 1, 2, 0, 0, 0, 0, 9, 8, 0, 0x45, 0, 0, 29, 0, 0, 0, 0, 64, 17, 0, 0, 10, 0, 2, 3, 10, 0, 2, 15,
     0, 53, 4, 29, 0, 9, 0, 0, 0x41]"

definition demo_noise :: "u8 list" where
  "demo_noise = [1, 0, 0, 0, 0, 1, 2, 0, 0, 0, 0, 9, 0x86, 0xDD] @ replicate 29 0x42"

definition demo_waiting :: "u8 list list net_st" where
  "demo_waiting = (demo_net [demo_noise])\<lparr>rx_slot := \<lparr>ur_waiting = True, ur_port = 1053, ur_src_ip = [], ur_src_port = 0,
     ur_data = 0, ur_data_len = 0, ur_received = False\<rparr>\<rparr>"

definition demo_received :: "u8 list list net_st" where
  "demo_received = (store_frame demo_datagram demo_waiting)\<lparr>rx_slot := \<lparr>ur_waiting = True, ur_port = 1053,
     ur_src_ip = [10, 0, 2, 3], ur_src_port = 53, ur_data = 42, ur_data_len = 1, ur_received = True\<rparr>\<rparr>"

lemma pkt_bytes_4: "pkt_bytes s off 4 = [pkt_buf s off, pkt_buf s (off + 1), pkt_buf s (off + 2), pkt_buf s (off + 3)]"
  by (simp add: pkt_bytes_def upt_conv_Cons numeral_eq_Suc)

lemma demo_datagram_handled:
  "handle_frame demo_nic ack (length demo_datagram) (store_frame demo_datagram demo_waiting) = Some demo_received"
  by (simp add: handle_frame_def handle_ipv4_def handle_udp_def demo_datagram_def demo_waiting_def demo_received_def demo_net_def
    store_frame_def pkt16_def pkt_bytes_4 htons_def load16_def Let_def)

theorem udp_reply_overwritten_witness:
  "pkt_bytes demo_received 42 1 = [0x41] \<and>
   (\<exists>s2. poll_frames demo_nic (\<lambda>_ _. None) 2 demo_received = Some s2 \<and> ur_received (rx_slot s2) \<and>
     pkt_bytes s2 (ur_data (rx_slot s2)) (ur_data_len (rx_slot s2)) = [0x42])"
proof -
  have r: "rx_slot demo_received = \<lparr>ur_waiting = True, ur_port = 1053, ur_src_ip = [10, 0, 2, 3], ur_src_port = 53,
      ur_data = 42, ur_data_len = 1, ur_received = True\<rparr>"
    "pkt_buf demo_received = pkt_buf (store_frame demo_datagram demo_waiting)" "nic demo_received = [demo_noise]"
    by (simp_all add: demo_received_def store_frame_def demo_waiting_def demo_net_def)
  from udp_reply_overwritten [OF demo_datagram_handled [of "\<lambda>_ _. None"] r(2), of demo_noise "[]" "[]" "[]" 0]
  have "\<exists>s2. poll_frames demo_nic (\<lambda>_ _. None) (Suc (Suc 0)) demo_received = Some s2 \<and> ur_received (rx_slot s2) \<and>
    pkt_bytes demo_received 42 1 = take 1 (drop 42 demo_datagram) \<and>
    pkt_bytes s2 (ur_data (rx_slot s2)) (ur_data_len (rx_slot s2)) = take 1 (drop 42 demo_noise)"
    unfolding r(1,3) by (simp add: demo_datagram_def demo_noise_def demo_nic_def)
  then show ?thesis by (simp add: demo_datagram_def demo_noise_def numeral_2_eq_2) blast
qed

section \<open>Polling the concrete stack\<close>

theorem net_poll_returns_witness:
  "\<exists>s'. net_poll (Suc 0) demo_nic (demo_net [[1, 2, 3], demo_datagram, demo_noise]) = Some s' \<and> tcp_conns s' = replicate 4 demo_conn"
proof -
  have "no_conns (demo_net [[1, 2, 3], demo_datagram, demo_noise])" by (simp add: no_conns_def demo_net_def demo_conn_def list_all_length)
  from net_poll_returns [OF this, of 0 demo_nic] show ?thesis by (simp add: demo_net_def)
qed

text \<open>A reset from port 80 of 10.0.2.2 for the connection from port 49152.\<close>

definition demo_reset :: "u8 list" where
  "demo_reset = [2, 0, 0, 0, 0, 1, 2, 0, 0, 0, 0, 9, 8, 0, 0x45, 0, 0, 40, 0, 0, 0, 0, 64, 6, 0, 0, 10, 0, 2, 2, 10, 0, 2, 15,
     0, 80, 0xC0, 0, 0, 0, 0, 0, 0, 0, 0, 0, 0x50, 4, 0, 0, 0, 0, 0, 0]"

definition demo_open :: "u8 list list \<Rightarrow> u8 list list net_st" where
  "demo_open frames = upd_conn 0 (\<lambda>c. c\<lparr>tc_active := True, tc_state := TCP_ESTABLISHED, tc_remote_ip := [10, 0, 2, 2],
     tc_local_port := 49152, tc_remote_port := 80, tc_rx := [7]\<rparr>) (demo_net frames)"

lemma demo_reset_polled:
  "net_poll (Suc 0) demo_nic (demo_open [demo_reset]) =
     Some (upd_conn 0 (\<lambda>c. c\<lparr>tc_active := False, tc_state := TCP_CLOSED\<rparr>) (store_frame demo_reset (demo_open [])))"
proof -
  let ?s = "store_frame demo_reset (demo_open [])"
  have p: "no_poll demo_nic 2048 (nic (demo_open fs)) = (case fs of [] \<Rightarrow> ((0, []), []) | f # gs \<Rightarrow> ((1, f), gs))"
    "(demo_open fs)\<lparr>nic := gs\<rparr> = demo_open gs" for fs gs
    by (simp_all add: demo_nic_def demo_open_def demo_net_def upd_conn_def)
  have "handle_frame demo_nic ack (length demo_reset) ?s = Some (upd_conn 0 (\<lambda>c. c\<lparr>tc_active := False, tc_state := TCP_CLOSED\<rparr>) ?s)" for ack
    by (simp add: handle_frame_def handle_ipv4_def handle_tcp_def demo_reset_def store_frame_def pkt16_def pkt_bytes_4 htons_def
      load16_def Let_def demo_open_def demo_net_def tcp_find_def upt_conv_Cons upd_conn_def)
  then show ?thesis by (simp add: p) (simp add: demo_nic_def demo_open_def demo_net_def store_frame_def upd_conn_def numeral_eq_Suc)
qed


end
