(* ===== verification/Task.thy ===== *)
theory Task
  imports Prelude
begin

text \<open>
  The task scheduler, \<open>src/kernel/task.c\<close>: eight task slots, the circular list of the tasks in use
  (\<open>next\<close> pointers as slot numbers, None for NULL), the running task, and the preemption counter.
  A slot with id 0 is unused. The page allocator behind the task stacks is a record of functions on
  an abstract memory \<open>'m\<close>.

  A context switch suspends a task in the middle of the function that called it. What is left of that
  function runs when the task is resumed, so each suspended task carries its \<open>resume_point\<close>: the model
  of the return address \<open>task_switch\<close> saves on its stack. The saved stack pointer itself (written by
  the assembly routine) is not modelled.
\<close>

abbreviation TASK_MAX :: nat where "TASK_MAX \<equiv> 8"
abbreviation TASK_STACK_PAGES :: nat where "TASK_STACK_PAGES \<equiv> 8"

datatype task_state = READY | RUNNING | ZOMBIE | STOPPED

record task_t =
  tk_rsp :: u64
  tk_stack_base :: u64
  tk_id :: u32
  tk_state :: task_state
  tk_entry :: u64
  tk_arg :: u64
  tk_name :: string
  tk_next :: "nat option"

datatype resume_point = At_Entry | In_Yield | In_Preempt | In_Exit

record 'm sched =
  tasks :: "nat \<Rightarrow> task_t"
  current_task :: nat
  task_protect_mode :: "nat \<Rightarrow> nat"
  task_event_log_on :: bool
  serial_out :: string
  next_id :: u32
  user_task_saved_rsp :: u64
  preempt_enabled :: bool
  preempt_disable_count :: int
  resume_at :: "nat \<Rightarrow> resume_point"
  vm :: 'm

text \<open>What the scheduler uses of the memory manager: \<open>virt_alloc_pages(TASK_STACK_PAGES)\<close> (0 when there
  is no room), \<open>virt_free_pages(base, TASK_STACK_PAGES)\<close>, and a 64-bit store.\<close>

record 'm stack_ops =
  so_alloc :: "'m \<Rightarrow> u64 \<times> 'm"
  so_free :: "u64 \<Rightarrow> 'm \<Rightarrow> 'm"
  so_store :: "u64 \<Rightarrow> u64 \<Rightarrow> 'm \<Rightarrow> 'm"

definition upd_task :: "'m sched \<Rightarrow> nat \<Rightarrow> (task_t \<Rightarrow> task_t) \<Rightarrow> 'm sched" where
  "upd_task s i f = s\<lparr>tasks := (tasks s)(i := f (tasks s i))\<rparr>"

definition set_state :: "'m sched \<Rightarrow> nat \<Rightarrow> task_state \<Rightarrow> 'm sched" where
  "set_state s i st = upd_task s i (\<lambda>t. t\<lparr>tk_state := st\<rparr>)"

section \<open>Numbers as text\<close>

function digit_loop :: "nat \<Rightarrow> string \<Rightarrow> string" where
  "digit_loop v buf = (if v = 0 then buf else digit_loop (v div 10) (buf @ [char_of (48 + v mod 10)]))"
  by pat_completeness auto
termination by (relation "measure fst") auto

function swap_loop :: "string \<Rightarrow> nat \<Rightarrow> nat \<Rightarrow> string" where
  "swap_loop buf lo hi =
     (if lo < hi then swap_loop (buf[lo := buf ! hi, hi := buf ! lo]) (lo + 1) (hi - 1) else buf)"
  by pat_completeness auto
termination by (relation "measure (\<lambda>(buf, lo, hi). hi)") auto

declare digit_loop.simps [simp del] swap_loop.simps [simp del]

definition uint_text :: "u32 \<Rightarrow> string" where
  "uint_text v = (if v = 0 then ''0'' else let buf = digit_loop (unat v) [] in swap_loop buf 0 (length buf - 1))"

section \<open>Helpers\<close>

definition find_task_by_id :: "'m sched \<Rightarrow> u32 \<Rightarrow> nat option" where
  "find_task_by_id s tid = List.find (\<lambda>i. tk_id (tasks s i) = tid) [0..<TASK_MAX]"

definition task_log_event :: "string \<Rightarrow> nat \<Rightarrow> 'm sched \<Rightarrow> 'm sched" where
  "task_log_event op t s =
     (if \<not> task_event_log_on s then s
      else s\<lparr>serial_out := serial_out s @ ''[task] '' @ op @ '' id='' @ uint_text (tk_id (tasks s t)) @ '' name='' @
             (if tk_name (tasks s t) \<noteq> [] then tk_name (tasks s t) else ''<none>'') @ [CHR 0x0D, CHR 0x0A]\<rparr>)"

definition task_class_name :: "task_t \<Rightarrow> string" where
  "task_class_name t =
     (if str_eq (tk_name t) ''kernel'' \<or> str_eq (tk_name t) ''shell'' \<or>
         str_eq (tk_name t) ''terminal'' \<or> str_eq (tk_name t) ''serial'' then ''SYS'' else ''USER'')"

definition is_protected_task :: "'m sched \<Rightarrow> nat \<Rightarrow> bool" where
  "is_protected_task s t =
     (if t < TASK_MAX \<and> task_protect_mode s t = 1 then True
      else if t < TASK_MAX \<and> task_protect_mode s t = 2 then False
      else if t = 0 then True
      else if str_eq (tk_name (tasks s t)) ''shell'' then True
      else str_eq (tk_name (tasks s t)) ''serial'')"

text \<open>The walk of \<open>unlink_task\<close> from task 0. None: a NULL link is followed, or the walk never ends.\<close>

partial_function (option) unlink_walk :: "(nat \<Rightarrow> task_t) \<Rightarrow> nat \<Rightarrow> nat \<Rightarrow> (nat \<Rightarrow> task_t) option" where
  "unlink_walk ts t p =
     (if tk_next (ts p) = Some t then Some (ts(p := (ts p)\<lparr>tk_next := tk_next (ts t)\<rparr>))
      else (case tk_next (ts p) of
              None \<Rightarrow> None
            | Some q \<Rightarrow> if q = 0 then Some ts else unlink_walk ts t q))"

definition unlink_task :: "'m sched \<Rightarrow> nat \<Rightarrow> 'm sched option" where
  "unlink_task s t =
     (if t = 0 then Some s else map_option (\<lambda>ts. s\<lparr>tasks := ts\<rparr>) (unlink_walk (tasks s) t 0))"

definition empty_slot :: task_t where
  "empty_slot = \<lparr>tk_rsp = 0, tk_stack_base = 0, tk_id = 0, tk_state = ZOMBIE, tk_entry = 0, tk_arg = 0,
     tk_name = [], tk_next = None\<rparr>"

definition reclaim_task_slot :: "'m stack_ops \<Rightarrow> 'm sched \<Rightarrow> nat \<Rightarrow> 'm sched" where
  "reclaim_task_slot V s t =
     (if t = 0 then s
      else let s1 = (if tk_stack_base (tasks s t) \<noteq> 0
                     then s\<lparr>vm := so_free V (tk_stack_base (tasks s t)) (vm s)\<rparr> else s);
               s2 = upd_task s1 t (\<lambda>_. empty_slot)
           in if t < TASK_MAX then s2\<lparr>task_protect_mode := (task_protect_mode s2)(t := 0)\<rparr> else s2)"

definition remove_task :: "'m stack_ops \<Rightarrow> 'm sched \<Rightarrow> nat \<Rightarrow> 'm sched option" where
  "remove_task V s t = do { s1 \<leftarrow> unlink_task s t; Some (reclaim_task_slot V s1 t) }"

definition task_reap_zombies :: "'m stack_ops \<Rightarrow> 'm sched \<Rightarrow> 'm sched option" where
  "task_reap_zombies V s =
     fold_option (\<lambda>i s. if i = current_task s \<or> tk_id (tasks s i) = 0 \<or> tk_state (tasks s i) \<noteq> ZOMBIE then Some s
                        else remove_task V s i) [1..<TASK_MAX] s"

section \<open>Switching\<close>

text \<open>\<open>while (next != old && next->state != TASK_STATE_READY) next = next->next;\<close>\<close>

partial_function (option) ready_from :: "(nat \<Rightarrow> task_t) \<Rightarrow> nat \<Rightarrow> nat option \<Rightarrow> nat option" where
  "ready_from ts old np =
     (case np of
        None \<Rightarrow> None
      | Some p \<Rightarrow> if p = old \<or> tk_state (ts p) = READY then Some p else ready_from ts old (tk_next (ts p)))"

text \<open>How a scheduling call ends: some task runs; the CPU halts for good; or the kernel context saved
  before entering user mode is restored.\<close>

datatype 'm outcome = Runs "'m sched" | Halts | Restores u64 "'m sched"

text \<open>What is left to do of the function the current task was suspended in.\<close>

definition resume :: "'m sched \<Rightarrow> 'm sched" where
  "resume s =
     (case resume_at s (current_task s) of
        At_Entry \<Rightarrow> s
      | In_Yield \<Rightarrow> set_state s (current_task s) RUNNING
      | In_Preempt \<Rightarrow> (set_state s (current_task s) RUNNING)\<lparr>preempt_disable_count := preempt_disable_count s - 1\<rparr>
      | In_Exit \<Rightarrow> s)"

text \<open>\<open>do_switch_to_next(old)\<close>, called from a function whose rest is \<open>k\<close>, up to the moment the task that
  runs next (or \<open>old\<close>, when it stays) continues its own code.\<close>

definition do_switch_to_next :: "'m sched \<Rightarrow> nat \<Rightarrow> resume_point \<Rightarrow> 'm outcome option" where
  "do_switch_to_next s old k = do {
     nxt \<leftarrow> ready_from (tasks s) old (tk_next (tasks s old));
     let s1 = s\<lparr>resume_at := (resume_at s)(old := k)\<rparr>;
     Some (if nxt = old
           then if tk_state (tasks s old) = READY \<or> tk_state (tasks s old) = RUNNING
                then Runs (resume ((set_state s1 old RUNNING)\<lparr>current_task := old\<rparr>))
                else Halts
           else Runs (resume ((set_state s1 nxt RUNNING)\<lparr>current_task := nxt\<rparr>)))
   }"

definition task_yield :: "'m sched \<Rightarrow> 'm outcome option" where
  "task_yield s = do_switch_to_next (set_state s (current_task s) READY) (current_task s) In_Yield"

definition task_preempt_tick :: "'m sched \<Rightarrow> 'm outcome option" where
  "task_preempt_tick s =
     (if \<not> preempt_enabled s \<or> preempt_disable_count s > 0 then Some (Runs s)
      else if user_task_saved_rsp s \<noteq> 0 then Some (Runs s)
      else do {
        nxt \<leftarrow> ready_from (tasks s) (current_task s) (tk_next (tasks s (current_task s)));
        if nxt = current_task s then Some (Runs s)
        else let s1 = s\<lparr>preempt_disable_count := preempt_disable_count s + 1\<rparr>
             in do_switch_to_next (set_state s1 (current_task s1) READY) (current_task s1) In_Preempt })"

definition task_exit :: "'m sched \<Rightarrow> 'm outcome option" where
  "task_exit s =
     (if user_task_saved_rsp s \<noteq> 0
      then Some (Restores (user_task_saved_rsp s) (s\<lparr>user_task_saved_rsp := 0\<rparr>))
      else if current_task s = 0 then Some (Runs s)
      else let s1 = set_state (task_log_event ''exit'' (current_task s) s) (current_task s) ZOMBIE
           in do_switch_to_next s1 (current_task s) In_Exit)"

definition task_user_fault_exit :: "'m sched \<Rightarrow> 'm outcome" where
  "task_user_fault_exit s =
     (if user_task_saved_rsp s \<noteq> 0
      then Restores (user_task_saved_rsp s) (s\<lparr>user_task_saved_rsp := 0\<rparr>) else Halts)"

definition task_set_preemption :: "bool \<Rightarrow> 'm sched \<Rightarrow> 'm sched" where
  "task_set_preemption enabled s = s\<lparr>preempt_enabled := enabled\<rparr>"

definition task_get_preemption :: "'m sched \<Rightarrow> bool" where
  "task_get_preemption s = preempt_enabled s"

section \<open>Creating tasks\<close>

definition copy_name :: "string \<Rightarrow> nat \<Rightarrow> string" where
  "copy_name src max_len = copy_upto src (max_len - 1)"

definition task_init :: "'m sched \<Rightarrow> 'm sched" where
  "task_init s =
     (let clr = (\<lambda>i. if i < TASK_MAX then empty_slot else tasks s i)
      in s\<lparr>tasks := clr(0 := (clr 0)\<lparr>tk_id := 1, tk_state := RUNNING, tk_name := copy_name ''kernel'' 24,
                             tk_next := Some 0\<rparr>),
           current_task := 0,
           task_protect_mode := (\<lambda>i. if i < TASK_MAX then 0 else task_protect_mode s i)\<rparr>)"

text \<open>The initial stack: the words \<open>task_switch\<close> pops, from the return address down.\<close>

definition stack_image :: "u64 \<Rightarrow> u64 \<Rightarrow> (u64 \<times> u64) list" where
  "stack_image trampoline stack_top =
     [(stack_top - 16, trampoline), (stack_top - 24, 0), (stack_top - 32, 0), (stack_top - 40, 0),
      (stack_top - 48, 0), (stack_top - 56, 0), (stack_top - 64, 0), (stack_top - 72, 0x202)]"

definition pick_slot :: "'m stack_ops \<Rightarrow> 'm sched \<Rightarrow> (nat option \<times> 'm sched) option" where
  "pick_slot V s =
     (case List.find (\<lambda>i. tk_id (tasks s i) = 0) [1..<TASK_MAX] of
        Some i \<Rightarrow> Some (Some i, s)
      | None \<Rightarrow>
          (case List.find (\<lambda>i. tk_state (tasks s i) = ZOMBIE \<and> tk_id (tasks s i) \<noteq> 0) [1..<TASK_MAX] of
             Some i \<Rightarrow> map_option (\<lambda>s'. (Some i, s')) (remove_task V s i)
           | None \<Rightarrow> Some (None, s)))"

definition task_create ::
    "'m stack_ops \<Rightarrow> u64 \<Rightarrow> 'm sched \<Rightarrow> string option \<Rightarrow> u64 \<Rightarrow> u64 \<Rightarrow> (int \<times> 'm sched) option" where
  "task_create V trampoline s nm entry arg = do {
     (slot, s1) \<leftarrow> pick_slot V s;
     case slot of
       None \<Rightarrow> Some (-1, s1)
     | Some t \<Rightarrow>
         (case so_alloc V (vm s1) of (base, m) \<Rightarrow>
            let s2 = upd_task (s1\<lparr>vm := m\<rparr>) t (\<lambda>k. k\<lparr>tk_stack_base := base\<rparr>)
            in if base = 0 then Some (-1, s2)
               else let stack_top = base + of_nat (TASK_STACK_PAGES * 4096);
                        s3 = s2\<lparr>vm := fold (\<lambda>(a, v). so_store V a v) (stack_image trampoline stack_top) (vm s2)\<rparr>;
                        s4 = upd_task s3 t (\<lambda>k. k\<lparr>tk_rsp := stack_top - 72, tk_id := next_id s3, tk_state := READY,
                               tk_entry := entry, tk_arg := arg,
                               tk_name := copy_name (case nm of None \<Rightarrow> ''task'' | Some n \<Rightarrow> n) 24\<rparr>);
                        s5 = s4\<lparr>next_id := next_id s4 + 1, task_protect_mode := (task_protect_mode s4)(t := 0),
                                resume_at := (resume_at s4)(t := At_Entry)\<rparr>;
                        s6 = upd_task s5 t (\<lambda>k. k\<lparr>tk_next := tk_next (tasks s5 0)\<rparr>);
                        s7 = upd_task s6 0 (\<lambda>k. k\<lparr>tk_next := Some t\<rparr>);
                        s8 = task_log_event ''create'' t s7
                    in Some (sint (tk_id (tasks s8 t)), s8))
   }"

section \<open>Managing tasks\<close>

definition task_find_id_by_name :: "'m sched \<Rightarrow> string option \<Rightarrow> int" where
  "task_find_id_by_name s nm =
     (case nm of
        None \<Rightarrow> -1
      | Some n \<Rightarrow>
          if n = [] then -1
          else (case List.find (\<lambda>i. tk_id (tasks s i) \<noteq> 0 \<and> tk_state (tasks s i) \<noteq> ZOMBIE \<and>
                        str_eq (tk_name (tasks s i)) n) [0..<TASK_MAX] of
                  None \<Rightarrow> -1
                | Some i \<Rightarrow> sint (tk_id (tasks s i))))"

definition set_protect :: "nat \<Rightarrow> bool \<Rightarrow> 'm sched \<Rightarrow> 'm sched" where
  "set_protect i enabled s =
     task_log_event (if enabled then ''protect-on'' else ''protect-off'') i
       (s\<lparr>task_protect_mode := (task_protect_mode s)(i := (if enabled then 1 else 2))\<rparr>)"

definition task_set_protection_by_id :: "'m sched \<Rightarrow> u32 \<Rightarrow> bool \<Rightarrow> int \<times> 'm sched" where
  "task_set_protection_by_id s tid enabled =
     (if tid = 0 then (-1, s)
      else (case find_task_by_id s tid of
              None \<Rightarrow> (-1, s)
            | Some t \<Rightarrow> if t = 0 then (-1, s)
                        else if t \<ge> TASK_MAX then (-1, s)
                        else (0, set_protect t enabled s)))"

definition task_set_protection_by_name :: "'m sched \<Rightarrow> string option \<Rightarrow> bool \<Rightarrow> int \<times> 'm sched" where
  "task_set_protection_by_name s nm enabled =
     (case nm of
        None \<Rightarrow> (-1, s)
      | Some n \<Rightarrow>
          if n = [] then (-1, s)
          else (case List.find (\<lambda>i. tk_id (tasks s i) \<noteq> 0 \<and> i \<noteq> 0 \<and> str_eq (tk_name (tasks s i)) n) [0..<TASK_MAX] of
                  None \<Rightarrow> (-1, s)
                | Some i \<Rightarrow> (0, set_protect i enabled s)))"

definition task_is_protected_id :: "'m sched \<Rightarrow> u32 \<Rightarrow> bool" where
  "task_is_protected_id s tid =
     (case find_task_by_id s tid of None \<Rightarrow> False | Some t \<Rightarrow> is_protected_task s t)"

definition task_set_event_log :: "bool \<Rightarrow> 'm sched \<Rightarrow> 'm sched" where
  "task_set_event_log enabled s = s\<lparr>task_event_log_on := enabled\<rparr>"

definition task_kill :: "'m stack_ops \<Rightarrow> 'm sched \<Rightarrow> u32 \<Rightarrow> (int \<times> 'm sched) option" where
  "task_kill V s tid =
     (case find_task_by_id s tid of
        None \<Rightarrow> Some (-1, s)
      | Some t \<Rightarrow>
          if is_protected_task s t \<or> t = current_task s then Some (-1, s)
          else map_option (\<lambda>s'. (0, s')) (remove_task V (task_log_event ''kill'' t s) t))"

definition task_kill_all :: "'m stack_ops \<Rightarrow> 'm sched \<Rightarrow> (int \<times> 'm sched) option" where
  "task_kill_all V s =
     fold_option (\<lambda>i (killed, s).
         if i = current_task s \<or> tk_id (tasks s i) = 0 \<or> is_protected_task s i then Some (killed, s)
         else map_option (\<lambda>s'. (killed + 1, s')) (remove_task V (task_log_event ''kill'' i s) i))
       [1..<TASK_MAX] (0, s)"

definition task_stop :: "'m sched \<Rightarrow> u32 \<Rightarrow> int \<times> 'm sched" where
  "task_stop s tid =
     (case find_task_by_id s tid of
        None \<Rightarrow> (-1, s)
      | Some t \<Rightarrow>
          if is_protected_task s t \<or> t = current_task s \<or>
             (tk_state (tasks s t) \<noteq> READY \<and> tk_state (tasks s t) \<noteq> RUNNING) then (-1, s)
          else (0, task_log_event ''stop'' t (set_state s t STOPPED)))"

definition task_continue :: "'m sched \<Rightarrow> u32 \<Rightarrow> int \<times> 'm sched" where
  "task_continue s tid =
     (case find_task_by_id s tid of
        None \<Rightarrow> (-1, s)
      | Some t \<Rightarrow>
          if tk_state (tasks s t) \<noteq> STOPPED then (-1, s)
          else (0, task_log_event ''cont'' t (set_state s t READY)))"

section \<open>The task table as text\<close>

definition state_text :: "task_state \<Rightarrow> string" where
  "state_text st =
     (case st of RUNNING \<Rightarrow> ''RUNNING  '' | READY \<Rightarrow> ''READY    '' | STOPPED \<Rightarrow> ''STOPPED  '' | ZOMBIE \<Rightarrow> ''ZOMBIE   '')"

definition task_row :: "'m sched \<Rightarrow> nat \<Rightarrow> string" where
  "task_row s i =
     ''  '' @ uint_text (tk_id (tasks s i)) @ ''   '' @ state_text (tk_state (tasks s i)) @
     task_class_name (tasks s i) @ (if str_eq (task_class_name (tasks s i)) ''SYS'' then ''   '' else ''  '') @
     (if is_protected_task s i then ''Y    '' else ''N    '') @ tk_name (tasks s i)"

text \<open>The lines \<open>task_print_list\<close> and \<open>task_print_list_serial\<close> write.\<close>

definition task_table :: "'m sched \<Rightarrow> string list" where
  "task_table s = ''  ID  State    Class Prot Name'' #
     map (task_row s) (filter (\<lambda>i. tk_id (tasks s i) \<noteq> 0) [0..<TASK_MAX])"

definition task_print_list_serial :: "'m sched \<Rightarrow> 'm sched" where
  "task_print_list_serial s =
     s\<lparr>serial_out := serial_out s @ concat (map (\<lambda>l. l @ [CHR 0x0D, CHR 0x0A]) (task_table s))\<rparr>"

end
