(* ===== verification/Terminal_Text.thy ===== *)
theory Terminal_Text
  imports Prelude
begin

text \<open>Text the kernel prints through \<open>src/kernel/terminal.c\<close>: numbers in hexadecimal.\<close>

definition hex_digits :: string where
  "hex_digits = ''0123456789ABCDEF''"

text \<open>\<open>terminal_write_hex64\<close> and the \<open>print_hex64\<close> of \<open>memmap.c\<close> fill a buffer of 18 characters from its end.\<close>

fun hex_loop :: "nat \<Rightarrow> u64 \<Rightarrow> string \<Rightarrow> string" where
  "hex_loop 0 v buf = buf"
| "hex_loop (Suc n) v buf = hex_loop n (drop_bit 4 v) ((hex_digits ! unat (v AND 0xF)) # buf)"

definition terminal_write_hex64 :: "u64 \<Rightarrow> string" where
  "terminal_write_hex64 v = ''0x'' @ hex_loop 16 v []"

definition terminal_write_hex8 :: "u8 \<Rightarrow> string" where
  "terminal_write_hex8 v =
     [CHR ''0'', CHR ''x'', hex_digits ! unat (drop_bit 4 v AND 0xF), hex_digits ! unat (v AND 0xF)]"

end
