(* ===== verification/Task_Heap.thy ===== *)
theory Task_Heap
  imports Memory Terminal_Text
begin

text \<open>
  The heap of the running user program, in \<open>src/kernel/task.c\<close>: a window of addresses whose lower part,
  up to the break, is mapped page by page. The entry into user mode itself is assembly code.
\<close>

record user_heap =
  user_heap_base :: u64
  user_heap_limit :: u64
  user_heap_brk :: u64
  heap_mem :: mem_state
  heap_out :: string

definition brk_trace_fail :: "string \<Rightarrow> u64 \<Rightarrow> u64 \<Rightarrow> u64 \<Rightarrow> user_heap \<Rightarrow> user_heap" where
  "brk_trace_fail reason req old_brk page h =
     h\<lparr>heap_out := heap_out h @ ''[brk] fail '' @ reason @ '' req='' @ terminal_write_hex64 req @
        '' old='' @ terminal_write_hex64 old_brk @ '' page='' @ terminal_write_hex64 page @
        '' base='' @ terminal_write_hex64 (user_heap_base h) @ '' lim='' @ terminal_write_hex64 (user_heap_limit h) @
        [CHR 0x0A]\<rparr>"

definition heap_align_up_page :: "u64 \<Rightarrow> u64" where
  "heap_align_up_page addr = (addr + 4095) AND NOT 4095"

definition user_heap_unmap_range :: "u64 \<Rightarrow> u64 \<Rightarrow> user_heap \<Rightarrow> user_heap" where
  "user_heap_unmap_range start stop h = h\<lparr>heap_mem := fold release_mapping (page_range start stop) (heap_mem h)\<rparr>"

definition task_user_heap_reset :: "user_heap \<Rightarrow> user_heap" where
  "task_user_heap_reset h =
     (let h1 = (if user_heap_base h \<noteq> 0 \<and> user_heap_limit h > user_heap_base h then
                  let mapped_start = heap_align_up_page (user_heap_base h);
                      mapped_end = heap_align_up_page (user_heap_brk h)
                  in if mapped_end > mapped_start then user_heap_unmap_range mapped_start mapped_end h else h
                else h)
      in h1\<lparr>user_heap_base := 0, user_heap_limit := 0, user_heap_brk := 0\<rparr>)"

definition task_user_heap_config :: "u64 \<Rightarrow> u64 \<Rightarrow> user_heap \<Rightarrow> int \<times> user_heap" where
  "task_user_heap_config base limit h =
     (if base = 0 \<or> limit \<le> base then (-1, h)
      else (0, (task_user_heap_reset h)\<lparr>user_heap_base := base, user_heap_limit := limit, user_heap_brk := base\<rparr>))"

text \<open>One turn of the loop that grows the heap: the reason of a failure, or None, and the memory.\<close>

definition grow_page :: "u64 \<Rightarrow> mem_state \<Rightarrow> string option \<times> mem_state" where
  "grow_page page m =
     (if paging_get_phys m page \<noteq> 0 then (Some ''present'', m)
      else (case phys_alloc_page m of (phys, m1) \<Rightarrow>
        if phys = 0 then (Some ''oom'', m1)
        else (case paging_map_page m1 page phys
                (PAGE_FLAG_PRESENT OR PAGE_FLAG_WRITABLE OR PAGE_FLAG_USER OR PAGE_FLAG_NO_EXECUTE) of (rc, m2) \<Rightarrow>
          if rc \<noteq> 0 then (Some ''map'', phys_free_page phys m2)
          else (None, memory_zero_phys_page phys m2))))"

fun grow_pages :: "u64 list \<Rightarrow> mem_state \<Rightarrow> (string \<times> u64) option \<times> mem_state" where
  "grow_pages [] m = (None, m)"
| "grow_pages (page # pages) m =
     (case grow_page page m of
        (Some reason, m') \<Rightarrow> (Some (reason, page), m')
      | (None, m') \<Rightarrow> grow_pages pages m')"

definition task_user_heap_brk :: "u64 \<Rightarrow> user_heap \<Rightarrow> u64 \<times> user_heap" where
  "task_user_heap_brk new_break h =
     (if user_heap_base h = 0 \<or> user_heap_limit h \<le> user_heap_base h
      then (-1, brk_trace_fail ''unconfigured'' new_break (user_heap_brk h) 0 h)
      else if new_break = 0 then (user_heap_brk h, h)
      else if new_break < user_heap_base h \<or> new_break > user_heap_limit h
      then (-1, brk_trace_fail ''bounds'' new_break (user_heap_brk h) 0 h)
      else let old_break = user_heap_brk h in
        if new_break = old_break then (old_break, h)
        else let map_from = heap_align_up_page old_break; map_to = heap_align_up_page new_break in
          if new_break > old_break then
            (case grow_pages (page_range map_from map_to) (heap_mem h) of
               (Some (reason, page), m) \<Rightarrow>
                 (-1, user_heap_unmap_range map_from page (brk_trace_fail reason new_break old_break page (h\<lparr>heap_mem := m\<rparr>)))
             | (None, m) \<Rightarrow> (new_break, h\<lparr>heap_mem := m, user_heap_brk := new_break\<rparr>))
          else (new_break, (user_heap_unmap_range map_to map_from h)\<lparr>user_heap_brk := new_break\<rparr>))"

end
