(* ===== verification/Syscall.thy ===== *)
theory Syscall
  imports Fs Task Task_Heap
begin

text \<open>
  The system calls, \<open>src/kernel/syscall.c\<close>: file descriptors, pipes, anonymous mappings, and the dispatcher
  that ties them to the file system, the scheduler, the user heap and the memory manager. The memory is
  the one of the scheduler's state. Reading a line from the keyboard is an interface, since it waits for
  interrupts; so is the test for pending input.
\<close>

abbreviation SYS_WRITE_MAX_BYTES :: u64 where "SYS_WRITE_MAX_BYTES \<equiv> 4096"
abbreviation SYS_READ_MAX_BYTES :: u64 where "SYS_READ_MAX_BYTES \<equiv> 4096"
abbreviation SYSCALL_FD_MAX :: nat where "SYSCALL_FD_MAX \<equiv> 8"
abbreviation SYSCALL_PATH_MAX :: nat where "SYSCALL_PATH_MAX \<equiv> 128"
abbreviation PIPE_BUF_SIZE :: u64 where "PIPE_BUF_SIZE \<equiv> 4096"
abbreviation PIPE_MAX :: nat where "PIPE_MAX \<equiv> 4"
abbreviation MMAP_MAX_ENTRIES :: nat where "MMAP_MAX_ENTRIES \<equiv> 16"
abbreviation MMAP_VA_BASE :: u64 where "MMAP_VA_BASE \<equiv> 0x0000004000000000"

datatype fd_kind = FD_TYPE_NONE | FD_TYPE_FILE | FD_TYPE_PIPE_READ | FD_TYPE_PIPE_WRITE

record pipe_buf =
  pb_data :: "nat \<Rightarrow> u8"
  pb_head :: u64
  pb_count :: u64
  pb_read_open :: bool
  pb_write_open :: bool

record fd_entry =
  fd_type :: fd_kind
  fd_pos :: u64
  fd_path :: string
  fd_pipe_idx :: int

record mmap_entry =
  mm_virt_addr :: u64
  mm_page_count :: u64
  mm_used :: bool

text \<open>\<open>terminal_read_line\<close> and \<open>terminal_input_available\<close>, over a state of their own.\<close>

record 'io term_ops =
  to_read_line :: "u64 \<Rightarrow> 'io \<Rightarrow> string option \<times> 'io"
  to_input_available :: "'io \<Rightarrow> bool"

record 'io sys_state =
  syscall_fds :: "fd_entry list"
  pipes :: "pipe_buf list"
  syscall_mmap_tbl :: "mmap_entry list"
  syscall_mmap_bump :: u64
  sys_fs :: fs_state
  sys_sched :: "mem_state sched"
  sys_heap :: user_heap
  sys_out :: string
  sys_io :: 'io

definition sys_mem :: "'io sys_state \<Rightarrow> mem_state" where
  "sys_mem s = vm (sys_sched s)"

definition set_mem :: "mem_state \<Rightarrow> 'io sys_state \<Rightarrow> 'io sys_state" where
  "set_mem m s = s\<lparr>sys_sched := (sys_sched s)\<lparr>vm := m\<rparr>\<rparr>"

definition upd_fd :: "nat \<Rightarrow> (fd_entry \<Rightarrow> fd_entry) \<Rightarrow> 'io sys_state \<Rightarrow> 'io sys_state" where
  "upd_fd i f s = s\<lparr>syscall_fds := (syscall_fds s)[i := f (syscall_fds s ! i)]\<rparr>"

definition upd_pipe :: "nat \<Rightarrow> (pipe_buf \<Rightarrow> pipe_buf) \<Rightarrow> 'io sys_state \<Rightarrow> 'io sys_state" where
  "upd_pipe i f s = s\<lparr>pipes := (pipes s)[i := f (pipes s ! i)]\<rparr>"

text \<open>\<open>terminal_write\<close> stops at the first NUL.\<close>

definition term_write :: "string \<Rightarrow> 'io sys_state \<Rightarrow> 'io sys_state" where
  "term_write cs s = s\<lparr>sys_out := sys_out s @ takeWhile (\<lambda>c. c \<noteq> CHR 0x00) cs\<rparr>"

section \<open>User memory\<close>

definition addr_is_canonical :: "u64 \<Rightarrow> bool" where
  "addr_is_canonical addr = (drop_bit 47 addr = 0 \<or> drop_bit 47 addr = 0x1FFFF)"

definition user_addr_readable :: "mem_state \<Rightarrow> u64 \<Rightarrow> bool" where
  "user_addr_readable m addr = (addr_is_canonical addr \<and> paging_get_phys m addr \<noteq> 0)"

fun user_copy_ascii :: "mem_state \<Rightarrow> u64 \<Rightarrow> nat \<Rightarrow> string option" where
  "user_copy_ascii m src 0 = Some []"
| "user_copy_ascii m src (Suc n) =
     (if \<not> user_addr_readable m src then None
      else map_option ((#) (char_of_byte (vload_byte m src))) (user_copy_ascii m (src + 1) n))"

text \<open>The characters before the NUL; None for a fault or a string of \<open>dst_sz - 1\<close> characters or more.\<close>

fun copy_cstr_loop :: "mem_state \<Rightarrow> u64 \<Rightarrow> nat \<Rightarrow> string option" where
  "copy_cstr_loop m src 0 = None"
| "copy_cstr_loop m src (Suc n) =
     (if \<not> user_addr_readable m src then None
      else let ch = char_of_byte (vload_byte m src)
           in if ch = CHR 0x00 then Some [] else map_option ((#) ch) (copy_cstr_loop m (src + 1) n))"

definition user_copy_cstr :: "mem_state \<Rightarrow> u64 \<Rightarrow> nat \<Rightarrow> string option" where
  "user_copy_cstr m src dst_sz =
     (if dst_sz = 0 \<or> src = 0 then None else copy_cstr_loop m src (dst_sz - 1))"

text \<open>Whether all bytes were written, and the memory with those that were.\<close>

fun user_copy_out :: "u64 \<Rightarrow> u8 list \<Rightarrow> mem_state \<Rightarrow> bool \<times> mem_state" where
  "user_copy_out dst [] m = (True, m)"
| "user_copy_out dst (c # cs) m =
     (if \<not> user_addr_readable m dst then (False, m)
      else user_copy_out (dst + 1) cs (vstore_byte dst c m))"

section \<open>Writing to the terminal\<close>

datatype chunk_end = Chunk_Fault | Chunk_Nul | Chunk_Full

text \<open>The inner loop of the NUL-terminated mode, for at most \<open>n\<close> characters.\<close>

fun scan_chunk :: "mem_state \<Rightarrow> u64 \<Rightarrow> nat \<Rightarrow> string \<Rightarrow> chunk_end \<times> string" where
  "scan_chunk m cursor 0 chunk = (Chunk_Full, chunk)"
| "scan_chunk m cursor (Suc n) chunk =
     (if \<not> user_addr_readable m (cursor + of_nat (length chunk)) then (Chunk_Fault, chunk)
      else let ch = char_of_byte (vload_byte m (cursor + of_nat (length chunk)))
           in if ch = CHR 0x00 then (Chunk_Nul, chunk) else scan_chunk m cursor n (chunk @ [ch]))"

function write_cstr_loop :: "u64 \<Rightarrow> nat \<Rightarrow> u64 \<Rightarrow> 'io sys_state \<Rightarrow> u64 \<times> 'io sys_state" where
  "write_cstr_loop cursor scanned written s =
     (if scanned < 4096 then
        (case scan_chunk (sys_mem s) cursor (min 128 (4096 - scanned)) [] of
           (Chunk_Fault, chunk) \<Rightarrow> (-1, s)
         | (Chunk_Nul, chunk) \<Rightarrow> (written, if chunk \<noteq> [] then term_write chunk s else s)
         | (Chunk_Full, chunk) \<Rightarrow>
             if chunk = [] then (written, s)
             else write_cstr_loop (cursor + of_nat (length chunk)) (scanned + length chunk)
                    (written + of_nat (length chunk)) (term_write chunk s))
      else (written, s))"
  by pat_completeness auto
termination by (relation "measure (\<lambda>(c, scanned, t, s). 4096 - scanned)") (auto simp flip: length_greater_0_conv)

declare write_cstr_loop.simps [simp del]

function write_len_loop :: "u64 \<Rightarrow> u64 \<Rightarrow> u64 \<Rightarrow> 'io sys_state \<Rightarrow> u64 \<times> 'io sys_state" where
  "write_len_loop cursor remaining written s =
     (if remaining \<noteq> 0 then
        let take_n = (if remaining > 128 then 128 else remaining) in
        (case user_copy_ascii (sys_mem s) cursor (unat take_n) of
           None \<Rightarrow> (-1, s)
         | Some chunk \<Rightarrow> write_len_loop (cursor + take_n) (remaining - take_n) (written + take_n) (term_write chunk s))
      else (written, s))"
  by pat_completeness auto
termination
  by (relation "measure (\<lambda>(c, remaining, t, s). unat remaining)")
    (auto simp: unat_sub_if' word_less_nat_alt word_le_nat_alt unat_gt_0 split: if_splits)

declare write_len_loop.simps [simp del]

definition syscall_write_user :: "u64 \<Rightarrow> u64 \<Rightarrow> 'io sys_state \<Rightarrow> u64 \<times> 'io sys_state" where
  "syscall_write_user user_ptr len_or_zero s =
     (if user_ptr = 0 then (-1, s)
      else if len_or_zero = 0 then write_cstr_loop user_ptr 0 0 s
      else write_len_loop user_ptr (if len_or_zero > SYS_WRITE_MAX_BYTES then SYS_WRITE_MAX_BYTES else len_or_zero) 0 s)"

section \<open>File descriptors\<close>

definition syscall_fd_slot_from_fd :: "u64 \<Rightarrow> nat option" where
  "syscall_fd_slot_from_fd fd = (if fd < 3 \<or> fd \<ge> 3 + of_nat SYSCALL_FD_MAX then None else Some (unat (fd - 3)))"

definition free_fd :: "'io sys_state \<Rightarrow> nat option" where
  "free_fd s = List.find (\<lambda>i. fd_type (syscall_fds s ! i) = FD_TYPE_NONE) [0..<SYSCALL_FD_MAX]"

definition syscall_open_user :: "u64 \<Rightarrow> 'io sys_state \<Rightarrow> (u64 \<times> 'io sys_state) option" where
  "syscall_open_user user_path s =
     (case user_copy_cstr (sys_mem s) user_path SYSCALL_PATH_MAX of
        None \<Rightarrow> Some (-1, s)
      | Some path \<Rightarrow>
          if path = [] then Some (-1, s)
          else do {
            st \<leftarrow> fs_stat (sys_fs s) (Some path);
            Some (case st of
                    None \<Rightarrow> (-1, s)
                  | Some (is_dir, sz) \<Rightarrow>
                      if is_dir then (-1, s)
                      else (case free_fd s of
                              None \<Rightarrow> (-1, s)
                            | Some i \<Rightarrow> (3 + of_nat i,
                                upd_fd i (\<lambda>e. e\<lparr>fd_type := FD_TYPE_FILE, fd_pos := 0,
                                  fd_path := str_copy (fd_path e) path SYSCALL_PATH_MAX, fd_pipe_idx := -1\<rparr>) s))) })"

text \<open>The part \<open>syscall_close_fd\<close> and \<open>syscall_fd_cleanup\<close> share.\<close>

definition close_slot :: "nat \<Rightarrow> 'io sys_state \<Rightarrow> 'io sys_state" where
  "close_slot i s =
     (let e = syscall_fds s ! i; pi = fd_pipe_idx e;
          s1 = (if (fd_type e = FD_TYPE_PIPE_READ \<or> fd_type e = FD_TYPE_PIPE_WRITE) \<and> 0 \<le> pi \<and> pi < int PIPE_MAX
                then if fd_type e = FD_TYPE_PIPE_READ then upd_pipe (nat pi) (\<lambda>p. p\<lparr>pb_read_open := False\<rparr>) s
                     else upd_pipe (nat pi) (\<lambda>p. p\<lparr>pb_write_open := False\<rparr>) s
                else s)
      in upd_fd i (\<lambda>e. e\<lparr>fd_type := FD_TYPE_NONE, fd_pos := 0, fd_path := [], fd_pipe_idx := -1\<rparr>) s1)"

definition syscall_close_fd :: "u64 \<Rightarrow> 'io sys_state \<Rightarrow> u64 \<times> 'io sys_state" where
  "syscall_close_fd fd s =
     (case syscall_fd_slot_from_fd fd of
        None \<Rightarrow> (-1, s)
      | Some i \<Rightarrow> if fd_type (syscall_fds s ! i) = FD_TYPE_NONE then (-1, s) else (0, close_slot i s))"

definition syscall_fd_cleanup :: "'io sys_state \<Rightarrow> 'io sys_state" where
  "syscall_fd_cleanup s =
     fold (\<lambda>i s. if fd_type (syscall_fds s ! i) = FD_TYPE_NONE then s else close_slot i s) [0..<SYSCALL_FD_MAX] s"

text \<open>The new position of each \<open>whence\<close>, None for an error. The offset is a signed \<open>long\<close>.\<close>

definition seek_pos :: "u64 \<Rightarrow> u64 \<Rightarrow> u64 \<Rightarrow> u64 \<Rightarrow> u64 option" where
  "seek_pos pos file_size offset whence =
     (if whence = 0 then if sint offset < 0 then None else Some offset
      else if whence = 1 then if sint offset < 0 \<and> - offset > pos then None else Some (pos + offset)
      else if whence = 2 then if sint offset < 0 \<and> - offset > file_size then None else Some (file_size + offset)
      else None)"

definition syscall_lseek_fd :: "u64 \<Rightarrow> u64 \<Rightarrow> u64 \<Rightarrow> 'io sys_state \<Rightarrow> (u64 \<times> 'io sys_state) option" where
  "syscall_lseek_fd fd offset whence s =
     (case syscall_fd_slot_from_fd fd of
        None \<Rightarrow> Some (-1, s)
      | Some i \<Rightarrow>
          if fd_type (syscall_fds s ! i) \<noteq> FD_TYPE_FILE then Some (-1, s)
          else do {
            st \<leftarrow> fs_stat (sys_fs s) (Some (fd_path (syscall_fds s ! i)));
            Some (case st of
                    None \<Rightarrow> (-1, s)
                  | Some (is_dir, sz) \<Rightarrow>
                      if is_dir then (-1, s)
                      else (case seek_pos (fd_pos (syscall_fds s ! i)) (of_nat sz) offset whence of
                              None \<Rightarrow> (-1, s)
                            | Some p \<Rightarrow> (p, upd_fd i (\<lambda>e. e\<lparr>fd_pos := p\<rparr>) s))) })"

section \<open>Anonymous mappings\<close>

definition munmap_page :: "u64 \<Rightarrow> mem_state \<Rightarrow> mem_state" where
  "munmap_page v m =
     (let p = paging_get_phys m v; m1 = paging_unmap_page v m in if p \<noteq> 0 then phys_free_page p m1 else m1)"

definition munmap_pages :: "u64 \<Rightarrow> nat \<Rightarrow> mem_state \<Rightarrow> mem_state" where
  "munmap_pages base n m = fold (\<lambda>j. munmap_page (base + of_nat j * MEMORY_PAGE_SIZE)) [0..<n] m"

text \<open>The mapping loop; False when it failed at some page, the earlier ones being released again.\<close>

fun mmap_loop :: "u64 \<Rightarrow> u64 \<Rightarrow> nat list \<Rightarrow> mem_state \<Rightarrow> bool \<times> mem_state" where
  "mmap_loop base map_flags [] m = (True, m)"
| "mmap_loop base map_flags (i # is) m =
     (case phys_alloc_page m of (phys, m1) \<Rightarrow>
        if phys = 0 then (False, munmap_pages base i m1)
        else (case paging_map_page (memory_zero_phys_page phys m1) (base + of_nat i * MEMORY_PAGE_SIZE) phys map_flags of
                (rc, m2) \<Rightarrow>
                  if rc \<noteq> 0 then (False, munmap_pages base i (phys_free_page phys m2))
                  else mmap_loop base map_flags is m2))"

definition mmap_flags :: "u64 \<Rightarrow> u64" where
  "mmap_flags prot =
     (PAGE_FLAG_PRESENT OR PAGE_FLAG_USER) OR (if prot AND 0x2 \<noteq> 0 then PAGE_FLAG_WRITABLE else 0)
       OR (if prot AND 0x4 = 0 then PAGE_FLAG_NO_EXECUTE else 0)"

definition syscall_do_mmap :: "u64 \<Rightarrow> u64 \<Rightarrow> u64 \<Rightarrow> u64 \<Rightarrow> 'io sys_state \<Rightarrow> u64 \<times> 'io sys_state" where
  "syscall_do_mmap addr_hint len prot flags s =
     (if flags AND 0x20 = 0 \<or> len = 0 then (-1, s)
      else let page_count = (len + MEMORY_PAGE_SIZE - 1) div MEMORY_PAGE_SIZE in
        if page_count = 0 \<or> page_count > 256 then (-1, s)
        else (case List.find (\<lambda>i. \<not> mm_used (syscall_mmap_tbl s ! i)) [0..<MMAP_MAX_ENTRIES] of
                None \<Rightarrow> (-1, s)
              | Some slot_i \<Rightarrow>
                  let base = syscall_mmap_bump s in
                  (case mmap_loop base (mmap_flags prot) [0..<unat page_count] (sys_mem s) of
                     (False, m) \<Rightarrow> (-1, set_mem m s)
                   | (True, m) \<Rightarrow>
                       (base, (set_mem m s)\<lparr>
                          syscall_mmap_tbl := (syscall_mmap_tbl s)[slot_i := \<lparr>mm_virt_addr = base, mm_page_count = page_count, mm_used = True\<rparr>],
                          syscall_mmap_bump := syscall_mmap_bump s + page_count * MEMORY_PAGE_SIZE\<rparr>))))"

definition no_mmap :: mmap_entry where
  "no_mmap = \<lparr>mm_virt_addr = 0, mm_page_count = 0, mm_used = False\<rparr>"

definition release_mmap :: "nat \<Rightarrow> 'io sys_state \<Rightarrow> 'io sys_state" where
  "release_mmap i s =
     (let e = syscall_mmap_tbl s ! i;
          s1 = set_mem (munmap_pages (mm_virt_addr e) (unat (mm_page_count e)) (sys_mem s)) s
      in s1\<lparr>syscall_mmap_tbl := (syscall_mmap_tbl s)[i := no_mmap]\<rparr>)"

definition syscall_do_munmap :: "u64 \<Rightarrow> u64 \<Rightarrow> 'io sys_state \<Rightarrow> u64 \<times> 'io sys_state" where
  "syscall_do_munmap addr len s =
     (case List.find (\<lambda>i. mm_used (syscall_mmap_tbl s ! i) \<and> mm_virt_addr (syscall_mmap_tbl s ! i) = addr) [0..<MMAP_MAX_ENTRIES] of
        None \<Rightarrow> (-1, s)
      | Some i \<Rightarrow> (0, release_mmap i s))"

definition syscall_mmap_cleanup :: "'io sys_state \<Rightarrow> 'io sys_state" where
  "syscall_mmap_cleanup s =
     (fold (\<lambda>i s. if \<not> mm_used (syscall_mmap_tbl s ! i) then s else release_mmap i s) [0..<MMAP_MAX_ENTRIES] s)
       \<lparr>syscall_mmap_bump := MMAP_VA_BASE\<rparr>"

section \<open>Reading and writing descriptors\<close>

definition syscall_read_user :: "'io term_ops \<Rightarrow> u64 \<Rightarrow> u64 \<Rightarrow> 'io sys_state \<Rightarrow> u64 \<times> 'io sys_state" where
  "syscall_read_user T user_ptr capacity s =
     (if user_ptr = 0 \<or> capacity = 0 then (-1, s)
      else let cap = (if capacity > SYS_READ_MAX_BYTES then SYS_READ_MAX_BYTES else capacity);
               max_line = (if cap - 1 > 256 then 256 else cap - 1)
        in (case to_read_line T (max_line + 1) (sys_io s) of
              (None, io) \<Rightarrow> (-1, s\<lparr>sys_io := io\<rparr>)
            | (Some line, io) \<Rightarrow>
                let s1 = s\<lparr>sys_io := io\<rparr>;
                    n = (if of_nat (str_len line) > max_line then max_line else of_nat (str_len line))
                in (case user_copy_out user_ptr (map byte_of_char (take (unat n) line)) (sys_mem s1) of
                      (False, m) \<Rightarrow> (-1, set_mem m s1)
                    | (True, m) \<Rightarrow> (case user_copy_out (user_ptr + n) [0] m of
                        (False, m') \<Rightarrow> (-1, set_mem m' s1)
                      | (True, m') \<Rightarrow> (n, set_mem m' s1)))))"

text \<open>The bytes at the front of the ring.\<close>

definition pipe_bytes :: "pipe_buf \<Rightarrow> nat \<Rightarrow> u8 list" where
  "pipe_bytes p n = map (\<lambda>i. pb_data p (unat ((pb_head p + of_nat i) mod PIPE_BUF_SIZE))) [0..<n]"

definition pipe_read :: "nat \<Rightarrow> u64 \<Rightarrow> u64 \<Rightarrow> 'io sys_state \<Rightarrow> u64 \<times> 'io sys_state" where
  "pipe_read pi user_ptr count s =
     (let p = pipes s ! pi in
      if pb_count p = 0 then (0, s)
      else let take_n = (if count < pb_count p then count else pb_count p) in
        (case user_copy_out user_ptr (pipe_bytes p (unat take_n)) (sys_mem s) of
           (False, m) \<Rightarrow> (-1, set_mem m s)
         | (True, m) \<Rightarrow>
             (take_n, upd_pipe pi (\<lambda>p. p\<lparr>pb_head := (pb_head p + take_n) mod PIPE_BUF_SIZE, pb_count := pb_count p - take_n\<rparr>)
                        (set_mem m s))))"

definition file_read :: "nat \<Rightarrow> u64 \<Rightarrow> u64 \<Rightarrow> 'io sys_state \<Rightarrow> (u64 \<times> 'io sys_state) option" where
  "file_read i user_ptr count s = do {
     (rc, tmp, sz) \<leftarrow> fs_read_file (sys_fs s) (Some (fd_path (syscall_fds s ! i))) True FS_MAX_FILE_SIZE True;
     Some (if rc \<noteq> 0 then (-1, s)
           else let pos = fd_pos (syscall_fds s ! i) in
             if pos \<ge> of_nat sz then (0, s)
             else let avail = of_nat sz - pos; take_n = (if count < avail then count else avail) in
               (case user_copy_out user_ptr (take (unat take_n) (drop (unat pos) tmp)) (sys_mem s) of
                  (False, m) \<Rightarrow> (-1, set_mem m s)
                | (True, m) \<Rightarrow> (take_n, upd_fd i (\<lambda>e. e\<lparr>fd_pos := fd_pos e + take_n\<rparr>) (set_mem m s)))) }"

definition syscall_read_fd :: "'io term_ops \<Rightarrow> u64 \<Rightarrow> u64 \<Rightarrow> u64 \<Rightarrow> 'io sys_state \<Rightarrow> (u64 \<times> 'io sys_state) option" where
  "syscall_read_fd T fd user_ptr count s =
     (if fd = 0 then Some (if count = 0 then (0, s) else syscall_read_user T user_ptr count s)
      else (case syscall_fd_slot_from_fd fd of
              None \<Rightarrow> Some (-1, s)
            | Some i \<Rightarrow>
                let e = syscall_fds s ! i; n = (if count > SYS_READ_MAX_BYTES then SYS_READ_MAX_BYTES else count) in
                if fd_type e = FD_TYPE_NONE then Some (-1, s)
                else if n = 0 then Some (0, s)
                else if fd_type e = FD_TYPE_PIPE_READ then
                  Some (if fd_pipe_idx e < 0 \<or> fd_pipe_idx e \<ge> int PIPE_MAX then (-1, s)
                        else pipe_read (nat (fd_pipe_idx e)) user_ptr n s)
                else if fd_type e \<noteq> FD_TYPE_FILE then Some (-1, s)
                else file_read i user_ptr n s))"

text \<open>The copying loop of a pipe write: whether all bytes could be read, and the ring with those that were.\<close>

fun pipe_fill :: "mem_state \<Rightarrow> u64 \<Rightarrow> nat list \<Rightarrow> pipe_buf \<Rightarrow> bool \<times> pipe_buf" where
  "pipe_fill m user_ptr [] p = (True, p)"
| "pipe_fill m user_ptr (i # is) p =
     (if \<not> user_addr_readable m (user_ptr + of_nat i) then (False, p)
      else pipe_fill m user_ptr is
             (p\<lparr>pb_data := (pb_data p)(unat ((pb_head p + pb_count p + of_nat i) mod PIPE_BUF_SIZE) := vload_byte m (user_ptr + of_nat i))\<rparr>))"

definition pipe_write :: "nat \<Rightarrow> u64 \<Rightarrow> u64 \<Rightarrow> 'io sys_state \<Rightarrow> u64 \<times> 'io sys_state" where
  "pipe_write pi user_ptr len s =
     (let p = pipes s ! pi in
      if \<not> pb_read_open p then (-1, s)
      else if len = 0 then (0, s)
      else let len' = (if len > SYS_WRITE_MAX_BYTES then SYS_WRITE_MAX_BYTES else len);
               space = PIPE_BUF_SIZE - pb_count p;
               take_n = (if len' < space then len' else space)
        in if take_n = 0 then (0, s)
           else (case pipe_fill (sys_mem s) user_ptr [0..<unat take_n] p of
                   (False, p') \<Rightarrow> (-1, upd_pipe pi (\<lambda>_. p') s)
                 | (True, p') \<Rightarrow> (take_n, upd_pipe pi (\<lambda>_. p'\<lparr>pb_count := pb_count p' + take_n\<rparr>) s)))"

definition syscall_write_fd :: "u64 \<Rightarrow> u64 \<Rightarrow> u64 \<Rightarrow> 'io sys_state \<Rightarrow> u64 \<times> 'io sys_state" where
  "syscall_write_fd fd user_ptr len_or_zero s =
     (if fd = 1 \<or> fd = 2 then syscall_write_user user_ptr len_or_zero s
      else (case syscall_fd_slot_from_fd fd of
              None \<Rightarrow> (-1, s)
            | Some i \<Rightarrow>
                let e = syscall_fds s ! i in
                if fd_type e \<noteq> FD_TYPE_PIPE_WRITE then (-1, s)
                else if fd_pipe_idx e < 0 \<or> fd_pipe_idx e \<ge> int PIPE_MAX then (-1, s)
                else pipe_write (nat (fd_pipe_idx e)) user_ptr len_or_zero s))"

section \<open>Pipes\<close>

definition word_bytes :: "u64 \<Rightarrow> u8 list" where
  "word_bytes v = map (\<lambda>k. ucast (drop_bit (8 * k) v)) [0..<8]"

definition syscall_do_pipe :: "u64 \<Rightarrow> 'io sys_state \<Rightarrow> u64 \<times> 'io sys_state" where
  "syscall_do_pipe user_array s =
     (if user_array = 0 then (-1, s)
      else (case List.find (\<lambda>i. \<not> pb_read_open (pipes s ! i) \<and> \<not> pb_write_open (pipes s ! i)) [0..<PIPE_MAX] of
        None \<Rightarrow> (-1, s)
      | Some pi \<Rightarrow>
        (case filter (\<lambda>i. fd_type (syscall_fds s ! i) = FD_TYPE_NONE) [0..<SYSCALL_FD_MAX] of
           slot_r # slot_w # _ \<Rightarrow>
             let s1 = upd_pipe pi (\<lambda>p. p\<lparr>pb_head := 0, pb_count := 0, pb_read_open := True, pb_write_open := True\<rparr>) s;
                 s2 = upd_fd slot_r (\<lambda>e. e\<lparr>fd_type := FD_TYPE_PIPE_READ, fd_pos := 0, fd_path := [], fd_pipe_idx := int pi\<rparr>) s1;
                 s3 = upd_fd slot_w (\<lambda>e. e\<lparr>fd_type := FD_TYPE_PIPE_WRITE, fd_pos := 0, fd_path := [], fd_pipe_idx := int pi\<rparr>) s2;
                 (ok_r, m1) = user_copy_out user_array (word_bytes (3 + of_nat slot_r)) (sys_mem s3);
                 (ok_w, m2) = (if ok_r then user_copy_out (user_array + 8) (word_bytes (3 + of_nat slot_w)) m1 else (False, m1))
             in if \<not> ok_r \<or> \<not> ok_w
                then (-1, upd_pipe pi (\<lambda>p. p\<lparr>pb_read_open := False, pb_write_open := False\<rparr>)
                            (upd_fd slot_w (\<lambda>e. e\<lparr>fd_type := FD_TYPE_NONE\<rparr>)
                              (upd_fd slot_r (\<lambda>e. e\<lparr>fd_type := FD_TYPE_NONE\<rparr>) (set_mem m2 s3))))
                else (0, set_mem m2 s3)
         | _ \<Rightarrow> (-1, s))))"

definition syscall_do_poll :: "'io term_ops \<Rightarrow> u64 \<Rightarrow> u64 \<Rightarrow> 'io sys_state \<Rightarrow> u64" where
  "syscall_do_poll T fd timeout_ms s =
     (if fd = 0 then if to_input_available T (sys_io s) then 1 else 0
      else (case syscall_fd_slot_from_fd fd of
              None \<Rightarrow> -1
            | Some i \<Rightarrow>
                let e = syscall_fds s ! i in
                if fd_type e = FD_TYPE_NONE then -1
                else if fd_type e = FD_TYPE_PIPE_READ then
                  if fd_pipe_idx e < 0 \<or> fd_pipe_idx e \<ge> int PIPE_MAX then -1
                  else if pb_count (pipes s ! nat (fd_pipe_idx e)) > 0 then 1 else 0
                else if fd_type e = FD_TYPE_FILE then 1
                else -1))"

section \<open>Tasks and the heap\<close>

text \<open>The memory manager as the scheduler uses it.\<close>

definition kernel_stacks :: "mem_state stack_ops" where
  "kernel_stacks = \<lparr>so_alloc = (\<lambda>m. virt_alloc_pages m 8), so_free = (\<lambda>a. virt_free_pages a 8), so_store = vstore\<rparr>"

definition syscall_do_kill :: "u64 \<Rightarrow> u64 \<Rightarrow> 'io sys_state \<Rightarrow> (u64 \<times> 'io sys_state) option" where
  "syscall_do_kill pid sig s =
     (let tid = (ucast pid :: u32); code = (\<lambda>rc :: int. if rc = 0 then 0 else -1) in
      if tid = 0 then Some (-1, s)
      else if sig = 9 \<or> sig = 15 then
        map_option (\<lambda>(rc, sc). (code rc, s\<lparr>sys_sched := sc\<rparr>)) (task_kill kernel_stacks (sys_sched s) tid)
      else if sig = 19 then (case task_stop (sys_sched s) tid of (rc, sc) \<Rightarrow> Some (code rc, s\<lparr>sys_sched := sc\<rparr>))
      else if sig = 18 then (case task_continue (sys_sched s) tid of (rc, sc) \<Rightarrow> Some (code rc, s\<lparr>sys_sched := sc\<rparr>))
      else Some (-1, s))"

definition syscall_do_getpid :: "'io sys_state \<Rightarrow> u64" where
  "syscall_do_getpid s = ucast (tk_id (tasks (sys_sched s) (current_task (sys_sched s))))"

definition syscall_brk :: "u64 \<Rightarrow> 'io sys_state \<Rightarrow> u64 \<times> 'io sys_state" where
  "syscall_brk new_break s =
     (case task_user_heap_brk new_break ((sys_heap s)\<lparr>heap_mem := sys_mem s, heap_out := sys_out s\<rparr>) of
        (r, h) \<Rightarrow> (r, (set_mem (heap_mem h) s)\<lparr>sys_heap := h, sys_out := heap_out h\<rparr>))"

section \<open>Dispatch\<close>

text \<open>\<open>SYS_EXIT\<close> does not come back to its caller: its result is what \<open>task_exit\<close> does.\<close>

datatype 'io sys_outcome = Returns u64 "'io sys_state" | Exits "mem_state outcome" "'io sys_state"

definition returns :: "u64 \<times> 'io sys_state \<Rightarrow> 'io sys_outcome" where
  "returns r = Returns (fst r) (snd r)"

definition syscall_dispatch :: "'io term_ops \<Rightarrow> u64 \<Rightarrow> u64 \<Rightarrow> u64 \<Rightarrow> u64 \<Rightarrow> u64 \<Rightarrow> 'io sys_state \<Rightarrow> 'io sys_outcome option" where
  "syscall_dispatch T num a1 a2 a3 a4 s =
     (if num = 1 \<and> a1 \<ge> 0x1000 then Some (returns (syscall_write_user a1 a2 s))
      else if num = 0 then map_option returns (syscall_read_fd T a1 a2 a3 s)
      else if num = 1 then Some (returns (syscall_write_fd a1 a2 a3 s))
      else if num = 2 then map_option returns (syscall_open_user a1 s)
      else if num = 3 then Some (returns (syscall_close_fd a1 s))
      else if num = 8 then map_option returns (syscall_lseek_fd a1 a2 a3 s)
      else if num = 9 then Some (returns (syscall_do_mmap a1 a2 a3 a4 s))
      else if num = 11 then Some (returns (syscall_do_munmap a1 a2 s))
      else if num = 12 then Some (returns (syscall_brk a1 s))
      else if num = 22 then Some (returns (syscall_do_pipe a1 s))
      else if num = 62 then map_option returns (syscall_do_kill a1 a2 s)
      else if num = 39 then Some (returns (syscall_do_getpid s, s))
      else if num = 7 then Some (returns (syscall_do_poll T a1 a2 s, s))
      else if num = 60 then map_option (\<lambda>out. Exits out s) (task_exit (sys_sched s))
      else Some (returns (-1, s)))"

end
