(* ===== verification/Mem_Bits.thy ===== *)
theory Mem_Bits
  imports Memory
begin

text \<open>
  The page bitmaps as sets of free pages, the first-fit search, and the count of free pages: what
  allocation and release of physical and virtual pages do to them.
\<close>

section \<open>Single bits\<close>

lemma bm_free_bit: "bm_is_free bm i \<longleftrightarrow> \<not> bit (bm (i div 8)) (i mod 8)"
  by (simp add: bm_is_free_def push_bit_of_1 and_exp_eq_0_iff_not_bit)

lemma byte_bit_eq: "i div 8 = j div 8 \<and> i mod 8 = j mod 8 \<longleftrightarrow> i = (j::nat)"
  by (metis div_mult_mod_eq)

lemma bit_one_bit: "n < 8 \<Longrightarrow> bit ((2::u8) ^ n) k \<longleftrightarrow> k = n"
  by (auto simp: bit_simps)

lemma bm_used_free [simp]: "bm_is_free (bm_mark_used bm i) j \<longleftrightarrow> bm_is_free bm j \<and> j \<noteq> i"
  using byte_bit_eq [of i j] byte_bit_eq [of j i]
  by (cases "i div 8 = j div 8") (auto simp: bm_free_bit bm_mark_used_def bit_or_iff bit_one_bit)

lemma bm_free_free [simp]: "bm_is_free (bm_mark_free bm i) j \<longleftrightarrow> bm_is_free bm j \<or> j = i"
proof (cases "i div 8 = j div 8")
  case True
  have "bit (NOT (push_bit (i mod 8) (1::u8))) (j mod 8) \<longleftrightarrow> j mod 8 \<noteq> i mod 8"
    by (simp add: bit_not_iff bit_one_bit)
  then show ?thesis using True byte_bit_eq [of i j] by (auto simp: bm_free_bit bm_mark_free_def bit_and_iff)
next
  case False
  then show ?thesis by (auto simp: bm_free_bit bm_mark_free_def)
qed

lemma page_marks [simp]:
  "page_is_free (page_mark_used i m) j \<longleftrightarrow> page_is_free m j \<and> j \<noteq> i"
  "page_is_free (page_mark_free i m) j \<longleftrightarrow> page_is_free m j \<or> j = i"
  "page_is_free (virt_page_mark_used i m) j = page_is_free m j"
  "page_is_free (virt_page_mark_free i m) j = page_is_free m j"
  "virt_page_is_free (virt_page_mark_used i m) j \<longleftrightarrow> virt_page_is_free m j \<and> j \<noteq> i"
  "virt_page_is_free (virt_page_mark_free i m) j \<longleftrightarrow> virt_page_is_free m j \<or> j = i"
  "virt_page_is_free (page_mark_used i m) j = virt_page_is_free m j"
  "virt_page_is_free (page_mark_free i m) j = virt_page_is_free m j"
  by (simp_all add: page_is_free_def virt_page_is_free_def page_mark_used_def page_mark_free_def
      virt_page_mark_used_def virt_page_mark_free_def)

lemma mark_frames [frame_simps]:
  "pmem (page_mark_used i m) = pmem m" "cr3 (page_mark_used i m) = cr3 m"
  "pmem (page_mark_free i m) = pmem m" "cr3 (page_mark_free i m) = cr3 m"
  "pmem (virt_page_mark_used i m) = pmem m" "cr3 (virt_page_mark_used i m) = cr3 m"
  "pmem (virt_page_mark_free i m) = pmem m" "cr3 (virt_page_mark_free i m) = cr3 m"
  "free_page_count (page_mark_used i m) = free_page_count m" "free_page_count (page_mark_free i m) = free_page_count m"
  "free_page_count (virt_page_mark_used i m) = free_page_count m"
  "free_page_count (virt_page_mark_free i m) = free_page_count m"
  "virt_bitmap (page_mark_used i m) = virt_bitmap m" "virt_bitmap (page_mark_free i m) = virt_bitmap m"
  "phys_bitmap (virt_page_mark_used i m) = phys_bitmap m" "phys_bitmap (virt_page_mark_free i m) = phys_bitmap m"
  by (simp_all add: page_mark_used_def page_mark_free_def virt_page_mark_used_def virt_page_mark_free_def)

lemma field_frames [frame_simps]:
  "page_is_free (m\<lparr>free_page_count := c\<rparr>) j = page_is_free m j" "page_is_free (m\<lparr>total_page_count := c\<rparr>) j = page_is_free m j"
  "page_is_free (m\<lparr>pmem := f\<rparr>) j = page_is_free m j"
  "virt_page_is_free (m\<lparr>free_page_count := c\<rparr>) j = virt_page_is_free m j"
  "virt_page_is_free (m\<lparr>total_page_count := c\<rparr>) j = virt_page_is_free m j"
  "virt_page_is_free (m\<lparr>pmem := f\<rparr>) j = virt_page_is_free m j"
  by (simp_all add: page_is_free_def virt_page_is_free_def)

section \<open>The search\<close>

definition fits :: "(nat \<Rightarrow> bool) \<Rightarrow> nat \<Rightarrow> nat \<Rightarrow> bool" where
  "fits f count x \<longleftrightarrow> (\<forall>i. x \<le> i \<and> i < x + count \<longrightarrow> f i)"

lemma run_scan_spec:
  assumes "run < count" and "run \<le> page" and "run > 0 \<longrightarrow> start = page - run" and "page \<le> limit"
    and "\<forall>i. page - run \<le> i \<and> i < page \<longrightarrow> f i" and "\<forall>x < page - run. \<not> fits f count x"
  shows "case run_scan f limit count page run start of
      Some s \<Rightarrow> s + count \<le> limit \<and> fits f count s \<and> (\<forall>x < s. \<not> fits f count x)
    | None \<Rightarrow> (\<forall>x. x + count \<le> limit \<longrightarrow> \<not> fits f count x)"
  using assms
proof (induction f limit count page run start rule: run_scan.induct)
  case (1 f limit count page run start)
  note prems = 1(3-)
  show ?case
  proof (cases "page < limit")
    case False
    have "\<not> fits f count x" if "x + count \<le> limit" for x
      using that prems False by (cases "x < page - run") auto
    with False show ?thesis by (subst run_scan.simps) simp
  next
    case True
    show ?thesis
    proof (cases "f page")
      case free: True
      let ?s = "if run = 0 then page else start"
      have s: "?s = page - run" using prems by auto
      show ?thesis
      proof (cases "run + 1 = count")
        case fin: True
        have "fits f count ?s"
          unfolding fits_def s using prems free fin by (metis Suc_eq_plus1 add_Suc_right le_add_diff_inverse2 less_SucE)
        then show ?thesis using True free fin prems s by (subst run_scan.simps) (auto simp: Let_def)
      next
        case False
        have "\<forall>i. page + 1 - (run + 1) \<le> i \<and> i < page + 1 \<longrightarrow> f i"
          using prems free less_Suc_eq by auto
        then have "case run_scan f limit count (page + 1) (run + 1) ?s of
            Some s \<Rightarrow> s + count \<le> limit \<and> fits f count s \<and> (\<forall>x < s. \<not> fits f count x)
          | None \<Rightarrow> (\<forall>x. x + count \<le> limit \<longrightarrow> \<not> fits f count x)"
          using False prems True s by (intro 1(1) [OF True free refl refl False]) auto
        then show ?thesis using True free False by (subst run_scan.simps) (simp add: Let_def)
      qed
    next
      case used: False
      have no: "\<not> fits f count x" if "x < page + 1" for x
      proof (cases "x < page - run")
        case False
        with that prems have "x \<le> page" "page < x + count" by auto
        with used show ?thesis by (auto simp: fits_def)
      qed (use prems in simp)
      have "case run_scan f limit count (page + 1) 0 start of
          Some s \<Rightarrow> s + count \<le> limit \<and> fits f count s \<and> (\<forall>x < s. \<not> fits f count x)
        | None \<Rightarrow> (\<forall>x. x + count \<le> limit \<longrightarrow> \<not> fits f count x)"
        using prems True no by (intro 1(2) [OF True used]) auto
      then show ?thesis using True used by (subst run_scan.simps) simp
    qed
  qed
qed

lemma run_scan_first:
  assumes "0 < count"
  shows "run_scan f limit count 0 0 0 = Some s \<Longrightarrow> s + count \<le> limit \<and> fits f count s \<and> (\<forall>x < s. \<not> fits f count x)"
    and "run_scan f limit count 0 0 0 = None \<Longrightarrow> x + count \<le> limit \<Longrightarrow> \<not> fits f count x"
  using run_scan_spec [of 0 count 0 0 limit f] assms by (auto split: option.splits)

section \<open>Marking runs\<close>

lemma mark_used_run [simp]:
  "page_is_free (fold (\<lambda>i. page_mark_used (start + i)) [0..<n] m) j \<longleftrightarrow>
     page_is_free m j \<and> \<not> (start \<le> j \<and> j < start + n)"
  by (induction n) auto

lemma mark_used_run_frame [frame_simps]:
  "pmem (fold (\<lambda>i. page_mark_used (start + i)) [0..<n] m) = pmem m"
  "cr3 (fold (\<lambda>i. page_mark_used (start + i)) [0..<n] m) = cr3 m"
  "virt_bitmap (fold (\<lambda>i. page_mark_used (start + i)) [0..<n] m) = virt_bitmap m"
  by (induction n) (auto simp: frame_simps)

lemma mark_virtual_run_free [simp]:
  "virt_page_is_free (mark_virtual_run start n True m) j \<longleftrightarrow> virt_page_is_free m j \<and> \<not> (start \<le> j \<and> j < start + n)"
  "virt_page_is_free (mark_virtual_run start n False m) j \<longleftrightarrow> virt_page_is_free m j \<or> (start \<le> j \<and> j < start + n)"
  unfolding mark_virtual_run_def by (induction n; auto)+

lemma mark_virtual_run_frame [frame_simps]:
  "pmem (mark_virtual_run start n b m) = pmem m" "cr3 (mark_virtual_run start n b m) = cr3 m"
  "phys_bitmap (mark_virtual_run start n b m) = phys_bitmap m"
  "free_page_count (mark_virtual_run start n b m) = free_page_count m"
  unfolding mark_virtual_run_def by (induction n; auto simp: frame_simps)+

lemma page_is_free_virtual_run [frame_simps]: "page_is_free (mark_virtual_run start n b m) j = page_is_free m j"
  by (simp add: page_is_free_def frame_simps)

section \<open>Accounting\<close>

definition free_set :: "mem_state \<Rightarrow> nat set" where
  "free_set m = {i. i < MEMORY_MAX_PAGES \<and> page_is_free m i}"

definition counted :: "mem_state \<Rightarrow> bool" where
  "counted m \<longleftrightarrow> free_page_count m = of_nat (card (free_set m))"

text \<open>The counter is the number of free pages, and page 0 is never free, so that address 0 can mean
  failure.\<close>

definition mem_inv :: "mem_state \<Rightarrow> bool" where
  "mem_inv m \<longleftrightarrow> counted m \<and> \<not> page_is_free m 0"

lemma finite_free_set [simp]: "finite (free_set m)"
  by (rule finite_subset [of _ "{..<MEMORY_MAX_PAGES}"]) (auto simp: free_set_def)

lemma counted_cong:
  "(\<And>j. page_is_free m' j = page_is_free m j) \<Longrightarrow> free_page_count m' = free_page_count m \<Longrightarrow> counted m' = counted m"
  by (simp add: counted_def free_set_def)

lemma mem_inv_cong:
  "(\<And>j. page_is_free m' j = page_is_free m j) \<Longrightarrow> free_page_count m' = free_page_count m \<Longrightarrow> mem_inv m' = mem_inv m"
  using counted_cong [of m' m] by (simp add: mem_inv_def)

lemma counted_remove:
  assumes "counted m" and "A \<subseteq> free_set m" and "free_set m' = free_set m - A"
    and "free_page_count m' = free_page_count m - of_nat (card A)"
  shows "counted m'"
proof -
  have fin: "finite A" using assms(2) finite_free_set by (rule finite_subset)
  then have "card (free_set m') = card (free_set m) - card A" unfolding assms(3) by (rule card_Diff_subset) (rule assms(2))
  moreover have "card A \<le> card (free_set m)" using assms(2) by (intro card_mono) simp_all
  ultimately show ?thesis using assms(1,4) by (simp add: counted_def)
qed

lemma counted_add:
  assumes "counted m" and "i \<notin> free_set m" and "free_set m' = insert i (free_set m)"
    and "free_page_count m' = free_page_count m + 1"
  shows "counted m'"
  using assms by (simp add: counted_def add.commute)

lemma free_set_mark [simp]:
  "free_set (page_mark_used i m) = free_set m - {i}"
  "i < MEMORY_MAX_PAGES \<Longrightarrow> free_set (page_mark_free i m) = insert i (free_set m)"
  by (auto simp: free_set_def)

lemma free_set_frames [frame_simps]:
  "free_set (m\<lparr>free_page_count := c\<rparr>) = free_set m" "free_set (m\<lparr>total_page_count := c\<rparr>) = free_set m"
  "free_set (m\<lparr>pmem := f\<rparr>) = free_set m"
  by (simp_all add: free_set_def frame_simps)

lemma free_one_counted [inv_intros]:
  assumes "counted m"
  shows "counted (free_one i m)"
proof (cases "i < MEMORY_MAX_PAGES \<and> \<not> page_is_free m i")
  case True
  then show ?thesis
    by (intro counted_add [OF assms, of i]) (auto simp: free_one_def frame_simps free_set_def)
qed (use assms in \<open>auto simp: free_one_def\<close>)

lemma release_page_counted:
  assumes "counted m" and "i < MEMORY_MAX_PAGES"
  shows "counted (release_page i m)"
proof (cases "page_is_free m i")
  case False
  with assms(2) show ?thesis
    by (intro counted_add [OF assms(1), of i]) (auto simp: release_page_def frame_simps free_set_def)
qed (use assms in \<open>simp add: release_page_def\<close>)

lemma reserve_page_counted:
  assumes "counted m"
  shows "counted (reserve_page i m)"
proof (cases "i < MEMORY_MAX_PAGES \<and> page_is_free m i")
  case True
  then show ?thesis
    by (intro counted_remove [OF assms, of "{i}"]) (auto simp: reserve_page_def frame_simps free_set_def)
qed (use assms in \<open>auto simp: reserve_page_def\<close>)

lemma fold_counted:
  assumes "\<And>i m. i \<in> set is \<Longrightarrow> counted m \<Longrightarrow> counted (f i m)" and "counted m"
  shows "counted (fold f is m)"
  using assms by (induction "is" arbitrary: m) auto

section \<open>A small machine\<close>

text \<open>Eight free pages, 16 to 23, and an empty root table at address 0: the machine of the examples.\<close>

definition demo_mem :: mem_state where
  "demo_mem = \<lparr>phys_bitmap = (\<lambda>i. if i = 2 then 0 else 0xFF), virt_bitmap = (\<lambda>_. 0), total_page_count = 8,
     free_page_count = 8, pmem = (\<lambda>_. 0), cr3 = 0\<rparr>"

lemma demo_free: "page_is_free demo_mem j \<longleftrightarrow> 16 \<le> j \<and> j < 24"
proof -
  have "j mod 8 \<in> {0, 1, 2, 3, 4, 5, 6, 7}" by auto
  then have "(255 :: u8) AND push_bit (j mod 8) 1 \<noteq> 0" by (elim insertE) simp_all
  then have "page_is_free demo_mem j \<longleftrightarrow> j div 8 = 2"
    by (simp add: page_is_free_def bm_is_free_def demo_mem_def)
  then show ?thesis by auto
qed

lemma demo_inv: "mem_inv demo_mem"
proof -
  have "free_set demo_mem = {16..<24}" by (auto simp: free_set_def demo_free)
  moreover have "free_page_count demo_mem = 8" by (simp add: demo_mem_def)
  ultimately show ?thesis by (simp add: mem_inv_def counted_def demo_free)
qed

lemmas alloc_eval = phys_alloc_page_def phys_alloc_pages_def run_scan.simps page_is_free_def bm_is_free_def
  page_mark_used_def bm_mark_used_def

section \<open>Physical allocation\<close>

lemma phys_alloc_cases:
  assumes inv: "mem_inv m" and count: "count \<noteq> 0" and alloc: "phys_alloc_pages m count = (a, m')"
  shows "(a = 0 \<and> m' = m \<and> (\<forall>x. x + unat count \<le> MEMORY_MAX_PAGES \<longrightarrow> \<not> fits (page_is_free m) (unat count) x)) \<or>
    (\<exists>start. a = of_nat (start * 4096) \<and> 0 < start \<and> start + unat count \<le> MEMORY_MAX_PAGES \<and>
       fits (page_is_free m) (unat count) start \<and> (\<forall>x < start. \<not> fits (page_is_free m) (unat count) x) \<and>
       (\<forall>j. page_is_free m' j \<longleftrightarrow> page_is_free m j \<and> \<not> (start \<le> j \<and> j < start + unat count)) \<and> mem_inv m' \<and>
       virt_bitmap m' = virt_bitmap m \<and> pmem m' = pmem m \<and> cr3 m' = cr3 m)"
proof (cases "run_scan (page_is_free m) MEMORY_MAX_PAGES (unat count) 0 0 0")
  case None
  have "0 < unat count" using count by (simp add: unat_gt_0)
  from run_scan_first(2) [OF this None] None alloc count show ?thesis by (auto simp: phys_alloc_pages_def)
next
  case (Some start)
  have pos: "0 < unat count" using count by (simp add: unat_gt_0)
  note r = run_scan_first(1) [OF pos Some]
  then have st: "start + unat count \<le> MEMORY_MAX_PAGES" "fits (page_is_free m) (unat count) start" by simp_all
  have "page_is_free m start" using st(2) pos by (simp add: fits_def)
  then have "0 < start" using inv by (cases "start = 0") (simp_all add: mem_inv_def)
  let ?m = "(fold (\<lambda>i. page_mark_used (start + i)) [0..<unat count] m)\<lparr>free_page_count := free_page_count m - count\<rparr>"
  have m': "m' = ?m" "a = of_nat (start * 4096)" using alloc Some count by (auto simp: phys_alloc_pages_def)
  have fr: "page_is_free m' j \<longleftrightarrow> page_is_free m j \<and> \<not> (start \<le> j \<and> j < start + unat count)" for j
    by (simp add: m'(1) frame_simps)
  have "counted m'"
  proof (rule counted_remove [of m "{start..<start + unat count}"])
    show "counted m" using inv by (simp add: mem_inv_def)
    show "{start..<start + unat count} \<subseteq> free_set m" using st by (auto simp: free_set_def fits_def)
    show "free_set m' = free_set m - {start..<start + unat count}" by (auto simp: free_set_def fr)
    show "free_page_count m' = free_page_count m - of_nat (card {start..<start + unat count})" by (simp add: m'(1))
  qed
  moreover have "\<not> page_is_free m' 0" using inv fr by (simp add: mem_inv_def)
  ultimately have "mem_inv m'" by (simp add: mem_inv_def)
  with r \<open>0 < start\<close> m' fr show ?thesis
    by (intro disjI2 exI [of _ start]) (simp add: frame_simps)
qed

lemma unat_page_addr:
  assumes "start \<le> MEMORY_MAX_PAGES"
  shows "unat (of_nat (start * 4096) :: u64) = start * 4096"
proof -
  have "start * 4096 < 18446744073709551616" using assms by simp
  then show ?thesis unfolding unat_of_nat by simp
qed

lemma page_addr_nonzero:
  assumes "0 < start" and "start \<le> MEMORY_MAX_PAGES"
  shows "(of_nat (start * 4096) :: u64) \<noteq> 0"
proof
  assume "(of_nat (start * 4096) :: u64) = 0"
  with unat_page_addr [OF assms(2)] assms(1) show False by simp
qed

lemma page_addr_div:
  assumes "start \<le> MEMORY_MAX_PAGES"
  shows "unat ((of_nat (start * 4096) :: u64) div 4096) = start"
proof -
  have "unat ((of_nat (start * 4096) :: u64) div 4096) = unat (of_nat (start * 4096) :: u64) div unat (4096 :: u64)"
    by (rule unat_div)
  then show ?thesis unfolding unat_page_addr [OF assms] by simp
qed

text \<open>C28: \<open>phys_alloc_pages\<close> is first fit: it takes the lowest run of free pages that is long enough,
  marks exactly that run used and subtracts it from the counter of free pages; it fails, changing
  nothing, only when there is no such run. A run it hands out never starts at address 0.\<close>

theorem phys_alloc_first_fit:
  assumes "mem_inv m" and "count \<noteq> 0" and "phys_alloc_pages m count = (a, m')"
  shows "(a = 0 \<and> m' = m \<and> (\<forall>x. x + unat count \<le> MEMORY_MAX_PAGES \<longrightarrow> \<not> fits (page_is_free m) (unat count) x)) \<or>
    (\<exists>start. a = of_nat (start * 4096) \<and> a \<noteq> 0 \<and> start + unat count \<le> MEMORY_MAX_PAGES \<and>
       fits (page_is_free m) (unat count) start \<and> (\<forall>x < start. \<not> fits (page_is_free m) (unat count) x) \<and>
       free_set m' = free_set m - {start..<start + unat count} \<and> mem_inv m')"
proof -
  consider "a = 0 \<and> m' = m \<and> (\<forall>x. x + unat count \<le> MEMORY_MAX_PAGES \<longrightarrow> \<not> fits (page_is_free m) (unat count) x)"
    | start where "a = of_nat (start * 4096)" "0 < start" "start + unat count \<le> MEMORY_MAX_PAGES"
      "fits (page_is_free m) (unat count) start" "\<forall>x < start. \<not> fits (page_is_free m) (unat count) x" "mem_inv m'"
      "\<forall>j. page_is_free m' j \<longleftrightarrow> page_is_free m j \<and> \<not> (start \<le> j \<and> j < start + unat count)"
    using phys_alloc_cases [OF assms] by (elim disjE exE conjE) simp_all
  then show ?thesis
  proof cases
    case (2 start)
    then have "free_set m' = free_set m - {start..<start + unat count}" by (auto simp: free_set_def)
    with 2 page_addr_nonzero [of start] show ?thesis by (intro disjI2 exI [of _ start] conjI) simp_all
  qed (rule disjI1)
qed

theorem phys_alloc_first_fit_witness:
  "fst (phys_alloc_pages demo_mem 2) = 0x10000 \<and> free_set (snd (phys_alloc_pages demo_mem 2)) = {18..<24}"
proof -
  have a: "phys_alloc_pages demo_mem 2 = (0x10000, snd (phys_alloc_pages demo_mem 2))"
    by (simp add: demo_mem_def alloc_eval)
  have "free_set demo_mem = {16..<24}" by (auto simp: free_set_def demo_free)
  moreover from phys_alloc_first_fit [OF demo_inv _ a] obtain start
    where start: "(0x10000 :: u64) = of_nat (start * 4096)" "start + 2 \<le> MEMORY_MAX_PAGES"
      and f: "free_set (snd (phys_alloc_pages demo_mem 2)) = free_set demo_mem - {start..<start + 2}" by auto
  moreover have "start = 16"
  proof -
    have "start \<le> MEMORY_MAX_PAGES" using start(2) by simp
    from unat_page_addr [OF this] have "unat (0x10000 :: u64) = start * 4096" unfolding start(1) .
    then show ?thesis by simp
  qed
  moreover have "fst (phys_alloc_pages demo_mem 2) = 0x10000" by (subst a) simp
  ultimately show ?thesis by auto
qed

section \<open>Physical release\<close>

lemma free_one_free [simp]:
  "page_is_free (free_one i m) j \<longleftrightarrow> page_is_free m j \<or> (j = i \<and> i < MEMORY_MAX_PAGES)"
  by (auto simp: free_one_def frame_simps)

lemma free_one_frame [frame_simps]:
  "pmem (free_one i m) = pmem m" "cr3 (free_one i m) = cr3 m" "virt_bitmap (free_one i m) = virt_bitmap m"
  by (simp_all add: free_one_def frame_simps)

lemma free_run [simp]:
  "page_is_free (fold (\<lambda>i. free_one (p + i)) [0..<n] m) j \<longleftrightarrow>
     page_is_free m j \<or> (p \<le> j \<and> j < p + n \<and> j < MEMORY_MAX_PAGES)"
  by (induction n) auto

lemma free_run_frame [frame_simps]:
  "pmem (fold (\<lambda>i. free_one (p + i)) [0..<n] m) = pmem m" "cr3 (fold (\<lambda>i. free_one (p + i)) [0..<n] m) = cr3 m"
  "virt_bitmap (fold (\<lambda>i. free_one (p + i)) [0..<n] m) = virt_bitmap m"
  by (induction n) (auto simp: free_one_def frame_simps)

lemma phys_free_frame [frame_simps]:
  "pmem (phys_free_pages a n m) = pmem m" "cr3 (phys_free_pages a n m) = cr3 m"
  "virt_bitmap (phys_free_pages a n m) = virt_bitmap m" "pmem (phys_free_page a m) = pmem m"
  "cr3 (phys_free_page a m) = cr3 m" "virt_bitmap (phys_free_page a m) = virt_bitmap m"
  by (simp_all add: phys_free_pages_def phys_free_page_def frame_simps)

lemma phys_free_free:
  "page_is_free (phys_free_pages a n m) j \<longleftrightarrow> page_is_free m j \<or>
     (unat (a div 4096) \<le> j \<and> j < unat (a div 4096) + unat n \<and> j < MEMORY_MAX_PAGES)"
  by (simp add: phys_free_pages_def)

lemma phys_free_inv:
  assumes "mem_inv m" and "a div 4096 \<noteq> 0"
  shows "mem_inv (phys_free_pages a n m)"
proof -
  have "counted (phys_free_pages a n m)"
    unfolding phys_free_pages_def using assms(1)
    by (intro fold_counted free_one_counted) (simp_all add: mem_inv_def)
  moreover have "0 < unat (a div 4096)" using assms(2) by (simp add: unat_gt_0)
  ultimately show ?thesis using assms(1) by (simp add: mem_inv_def phys_free_free)
qed

text \<open>Freeing what was just allocated restores the free pages and the counter.\<close>

theorem phys_alloc_free:
  assumes "mem_inv m" and "count \<noteq> 0" and "phys_alloc_pages m count = (a, m')" and "a \<noteq> 0"
  shows "free_set (phys_free_pages a count m') = free_set m \<and>
    free_page_count (phys_free_pages a count m') = free_page_count m"
proof -
  from phys_alloc_cases [OF assms(1-3)] assms(4) obtain start
    where a: "a = of_nat (start * 4096)" "0 < start" "start + unat count \<le> MEMORY_MAX_PAGES"
      and fit: "fits (page_is_free m) (unat count) start" and inv: "mem_inv m'"
      and fr: "\<forall>j. page_is_free m' j \<longleftrightarrow> page_is_free m j \<and> \<not> (start \<le> j \<and> j < start + unat count)"
    by auto
  have d: "unat (a div 4096) = start" unfolding a(1) using a(3) by (intro page_addr_div) simp
  have s: "free_set (phys_free_pages a count m') = free_set m"
    using fit a(3) by (auto simp: free_set_def phys_free_free d fr fits_def)
  have "a div 4096 \<noteq> 0" using d a(2) by auto
  from phys_free_inv [OF inv this, of count] s assms(1) show ?thesis by (simp add: mem_inv_def counted_def)
qed

theorem phys_alloc_free_witness:
  "free_set (phys_free_pages 0x10000 2 (snd (phys_alloc_pages demo_mem 2))) = {16..<24}"
proof -
  have "phys_alloc_pages demo_mem 2 = (0x10000, snd (phys_alloc_pages demo_mem 2))"
    by (simp add: demo_mem_def alloc_eval)
  moreover have "free_set demo_mem = {16..<24}" by (auto simp: free_set_def demo_free)
  ultimately show ?thesis using phys_alloc_free [OF demo_inv] by simp
qed

section \<open>Initialisation\<close>

lemma all_used: "\<not> bm_is_free (\<lambda>_. 0xFF) i"
proof -
  have "i mod 8 \<in> {0, 1, 2, 3, 4, 5, 6, 7}" by auto
  then show ?thesis by (elim insertE) (simp_all add: bm_is_free_def)
qed

lemma release_region_counted:
  assumes "counted m"
  shows "counted (release_region a b m)"
proof (cases "a \<ge> MEMORY_MAX_PHYS")
  case False
  let ?e = "align_down (if b > MEMORY_MAX_PHYS then MEMORY_MAX_PHYS else b) MEMORY_PAGE_SIZE"
  have "?e \<le> (if b > MEMORY_MAX_PHYS then MEMORY_MAX_PHYS else b)"
    unfolding align_down_def by (rule word_and_le2)
  then have "?e \<le> MEMORY_MAX_PHYS" by (simp split: if_splits)
  then have "unat ?e \<le> 4294967296" by (simp add: word_le_nat_alt)
  then have "unat (?e div MEMORY_PAGE_SIZE) \<le> MEMORY_MAX_PAGES" by (simp add: unat_div)
  then have "counted (fold release_page [unat (align_up a MEMORY_PAGE_SIZE div MEMORY_PAGE_SIZE) ..< unat (?e div MEMORY_PAGE_SIZE)] m)"
    using assms by (intro fold_counted release_page_counted) simp_all
  with False show ?thesis by (simp add: release_region_def Let_def)
qed (use assms in \<open>simp add: release_region_def\<close>)

lemma reserve_region_counted: "counted m \<Longrightarrow> counted (reserve_region a b m)"
  unfolding reserve_region_def Let_def by (intro fold_counted reserve_page_counted) simp_all

lemma memmap_entries_counted:
  assumes "memmap_entries b es eo a m = Some m'"
  shows "counted m \<longrightarrow> counted m'"
proof (rule memmap_entries.raw_induct [where P = "\<lambda>b es eo a m m'. counted m \<longrightarrow> counted m'", OF _ assms])
  fix f b es eo a m m'
  assume 1: "\<And>b es eo a m m'. f b es eo a m = Some m' \<Longrightarrow> counted m \<longrightarrow> counted m'"
    "(if a + es \<le> eo then f b es eo (a + es)
        (if rd32_at b (a + 16) = 1
         then release_region (rd64_at b a) (rd64_at b a + rd64_at b (a + 8)) m else m)
      else Some m) = Some m'"
  show "counted m \<longrightarrow> counted m'"
  proof (cases "a + es \<le> eo")
    case True
    with 1(2) have "f b es eo (a + es)
      (if rd32_at b (a + 16) = 1 then release_region (rd64_at b a) (rd64_at b a + rd64_at b (a + 8)) m else m) = Some m'"
      by simp
    from 1(1) [OF this] show ?thesis by (auto intro: release_region_counted split: if_splits)
  next
    case False
    with 1(2) show ?thesis by simp
  qed
qed

lemma mb2_tags_counted:
  assumes "mb2_tags b a m = Some m'"
  shows "counted m \<longrightarrow> counted m'"
proof (rule mb2_tags.raw_induct [where P = "\<lambda>b a m m'. counted m \<longrightarrow> counted m'", OF _ assms])
  fix f b a m m'
  assume 1: "\<And>b a m m'. f b a m = Some m' \<Longrightarrow> counted m \<longrightarrow> counted m'"
    "(if rd32_at b a = 0 then Some m
      else do {
        m' \<leftarrow> (if rd32_at b a = 6
               then memmap_entries b (ucast (rd32_at b (a + 8))) (a + ucast (rd32_at b (a + 4))) (a + 16) m
               else Some m);
        f b (a + ucast ((rd32_at b (a + 4) + 7) AND NOT 7)) m' }) = Some m'"
  show "counted m \<longrightarrow> counted m'"
  proof (cases "rd32_at b a = 0")
    case False
    with 1(2) obtain m1 where m1: "(if rd32_at b a = 6
        then memmap_entries b (ucast (rd32_at b (a + 8))) (a + ucast (rd32_at b (a + 4))) (a + 16) m else Some m) = Some m1"
      and f: "f b (a + ucast ((rd32_at b (a + 4) + 7) AND NOT 7)) m1 = Some m'"
      by (auto simp: bind_eq_Some_conv)
    from m1 memmap_entries_counted have "counted m \<longrightarrow> counted m1" by (auto split: if_splits)
    with 1(1) [OF f] show ?thesis by blast
  qed (use 1(2) in simp)
qed

lemma reserve_fold_free:
  "page_is_free (fold reserve_page is m) j \<longleftrightarrow> page_is_free m j \<and> (j \<in> set is \<longrightarrow> j \<ge> MEMORY_MAX_PAGES)"
  by (induction "is" arbitrary: m) (auto simp: reserve_page_def frame_simps)

lemma reserve_region_free: "page_is_free (reserve_region a b m) j \<Longrightarrow> page_is_free m j"
  by (simp add: reserve_region_def Let_def reserve_fold_free)

text \<open>C29: Whatever memory map the boot loader passes, initialisation that ends leaves the counter equal to
  the number of free pages and the first megabyte (page 0 with it) in use, so physical allocation
  never returns it.\<close>

theorem memory_init_correct:
  assumes "memory_init b kernel_start kernel_end mb2 m = Some m'" and "mb2 \<noteq> 0"
  shows "mem_inv m' \<and> (\<forall>j < 256. \<not> page_is_free m' j)"
proof -
  let ?m0 = "virt_page_mark_used MEMORY_TEMP_PAGE_INDEX
                 (m\<lparr>phys_bitmap := (\<lambda>_. 0xFF), virt_bitmap := (\<lambda>_. 0), total_page_count := 0, free_page_count := 0\<rparr>)"
  from assms obtain m1 where m1: "mb2_tags b (mb2 + 8) ?m0 = Some m1"
    and m': "m' = (let m3 = reserve_region kernel_start kernel_end (reserve_region 0 0x100000 m1) in
       if rd32_at b mb2 \<noteq> 0 then reserve_region mb2 (mb2 + ucast (rd32_at b mb2)) m3 else m3)"
    by (auto simp: memory_init_def Let_def bind_eq_Some_conv)
  have "free_set ?m0 = {}" by (simp add: free_set_def) (simp add: page_is_free_def all_used)
  then have "counted ?m0" by (simp add: counted_def frame_simps)
  with mb2_tags_counted [OF m1] have "counted m1" by blast
  then have "counted m'" by (simp add: m' Let_def reserve_region_counted)
  moreover have "\<not> page_is_free m' j" if "j < 256" for j
  proof -
    have "\<not> page_is_free (reserve_region 0 0x100000 m1) j"
      using that by (simp add: reserve_region_def Let_def reserve_fold_free align_down_def align_up_def)
    then show ?thesis by (auto simp: m' Let_def dest: reserve_region_free split: if_splits)
  qed
  ultimately show ?thesis by (simp add: mem_inv_def)
qed

text \<open>A boot structure at 0x9000 with one tag, a memory map of one usable region from 0 to 0x110000.\<close>

definition demo_boot :: "u64 \<Rightarrow> u8" where
  "demo_boot a = (if a = 0x9000 then 56 else if a = 0x9008 then 6 else if a = 0x900C then 40 else if a = 0x9010 then 24
     else if a = 0x9022 then 0x11 else if a = 0x9028 then 1 else 0)"

theorem memory_init_correct_witness:
  "\<exists>m'. memory_init demo_boot 0x100000 0x108000 0x9000 demo_mem = Some m' \<and> mem_inv m'"
proof -
  have "\<exists>m'. memory_init demo_boot 0x100000 0x108000 0x9000 demo_mem = Some m'"
    apply (simp add: memory_init_def Let_def)
    apply (subst mb2_tags.simps, simp add: rd32_at_def demo_boot_def)
    apply (subst memmap_entries.simps, simp)
    apply (subst memmap_entries.simps, simp)
    apply (subst mb2_tags.simps, simp add: rd32_at_def demo_boot_def)
    done
  then obtain m' where m': "memory_init demo_boot 0x100000 0x108000 0x9000 demo_mem = Some m'" by blast
  with memory_init_correct [OF m'] show ?thesis by simp
qed

end
