(* ===== verification/Mem_Tables.thy ===== *)
theory Mem_Tables
  imports Mem_Bits "HOL-Library.Sublist"
begin

text \<open>
  The page tables as a tree: a table is named by the list of indices that leads to it from the root.
  \<open>pt_wf\<close> says that every table has one name and lies in a page marked used; so a write to one entry
  changes the tree below that entry only, and a freshly allocated page is no table.
\<close>

section \<open>Addresses\<close>

lemma dvd_mask: "4096 dvd unat (x AND PAGE_ADDR_MASK)"
proof -
  have "take_bit 12 (x AND PAGE_ADDR_MASK) = take_bit 12 x AND take_bit 12 PAGE_ADDR_MASK" by (rule take_bit_and)
  also have "\<dots> = 0" by simp
  finally have "unat (take_bit 12 (x AND PAGE_ADDR_MASK)) = 0" by simp
  then have "unat (x AND PAGE_ADDR_MASK) mod 4096 = 0" by (simp add: take_bit_eq_mod unat_mod)
  then show ?thesis by (simp add: dvd_eq_mod_eq_0)
qed

definition table_aligned :: "u64 \<Rightarrow> bool" where
  "table_aligned t \<longleftrightarrow> 4096 dvd unat t"

lemma table_from_entry_aligned [simp]: "table_aligned (page_table_from_entry e)" "table_aligned (root_page_table m)"
  using dvd_mask by (simp_all add: table_aligned_def page_table_from_entry_def root_page_table_def)

lemma aligned_top: "table_aligned t \<Longrightarrow> unat t + 4096 \<le> 18446744073709551616"
proof -
  assume "table_aligned t"
  then obtain k where "unat t = 4096 * k" by (auto simp: table_aligned_def)
  with unat_bounds(4) [of t] show ?thesis by simp
qed

lemma unat_slot:
  assumes "table_aligned t" and "i < 512"
  shows "unat (slot t i) = unat t + 8 * unat i"
proof -
  have i: "unat i < 512" using assms(2) by (simp add: word_less_nat_alt)
  then have "unat (8 * i) = 8 * unat i" by (subst unat_mult_lem [THEN iffD1]) simp_all
  moreover have "unat t + 8 * unat i < 18446744073709551616" using aligned_top [OF assms(1)] i by simp
  ultimately show ?thesis unfolding slot_def by (subst unat_add_lem [THEN iffD1]) simp_all
qed

lemma slot_page: "table_aligned t \<Longrightarrow> i < 512 \<Longrightarrow> unat (slot t i) div 4096 = unat t div 4096 \<and> unat (slot t i) mod 4096 = 8 * unat i"
proof -
  assume a: "table_aligned t" "i < 512"
  have i: "unat i < 512" using a(2) by (simp add: word_less_nat_alt)
  obtain k where "unat t = 4096 * k" using a(1) by (auto simp: table_aligned_def)
  then show ?thesis using i by (simp add: unat_slot [OF a])
qed

lemma slot_inj:
  assumes "table_aligned t" "i < 512" "table_aligned u" "j < 512" "slot t i = slot u j"
  shows "t = u \<and> i = j"
proof -
  from slot_page [OF assms(1,2)] slot_page [OF assms(3,4)] assms(5)
  have "unat t div 4096 = unat u div 4096" "unat i = unat j" by auto
  moreover from this(1) have "unat t = unat u" using assms(1,3) by (auto simp: table_aligned_def)
  ultimately show ?thesis by (simp add: word_unat_eq_iff)
qed

lemma index_bounds [simp]:
  "pml4_index a < 512" "pdpt_index a < 512" "pd_index a < 512" "pt_index a < 512"
proof -
  have "x AND 0x1FF < 512" for x :: u64
  proof -
    have "x AND 0x1FF \<le> 0x1FF" by (rule word_and_le1)
    then show ?thesis by (rule order.strict_trans1) simp
  qed
  then show "pml4_index a < 512" "pdpt_index a < 512" "pd_index a < 512" "pt_index a < 512"
    by (simp_all add: pml4_index_def pdpt_index_def pd_index_def pt_index_def)
qed

section \<open>Flag bits\<close>

lemma single_bit: "n < 64 \<Longrightarrow> bit (2 ^ n :: u64) k \<longleftrightarrow> k = n"
  by (auto simp: bit_simps)

lemma flag_bits:
  "bit PAGE_FLAG_PRESENT n \<longleftrightarrow> n = 0" "bit PAGE_FLAG_WRITABLE n \<longleftrightarrow> n = 1" "bit PAGE_FLAG_USER n \<longleftrightarrow> n = 2"
  "bit PAGE_FLAG_HUGE n \<longleftrightarrow> n = 7" "bit PAGE_FLAG_NO_EXECUTE n \<longleftrightarrow> n = 63"
  using single_bit [of 0 n] single_bit [of 1 n] single_bit [of 2 n] single_bit [of 7 n] single_bit [of 63 n] by simp_all

lemma mask_bits:
  "bit PAGE_ADDR_MASK n \<longleftrightarrow> 12 \<le> n \<and> n < 52" "bit PAGE_LARGE_ADDR_MASK n \<longleftrightarrow> 21 \<le> n \<and> n < 52"
  "bit PAGE_FLAGS_MASK n \<longleftrightarrow> n < 12" "bit (0x1FFFFF :: u64) n \<longleftrightarrow> n < 21" "bit (0x1FF :: u64) n \<longleftrightarrow> n < 9"
proof -
  have m: "PAGE_ADDR_MASK = push_bit 12 (mask 40)" "PAGE_LARGE_ADDR_MASK = push_bit 21 (mask 31)"
    "PAGE_FLAGS_MASK = mask 12" "(0x1FFFFF :: u64) = mask 21" "(0x1FF :: u64) = mask 9"
    by (simp_all add: mask_eq_exp_minus_1 push_bit_eq_mult)
  show "bit PAGE_ADDR_MASK n \<longleftrightarrow> 12 \<le> n \<and> n < 52" unfolding m(1) by (auto simp: bit_push_bit_iff bit_mask_iff)
  show "bit PAGE_LARGE_ADDR_MASK n \<longleftrightarrow> 21 \<le> n \<and> n < 52" unfolding m(2) by (auto simp: bit_push_bit_iff bit_mask_iff)
  show "bit PAGE_FLAGS_MASK n \<longleftrightarrow> n < 12" unfolding m(3) by (auto simp: bit_mask_iff)
  show "bit (0x1FFFFF :: u64) n \<longleftrightarrow> n < 21" unfolding m(4) by (auto simp: bit_mask_iff)
  show "bit (0x1FF :: u64) n \<longleftrightarrow> n < 9" unfolding m(5) by (auto simp: bit_mask_iff)
qed

lemma present_bit: "present e \<longleftrightarrow> bit e 0"
  using and_exp_eq_0_iff_not_bit [of e 0] by (simp add: present_def)

lemma huge_bit: "huge e \<longleftrightarrow> bit e 7"
  using and_exp_eq_0_iff_not_bit [of e 7] by (simp add: huge_def)

section \<open>The tree\<close>

definition sub_table :: "mem_state \<Rightarrow> u64 \<Rightarrow> u64 \<Rightarrow> u64 option" where
  "sub_table m t i =
     (let e = pmem m (slot t i) in if present e \<and> \<not> huge e then Some (page_table_from_entry e) else None)"

fun tab_from :: "mem_state \<Rightarrow> u64 \<Rightarrow> u64 list \<Rightarrow> u64 option" where
  "tab_from m t [] = Some t"
| "tab_from m t (i # p) = (case sub_table m t i of None \<Rightarrow> None | Some u \<Rightarrow> tab_from m u p)"

definition tab :: "mem_state \<Rightarrow> u64 list \<Rightarrow> u64 option" where
  "tab m p = tab_from m (root_page_table m) p"

definition tpath :: "u64 list \<Rightarrow> bool" where
  "tpath p \<longleftrightarrow> length p \<le> 3 \<and> (\<forall>i \<in> set p. i < 512)"

definition page_of :: "u64 \<Rightarrow> nat" where "page_of a = unat a div 4096"

definition pt_wf :: "mem_state \<Rightarrow> bool" where
  "pt_wf m \<longleftrightarrow>
     (\<forall>p q t. tpath p \<and> tpath q \<and> tab m p = Some t \<and> tab m q = Some t \<longrightarrow> p = q) \<and>
     (\<forall>p t. tpath p \<and> tab m p = Some t \<longrightarrow> page_of t < MEMORY_MAX_PAGES \<and> \<not> page_is_free m (page_of t)) \<and>
     (\<forall>p t i. tpath p \<and> length p \<le> 1 \<and> tab m p = Some t \<and> i < 512 \<and> present (pmem m (slot t i)) \<longrightarrow>
        \<not> huge (pmem m (slot t i)))"

lemma pt_wfD:
  assumes "pt_wf m"
  shows "tpath p \<Longrightarrow> tpath q \<Longrightarrow> tab m p = Some t \<Longrightarrow> tab m q = Some t \<Longrightarrow> p = q"
    and "tpath p \<Longrightarrow> tab m p = Some t \<Longrightarrow> page_of t < MEMORY_MAX_PAGES"
    and "tpath p \<Longrightarrow> tab m p = Some t \<Longrightarrow> \<not> page_is_free m (page_of t)"
    and "tpath p \<Longrightarrow> length p \<le> 1 \<Longrightarrow> tab m p = Some t \<Longrightarrow> i < 512 \<Longrightarrow> present (pmem m (slot t i)) \<Longrightarrow>
        \<not> huge (pmem m (slot t i))"
  using assms unfolding pt_wf_def by blast+

lemma pt_wfI:
  assumes "\<And>p q t. tpath p \<Longrightarrow> tpath q \<Longrightarrow> tab m p = Some t \<Longrightarrow> tab m q = Some t \<Longrightarrow> p = q"
    and "\<And>p t. tpath p \<Longrightarrow> tab m p = Some t \<Longrightarrow> page_of t < MEMORY_MAX_PAGES \<and> \<not> page_is_free m (page_of t)"
    and "\<And>p t i. tpath p \<Longrightarrow> length p \<le> 1 \<Longrightarrow> tab m p = Some t \<Longrightarrow> i < 512 \<Longrightarrow> present (pmem m (slot t i)) \<Longrightarrow>
        \<not> huge (pmem m (slot t i))"
  shows "pt_wf m"
  unfolding pt_wf_def using assms by blast

lemma tab_from_snoc: "tab_from m t (p @ [i]) = Option.bind (tab_from m t p) (\<lambda>u. sub_table m u i)"
  by (induction p arbitrary: t) (auto split: option.split)

lemma tab_Nil [simp]: "tab m [] = Some (root_page_table m)"
  by (simp add: tab_def)

lemma tab_snoc: "tab m (p @ [i]) = Option.bind (tab m p) (\<lambda>u. sub_table m u i)"
  by (simp add: tab_def tab_from_snoc)

lemma tpath_snoc: "tpath (p @ [i]) \<longleftrightarrow> length p \<le> 2 \<and> (\<forall>j \<in> set p. j < 512) \<and> i < 512"
  by (auto simp: tpath_def)

lemma tpath_butlast: "tpath (p @ [i]) \<Longrightarrow> tpath p \<and> i < 512"
  by (auto simp: tpath_def)

lemma tpath_Nil [simp]: "tpath []"
  by (simp add: tpath_def)

lemma tab_aligned: "tab m p = Some t \<Longrightarrow> table_aligned t"
  by (cases p rule: rev_cases)
    (auto simp: tab_snoc bind_eq_Some_conv sub_table_def Let_def split: if_splits)

text \<open>Two memories with the same words at the tables of one have the same tree.\<close>

lemma tab_same:
  assumes root: "root_page_table m' = root_page_table m"
    and same: "\<And>p u j. tpath (p @ [j]) \<Longrightarrow> tab m p = Some u \<Longrightarrow> sub_table m' u j = sub_table m u j"
  shows "tpath r \<Longrightarrow> tab m' r = tab m r"
proof (induction r rule: rev_induct)
  case Nil
  show ?case by (simp add: root)
next
  case (snoc j s)
  from snoc.prems have "tab m' s = tab m s" using snoc.IH tpath_butlast by blast
  then show ?case using same [OF snoc.prems] by (cases "tab m s") (simp_all add: tab_snoc)
qed

section \<open>Writing an entry\<close>

lemma set_word_frame [frame_simps]:
  "root_page_table (set_word a v m) = root_page_table m" "page_is_free (set_word a v m) j = page_is_free m j"
  "free_page_count (set_word a v m) = free_page_count m" "virt_bitmap (set_word a v m) = virt_bitmap m"
  "phys_bitmap (set_word a v m) = phys_bitmap m" "cr3 (set_word a v m) = cr3 m"
  "pmem (set_word a v m) b = (if b = a then v else pmem m b)"
  by (simp_all add: set_word_def root_page_table_def page_is_free_def)

lemma zero_page_frame [frame_simps]:
  "root_page_table (zero_page a m) = root_page_table m" "page_is_free (zero_page a m) j = page_is_free m j"
  "free_page_count (zero_page a m) = free_page_count m" "virt_bitmap (zero_page a m) = virt_bitmap m"
  "phys_bitmap (zero_page a m) = phys_bitmap m" "cr3 (zero_page a m) = cr3 m"
  by (simp_all add: zero_page_def root_page_table_def page_is_free_def)

lemma sub_write_other:
  assumes "table_aligned t" "i < 512" "table_aligned u" "j < 512" "(u, j) \<noteq> (t, i)"
  shows "pmem (set_word (slot t i) v m) (slot u j) = pmem m (slot u j)"
    and "sub_table (set_word (slot t i) v m) u j = sub_table m u j"
  using slot_inj [OF assms(3,4,1,2)] assms(5) by (auto simp: frame_simps sub_table_def)

lemma tab_write_other:
  assumes wf: "pt_wf m" and t: "tpath p" "tab m p = Some t" "i < 512"
    and r: "tpath r" "\<not> prefix (p @ [i]) r"
  shows "tab (set_word (slot t i) v m) r = tab m r"
  using r
proof (induction r rule: rev_induct)
  case Nil
  show ?case by (simp add: frame_simps)
next
  case (snoc j s)
  from snoc.prems have s: "tpath s" "j < 512" "\<not> prefix (p @ [i]) s" using tpath_butlast by (auto simp: prefix_def)
  with snoc.IH have IH: "tab (set_word (slot t i) v m) s = tab m s" by blast
  show ?case
  proof (cases "tab m s")
    case (Some u)
    have "(u, j) \<noteq> (t, i)" using pt_wfD(1) [OF wf s(1) t(1) _ t(2)] Some snoc.prems(2) by auto
    from sub_write_other(2) [OF tab_aligned [OF t(2)] t(3) tab_aligned [OF Some] s(2) this] IH Some
    show ?thesis by (simp add: tab_snoc)
  qed (use IH in \<open>simp add: tab_snoc\<close>)
qed

text \<open>A write that keeps the entry's table, or one in a table of the last level, keeps the tree.\<close>

lemma tab_write_same:
  assumes wf: "pt_wf m" and t: "tpath p" "tab m p = Some t" "i < 512"
    and keep: "length p = 3 \<or> sub_table (set_word (slot t i) v m) t i = sub_table m t i" and r: "tpath r"
  shows "tab (set_word (slot t i) v m) r = tab m r"
proof (rule tab_same [OF _ _ r])
  show "root_page_table (set_word (slot t i) v m) = root_page_table m" by (simp add: frame_simps)
  fix q u j
  assume q: "tpath (q @ [j])" "tab m q = Some u"
  show "sub_table (set_word (slot t i) v m) u j = sub_table m u j"
  proof (cases "(u, j) = (t, i)")
    case True
    then have "q = p" using pt_wfD(1) [OF wf _ t(1) q(2)] t(2) tpath_butlast [OF q(1)] by simp
    with q(1) True keep show ?thesis by (auto simp: tpath_def)
  next
    case False
    from sub_write_other(2) [OF tab_aligned [OF t(2)] t(3) tab_aligned [OF q(2)] _ this] tpath_butlast [OF q(1)]
    show ?thesis by simp
  qed
qed

lemma mem_inv_set_word [frame_simps]: "mem_inv (set_word a v m) = mem_inv m" "mem_inv (zero_page a m) = mem_inv m"
  by (rule mem_inv_cong; simp add: frame_simps)+

section \<open>Translation\<close>

abbreviation path3 :: "u64 \<Rightarrow> u64 list" where
  "path3 va \<equiv> [pml4_index va, pdpt_index va, pd_index va]"

abbreviation path2 :: "u64 \<Rightarrow> u64 list" where
  "path2 va \<equiv> [pml4_index va, pdpt_index va]"

lemma tpath_va [simp]: "tpath (path3 va)" "tpath (path2 va)" "tpath [pml4_index va]"
  by (auto simp: tpath_def)

text \<open>The entry for a 2 MB region, 0 when the walk does not get there; and the address a page entry gives.\<close>

definition pde_of :: "mem_state \<Rightarrow> u64 \<Rightarrow> u64" where
  "pde_of m va = (case tab m (path2 va) of None \<Rightarrow> 0 | Some t \<Rightarrow> pmem m (slot t (pd_index va)))"

definition pte_of :: "mem_state \<Rightarrow> u64 \<Rightarrow> u64" where
  "pte_of m va = (case tab m (path3 va) of None \<Rightarrow> 0 | Some t \<Rightarrow> pmem m (slot t (pt_index va)))"

lemma not_present_0 [simp]: "\<not> present 0"
  by (simp add: present_def)

lemma tab_va:
  "tab m [pml4_index va] = sub_table m (root_page_table m) (pml4_index va)"
  "tab m (path2 va) = Option.bind (tab m [pml4_index va]) (\<lambda>t. sub_table m t (pdpt_index va))"
  "tab m (path3 va) = Option.bind (tab m (path2 va)) (\<lambda>t. sub_table m t (pd_index va))"
  using tab_snoc [of m "[]" "pml4_index va"] tab_snoc [of m "[pml4_index va]" "pdpt_index va"]
    tab_snoc [of m "path2 va" "pd_index va"] by simp_all

lemma walk_upper:
  assumes "pt_wf m" and e4_def: "e4 = pmem m (slot (root_page_table m) (pml4_index va))"
    and e3_def: "e3 = pmem m (slot (page_table_from_entry e4) (pdpt_index va))"
  shows "tab m (path2 va) = (if present e4 \<and> present e3 then Some (page_table_from_entry e3) else None)"
proof -
  have h4: "\<not> huge e4" if "present e4" using pt_wfD(4) [OF assms(1), of "[]"] that by (simp add: e4_def)
  then have t1: "tab m [pml4_index va] = (if present e4 then Some (page_table_from_entry e4) else None)"
    by (simp add: tab_va(1) sub_table_def Let_def flip: e4_def)
  have h3: "\<not> huge e3" if "present e4" "present e3"
    using pt_wfD(4) [OF assms(1), of "[pml4_index va]" "page_table_from_entry e4" "pdpt_index va"] that t1
    by (simp add: e3_def)
  then show ?thesis by (simp add: tab_va(2) t1 sub_table_def Let_def flip: e3_def)
qed

lemma get_phys_tab:
  assumes "pt_wf m"
  shows "paging_get_phys m va =
    (if \<not> present (pde_of m va) then 0
     else if huge (pde_of m va) then (pde_of m va AND PAGE_LARGE_ADDR_MASK) OR (va AND 0x1FFFFF)
     else if \<not> present (pte_of m va) then 0
     else (pte_of m va AND PAGE_ADDR_MASK) OR (va AND (MEMORY_PAGE_SIZE - 1)))"
proof (cases "tab m (path2 va)")
  case None
  with walk_upper [OF assms refl refl, of va] show ?thesis
    by (auto simp: paging_get_phys_def pde_of_def Let_def split: if_splits)
next
  case (Some t)
  with walk_upper [OF assms refl refl, of va] show ?thesis
    by (auto simp: paging_get_phys_def pde_of_def pte_of_def tab_va(3) sub_table_def Let_def split: if_splits)
qed

lemma find_leaf_tab:
  assumes "pt_wf m"
  shows "find_leaf m va =
    (case tab m (path3 va) of None \<Rightarrow> None
     | Some t \<Rightarrow> if present (pmem m (slot t (pt_index va))) then Some (slot t (pt_index va)) else None)"
proof (cases "tab m (path2 va)")
  case None
  with walk_upper [OF assms refl refl, of va] show ?thesis
    by (auto simp: find_leaf_def tab_va(3) Let_def split: if_splits)
next
  case (Some t)
  with walk_upper [OF assms refl refl, of va] show ?thesis
    by (auto simp: find_leaf_def tab_va(3) sub_table_def Let_def split: if_splits)
qed

end
