(* ===== verification/Mem_Paging.thy ===== *)
theory Mem_Paging
  imports Mem_Tables
begin

text \<open>
  Mapping and unmapping a page: the translation of that page changes, every other translation stays,
  and the tree of tables and the page counter keep their invariants, on every path through
  \<open>paging_map_page\<close>, the failing ones included.
\<close>

text \<open>Two memories that translate alike, the second one well formed and with more tables and pages in use.\<close>

definition same_map :: "mem_state \<Rightarrow> mem_state \<Rightarrow> bool" where
  "same_map m m' \<longleftrightarrow> pt_wf m' \<and> mem_inv m' \<and> virt_bitmap m' = virt_bitmap m \<and> root_page_table m' = root_page_table m \<and>
     (\<forall>j. page_is_free m' j \<longrightarrow> page_is_free m j) \<and>
     (\<forall>r t. tpath r \<and> tab m r = Some t \<longrightarrow> tab m' r = Some t) \<and>
     (\<forall>va. paging_get_phys m' va = paging_get_phys m va)"

lemma same_mapD:
  assumes "same_map m m'"
  shows "pt_wf m'" "mem_inv m'" "virt_bitmap m' = virt_bitmap m" "root_page_table m' = root_page_table m"
    "page_is_free m' j \<Longrightarrow> page_is_free m j" "tpath r \<Longrightarrow> tab m r = Some t \<Longrightarrow> tab m' r = Some t"
    "paging_get_phys m' va = paging_get_phys m va"
  using assms by (auto simp: same_map_def)

lemma same_map_refl: "pt_wf m \<Longrightarrow> mem_inv m \<Longrightarrow> same_map m m"
  by (simp add: same_map_def)

lemma same_map_trans: "same_map a b \<Longrightarrow> same_map b c \<Longrightarrow> same_map a c"
  by (simp add: same_map_def)

section \<open>Entries\<close>

lemma entry_eq: "(\<And>n. n < 64 \<Longrightarrow> bit a n \<longleftrightarrow> bit (b :: u64) n) \<Longrightarrow> a = b"
  by (rule bit_word_eqI) simp

lemmas entry_bits = present_bit huge_bit bit_or_iff bit_and_iff flag_bits mask_bits

lemma new_table_entry:
  "present ((t AND PAGE_ADDR_MASK) OR PAGE_FLAG_PRESENT OR PAGE_FLAG_WRITABLE)"
  "\<not> huge ((t AND PAGE_ADDR_MASK) OR PAGE_FLAG_PRESENT OR PAGE_FLAG_WRITABLE)"
  "page_table_from_entry ((t AND PAGE_ADDR_MASK) OR PAGE_FLAG_PRESENT OR PAGE_FLAG_WRITABLE) = t AND PAGE_ADDR_MASK"
proof -
  show "present ((t AND PAGE_ADDR_MASK) OR PAGE_FLAG_PRESENT OR PAGE_FLAG_WRITABLE)"
    by (simp only: entry_bits) simp
  show "\<not> huge ((t AND PAGE_ADDR_MASK) OR PAGE_FLAG_PRESENT OR PAGE_FLAG_WRITABLE)"
    by (simp only: entry_bits) simp
  show "page_table_from_entry ((t AND PAGE_ADDR_MASK) OR PAGE_FLAG_PRESENT OR PAGE_FLAG_WRITABLE) = t AND PAGE_ADDR_MASK"
    unfolding page_table_from_entry_def by (rule entry_eq, simp only: entry_bits) auto
qed

lemma widened_entry:
  "present (e OR PAGE_FLAG_USER) = present e" "huge (e OR PAGE_FLAG_USER) = huge e"
  "present (e OR PAGE_FLAG_WRITABLE) = present e" "huge (e OR PAGE_FLAG_WRITABLE) = huge e"
  "page_table_from_entry (e OR PAGE_FLAG_USER) = page_table_from_entry e"
  "page_table_from_entry (e OR PAGE_FLAG_WRITABLE) = page_table_from_entry e"
proof -
  show "present (e OR PAGE_FLAG_USER) = present e" "huge (e OR PAGE_FLAG_USER) = huge e"
    "present (e OR PAGE_FLAG_WRITABLE) = present e" "huge (e OR PAGE_FLAG_WRITABLE) = huge e"
    by (simp only: entry_bits, simp)+
  show "page_table_from_entry (e OR PAGE_FLAG_USER) = page_table_from_entry e"
    "page_table_from_entry (e OR PAGE_FLAG_WRITABLE) = page_table_from_entry e"
    unfolding page_table_from_entry_def by (rule entry_eq, simp only: entry_bits, auto)+
qed

lemma leaf_entry_facts:
  "present (leaf_entry pa flags)" "leaf_entry pa flags AND PAGE_ADDR_MASK = pa AND PAGE_ADDR_MASK"
proof -
  show "present (leaf_entry pa flags)" unfolding leaf_entry_def by (simp only: entry_bits) simp
  show "leaf_entry pa flags AND PAGE_ADDR_MASK = pa AND PAGE_ADDR_MASK"
    unfolding leaf_entry_def by (rule entry_eq, simp only: entry_bits) auto
qed

lemma page_addr_mask:
  assumes "start \<le> MEMORY_MAX_PAGES"
  shows "(of_nat (start * 4096) :: u64) AND PAGE_ADDR_MASK = of_nat (start * 4096)"
proof -
  have eq: "(of_nat (start * 4096) :: u64) = push_bit 12 (of_nat start)"
    by (simp add: push_bit_eq_mult mult.commute)
  have "bit (of_nat start :: u64) n \<Longrightarrow> n < 40" for n
  proof (rule ccontr)
    assume b: "bit (of_nat start :: u64) n" and n: "\<not> n < 40"
    have "start < 2 ^ 40" using assms by simp
    also have "(2 :: nat) ^ 40 \<le> 2 ^ n" using n by (intro power_increasing) simp_all
    finally have "start div 2 ^ n = 0" by simp
    then have "\<not> bit start n" by (simp add: bit_iff_odd)
    moreover have "bit (unat (of_nat start :: u64)) n" using b by (simp only: bit_unsigned_iff) (simp add: bit_imp_le_length)
    moreover have "unat (of_nat start :: u64) = start" using assms by (simp add: unat_of_nat)
    ultimately show False by simp
  qed
  note b = this
  show ?thesis
  proof (rule entry_eq)
    fix n
    show "bit ((of_nat (start * 4096) :: u64) AND PAGE_ADDR_MASK) n \<longleftrightarrow> bit (of_nat (start * 4096) :: u64) n"
      unfolding eq using b [of "n - 12"] by (simp only: bit_and_iff mask_bits bit_push_bit_iff) auto
  qed
qed

section \<open>A new table\<close>

lemma in_page:
  assumes "table_aligned f" "table_aligned u" "j < 512"
  shows "slot u j - f < 4096 \<longleftrightarrow> u = f"
proof
  assume lt: "slot u j - f < 4096"
  have "unat f \<le> unat (slot u j)"
  proof (rule ccontr)
    assume n: "\<not> unat f \<le> unat (slot u j)"
    then have "unat (slot u j - f) = 2 ^ 64 - (unat f - unat (slot u j))"
      by (simp add: unat_sub_if')
    moreover have "unat (slot u j - f) < 4096" using lt by (simp add: word_less_nat_alt)
    moreover have "unat f + 4096 \<le> 2 ^ 64" using aligned_top [OF assms(1)] by simp
    ultimately show False using n by simp
  qed
  then have "unat (slot u j) < unat f + 4096" using lt by (simp add: word_less_nat_alt unat_sub_if')
  moreover obtain k l where "unat f = 4096 * k" "unat u = 4096 * l"
    using assms(1,2) unfolding table_aligned_def dvd_def by blast
  moreover have "unat j < 512" using assms(3) by (simp add: word_less_nat_alt)
  ultimately have "k = l" using \<open>unat f \<le> unat (slot u j)\<close> unat_slot [OF assms(2,3)] by simp
  with \<open>unat f = 4096 * k\<close> \<open>unat u = 4096 * l\<close> show "u = f" by (simp add: word_unat_eq_iff)
next
  assume "u = f"
  have "unat j < 512" using assms(3) by (simp add: word_less_nat_alt)
  then have "unat (8 * j) < 4096" by (subst unat_mult_lem [THEN iffD1]) simp_all
  with \<open>u = f\<close> show "slot u j - f < 4096" by (simp add: slot_def word_less_nat_alt)
qed

lemma fresh_table:
  assumes wf: "pt_wf m" and t: "tpath p" "length p \<le> 2" "tab m p = Some t" "i < 512"
    and np: "\<not> present (pmem m (slot t i))"
    and f: "table_aligned f" "page_of f < MEMORY_MAX_PAGES" "page_is_free m (page_of f)"
    and e: "present e" "\<not> huge e" "page_table_from_entry e = f"
    and m': "root_page_table m' = root_page_table m" "\<And>j. page_is_free m' j \<longleftrightarrow> page_is_free m j \<and> j \<noteq> page_of f"
      "\<And>x. pmem m' x = (if x = slot t i then e else if x - f < 4096 then 0 else pmem m x)"
  shows "\<And>r. tpath r \<Longrightarrow> tab m' r = (if r = p @ [i] then Some f else tab m r)" and "pt_wf m'"
    and "paging_get_phys m' va = paging_get_phys m va"
proof -
  have notf: "u \<noteq> f" if "tpath q" "tab m q = Some u" for q u using pt_wfD(3) [OF wf that] f(3) by auto
  have at: "pmem m' (slot u j) = (if q = p \<and> j = i then e else pmem m (slot u j))"
    if "tpath q" "tab m q = Some u" "j < 512" for q u j
  proof (cases "u = t \<and> j = i")
    case True
    then have "q = p" using pt_wfD(1) [OF wf that(1) t(1) that(2)] t(3) by simp
    with True show ?thesis by (simp add: m'(3))
  next
    case False
    then have "slot u j \<noteq> slot t i" using slot_inj [OF tab_aligned [OF that(2)] that(3) tab_aligned [OF t(3)] t(4)] by blast
    moreover have "\<not> slot u j - f < 4096" using in_page [OF f(1) tab_aligned [OF that(2)] that(3)] notf [OF that(1,2)] by simp
    moreover have "\<not> (q = p \<and> j = i)" using False that(2) t(3) by auto
    ultimately show ?thesis unfolding m'(3) by presburger
  qed
  have zero: "pmem m' (slot f j) = 0" if "j < 512" for j
    using slot_inj [OF f(1) that tab_aligned [OF t(3)] t(4)] notf [OF t(1,3)] in_page [OF f(1) f(1) that]
    by (auto simp: m'(3))
  have none: "tab m (p @ [i]) = None" using t(3) np by (simp add: tab_snoc sub_table_def Let_def)
  show T: "tab m' r = (if r = p @ [i] then Some f else tab m r)" if "tpath r" for r
    using that
  proof (induction r rule: rev_induct)
    case Nil
    show ?case by (simp add: m'(1))
  next
    case (snoc j s)
    then have s: "tpath s" "j < 512" using tpath_butlast by blast+
    show ?case
    proof (cases "s = p @ [i]")
      case True
      then have "tab m' s = Some f" "tab m s = None" "s @ [j] \<noteq> p @ [i]" using snoc.IH [OF s(1)] none by simp_all
      then show ?thesis using zero [OF s(2)] by (simp add: tab_snoc [of _ s] sub_table_def)
    next
      case False
      with snoc.IH [OF s(1)] have IH: "tab m' s = tab m s" by simp
      show ?thesis
      proof (cases "tab m s")
        case None
        then have "s \<noteq> p" using t(3) by auto
        with None IH show ?thesis by (simp add: tab_snoc)
      next
        case (Some u)
        with IH at [OF s(1) Some s(2)] e show ?thesis by (auto simp: tab_snoc sub_table_def)
      qed
    qed
  qed
  have D: "(r = p @ [i] \<and> u = f) \<or> (r \<noteq> p @ [i] \<and> tab m r = Some u)" if "tpath r" "tab m' r = Some u" for r u
    using T [OF that(1)] that(2) by (auto split: if_splits)
  show W: "pt_wf m'"
  proof (rule pt_wfI)
    fix r s u assume r: "tpath r" "tpath s" "tab m' r = Some u" "tab m' s = Some u"
    show "r = s"
      using D [OF r(1,3)] D [OF r(2,4)] notf [OF r(1)] notf [OF r(2)] pt_wfD(1) [OF wf r(1,2)] by auto
  next
    fix r u assume r: "tpath r" "tab m' r = Some u"
    show "page_of u < MEMORY_MAX_PAGES \<and> \<not> page_is_free m' (page_of u)"
      using D [OF r] f(2) pt_wfD(2,3) [OF wf r(1)] by (auto simp: m'(2))
  next
    fix r u j assume r: "tpath r" "length r \<le> 1" "tab m' r = Some u" "j < 512" "present (pmem m' (slot u j))"
    show "\<not> huge (pmem m' (slot u j))"
      using D [OF r(1,3)]
    proof
      assume "r = p @ [i] \<and> u = f"
      with zero [OF r(4)] r(5) show ?thesis by simp
    next
      assume "r \<noteq> p @ [i] \<and> tab m r = Some u"
      with at [OF r(1) _ r(4)] e(2) pt_wfD(4) [OF wf r(1,2) _ r(4)] r(5) show ?thesis by (auto split: if_splits)
    qed
  qed
  have P2: "pde_of m' va = (if path2 va = p \<and> pd_index va = i then e else pde_of m va)"
  proof (cases "path2 va = p @ [i]")
    case True
    then have "\<not> path2 va = p" by auto
    moreover have "tab m' (path2 va) = Some f" "tab m (path2 va) = None" using T [OF tpath_va(2)] none True by presburger+
    ultimately show ?thesis using zero [of "pd_index va"] by (simp add: pde_of_def)
  next
    case False
    then have T2: "tab m' (path2 va) = tab m (path2 va)" using T [OF tpath_va(2)] by presburger
    show ?thesis
    proof (cases "tab m (path2 va)")
      case None
      then have "path2 va \<noteq> p" using t(3) by auto
      with None T2 show ?thesis by (simp add: pde_of_def)
    next
      case (Some u)
      with T2 at [OF _ Some, of "pd_index va"] show ?thesis by (simp add: pde_of_def)
    qed
  qed
  have P3: "pte_of m' va = pte_of m va"
  proof (cases "path3 va = p @ [i]")
    case True
    then have "tab m' (path3 va) = Some f" "tab m (path3 va) = None" using T [OF tpath_va(1)] none by presburger+
    then show ?thesis using zero [of "pt_index va"] by (simp add: pte_of_def)
  next
    case False
    then have T3: "tab m' (path3 va) = tab m (path3 va)" using T [OF tpath_va(1)] by presburger
    have n: "path3 va \<noteq> p" using t(2) by auto
    show ?thesis
    proof (cases "tab m (path3 va)")
      case None
      with T3 show ?thesis by (simp add: pte_of_def)
    next
      case (Some u)
      with n T3 at [OF _ Some, of "pt_index va"] show ?thesis by (simp add: pte_of_def)
    qed
  qed
  have "\<not> present (pde_of m va) \<and> \<not> present (pte_of m va)" if "path2 va = p" "pd_index va = i"
  proof -
    have "path3 va = p @ [i]" using that(1) [symmetric] that(2) by simp
    then have "tab m (path3 va) = None" using none by presburger
    moreover have "pde_of m va = pmem m (slot t i)" using that t(3) by (simp add: pde_of_def)
    ultimately show ?thesis using np by (simp add: pte_of_def)
  qed
  with P2 P3 e show "paging_get_phys m' va = paging_get_phys m va"
    by (auto simp: get_phys_tab [OF W] get_phys_tab [OF wf])
qed

section \<open>The steps of the walk\<close>

lemma page_of_addr: "start \<le> MEMORY_MAX_PAGES \<Longrightarrow> page_of (of_nat (start * 4096)) = start"
  by (simp add: page_of_def unat_page_addr del: of_nat_mult)

lemma alloc_page_table_cases:
  assumes "mem_inv m" and "alloc_page_table m = (r, m')"
  shows "(r = None \<and> m' = m) \<or>
    (\<exists>f start. r = Some f \<and> f = of_nat (start * 4096) \<and> start < MEMORY_MAX_PAGES \<and> page_is_free m start \<and>
       (\<forall>j. page_is_free m' j \<longleftrightarrow> page_is_free m j \<and> j \<noteq> start) \<and> mem_inv m' \<and> virt_bitmap m' = virt_bitmap m \<and>
       cr3 m' = cr3 m \<and> (\<forall>x. pmem m' x = (if x - f < 4096 then 0 else pmem m x)))"
proof -
  obtain a m1 where a: "phys_alloc_pages m 1 = (a, m1)" by (cases "phys_alloc_pages m 1")
  from phys_alloc_cases [OF assms(1) one_neq_zero a] show ?thesis
  proof (elim disjE exE conjE, goal_cases)
    case 1
    with a assms(2) show ?case by (simp add: alloc_page_table_def phys_alloc_page_def)
  next
    case (2 start)
    then have "(of_nat (start * 4096) :: u64) \<noteq> 0" using page_addr_nonzero [of start] by simp
    with 2(1) a assms(2) have r: "r = Some a" "m' = zero_page a m1"
      by (simp_all add: alloc_page_table_def phys_alloc_page_def)
    have "page_is_free m start" using 2(4) by (simp add: fits_def)
    moreover have "(start \<le> j \<and> j < start + unat (1 :: u64)) \<longleftrightarrow> j = start" for j by auto
    moreover have "mem_inv m'" using 2(7) r(2) by (simp add: frame_simps)
    ultimately have "r = Some a \<and> a = of_nat (start * 4096) \<and> start < MEMORY_MAX_PAGES \<and> page_is_free m start \<and>
       (\<forall>j. page_is_free m' j \<longleftrightarrow> page_is_free m j \<and> j \<noteq> start) \<and> mem_inv m' \<and> virt_bitmap m' = virt_bitmap m \<and>
       cr3 m' = cr3 m \<and> (\<forall>x. pmem m' x = (if x - a < 4096 then 0 else pmem m x))"
      using 2 r by (simp add: frame_simps zero_page_def)
    then show ?case by blast
  qed
qed

lemma ensure_ok:
  assumes wf: "pt_wf m" and inv: "mem_inv m" and t: "tpath p" "length p \<le> 2" "tab m p = Some t" "i < 512"
    and ens: "ensure_next_table m (slot t i) = (r, m')"
  shows "same_map m m'" and "r = Some u \<Longrightarrow> tab m' (p @ [i]) = Some u"
proof -
  let ?e = "pmem m (slot t i)"
  have "same_map m m' \<and> (\<forall>u. r = Some u \<longrightarrow> tab m' (p @ [i]) = Some u)"
  proof (cases "present ?e")
    case True
    with ens have m': "m' = m" and r: "r = (if huge ?e then None else Some (page_table_from_entry ?e))"
      by (auto simp: ensure_next_table_def split: if_splits)
    show ?thesis unfolding m' r using True t(3) same_map_refl [OF wf inv] by (simp add: tab_snoc sub_table_def Let_def)
  next
    case np: False
    obtain r1 m1 where a: "alloc_page_table m = (r1, m1)" by (cases "alloc_page_table m")
    show ?thesis
    proof (cases r1)
      case None
      with alloc_page_table_cases [OF inv a] have "m1 = m" by auto
      with None a ens np same_map_refl [OF wf inv] show ?thesis by (simp add: ensure_next_table_def)
    next
      case (Some f)
      with alloc_page_table_cases [OF inv a] obtain start
        where f: "f = of_nat (start * 4096)" "start < MEMORY_MAX_PAGES" "page_is_free m start"
          and m1: "\<forall>j. page_is_free m1 j \<longleftrightarrow> page_is_free m j \<and> j \<noteq> start" "mem_inv m1" "virt_bitmap m1 = virt_bitmap m"
            "cr3 m1 = cr3 m" "\<forall>x. pmem m1 x = (if x - f < 4096 then 0 else pmem m x)" by auto
      let ?v = "(f AND PAGE_ADDR_MASK) OR PAGE_FLAG_PRESENT OR PAGE_FLAG_WRITABLE"
      have m': "r = Some f" "m' = set_word (slot t i) ?v m1"
        using ens np a Some by (simp_all add: ensure_next_table_def)
      have fm: "f AND PAGE_ADDR_MASK = f" unfolding f(1) using f(2) by (intro page_addr_mask) simp
      have page: "page_of f = start" unfolding f(1) using f(2) by (intro page_of_addr) simp
      have al: "table_aligned f" using dvd_mask [of f] unfolding fm table_aligned_def .
      have root: "root_page_table m' = root_page_table m" by (simp add: m'(2) frame_simps root_page_table_def m1(4))
      have entry: "page_table_from_entry ?v = f" by (rule trans [OF new_table_entry(3) fm])
      have fp: "page_of f < MEMORY_MAX_PAGES" "page_is_free m (page_of f)" using page f(2,3) by simp_all
      have free: "page_is_free m' j \<longleftrightarrow> page_is_free m j \<and> j \<noteq> page_of f" for j
        by (simp only: m'(2) frame_simps m1(1) page)
      have words: "pmem m' x = (if x = slot t i then ?v else if x - f < 4096 then 0 else pmem m x)" for x
        by (simp only: m'(2) frame_simps m1(5))
      note new = fresh_table [OF wf t np al fp new_table_entry(1,2) entry root free words]
      note T = new(1) and W = new(2) and G = new(3)
      have none: "tab m (p @ [i]) = None" using t(3) np by (simp add: tab_snoc sub_table_def Let_def)
      have "tpath (p @ [i])" using t by (auto simp: tpath_def)
      with T none W G root m1 show ?thesis by (auto simp: same_map_def m' frame_simps)
    qed
  qed
  then show "same_map m m'" and "r = Some u \<Longrightarrow> tab m' (p @ [i]) = Some u" by blast+
qed

text \<open>Setting flags of an entry that leads to a table.\<close>

lemma rewrite_entry:
  assumes wf: "pt_wf m" and inv: "mem_inv m" and t: "tpath p" "length p \<le> 2" "tab m p = Some t" "i < 512"
    and sub: "tab m (p @ [i]) = Some u"
    and v: "present v" "\<not> huge v" "page_table_from_entry v = page_table_from_entry (pmem m (slot t i))"
  shows "same_map m (set_word (slot t i) v m)"
proof -
  let ?m = "set_word (slot t i) v m"
  have e: "present (pmem m (slot t i))" "\<not> huge (pmem m (slot t i))"
    using sub t(3) by (auto simp: tab_snoc sub_table_def Let_def split: if_splits)
  have s: "sub_table ?m t i = sub_table m t i" using e v by (simp add: sub_table_def frame_simps)
  have T: "tab ?m r = tab m r" if "tpath r" for r using tab_write_same [OF wf t(1,3,4) _ that] s by blast
  have at: "pmem ?m (slot w j) = (if q = p \<and> j = i then v else pmem m (slot w j))"
    if "tpath q" "tab m q = Some w" "j < 512" for q w j
  proof (cases "w = t \<and> j = i")
    case True
    then show ?thesis using pt_wfD(1) [OF wf that(1) t(1) that(2)] t(3) by (simp add: frame_simps)
  next
    case False
    then have "slot w j \<noteq> slot t i" using slot_inj [OF tab_aligned [OF that(2)] that(3) tab_aligned [OF t(3)] t(4)] by blast
    moreover have "\<not> (q = p \<and> j = i)" using False that(2) t(3) by auto
    ultimately show ?thesis unfolding set_word_frame(7) by presburger
  qed
  have W: "pt_wf ?m"
  proof (rule pt_wfI)
    fix q r w assume "tpath q" "tpath r" "tab ?m q = Some w" "tab ?m r = Some w"
    then show "q = r" using pt_wfD(1) [OF wf] T by simp
  next
    fix q w assume "tpath q" "tab ?m q = Some w"
    then show "page_of w < MEMORY_MAX_PAGES \<and> \<not> page_is_free ?m (page_of w)"
      using pt_wfD(2,3) [OF wf] T by (simp add: frame_simps)
  next
    fix q w j assume q: "tpath q" "length q \<le> 1" "tab ?m q = Some w" "j < 512" "present (pmem ?m (slot w j))"
    then show "\<not> huge (pmem ?m (slot w j))"
      using at [OF q(1) _ q(4), of w] T [OF q(1)] pt_wfD(4) [OF wf q(1,2) _ q(4), of w] v(2) by (auto split: if_splits)
  qed
  have "paging_get_phys ?m va = paging_get_phys m va" for va
  proof (cases "tab m (path2 va)")
    case None
    then show ?thesis by (simp add: get_phys_tab [OF W] get_phys_tab [OF wf] pde_of_def T)
  next
    case (Some w)
    have 2: "pde_of ?m va = (if path2 va = p \<and> pd_index va = i then v else pde_of m va)"
      using at [OF tpath_va(2) Some index_bounds(3)] Some by (simp add: pde_of_def T)
    have 3: "pte_of ?m va = pte_of m va"
    proof (cases "tab m (path3 va)")
      case None
      then show ?thesis by (simp add: pte_of_def T)
    next
      case (Some x)
      moreover have "path3 va \<noteq> p" using t(2) by auto
      ultimately show ?thesis using at [OF tpath_va(1) Some index_bounds(4)] by (simp add: pte_of_def T)
    qed
    have 4: "pde_of m va = pmem m (slot t i)" if "path2 va = p \<and> pd_index va = i"
      using that t(3) by (auto simp: pde_of_def)
    show ?thesis
    proof (cases "path2 va = p \<and> pd_index va = i")
      case True
      with 2 3 4 [OF True] v e show ?thesis by (simp only: get_phys_tab [OF W] get_phys_tab [OF wf] simp_thms if_True if_False)
    next
      case False
      with 2 have "pde_of ?m va = pde_of m va" by presburger
      with 3 show ?thesis by (simp only: get_phys_tab [OF W] get_phys_tab [OF wf])
    qed
  qed
  with W inv T show ?thesis by (simp add: same_map_def frame_simps)
qed

lemma widen_ok:
  assumes wf: "pt_wf m" and inv: "mem_inv m" and t: "tpath p" "length p \<le> 2" "tab m p = Some t" "i < 512"
    and sub: "tab m (p @ [i]) = Some u"
  shows "same_map m (widen_entry flags (slot t i) m)"
proof -
  let ?e = "pmem m (slot t i)"
  let ?m = "if flags AND PAGE_FLAG_USER \<noteq> 0 then set_word (slot t i) (?e OR PAGE_FLAG_USER) m else m"
  have e: "present ?e" "\<not> huge ?e" using sub t(3) by (auto simp: tab_snoc sub_table_def Let_def split: if_splits)
  have 1: "same_map m ?m"
    using rewrite_entry [OF wf inv t sub, of "?e OR PAGE_FLAG_USER"] same_map_refl [OF wf inv] e
    by (simp add: widened_entry)
  have e1: "present (pmem ?m (slot t i))" "\<not> huge (pmem ?m (slot t i))" using e by (simp_all add: frame_simps widened_entry)
  have tp: "tpath (p @ [i])" using t by (auto simp: tpath_def)
  note m1 = same_mapD [OF 1]
  have 2: "same_map ?m (widen_entry flags (slot t i) m)"
    using rewrite_entry [OF m1(1,2) t(1,2) m1(6) [OF t(1,3)] t(4) m1(6) [OF tp sub], of "pmem ?m (slot t i) OR PAGE_FLAG_WRITABLE"]
      same_map_refl [OF m1(1,2)] e1
    unfolding widen_entry_def Let_def by (simp add: widened_entry)
  from 1 2 show ?thesis by (rule same_map_trans)
qed

section \<open>Page entries\<close>

text \<open>Two addresses in one 4 KB page, as the hardware compares them: bits 12 to 47.\<close>

definition same_page :: "u64 \<Rightarrow> u64 \<Rightarrow> bool" where
  "same_page va vb \<longleftrightarrow> va AND 0xFFFFFFFFF000 = vb AND 0xFFFFFFFFF000"

lemma word_and_eq:
  assumes "\<And>n. bit (k :: u64) n \<longleftrightarrow> Q n"
  shows "a AND k = b AND k \<longleftrightarrow> (\<forall>n. Q n \<longrightarrow> bit a n = bit b n)"
proof -
  have "possible_bit TYPE(64 word) n" if "Q n" for n
    using that assms bit_imp_possible_bit by blast
  then show ?thesis unfolding bit_eq_iff bit_and_iff assms by blast
qed

lemma field_eq:
  "(drop_bit k a AND 0x1FF :: u64) = drop_bit k b AND 0x1FF \<longleftrightarrow> (\<forall>n. k \<le> n \<and> n < k + 9 \<longrightarrow> bit a n = bit b n)"
proof -
  have "drop_bit k a AND 0x1FF = drop_bit k b AND (0x1FF :: u64) \<longleftrightarrow> (\<forall>j < 9. bit a (k + j) = bit b (k + j))"
    unfolding word_and_eq [OF mask_bits(5)] by (simp only: bit_drop_bit_eq comp_def)
  also have "\<dots> \<longleftrightarrow> (\<forall>n. k \<le> n \<and> n < k + 9 \<longrightarrow> bit a n = bit b n)"
    by (auto simp: le_iff_add)
  finally show ?thesis .
qed

lemma page_mask_bits: "bit (0xFFFFFFFFF000 :: u64) n \<longleftrightarrow> 12 \<le> n \<and> n < 48"
proof -
  have "(0xFFFFFFFFF000 :: u64) = push_bit 12 (mask 36)" by (simp add: mask_eq_exp_minus_1 push_bit_eq_mult)
  then show ?thesis by (simp only: bit_push_bit_iff bit_mask_iff) auto
qed

lemma same_page_bits: "same_page va vb \<longleftrightarrow> (\<forall>n. 12 \<le> n \<and> n < 48 \<longrightarrow> bit va n = bit vb n)"
  unfolding same_page_def word_and_eq [OF page_mask_bits] by simp

lemma same_page_path: "same_page va vb \<longleftrightarrow> path3 va = path3 vb \<and> pt_index va = pt_index vb"
proof -
  have "path3 va = path3 vb \<and> pt_index va = pt_index vb \<longleftrightarrow>
      (\<forall>n. (39 \<le> n \<and> n < 39 + 9) \<or> (30 \<le> n \<and> n < 30 + 9) \<or> (21 \<le> n \<and> n < 21 + 9) \<or> (12 \<le> n \<and> n < 12 + 9) \<longrightarrow> bit va n = bit vb n)"
    by (simp only: pml4_index_def pdpt_index_def pd_index_def pt_index_def field_eq list.inject simp_thms) blast
  also have "\<dots> \<longleftrightarrow> (\<forall>n. 12 \<le> n \<and> n < 48 \<longrightarrow> bit va n = bit vb n)"
    by (intro all_cong1 imp_cong refl) linarith
  finally show ?thesis by (simp add: same_page_bits)
qed

lemma same_page_sym: "same_page va vb = same_page vb va"
  by (auto simp: same_page_def)

lemma same_page_refl [simp]: "same_page va va"
  by (simp add: same_page_def)

lemma leaf_write:
  assumes wf: "pt_wf m" and inv: "mem_inv m" and t: "tab m (path3 va) = Some t"
    and m': "m' = set_word (slot t (pt_index va)) v m"
  shows "pt_wf m'" and "mem_inv m'" and "\<And>r. tpath r \<Longrightarrow> tab m' r = tab m r" and "pde_of m' vb = pde_of m vb"
    and "pte_of m' vb = (if same_page va vb then v else pte_of m vb)"
proof -
  have T: "tab m' r = tab m r" if "tpath r" for r
    unfolding m' using tab_write_same [OF wf tpath_va(1) t index_bounds(4) _ that] by simp
  have at: "pmem m' (slot w j) = (if q = path3 va \<and> j = pt_index va then v else pmem m (slot w j))"
    if "tpath q" "tab m q = Some w" "j < 512" for q w j
  proof (cases "w = t \<and> j = pt_index va")
    case True
    then show ?thesis using pt_wfD(1) [OF wf that(1) tpath_va(1) that(2)] t by (simp add: m' frame_simps)
  next
    case False
    then have "slot w j \<noteq> slot t (pt_index va)"
      using slot_inj [OF tab_aligned [OF that(2)] that(3) tab_aligned [OF t] index_bounds(4)] by blast
    moreover have "\<not> (q = path3 va \<and> j = pt_index va)" using False that(2) t by auto
    ultimately show ?thesis unfolding m' set_word_frame(7) by presburger
  qed
  show "tab m' r = tab m r" if "tpath r" for r using that by (rule T)
  show "mem_inv m'" using inv by (simp add: m' frame_simps)
  show "pt_wf m'"
  proof (rule pt_wfI)
    fix q r w assume "tpath q" "tpath r" "tab m' q = Some w" "tab m' r = Some w"
    then show "q = r" using pt_wfD(1) [OF wf] T by simp
  next
    fix q w assume "tpath q" "tab m' q = Some w"
    then show "page_of w < MEMORY_MAX_PAGES \<and> \<not> page_is_free m' (page_of w)"
      using pt_wfD(2,3) [OF wf] T by (simp add: m' frame_simps)
  next
    fix q w j assume q: "tpath q" "length q \<le> 1" "tab m' q = Some w" "j < 512" "present (pmem m' (slot w j))"
    moreover have "q \<noteq> path3 va" using q(2) by auto
    ultimately show "\<not> huge (pmem m' (slot w j))"
      using at [OF q(1) _ q(4), of w] T [OF q(1)] pt_wfD(4) [OF wf q(1,2) _ q(4), of w] by simp
  qed
  show "pde_of m' vb = pde_of m vb"
    using at [OF tpath_va(2) _ index_bounds(3), of vb] by (cases "tab m (path2 vb)") (simp_all add: pde_of_def T)
  show "pte_of m' vb = (if same_page va vb then v else pte_of m vb)"
    using at [OF tpath_va(1) _ index_bounds(4), of vb] t
    by (cases "tab m (path3 vb)") (auto simp: pte_of_def T same_page_path)
qed

text \<open>A table of the last level leaves no room for a 2 MB entry.\<close>

lemma leaf_pde:
  assumes "tab m (path3 va) = Some t"
  shows "present (pde_of m va)" and "\<not> huge (pde_of m va)"
  using assms by (auto simp: tab_va(3) pde_of_def sub_table_def Let_def bind_eq_Some_conv split: if_splits)

lemma same_page_pde: "same_page va vb \<Longrightarrow> pde_of m va = pde_of m vb"
  unfolding pde_of_def by (simp add: same_page_path split: option.split)

lemma same_page_pte: "same_page va vb \<Longrightarrow> pte_of m va = pte_of m vb"
  unfolding pte_of_def by (simp add: same_page_path split: option.split)

lemma leaf_write_phys:
  assumes "pt_wf m" "mem_inv m" "tab m (path3 va) = Some t" "m' = set_word (slot t (pt_index va)) v m"
  shows "paging_get_phys m' vb =
    (if same_page va vb then if present v then (v AND PAGE_ADDR_MASK) OR (vb AND (MEMORY_PAGE_SIZE - 1)) else 0
     else paging_get_phys m vb)"
proof -
  note w = leaf_write [OF assms]
  have "present (pde_of m vb) \<and> \<not> huge (pde_of m vb)" if "same_page va vb"
    using leaf_pde [OF assms(3)] same_page_pde [OF that, of m] by simp
  then show ?thesis by (simp add: get_phys_tab [OF w(1)] get_phys_tab [OF assms(1)] w(4,5))
qed

section \<open>Mapping\<close>

lemma map_page_steps:
  assumes wf: "pt_wf m" and inv: "mem_inv m" and map: "paging_map_page m va pa flags = (rc, m')"
  shows "(rc \<noteq> 0 \<and> same_map m m') \<or>
    (\<exists>m1 t. rc = 0 \<and> same_map m m1 \<and> tab m1 (path3 va) = Some t \<and> \<not> present (pmem m1 (slot t (pt_index va))) \<and>
       m' = set_word (slot t (pt_index va)) (leaf_entry pa flags) m1)"
proof (cases "va AND (MEMORY_PAGE_SIZE - 1) \<noteq> 0 \<or> pa AND (MEMORY_PAGE_SIZE - 1) \<noteq> 0")
  case True
  with map same_map_refl [OF wf inv] show ?thesis by (auto simp: paging_map_page_def)
next
  case False
  let ?a4 = "slot (root_page_table m) (pml4_index va)"
  obtain r1 m1 where e1: "ensure_next_table m ?a4 = (r1, m1)" by fastforce
  note s1 = ensure_ok [OF wf inv tpath_Nil _ tab_Nil index_bounds(1) e1, simplified]
  show ?thesis
  proof (cases r1)
    case None
    with map False e1 have "rc \<noteq> 0" "m' = m1" by (auto simp: paging_map_page_def)
    with s1(1) show ?thesis by blast
  next
    case r1: (Some t1)
    note t1 = s1(2) [OF r1]
    let ?m1 = "widen_entry flags ?a4 m1"
    note d1 = same_mapD [OF s1(1)]
    have w1: "same_map m1 ?m1"
      using widen_ok [OF d1(1,2) tpath_Nil _ _ index_bounds(1), of "root_page_table m"] t1 d1(4) by simp
    note dw1 = same_mapD [OF w1]
    have t1': "tab ?m1 [pml4_index va] = Some t1" using dw1(6) t1 by simp
    let ?a3 = "slot t1 (pdpt_index va)"
    obtain r2 m2 where e2: "ensure_next_table ?m1 ?a3 = (r2, m2)" by fastforce
    note s2 = ensure_ok [OF dw1(1,2) tpath_va(3) _ t1' index_bounds(2) e2, simplified]
    have 12: "same_map m m2" using s1(1) w1 s2(1) same_map_trans by blast
    show ?thesis
    proof (cases r2)
      case None
      with map False e1 r1 e2 have "rc \<noteq> 0" "m' = m2" by (auto simp: paging_map_page_def Let_def)
      with 12 show ?thesis by blast
    next
      case r2: (Some t2)
      note t2 = s2(2) [OF r2]
      let ?m2 = "widen_entry flags ?a3 m2"
      note d2 = same_mapD [OF s2(1)]
      have w2: "same_map m2 ?m2"
        using widen_ok [OF d2(1,2) tpath_va(3) _ d2(6) [OF tpath_va(3) t1'] index_bounds(2)] t2 by simp
      note dw2 = same_mapD [OF w2]
      have t2': "tab ?m2 (path2 va) = Some t2" using dw2(6) t2 by simp
      let ?a2 = "slot t2 (pd_index va)"
      obtain r3 m3 where e3: "ensure_next_table ?m2 ?a2 = (r3, m3)" by fastforce
      note s3 = ensure_ok [OF dw2(1,2) tpath_va(2) _ t2' index_bounds(3) e3, simplified]
      have 13: "same_map m m3" using 12 w2 s3(1) same_map_trans by blast
      show ?thesis
      proof (cases r3)
        case None
        with map False e1 r1 e2 r2 e3 have "rc \<noteq> 0" "m' = m3" by (auto simp: paging_map_page_def Let_def)
        with 13 show ?thesis by blast
      next
        case r3: (Some t3)
        note t3 = s3(2) [OF r3]
        let ?m3 = "widen_entry flags ?a2 m3"
        note d3 = same_mapD [OF s3(1)]
        have w3: "same_map m3 ?m3"
          using widen_ok [OF d3(1,2) tpath_va(2) _ d3(6) [OF tpath_va(2) t2'] index_bounds(3)] t3 by simp
        have 14: "same_map m ?m3" using 13 w3 by (rule same_map_trans)
        have t3': "tab ?m3 (path3 va) = Some t3" using same_mapD(6) [OF w3] t3 by simp
        show ?thesis
        proof (cases "present (pmem ?m3 (slot t3 (pt_index va)))")
          case True
          with map False e1 r1 e2 r2 e3 r3 have "rc \<noteq> 0" "m' = ?m3" by (auto simp: paging_map_page_def Let_def)
          with 14 show ?thesis by blast
        next
          case np: False
          with map False e1 r1 e2 r2 e3 r3
          have "rc = 0" "m' = set_word (slot t3 (pt_index va)) (leaf_entry pa flags) ?m3" by (auto simp: paging_map_page_def Let_def)
          with 14 t3' np show ?thesis by blast
        qed
      qed
    qed
  qed
qed

lemma map_page_phys:
  assumes wf: "pt_wf m" and inv: "mem_inv m" and map: "paging_map_page m va pa flags = (rc, m')"
  shows "pt_wf m' \<and> mem_inv m' \<and> virt_bitmap m' = virt_bitmap m \<and> (\<forall>j. page_is_free m' j \<longrightarrow> page_is_free m j)"
    and "rc \<noteq> 0 \<Longrightarrow> paging_get_phys m' vb = paging_get_phys m vb"
    and "rc = 0 \<Longrightarrow> paging_get_phys m' vb =
        (if same_page va vb then (pa AND PAGE_ADDR_MASK) OR (vb AND (MEMORY_PAGE_SIZE - 1)) else paging_get_phys m vb)"
    and "rc = 0 \<Longrightarrow> same_page va vb \<Longrightarrow> paging_get_phys m vb = 0"
    and "rc = 0 \<Longrightarrow> \<exists>t. tab m' (path3 va) = Some t \<and> pmem m' (slot t (pt_index va)) = leaf_entry pa flags"
proof -
  have "(pt_wf m' \<and> mem_inv m' \<and> virt_bitmap m' = virt_bitmap m \<and> (\<forall>j. page_is_free m' j \<longrightarrow> page_is_free m j)) \<and>
    (rc \<noteq> 0 \<longrightarrow> paging_get_phys m' vb = paging_get_phys m vb) \<and>
    (rc = 0 \<longrightarrow> paging_get_phys m' vb =
        (if same_page va vb then (pa AND PAGE_ADDR_MASK) OR (vb AND (MEMORY_PAGE_SIZE - 1)) else paging_get_phys m vb)) \<and>
    (rc = 0 \<longrightarrow> same_page va vb \<longrightarrow> paging_get_phys m vb = 0) \<and>
    (rc = 0 \<longrightarrow> (\<exists>t. tab m' (path3 va) = Some t \<and> pmem m' (slot t (pt_index va)) = leaf_entry pa flags))"
    using map_page_steps [OF assms]
  proof (elim disjE exE conjE)
    assume "rc \<noteq> 0" "same_map m m'"
    then show ?thesis by (auto simp: same_map_def)
  next
    fix m1 t
    assume m1: "rc = 0" "same_map m m1" "tab m1 (path3 va) = Some t" "\<not> present (pmem m1 (slot t (pt_index va)))"
      and m': "m' = set_word (slot t (pt_index va)) (leaf_entry pa flags) m1"
    note d = same_mapD [OF m1(2)]
    note w = leaf_write [OF d(1,2) m1(3) m']
    have "paging_get_phys m vb = 0" if "same_page va vb"
    proof -
      have "pte_of m1 vb = pmem m1 (slot t (pt_index va))"
        using same_page_pte [OF that, of m1] m1(3) by (simp add: pte_of_def)
      moreover have "\<not> huge (pde_of m1 vb)" using leaf_pde [OF m1(3)] same_page_pde [OF that, of m1] by simp
      ultimately have "paging_get_phys m1 vb = 0" using m1(4) by (simp add: get_phys_tab [OF d(1)])
      with d(7) show ?thesis by simp
    qed
    moreover have "paging_get_phys m' vb =
        (if same_page va vb then (pa AND PAGE_ADDR_MASK) OR (vb AND (MEMORY_PAGE_SIZE - 1)) else paging_get_phys m vb)"
      by (simp only: leaf_write_phys [OF d(1,2) m1(3) m'] leaf_entry_facts d(7) simp_thms if_True)
    moreover have "tab m' (path3 va) = Some t" using w(3) [OF tpath_va(1)] m1(3) by simp
    moreover have "pmem m' (slot t (pt_index va)) = leaf_entry pa flags" by (simp add: m' frame_simps)
    moreover have "virt_bitmap m' = virt_bitmap m" "\<forall>j. page_is_free m' j \<longrightarrow> page_is_free m j"
      using d(3,5) by (simp_all add: m' frame_simps)
    ultimately show ?thesis using m1(1) w(1,2) by blast
  qed
  then show "pt_wf m' \<and> mem_inv m' \<and> virt_bitmap m' = virt_bitmap m \<and> (\<forall>j. page_is_free m' j \<longrightarrow> page_is_free m j)"
    and "rc \<noteq> 0 \<Longrightarrow> paging_get_phys m' vb = paging_get_phys m vb"
    and "rc = 0 \<Longrightarrow> paging_get_phys m' vb =
        (if same_page va vb then (pa AND PAGE_ADDR_MASK) OR (vb AND (MEMORY_PAGE_SIZE - 1)) else paging_get_phys m vb)"
    and "rc = 0 \<Longrightarrow> same_page va vb \<Longrightarrow> paging_get_phys m vb = 0"
    and "rc = 0 \<Longrightarrow> \<exists>t. tab m' (path3 va) = Some t \<and> pmem m' (slot t (pt_index va)) = leaf_entry pa flags"
    by blast+
qed

section \<open>Unmapping\<close>

lemma unmap_cases:
  assumes wf: "pt_wf m" and inv: "mem_inv m"
  shows "(paging_unmap_page va m = m \<and> (va AND (MEMORY_PAGE_SIZE - 1) = 0 \<longrightarrow> (\<forall>t. tab m (path3 va) = Some t \<longrightarrow> \<not> present (pmem m (slot t (pt_index va)))))) \<or>
    (\<exists>t. tab m (path3 va) = Some t \<and> paging_unmap_page va m = set_word (slot t (pt_index va)) 0 m)"
  using find_leaf_tab [OF wf, of va] by (auto simp: paging_unmap_page_def split: option.splits if_splits)

lemma unmap_phys:
  assumes wf: "pt_wf m" and inv: "mem_inv m"
  shows "pt_wf (paging_unmap_page va m)" and "mem_inv (paging_unmap_page va m)"
    and "\<not> same_page va vb \<Longrightarrow> paging_get_phys (paging_unmap_page va m) vb = paging_get_phys m vb"
    and "same_page va vb \<Longrightarrow> va AND (MEMORY_PAGE_SIZE - 1) = 0 \<Longrightarrow> \<not> (present (pde_of m va) \<and> huge (pde_of m va)) \<Longrightarrow>
      paging_get_phys (paging_unmap_page va m) vb = 0"
proof -
  let ?m = "paging_unmap_page va m"
  have "(pt_wf ?m \<and> mem_inv ?m) \<and> (\<not> same_page va vb \<longrightarrow> paging_get_phys ?m vb = paging_get_phys m vb) \<and>
    (same_page va vb \<longrightarrow> va AND (MEMORY_PAGE_SIZE - 1) = 0 \<longrightarrow> \<not> (present (pde_of m va) \<and> huge (pde_of m va)) \<longrightarrow>
      paging_get_phys ?m vb = 0)"
    using unmap_cases [OF assms, of va]
  proof (elim disjE exE conjE)
    assume "?m = m" and *: "va AND (MEMORY_PAGE_SIZE - 1) = 0 \<longrightarrow> (\<forall>t. tab m (path3 va) = Some t \<longrightarrow> \<not> present (pmem m (slot t (pt_index va))))"
    moreover have "\<not> present (pte_of m va)" if "va AND (MEMORY_PAGE_SIZE - 1) = 0"
      using * that by (simp add: pte_of_def split: option.split)
    ultimately show ?thesis
      using wf inv same_page_pde [of va vb m] same_page_pte [of va vb m] by (auto simp: get_phys_tab [OF wf])
  next
    fix t assume t: "tab m (path3 va) = Some t" "?m = set_word (slot t (pt_index va)) 0 m"
    from leaf_write(1,2) [OF wf inv t] leaf_write_phys [OF wf inv t, of vb] show ?thesis by simp
  qed
  then show "pt_wf ?m" "mem_inv ?m" "\<not> same_page va vb \<Longrightarrow> paging_get_phys ?m vb = paging_get_phys m vb"
    "same_page va vb \<Longrightarrow> va AND (MEMORY_PAGE_SIZE - 1) = 0 \<Longrightarrow> \<not> (present (pde_of m va) \<and> huge (pde_of m va)) \<Longrightarrow>
      paging_get_phys ?m vb = 0" by blast+
qed

lemma unmap_frame [frame_simps]:
  "virt_bitmap (paging_unmap_page va m) = virt_bitmap m" "page_is_free (paging_unmap_page va m) j = page_is_free m j"
  by (simp_all add: paging_unmap_page_def frame_simps split: option.split)

section \<open>Running on the example machine\<close>

lemma demo_wf: "pt_wf demo_mem"
proof -
  have sub: "sub_table demo_mem t i = None" for t i by (simp add: sub_table_def demo_mem_def)
  have root: "root_page_table demo_mem = 0" by (simp add: root_page_table_def demo_mem_def)
  have T: "tab demo_mem p = Some t \<longleftrightarrow> p = [] \<and> t = 0" for p t
    by (cases p) (auto simp: tab_def sub root)
  show ?thesis
    by (rule pt_wfI) (auto simp: T page_of_def demo_free, simp add: demo_mem_def)
qed

lemmas mem_eval = alloc_eval paging_map_page_def ensure_next_table_def alloc_page_table_def slot_def
  zero_page_def set_word_def widen_entry_def leaf_entry_def root_page_table_def page_table_from_entry_def
  present_def huge_def pml4_index_def pdpt_index_def pd_index_def pt_index_def

section \<open>The contract of the page tables\<close>

text \<open>C27: \<open>paging_map_page\<close> changes the translation of the one page it is asked for and of no other, and only
  when it reports success; it refuses a page that translates already; on every path, the failures
  that leave new empty tables behind included, the tables stay a tree in pages marked used and the
  page counter stays exact.\<close>

theorem paging_map_page_spec:
  assumes "pt_wf m" and "mem_inv m" and "paging_map_page m va pa flags = (rc, m')"
  shows "pt_wf m' \<and> mem_inv m' \<and>
    (\<forall>vb. paging_get_phys m' vb =
       (if rc = 0 \<and> same_page va vb then (pa AND PAGE_ADDR_MASK) OR (vb AND (MEMORY_PAGE_SIZE - 1))
        else paging_get_phys m vb)) \<and>
    (rc = 0 \<longrightarrow> paging_get_phys m va = 0)"
  using map_page_phys(1) [OF assms] map_page_phys(2-4) [OF assms] by (cases "rc = 0") auto

theorem paging_map_page_spec_witness:
  "\<exists>m'. paging_map_page demo_mem 0xFFFF900000000000 0x13000 2 = (0, m') \<and> paging_get_phys m' 0xFFFF900000000123 = 0x13123"
proof -
  obtain rc m' where m': "paging_map_page demo_mem 0xFFFF900000000000 0x13000 2 = (rc, m')" by fastforce
  have "fst (paging_map_page demo_mem 0xFFFF900000000000 0x13000 2) = 0"
    by (simp add: demo_mem_def mem_eval)
  with m' have "rc = 0" by simp
  with paging_map_page_spec [OF demo_wf demo_inv m'] m' show ?thesis by (simp add: same_page_def)
qed

text \<open>Unmapping a page just mapped restores every translation.\<close>

theorem paging_map_unmap:
  assumes "pt_wf m" and "mem_inv m" and "paging_map_page m va pa flags = (0, m')"
  shows "paging_get_phys (paging_unmap_page va m') vb = paging_get_phys m vb"
proof -
  note m = map_page_phys [OF assms]
  obtain t where t: "tab m' (path3 va) = Some t" using m(5) by blast
  have al: "va AND (MEMORY_PAGE_SIZE - 1) = 0" using assms(3) by (auto simp: paging_map_page_def split: if_splits)
  show ?thesis
  proof (cases "same_page va vb")
    case True
    then show ?thesis using unmap_phys(4) [OF _ _ True al, of m'] m(1) leaf_pde [OF t] m(4) by simp
  next
    case False
    then show ?thesis using unmap_phys(3) [OF _ _ False, of m'] m(1,3) by simp
  qed
qed

theorem paging_map_unmap_witness:
  "paging_get_phys (paging_unmap_page 0x4000 (snd (paging_map_page demo_mem 0x4000 0x13000 2))) 0x4008 = 0"
proof -
  have "fst (paging_map_page demo_mem 0x4000 0x13000 2) = 0" by (simp add: demo_mem_def mem_eval)
  then have "paging_map_page demo_mem 0x4000 0x13000 2 = (0, snd (paging_map_page demo_mem 0x4000 0x13000 2))"
    by (metis prod.collapse)
  from paging_map_unmap [OF demo_wf demo_inv this, where vb = "0x4008"]
  moreover have "paging_get_phys demo_mem 0x4008 = 0" by (simp add: paging_get_phys_def Let_def demo_mem_def)
  ultimately show ?thesis by simp
qed

end
