(* ===== verification/Sys_Demo.thy ===== *)
theory Sys_Demo
  imports Syscall Mem_Paging
begin

text \<open>
  One concrete system for the witnesses: the first 2 MiB mapped onto themselves by one large page, a kernel task, an empty file
  system, closed descriptors.
\<close>

definition flat_mem :: mem_state where
  "flat_mem = demo_mem\<lparr>cr3 := 0x1000,
     pmem := (\<lambda>a. if a = 0x1000 then 0x2003 else if a = 0x2000 then 0x3003 else if a = 0x3000 then 0x83
       else if a = 0x5000 then 0x0000004443424140 else 0)\<rparr>"

definition flat_sched :: "mem_state sched" where
  "flat_sched = task_init \<lparr>tasks = (\<lambda>_. empty_slot), current_task = 0, task_protect_mode = (\<lambda>_. 0), task_event_log_on = False,
     serial_out = [], next_id = 2, user_task_saved_rsp = 0, preempt_enabled = True, preempt_disable_count = 0,
     resume_at = (\<lambda>_. At_Entry), vm = flat_mem\<rparr>"

definition demo_sys :: "unit sys_state" where
  "demo_sys = \<lparr>
     syscall_fds = replicate 8 \<lparr>fd_type = FD_TYPE_NONE, fd_pos = 0, fd_path = [], fd_pipe_idx = -1\<rparr>,
     pipes = replicate 4 \<lparr>pb_data = (\<lambda>_. 0), pb_head = 0, pb_count = 0, pb_read_open = False, pb_write_open = False\<rparr>,
     syscall_mmap_tbl = replicate 16 \<lparr>mm_virt_addr = 0, mm_page_count = 0, mm_used = False\<rparr>,
     syscall_mmap_bump = 0,
     sys_fs = fs_init_nodes \<lparr>nodes = (\<lambda>_. \<lparr>nd_used = False, nd_is_dir = False, nd_parent = -1, nd_first_child = -1,
       nd_next_sibling = -1, nd_name = [], nd_size = 0, nd_data = (\<lambda>_. 0)\<rparr>), cwd_node = 0\<rparr>,
     sys_sched = flat_sched,
     sys_heap = \<lparr>user_heap_base = 0, user_heap_limit = 0, user_heap_brk = 0, heap_mem = flat_mem, heap_out = []\<rparr>,
     sys_out = [], sys_io = ()\<rparr>"

lemmas flat_eval = mem_eval flat_mem_def demo_mem_def paging_get_phys_def Let_def addr_is_canonical_def
  user_addr_readable_def vload_byte_def vstore_byte_def get_byte_def set_byte_def

lemma flat_sched_vm [simp]: "vm flat_sched = flat_mem" "vm (flat_sched\<lparr>vm := m\<rparr>) = m"
  by (simp_all add: flat_sched_def task_init_def Let_def)

lemma flat_bytes:
  "user_addr_readable flat_mem 0x5001" "user_addr_readable flat_mem 0x5002" "user_addr_readable flat_mem 0x5003"
  "user_addr_readable flat_mem 0x5004" "user_addr_readable flat_mem 0x5005" 
  "vload_byte flat_mem 0x5001 = 0x41" "vload_byte flat_mem 0x5002 = 0x42" "vload_byte flat_mem 0x5003 = 0x43"
  "vload_byte flat_mem 0x5004 = 0x44" "vload_byte flat_mem 0x5005 = 0"
  by (simp_all add: flat_eval)

end
