(* ===== verification/Sys_Pipe.thy ===== *)
theory Sys_Pipe
  imports Sys_Demo
begin

text \<open>
  The pipes of \<open>src/kernel/syscall.c\<close> as queues: a ring of 4096 bytes with a head and a count stands for the
  list of the bytes between them; a write appends to it, a read takes from its front.
\<close>

section \<open>The contract of a pipe\<close>

text \<open>Any sequence of requests: all that was accepted and all that was delivered, in order.\<close>

fun stream_run :: "('w \<Rightarrow> 's \<Rightarrow> u8 list \<times> 's) \<Rightarrow> ('r \<Rightarrow> 's \<Rightarrow> u8 list \<times> 's) \<Rightarrow> ('w + 'r) list \<Rightarrow> 's \<Rightarrow>
    u8 list \<times> u8 list \<times> 's" where
  "stream_run put get [] s = ([], [], s)"
| "stream_run put get (Inl w # rs) s =
     (case put w s of (bs, s1) \<Rightarrow> (case stream_run put get rs s1 of (a, d, s2) \<Rightarrow> (bs @ a, d, s2)))"
| "stream_run put get (Inr r # rs) s =
     (case get r s of (bs, s1) \<Rightarrow> (case stream_run put get rs s1 of (a, d, s2) \<Rightarrow> (a, bs @ d, s2)))"

text \<open>A store of bytes with two operations: \<open>put\<close> answers the bytes it accepted, \<open>get\<close> those it delivered.\<close>

locale byte_stream =
  fixes ok :: "'s \<Rightarrow> bool" and contents :: "'s \<Rightarrow> u8 list"
    and put :: "'w \<Rightarrow> 's \<Rightarrow> u8 list \<times> 's" and get :: "'r \<Rightarrow> 's \<Rightarrow> u8 list \<times> 's"
  assumes put_law: "ok s \<Longrightarrow> put w s = (bs, s') \<Longrightarrow> ok s' \<and> contents s' = contents s @ bs"
    and get_law: "ok s \<Longrightarrow> get r s = (bs, s') \<Longrightarrow> ok s' \<and> contents s = bs @ contents s'"
begin

lemma run_in_order:
  "ok s \<Longrightarrow> stream_run put get rs s = (a, d, s') \<Longrightarrow> ok s' \<and> contents s @ a = d @ contents s'"
proof (induction rs arbitrary: s a d s')
  case (Cons x rs)
  show ?case
  proof (cases x)
    case (Inl w)
    obtain bs s1 where p: "put w s = (bs, s1)" by fastforce
    obtain a1 d1 s2 where r: "stream_run put get rs s1 = (a1, d1, s2)" by (metis prod_cases3)
    from Cons(3) p r Inl have e: "a = bs @ a1" "d = d1" "s' = s2" by auto
    from put_law [OF Cons(2) p] Cons.IH [OF _ r] show ?thesis unfolding e by simp
  next
    case (Inr w)
    obtain bs s1 where p: "get w s = (bs, s1)" by fastforce
    obtain a1 d1 s2 where r: "stream_run put get rs s1 = (a1, d1, s2)" by (metis prod_cases3)
    from Cons(3) p r Inr have e: "a = a1" "d = bs @ d1" "s' = s2" by auto
    from get_law [OF Cons(2) p] Cons.IH [OF _ r] show ?thesis unfolding e by simp
  qed
qed auto

end

section \<open>The ring\<close>

definition pipe_ok :: "pipe_buf \<Rightarrow> bool" where
  "pipe_ok p \<longleftrightarrow> pb_head p < PIPE_BUF_SIZE \<and> pb_count p \<le> PIPE_BUF_SIZE"

definition ring_pos :: "pipe_buf \<Rightarrow> nat \<Rightarrow> nat" where
  "ring_pos p i = (unat (pb_head p) + i) mod 4096"

definition pipe_contents :: "pipe_buf \<Rightarrow> u8 list" where
  "pipe_contents p = map (\<lambda>i. pb_data p (ring_pos p i)) [0..<unat (pb_count p)]"

lemma pipe_bounds: "pipe_ok p \<Longrightarrow> unat (pb_head p) < 4096" "pipe_ok p \<Longrightarrow> unat (pb_count p) \<le> 4096"
  by (simp_all add: pipe_ok_def word_less_nat_alt word_le_nat_alt)

lemma unat_ring:
  assumes "unat a + i < 18446744073709551616"
  shows "unat ((a + of_nat i) mod 4096 :: u64) = (unat a + i) mod 4096"
proof -
  have "unat (of_nat i :: u64) = i" using assms by (simp add: unat_of_nat)
  moreover from this have "unat (a + of_nat i) = unat a + i" using assms by (subst unat_add_lem [THEN iffD1]) simp_all
  ultimately show ?thesis by (simp add: unat_mod)
qed

lemma mod_shift_le:
  assumes "(h + i) mod 4096 = (h + j) mod (4096 :: nat)" and "i \<le> j" and "j < 4096"
  shows "i = j"
proof -
  have "4096 dvd (h + j) - (h + i)" using assms by (subst mod_eq_dvd_iff_nat [symmetric]) simp_all
  then have "4096 dvd j - i" by simp
  then show ?thesis using assms(2,3) by (auto dest: dvd_imp_le)
qed

lemma ring_pos_inj: "i < 4096 \<Longrightarrow> j < 4096 \<Longrightarrow> ring_pos p i = ring_pos p j \<Longrightarrow> i = j"
  using mod_shift_le [of "unat (pb_head p)" i j] mod_shift_le [of "unat (pb_head p)" j i]
  by (cases "i \<le> j") (simp_all add: ring_pos_def)

lemma upt_split: "[0..<c + n] = [0..<c] @ map (\<lambda>i. c + i) [0..<n]"
  by (rule nth_equalityI) (auto simp: nth_append)

section \<open>Writing\<close>

lemma pipe_fill_spec:
  assumes "pipe_fill m ptr is p = (b, q)"
  shows "pb_head q = pb_head p \<and> pb_count q = pb_count p \<and> pb_read_open q = pb_read_open p \<and> pb_write_open q = pb_write_open p \<and>
    (\<forall>x. (\<forall>i \<in> set is. x \<noteq> unat ((pb_head p + pb_count p + of_nat i) mod PIPE_BUF_SIZE)) \<longrightarrow> pb_data q x = pb_data p x) \<and>
    (b \<longrightarrow> inj_on (\<lambda>i. unat ((pb_head p + pb_count p + of_nat i) mod PIPE_BUF_SIZE)) (set is) \<longrightarrow> distinct is \<longrightarrow>
       (\<forall>i \<in> set is. pb_data q (unat ((pb_head p + pb_count p + of_nat i) mod PIPE_BUF_SIZE)) = vload_byte m (ptr + of_nat i)))"
  using assms
proof (induction m ptr "is" p rule: pipe_fill.induct)
  case (2 m ptr i "is" p)
  show ?case
  proof (cases "user_addr_readable m (ptr + of_nat i)")
    case True
    let ?p = "p\<lparr>pb_data := (pb_data p)(unat ((pb_head p + pb_count p + of_nat i) mod PIPE_BUF_SIZE) := vload_byte m (ptr + of_nat i))\<rparr>"
    from 2(2) True have f: "pipe_fill m ptr is ?p = (b, q)" by simp
    from "2.IH" [OF _ f] True show ?thesis by (auto simp: inj_on_def)
  qed (use 2(2) in auto)
qed auto

text \<open>The positions a write fills are those after the contents.\<close>

lemma fill_pos:
  assumes "pipe_ok p" and "i < 4096"
  shows "unat ((pb_head p + pb_count p + of_nat i) mod PIPE_BUF_SIZE) = ring_pos p (unat (pb_count p) + i)"
proof -
  have "unat (pb_head p + pb_count p) = unat (pb_head p) + unat (pb_count p)"
    using pipe_bounds [OF assms(1)] by (subst unat_add_lem [THEN iffD1]) simp_all
  then show ?thesis using unat_ring [of "pb_head p + pb_count p" i] pipe_bounds [OF assms(1)] assms(2)
    by (simp add: ring_pos_def add.assoc)
qed

lemma fill_contents:
  assumes ok: "pipe_ok p" and n: "unat (pb_count p) + n \<le> 4096" and f: "pipe_fill m ptr [0..<n] p = (b, q)"
  shows "pipe_ok q" and "pipe_contents q = pipe_contents p"
    and "b \<Longrightarrow> pipe_contents (q\<lparr>pb_count := pb_count q + of_nat n\<rparr>) = pipe_contents p @ map (\<lambda>i. vload_byte m (ptr + of_nat i)) [0..<n]"
    and "b \<Longrightarrow> pipe_ok (q\<lparr>pb_count := pb_count q + of_nat n\<rparr>)"
proof -
  note s = pipe_fill_spec [OF f]
  let ?f = "\<lambda>i. unat ((pb_head p + pb_count p + of_nat i) mod PIPE_BUF_SIZE)"
  have pos: "?f i = ring_pos p (unat (pb_count p) + i)" if "i < n" for i using fill_pos [OF ok] that n by simp
  have rp: "ring_pos q = ring_pos p" using s by (simp add: ring_pos_def fun_eq_iff)
  have inj: "inj_on ?f (set [0..<n])"
  proof (rule inj_onI)
    fix i j assume "i \<in> set [0..<n]" "j \<in> set [0..<n]" "?f i = ?f j"
    then have "ring_pos p (unat (pb_count p) + i) = ring_pos p (unat (pb_count p) + j)" "i < n" "j < n" using pos by auto
    with n show "i = j" using ring_pos_inj [of "unat (pb_count p) + i" "unat (pb_count p) + j" p] by simp
  qed
  have old: "pb_data q (ring_pos p k) = pb_data p (ring_pos p k)" if "k < unat (pb_count p)" for k
  proof -
    have "ring_pos p k \<noteq> ?f i" if "i < n" for i
      using pos [OF that] ring_pos_inj [of k "unat (pb_count p) + i" p] \<open>k < unat (pb_count p)\<close> that n by auto
    with s show ?thesis by simp
  qed
  show "pipe_ok q" using ok s by (simp add: pipe_ok_def)
  show c: "pipe_contents q = pipe_contents p" using s old by (simp add: pipe_contents_def rp)
  assume b
  have cnt: "unat (pb_count p + of_nat n) = unat (pb_count p) + n"
  proof -
    have "unat (of_nat n :: u64) = n" using n by (simp add: unat_of_nat)
    then show ?thesis using n by (subst unat_add_lem [THEN iffD1]) simp_all
  qed
  show "pipe_ok (q\<lparr>pb_count := pb_count q + of_nat n\<rparr>)"
    using s ok n cnt by (simp add: pipe_ok_def word_le_nat_alt)
  have new: "pb_data q (ring_pos p (unat (pb_count p) + i)) = vload_byte m (ptr + of_nat i)" if "i < n" for i
  proof -
    have "\<forall>i \<in> set [0..<n]. pb_data q (?f i) = vload_byte m (ptr + of_nat i)" using s \<open>b\<close> inj by simp
    from bspec [OF this, of i] that pos [OF that] show ?thesis by simp
  qed
  have split: "[0..<unat (pb_count p) + n] = [0..<unat (pb_count p)] @ map (\<lambda>i. unat (pb_count p) + i) [0..<n]"
    by (rule upt_split)
  have h: "pb_head q = pb_head p" "pb_count q = pb_count p" using s by simp_all
  have "pipe_contents (q\<lparr>pb_count := pb_count q + of_nat n\<rparr>) = map (\<lambda>i. pb_data q (ring_pos p i)) [0..<unat (pb_count p) + n]"
    by (simp add: pipe_contents_def ring_pos_def h cnt)
  also have "\<dots> = map (\<lambda>i. pb_data q (ring_pos p i)) [0..<unat (pb_count p)] @
      map (\<lambda>i. pb_data q (ring_pos p (unat (pb_count p) + i))) [0..<n]"
    unfolding split by (simp add: comp_def)
  also have "map (\<lambda>i. pb_data q (ring_pos p (unat (pb_count p) + i))) [0..<n] = map (\<lambda>i. vload_byte m (ptr + of_nat i)) [0..<n]"
    using new by simp
  also have "map (\<lambda>i. pb_data q (ring_pos p i)) [0..<unat (pb_count p)] = pipe_contents p"
    using old by (simp add: pipe_contents_def)
  finally show "pipe_contents (q\<lparr>pb_count := pb_count q + of_nat n\<rparr>) = pipe_contents p @ map (\<lambda>i. vload_byte m (ptr + of_nat i)) [0..<n]" .
qed

section \<open>Reading\<close>

lemma pipe_bytes_take:
  assumes "pipe_ok p" and "n \<le> unat (pb_count p)"
  shows "pipe_bytes p n = take n (pipe_contents p)"
proof -
  have "unat ((pb_head p + of_nat i) mod PIPE_BUF_SIZE) = ring_pos p i" if "i < n" for i
    using unat_ring [of "pb_head p" i] that assms pipe_bounds [OF assms(1)] by (simp add: ring_pos_def)
  then show ?thesis using assms(2) by (simp add: pipe_bytes_def pipe_contents_def take_map)
qed

lemma pop_contents:
  assumes ok: "pipe_ok p" and n: "n \<le> pb_count p"
  shows "pipe_ok (p\<lparr>pb_head := (pb_head p + n) mod PIPE_BUF_SIZE, pb_count := pb_count p - n\<rparr>)"
    and "pipe_contents (p\<lparr>pb_head := (pb_head p + n) mod PIPE_BUF_SIZE, pb_count := pb_count p - n\<rparr>) = drop (unat n) (pipe_contents p)"
proof -
  let ?q = "p\<lparr>pb_head := (pb_head p + n) mod PIPE_BUF_SIZE, pb_count := pb_count p - n\<rparr>"
  have nn: "unat n \<le> unat (pb_count p)" using n by (simp add: word_le_nat_alt)
  have cnt: "unat (pb_count p - n) = unat (pb_count p) - unat n" using n by (simp add: unat_sub)
  have head: "unat ((pb_head p + n) mod PIPE_BUF_SIZE) = (unat (pb_head p) + unat n) mod 4096"
    using unat_ring [of "pb_head p" "unat n"] pipe_bounds [OF ok] nn by simp
  have "(pb_head p + n) mod PIPE_BUF_SIZE < PIPE_BUF_SIZE" unfolding word_less_nat_alt head by simp
  moreover have "pb_count p - n \<le> PIPE_BUF_SIZE" unfolding word_le_nat_alt cnt using pipe_bounds [OF ok] by simp
  ultimately show "pipe_ok ?q" by (simp add: pipe_ok_def)
  have "ring_pos ?q i = ring_pos p (unat n + i)" for i by (simp add: ring_pos_def head mod_simps add.assoc)
  then have "pipe_contents ?q = map (\<lambda>i. pb_data p (ring_pos p (unat n + i))) [0..<unat (pb_count p) - unat n]"
    by (simp add: pipe_contents_def cnt)
  also have "\<dots> = drop (unat n) (pipe_contents p)"
  proof (rule nth_equalityI)
    fix i assume "i < length (map (\<lambda>i. pb_data p (ring_pos p (unat n + i))) [0..<unat (pb_count p) - unat n])"
    then have "unat n + i < unat (pb_count p)" "i < unat (pb_count p) - unat n" by simp_all
    then show "map (\<lambda>i. pb_data p (ring_pos p (unat n + i))) [0..<unat (pb_count p) - unat n] ! i = drop (unat n) (pipe_contents p) ! i"
      by (simp add: pipe_contents_def)
  qed (simp add: pipe_contents_def)
  finally show "pipe_contents ?q = drop (unat n) (pipe_contents p)" .
qed

section \<open>The system calls\<close>

definition pipe_at :: "nat \<Rightarrow> 'io sys_state \<Rightarrow> pipe_buf" where "pipe_at pi s = pipes s ! pi"

definition pipe_valid :: "nat \<Rightarrow> 'io sys_state \<Rightarrow> bool" where
  "pipe_valid pi s \<longleftrightarrow> pi < length (pipes s) \<and> pipe_ok (pipe_at pi s)"

lemma upd_pipe_simps [simp]:
  "pi < length (pipes s) \<Longrightarrow> pipe_at pi (upd_pipe pi f s) = f (pipe_at pi s)"
  "length (pipes (upd_pipe pi f s)) = length (pipes s)" "pipes (set_mem m s) = pipes s"
  "sys_mem (upd_pipe pi f s) = sys_mem s" "pipe_at pi (set_mem m s) = pipe_at pi s" "sys_mem (set_mem m s) = m"
  by (simp_all add: pipe_at_def upd_pipe_def set_mem_def sys_mem_def)

text \<open>What a write takes, and the two calls in terms of the contents.\<close>

lemma min_words: "unat (if a < b then a else b :: u64) = min (unat a) (unat b)"
  by (simp add: min_def word_less_nat_alt)

definition write_take :: "pipe_buf \<Rightarrow> u64 \<Rightarrow> u64" where
  "write_take p len = (let len' = (if len > SYS_WRITE_MAX_BYTES then SYS_WRITE_MAX_BYTES else len);
      space = PIPE_BUF_SIZE - pb_count p in if len' < space then len' else space)"

lemma pipe_write_eq:
  "pipe_write pi ptr len s =
     (if \<not> pb_read_open (pipe_at pi s) then (-1, s) else if len = 0 \<or> write_take (pipe_at pi s) len = 0 then (0, s)
      else case pipe_fill (sys_mem s) ptr [0..<unat (write_take (pipe_at pi s) len)] (pipe_at pi s) of (b, q) \<Rightarrow>
        if b then (write_take (pipe_at pi s) len, upd_pipe pi (\<lambda>_. q\<lparr>pb_count := pb_count q + write_take (pipe_at pi s) len\<rparr>) s)
        else (-1, upd_pipe pi (\<lambda>_. q) s))"
  by (simp only: pipe_write_def write_take_def pipe_at_def Let_def) (simp split: prod.split bool.split)

lemma unat_max_word: "unat (-1 :: u64) = 18446744073709551615"
  by (simp add: unsigned_minus_1_eq_mask mask_eq_exp_minus_1)

lemma pipe_write_contents:
  assumes ok: "pipe_valid pi s" and w: "pipe_write pi ptr len s = (r, s')"
  shows "pipe_valid pi s'" and "sys_mem s' = sys_mem s"
    and "r = -1 \<Longrightarrow> pipe_contents (pipe_at pi s') = pipe_contents (pipe_at pi s)"
    and "r \<noteq> -1 \<Longrightarrow> pipe_contents (pipe_at pi s') =
        pipe_contents (pipe_at pi s) @ map (\<lambda>i. vload_byte (sys_mem s) (ptr + of_nat i)) [0..<unat r]"
    and "r \<noteq> -1 \<Longrightarrow> unat r = min (min (unat len) 4096) (4096 - length (pipe_contents (pipe_at pi s)))"
proof -
  let ?p = "pipe_at pi s"
  define n where "n = write_take ?p len"
  have pi: "pi < length (pipes s)" and p: "pipe_ok ?p" using ok by (simp_all add: pipe_valid_def)
  have cl: "length (pipe_contents ?p) = unat (pb_count ?p)" by (simp add: pipe_contents_def)
  have sp: "unat (PIPE_BUF_SIZE - pb_count ?p) = 4096 - unat (pb_count ?p)"
    using p by (simp add: unat_sub pipe_ok_def)
  have un: "unat n = min (min (unat len) 4096) (4096 - unat (pb_count ?p))"
    unfolding n_def write_take_def Let_def min_words sp by (auto simp: word_less_nat_alt min_def)
  have room: "unat (pb_count ?p) + unat n \<le> 4096" using pipe_bounds(2) [OF p] un by auto
  have neg: "n \<noteq> -1" using un unat_max_word by (intro notI) simp
  consider (shut) "\<not> pb_read_open ?p" "r = -1" "s' = s"
    | (none) "len = 0 \<or> n = 0" "r = 0" "s' = s"
    | (fault) q where "pipe_fill (sys_mem s) ptr [0..<unat n] ?p = (False, q)" "r = -1" "s' = upd_pipe pi (\<lambda>_. q) s"
    | (full) q where "pipe_fill (sys_mem s) ptr [0..<unat n] ?p = (True, q)" "r = n"
        "s' = upd_pipe pi (\<lambda>_. q\<lparr>pb_count := pb_count q + n\<rparr>) s"
  proof -
    obtain b q where f: "pipe_fill (sys_mem s) ptr [0..<unat n] ?p = (b, q)" by fastforce
    note e = w [unfolded pipe_write_eq n_def [symmetric] f prod.case]
    show thesis
    proof (cases "pb_read_open ?p")
      case False
      with e have "r = -1" "s' = s" by (simp_all only: if_True if_False not_False_eq_True prod.inject)
      with False show thesis by (rule that(1))
    next
      case True
      from True have "\<not> \<not> pb_read_open ?p" by simp
      note e = e [unfolded if_not_P [OF this]]
      show thesis
      proof (cases "len = 0 \<or> n = 0")
        case True
        with e have "r = 0" "s' = s" by (simp_all only: if_True prod.inject)
        with True show thesis by (rule that(2))
      next
        case False
        note e = e [unfolded if_not_P [OF False]]
        show thesis
        proof (cases b)
          case True
          from e [unfolded if_P [OF True]] have "r = n \<and> s' = upd_pipe pi (\<lambda>_. q\<lparr>pb_count := pb_count q + n\<rparr>) s"
            unfolding prod.inject by blast
          with that(4) [of q] f show thesis unfolding eqTrueI [OF True] by blast
        next
          case False
          from e [unfolded if_not_P [OF False]] have "r = -1" "s' = upd_pipe pi (\<lambda>_. q) s" by (simp_all only: prod.inject)
          moreover from False have "b = False" by simp
          ultimately show thesis using that(3) [of q] f by blast
        qed
      qed
    qed
  qed
  note cases = this
  have "pipe_valid pi s' \<and> sys_mem s' = sys_mem s \<and>
    (r = -1 \<longrightarrow> pipe_contents (pipe_at pi s') = pipe_contents ?p) \<and>
    (r \<noteq> -1 \<longrightarrow> pipe_contents (pipe_at pi s') = pipe_contents ?p @ map (\<lambda>i. vload_byte (sys_mem s) (ptr + of_nat i)) [0..<unat r] \<and>
       unat r = min (min (unat len) 4096) (4096 - length (pipe_contents ?p)))"
    using cases
  proof cases
    case shut
    then show ?thesis using ok by simp
  next
    case none
    then show ?thesis using ok un cl by auto
  next
    case (fault q)
    with fill_contents(1,2) [OF p room fault(1)] pi show ?thesis by (simp add: pipe_valid_def)
  next
    case (full q)
    have nn: "of_nat (unat n) = n" by simp
    note c = fill_contents(3,4) [OF p room full(1) TrueI, unfolded nn]
    from full(3) pi have at: "pipe_at pi s' = q\<lparr>pb_count := pb_count q + n\<rparr>" "length (pipes s') = length (pipes s)" "sys_mem s' = sys_mem s"
      by simp_all
    have "unat r = min (min (unat len) 4096) (4096 - length (pipe_contents ?p))" unfolding full(2) un cl ..
    then show ?thesis using c pi neg unfolding pipe_valid_def at full(2) by blast
  qed
  then show "pipe_valid pi s'" and "sys_mem s' = sys_mem s"
    and "r = -1 \<Longrightarrow> pipe_contents (pipe_at pi s') = pipe_contents ?p"
    and "r \<noteq> -1 \<Longrightarrow> pipe_contents (pipe_at pi s') =
        pipe_contents ?p @ map (\<lambda>i. vload_byte (sys_mem s) (ptr + of_nat i)) [0..<unat r]"
    and "r \<noteq> -1 \<Longrightarrow> unat r = min (min (unat len) 4096) (4096 - length (pipe_contents ?p))" by blast+
qed

lemma pipe_read_contents:
  assumes ok: "pipe_valid pi s" and g: "pipe_read pi ptr len s = (r, s')"
  shows "pipe_valid pi s'"
    and "r = -1 \<Longrightarrow> pipe_contents (pipe_at pi s') = pipe_contents (pipe_at pi s)"
    and "r \<noteq> -1 \<Longrightarrow> pipe_bytes (pipe_at pi s) (unat r) = take (unat r) (pipe_contents (pipe_at pi s))"
    and "r \<noteq> -1 \<Longrightarrow> pipe_contents (pipe_at pi s') = drop (unat r) (pipe_contents (pipe_at pi s))"
    and "r \<noteq> -1 \<Longrightarrow> unat r = min (unat len) (length (pipe_contents (pipe_at pi s)))"
proof -
  let ?p = "pipe_at pi s"
  define n where "n = (if len < pb_count ?p then len else pb_count ?p)"
  have pi: "pi < length (pipes s)" and p: "pipe_ok ?p" using ok by (simp_all add: pipe_valid_def)
  have cl: "length (pipe_contents ?p) = unat (pb_count ?p)" by (simp add: pipe_contents_def)
  have un: "unat n = min (unat len) (unat (pb_count ?p))" unfolding n_def min_words ..
  have le: "n \<le> pb_count ?p" using un by (simp add: word_le_nat_alt)
  consider (none) "pb_count ?p = 0" "r = 0" "s' = s"
    | (fault) m where "r = -1" "s' = set_mem m s"
    | (full) m where "r = n" "s' = upd_pipe pi (\<lambda>p. p\<lparr>pb_head := (pb_head p + n) mod PIPE_BUF_SIZE, pb_count := pb_count p - n\<rparr>) (set_mem m s)"
    using g unfolding pipe_read_def Let_def pipe_at_def [symmetric] n_def [symmetric]
    by (auto split: if_splits prod.splits bool.splits)
  then have "pipe_valid pi s' \<and> (r = -1 \<longrightarrow> pipe_contents (pipe_at pi s') = pipe_contents ?p) \<and>
    (r \<noteq> -1 \<longrightarrow> pipe_bytes ?p (unat r) = take (unat r) (pipe_contents ?p) \<and>
       pipe_contents (pipe_at pi s') = drop (unat r) (pipe_contents ?p) \<and>
       unat r = min (unat len) (length (pipe_contents ?p)))"
  proof cases
    case none
    then show ?thesis using ok by (simp add: pipe_contents_def pipe_bytes_def)
  next
    case (fault m)
    then show ?thesis using ok by (simp add: pipe_valid_def)
  next
    case (full m)
    have "n \<noteq> -1" using pipe_bounds [OF p] un unat_max_word by (intro notI) simp
    moreover have "pipe_bytes ?p (unat n) = take (unat n) (pipe_contents ?p)" by (rule pipe_bytes_take [OF p]) (simp add: un)
    ultimately show ?thesis using full pop_contents [OF p le] pi un cl by (simp add: pipe_valid_def)
  qed
  then show "pipe_valid pi s'" and "r = -1 \<Longrightarrow> pipe_contents (pipe_at pi s') = pipe_contents ?p"
    and "r \<noteq> -1 \<Longrightarrow> pipe_bytes ?p (unat r) = take (unat r) (pipe_contents ?p)"
    and "r \<noteq> -1 \<Longrightarrow> pipe_contents (pipe_at pi s') = drop (unat r) (pipe_contents ?p)"
    and "r \<noteq> -1 \<Longrightarrow> unat r = min (unat len) (length (pipe_contents ?p))" by blast+
qed

text \<open>
  The two calls as operations of a byte stream: the bytes a write took are those its answer counts in the user's buffer, the
  bytes a read gave are those it handed to \<open>user_copy_out\<close>; a failed call moved none.
\<close>

definition pipe_put :: "nat \<Rightarrow> u64 \<times> u64 \<Rightarrow> 'io sys_state \<Rightarrow> u8 list \<times> 'io sys_state" where
  "pipe_put pi = (\<lambda>(ptr, len) s. case pipe_write pi ptr len s of (r, s') \<Rightarrow>
     (if r = -1 then [] else map (\<lambda>i. vload_byte (sys_mem s) (ptr + of_nat i)) [0..<unat r], s'))"

definition pipe_get :: "nat \<Rightarrow> u64 \<times> u64 \<Rightarrow> 'io sys_state \<Rightarrow> u8 list \<times> 'io sys_state" where
  "pipe_get pi = (\<lambda>(ptr, len) s. case pipe_read pi ptr len s of (r, s') \<Rightarrow>
     (if r = -1 then [] else pipe_bytes (pipe_at pi s) (unat r), s'))"

interpretation sys_pipe: byte_stream "pipe_valid pi" "\<lambda>s. pipe_contents (pipe_at pi s)" "pipe_put pi" "pipe_get pi" for pi
proof
  fix s :: "'io sys_state" and w bs s'
  assume "pipe_valid pi s" "pipe_put pi w s = (bs, s')"
  then show "pipe_valid pi s' \<and> pipe_contents (pipe_at pi s') = pipe_contents (pipe_at pi s) @ bs"
    by (cases w; cases "pipe_write pi (fst w) (snd w) s") (auto simp: pipe_put_def pipe_write_contents split: if_splits)
next
  fix s :: "'io sys_state" and w bs s'
  assume "pipe_valid pi s" "pipe_get pi w s = (bs, s')"
  then show "pipe_valid pi s' \<and> pipe_contents (pipe_at pi s) = bs @ pipe_contents (pipe_at pi s')"
    using pipe_read_contents [of pi s "fst w" "snd w"]
    by (cases "pipe_read pi (fst w) (snd w) s") (auto simp: pipe_get_def case_prod_beta split: if_splits dest!: sym [of "take _ _"])
qed


definition demo_piped :: "unit sys_state" where
  "demo_piped = demo_sys\<lparr>pipes := (pipes demo_sys)[2 := \<lparr>pb_data = (\<lambda>_. 7), pb_head = 4095, pb_count = 1,
     pb_read_open = True, pb_write_open = True\<rparr>]\<rparr>"

lemmas short_ranges = upt_rec [of 0 "numeral k" for k] upt_rec [of 0 "Suc 0"] upt_rec [of "Suc 0" "numeral k" for k]
  upt_rec [of "Suc (Suc 0)" "numeral k" for k] upt_rec [of "Suc (Suc (Suc 0))" "numeral k" for k]

lemma demo_piped_simps [simp]:
  "pipe_at 2 demo_piped = \<lparr>pb_data = (\<lambda>_. 7), pb_head = 4095, pb_count = 1, pb_read_open = True, pb_write_open = True\<rparr>"
  "length (pipes demo_piped) = 4" "sys_mem demo_piped = flat_mem"
  by (simp_all add: demo_piped_def demo_sys_def pipe_at_def sys_mem_def)

lemma demo_piped_put:
  "fst (pipe_put 2 (0x5001, 3) demo_piped) = [0x41, 0x42, 0x43]"
  by (simp add: pipe_put_def pipe_write_eq write_take_def Let_def short_ranges flat_bytes)


end
