(* ===== verification/Sys_Write.thy ===== *)
theory Sys_Write
  imports Sys_Demo
begin

text \<open>
  Writing a string of user memory to the terminal: the two modes of \<open>syscall_write_user\<close> against the text at the
  address they are given.
\<close>

text \<open>The text \<open>cs\<close> and a NUL behind it are at \<open>p\<close>.\<close>

definition user_string :: "mem_state \<Rightarrow> u64 \<Rightarrow> string \<Rightarrow> bool" where
  "user_string m p cs \<longleftrightarrow> (\<forall>i \<le> length cs. user_addr_readable m (p + of_nat i)) \<and>
     (\<forall>i < length cs. char_of_byte (vload_byte m (p + of_nat i)) = cs ! i \<and> cs ! i \<noteq> CHR 0x00) \<and>
     char_of_byte (vload_byte m (p + of_nat (length cs))) = CHR 0x00"

lemma user_string_drop: "user_string m p cs \<Longrightarrow> k \<le> length cs \<Longrightarrow> user_string m (p + of_nat k) (drop k cs)"
  unfolding user_string_def by (auto simp: add.assoc simp flip: of_nat_add)

lemma user_string_no_nul: "user_string m p cs \<Longrightarrow> c \<in> set cs \<Longrightarrow> c \<noteq> CHR 0x00"
  by (auto simp: user_string_def in_set_conv_nth)

lemma term_write_all: "(\<And>c. c \<in> set cs \<Longrightarrow> c \<noteq> CHR 0x00) \<Longrightarrow> term_write cs s = s\<lparr>sys_out := sys_out s @ cs\<rparr>"
  by (simp add: term_write_def takeWhile_eq_all_conv [THEN iffD2])

lemma term_write_take_drop:
  assumes "\<And>c. c \<in> set cs \<Longrightarrow> c \<noteq> CHR 0x00"
  shows "term_write (drop n cs) (term_write (take n cs) s) = term_write cs s"
proof -
  have "c \<noteq> CHR 0x00" if "c \<in> set (take n cs) \<or> c \<in> set (drop n cs)" for c
    using assms that by (auto dest: in_set_takeD in_set_dropD)
  then show ?thesis using term_write_all [of "take n cs" s] term_write_all [of "drop n cs" "term_write (take n cs) s"]
    term_write_all [of cs s] assms
    by simp
qed

lemma chunk_count: "(128 + k) div 128 * 128 = 128 + k div 128 * (128 :: nat)"
proof -
  have "(128 + k) div 128 = k div 128 + 1" using div_add_self1 [of "128 :: nat" k] by linarith
  then show ?thesis by (simp only: add_mult_distrib mult_1 add.commute)
qed

lemma word_move: "(a :: u64) + k + (x - k) = a + x"
  by simp

lemma term_write_mem [simp]: "sys_mem (term_write cs s) = sys_mem s"
  by (simp add: term_write_def sys_mem_def)

lemma term_write_Nil [simp]: "term_write [] s = s"
  by (simp add: term_write_def)

section \<open>The NUL-terminated mode\<close>

lemma scan_chunk_string:
  assumes "user_string m p cs" and "j \<le> length cs"
  shows "scan_chunk m p n (take j cs) = (if j + n > length cs then (Chunk_Nul, cs) else (Chunk_Full, take (j + n) cs))"
  using assms(2)
proof (induction n arbitrary: j)
  case (Suc n)
  have r: "user_addr_readable m (p + of_nat j)" using assms(1) Suc(2) by (simp add: user_string_def)
  show ?case
  proof (cases "j = length cs")
    case True
    have "char_of_byte (vload_byte m (p + of_nat (length cs))) = CHR 0x00" using assms(1) by (simp add: user_string_def)
    with r True show ?thesis by simp
  next
    case False
    with Suc(2) have j: "j < length cs" by simp
    then have "char_of_byte (vload_byte m (p + of_nat j)) = cs ! j" "cs ! j \<noteq> CHR 0x00"
      using assms(1) by (simp_all add: user_string_def)
    with r j Suc.IH [of "Suc j"] show ?thesis by (simp add: take_Suc_conv_app_nth)
  qed
qed simp

lemma write_cstr_loop_string:
  assumes "user_string (sys_mem s) p cs" and "scanned + length cs < 4096"
  shows "write_cstr_loop p scanned written s = (written + of_nat (length cs div 128 * 128), term_write cs s)"
  using assms
proof (induction "length cs" arbitrary: p cs scanned written s rule: less_induct)
  case less
  let ?n = "min 128 (4096 - scanned)"
  note sc = scan_chunk_string [OF less(2), of 0 ?n, simplified]
  show ?case
  proof (cases "length cs < 128")
    case True
    with less(3) have "length cs < ?n" by simp
    with sc less(3) True show ?thesis by (subst write_cstr_loop.simps) simp
  next
    case False
    with less(3) have n: "?n = 128" by simp
    have u: "user_string (sys_mem (term_write (take 128 cs) s)) (p + of_nat 128) (drop 128 cs)"
      using user_string_drop [OF less(2), of 128] False by simp
    obtain k where l: "length cs = 128 + k" "length (drop 128 cs) = k" using False by (metis le_add_diff_inverse length_drop not_less)
    have "scanned + 128 + length (drop 128 cs) < 4096" using less(3) False by simp
    from less(1) [OF _ u this, of "written + 128"] False
    have ih: "write_cstr_loop (p + of_nat 128) (scanned + 128) (written + 128) (term_write (take 128 cs) s) =
        (written + 128 + of_nat (length (drop 128 cs) div 128 * 128), term_write (drop 128 cs) (term_write (take 128 cs) s))"
      by simp
    have nul: "c \<noteq> CHR 0x00" if "c \<in> set cs" for c using user_string_no_nul [OF less(2) that] .
    have "term_write (drop 128 cs) (term_write (take 128 cs) s) = term_write cs s"
      using nul by (intro term_write_take_drop)
    moreover have "length cs div 128 * 128 = 128 + length (drop 128 cs) div 128 * 128"
      unfolding l by (rule chunk_count)
    moreover have "write_cstr_loop p scanned written s =
        write_cstr_loop (p + of_nat 128) (scanned + 128) (written + of_nat 128) (term_write (take 128 cs) s)"
    proof -
      have c: "scan_chunk (sys_mem s) p ?n [] = (Chunk_Full, take 128 cs)"
        using sc False unfolding n by (metis add_0)
      have len: "length (take 128 cs) = 128" unfolding length_take using False by (intro min.absorb2) (simp only: not_less)
      then have "take 128 cs \<noteq> []" by (metis list.size(3) zero_neq_numeral)
      moreover have "scanned < 4096" using less(3) by (rule add_lessD1)
      ultimately have ne: "(take 128 cs = []) = False" "(scanned < 4096) = True" by blast+
      show ?thesis
        by (subst write_cstr_loop.simps) (simp only: c ne len if_True if_False prod.case chunk_end.case)
    qed
    ultimately show ?thesis using ih by (simp only: of_nat_add of_nat_numeral add.assoc)
  qed
qed

section \<open>The mode with a length\<close>

lemma user_copy_ascii_string:
  assumes "user_string m p cs" and "n \<le> length cs"
  shows "user_copy_ascii m p n = Some (take n cs)"
  using assms
proof (induction n arbitrary: p cs)
  case (Suc n)
  from Suc(3) obtain c cs' where cs: "cs = c # cs'" by (cases cs) auto
  have "user_addr_readable m p" "char_of_byte (vload_byte m p) = c"
    using Suc(2) unfolding user_string_def cs by (auto dest: spec [of _ 0])
  moreover have "user_string m (p + 1) cs'" using user_string_drop [OF Suc(2), of 1] by (simp add: cs)
  ultimately show ?case using Suc(1) [of "p + 1" cs'] Suc(3) cs by simp
qed simp

lemma write_len_loop_string:
  assumes "user_string (sys_mem s) p cs" and "length cs < 2 ^ 64"
  shows "write_len_loop p (of_nat (length cs)) written s = (written + of_nat (length cs), term_write cs s)"
  using assms
proof (induction "length cs" arbitrary: p cs written s rule: less_induct)
  case less
  have un: "unat (of_nat (length cs) :: u64) = length cs" using less(3) by (simp add: unat_of_nat)
  have zero: "(of_nat (length cs) :: u64) = 0 \<longleftrightarrow> cs = []" 
  proof
    assume "(of_nat (length cs) :: u64) = 0"
    with un have "unat (0 :: u64) = length cs" by (simp only:)
    then show "cs = []" by simp
  qed simp
  let ?k = "if (of_nat (length cs) :: u64) > 128 then 128 else of_nat (length cs) :: u64"
  let ?n = "min 128 (length cs)"
  have k: "unat ?k = ?n" "?k = of_nat ?n" using un by (auto simp: word_less_nat_alt min_def)
  show ?case
  proof (cases "cs = []")
    case True
    then show ?thesis by (subst write_len_loop.simps) simp
  next
    case False
    have u: "user_string (sys_mem (term_write (take ?n cs) s)) (p + ?k) (drop ?n cs)"
      using user_string_drop [OF less(2), of ?n] k(2) by simp
    have l: "length (drop ?n cs) < length cs" "length (drop ?n cs) < 2 ^ 64" using False less(3) by (simp_all add: min_def)
    have rem: "of_nat (length cs) - ?k = of_nat (length (drop ?n cs))" unfolding k(2) by (simp add: of_nat_diff)
    note ih = less(1) [OF l(1) u l(2), of "written + ?k", folded rem]
    have nul: "c \<noteq> CHR 0x00" if "c \<in> set cs" for c using user_string_no_nul [OF less(2) that] .
    have "term_write (drop ?n cs) (term_write (take ?n cs) s) = term_write cs s"
      using nul by (intro term_write_take_drop)
    moreover have "written + ?k + of_nat (length (drop ?n cs)) = written + of_nat (length cs)"
      unfolding rem [symmetric] by (rule word_move)
    moreover have "write_len_loop p (of_nat (length cs)) written s =
        write_len_loop (p + ?k) (of_nat (length cs) - ?k) (written + ?k) (term_write (take ?n cs) s)"
    proof -
      have c: "user_copy_ascii (sys_mem s) p (unat ?k) = Some (take ?n cs)"
        using user_copy_ascii_string [OF less(2), of ?n] k(1) by simp
      have ne: "((of_nat (length cs) :: u64) = 0) = False" using zero False by simp
      show ?thesis by (subst write_len_loop.simps) (simp only: c ne Let_def option.case if_True not_False_eq_True)
    qed
    ultimately show ?thesis using ih by (simp only: word_move)
  qed
qed

section \<open>The two modes\<close>

text \<open>C38: of a text of fewer than 4096 characters, with a NUL behind it, both modes of \<open>syscall_write_user\<close> put exactly the
  text on the terminal. With its length as argument the answer is that length; with 0 the answer leaves out the
  characters of the last chunk of 128: it is 0 for every text shorter than that.\<close>

theorem syscall_write_modes:
  assumes "user_string (sys_mem s) p cs" and "p \<noteq> 0" and "0 < length cs" and "length cs < 4096"
  shows "syscall_write_user p (of_nat (length cs)) s = (of_nat (length cs), s\<lparr>sys_out := sys_out s @ cs\<rparr>) \<and>
    syscall_write_user p 0 s = (of_nat (length cs div 128 * 128), s\<lparr>sys_out := sys_out s @ cs\<rparr>)"
proof -
  have un: "unat (of_nat (length cs) :: u64) = length cs" using assms(4) by (simp add: unat_of_nat)
  have "(of_nat (length cs) :: u64) \<noteq> 0" using un assms(3) by (metis less_numeral_extra(3) unat_0)
  moreover have "\<not> (of_nat (length cs) :: u64) > 4096" using un assms(4) by (simp add: word_less_nat_alt)
  ultimately show ?thesis
    using assms(2) write_cstr_loop_string [OF assms(1), of 0 0] write_len_loop_string [OF assms(1), of 0] assms(4)
      term_write_all [OF user_string_no_nul [OF assms(1)]]
    by (simp only: syscall_write_user_def) (simp del: write_cstr_loop.simps write_len_loop.simps)
qed

lemma all_below_4:
  "(\<forall>i < Suc (Suc (Suc (Suc 0))). P i) \<longleftrightarrow> P 0 \<and> P 1 \<and> P 2 \<and> P (3 :: nat)"
  "(\<forall>i \<le> Suc (Suc (Suc (Suc 0))). P i) \<longleftrightarrow> P 0 \<and> P 1 \<and> P 2 \<and> P 3 \<and> P (4 :: nat)"
  by (auto simp: less_Suc_eq le_Suc_eq eval_nat_numeral)

theorem syscall_write_modes_witness:
  "fst (syscall_write_user 0x5001 4 demo_sys) = 4 \<and> fst (syscall_write_user 0x5001 0 demo_sys) = 0 \<and>
   sys_out (snd (syscall_write_user 0x5001 0 demo_sys)) = ''ABCD''"
proof -
  have "user_string (sys_mem demo_sys) 0x5001 ''ABCD''"
    by (simp add: user_string_def demo_sys_def sys_mem_def all_below_4 flat_bytes char_of_def bit_0)
  from syscall_write_modes [OF this] show ?thesis by (simp add: demo_sys_def)
qed

end
