(* ===== verification/Task_Ring.thy ===== *)
theory Task_Ring
  imports Task
begin

text \<open>
  The circular list of tasks: a chain of \<open>next\<close> links from slot 0 back to slot 0. What the two walks
  of the scheduler (the search for a READY task and the search for a predecessor) return on it.
\<close>

fun seg :: "(nat \<Rightarrow> nat option) \<Rightarrow> nat \<Rightarrow> nat list \<Rightarrow> nat \<Rightarrow> bool" where
  "seg nx a [] b = (a = b)"
| "seg nx a (x # xs) b = (a = x \<and> (case nx x of None \<Rightarrow> False | Some n \<Rightarrow> seg nx n xs b))"

abbreviation links :: "(nat \<Rightarrow> task_t) \<Rightarrow> nat \<Rightarrow> nat option" where
  "links ts \<equiv> (\<lambda>i. tk_next (ts i))"

definition ring :: "(nat \<Rightarrow> task_t) \<Rightarrow> nat list \<Rightarrow> bool" where
  "ring ts xs \<longleftrightarrow> seg (links ts) 0 (0 # xs) 0 \<and> distinct (0 # xs)"

lemma seg_append: "seg nx a (xs @ ys) b \<longleftrightarrow> (\<exists>m. seg nx a xs m \<and> seg nx m ys b)"
  by (induction xs arbitrary: a) (auto split: option.split)

lemma seg_cong: "(\<And>x. x \<in> set xs \<Longrightarrow> nx' x = nx x) \<Longrightarrow> seg nx' a xs b = seg nx a xs b"
  by (induction xs arbitrary: a) (auto split: option.split)

text \<open>The tasks after \<open>c\<close>, in the order the list visits them.\<close>

definition others :: "nat list \<Rightarrow> nat \<Rightarrow> nat list" where
  "others L c = tl (dropWhile (\<lambda>x. x \<noteq> c) L) @ takeWhile (\<lambda>x. x \<noteq> c) L"

lemma others_split: "c \<notin> set as \<Longrightarrow> others (as @ c # bs) c = bs @ as"
proof -
  assume "c \<notin> set as"
  then have "dropWhile (\<lambda>x. x \<noteq> c) (as @ c # bs) = c # bs" "takeWhile (\<lambda>x. x \<noteq> c) (as @ c # bs) = as"
    by (induction as) auto
  then show ?thesis by (simp add: others_def)
qed

lemma set_others: "distinct L \<Longrightarrow> c \<in> set L \<Longrightarrow> set (others L c) = set L - {c} \<and> distinct (others L c)"
proof -
  assume L: "distinct L" "c \<in> set L"
  then obtain as bs where L': "L = as @ c # bs" by (meson split_list)
  with L have "c \<notin> set as" by auto
  with L show ?thesis unfolding L' by (auto simp: others_split)
qed

lemma ring_others:
  assumes r: "ring ts xs" and c: "c \<in> set (0 # xs)"
  obtains q where "tk_next (ts c) = Some q" and "seg (links ts) q (others (0 # xs) c) c"
proof -
  from c obtain as bs where L: "0 # xs = as @ c # bs" by (meson split_list)
  from r have s: "seg (links ts) 0 (as @ c # bs) 0" and d: "distinct (as @ c # bs)"
    unfolding ring_def L by auto
  from s obtain m where m: "seg (links ts) 0 as m" "seg (links ts) m (c # bs) 0" by (auto simp: seg_append)
  then obtain q where q: "m = c" "tk_next (ts c) = Some q" "seg (links ts) q bs 0" by (auto split: option.splits)
  from q(3) m(1) q(1) have "seg (links ts) q (bs @ as) c" by (auto simp: seg_append)
  moreover have "others (0 # xs) c = bs @ as" unfolding L using d by (intro others_split) auto
  ultimately show thesis using q(2) by (intro that) auto
qed

section \<open>Looking for a READY task\<close>

lemma ready_from_seg:
  assumes "seg (links ts) q xs old" and "old \<notin> set xs"
  shows "ready_from ts old (Some q) =
    Some (case List.find (\<lambda>i. tk_state (ts i) = READY) xs of None \<Rightarrow> old | Some i \<Rightarrow> i)"
  using assms
proof (induction xs arbitrary: q)
  case Nil
  then show ?case by (simp add: ready_from.simps)
next
  case (Cons x xs)
  then show ?case by (subst ready_from.simps) (auto split: option.splits)
qed

lemma ready_from_ring:
  assumes r: "ring ts xs" and c: "c \<in> set (0 # xs)"
  shows "ready_from ts c (tk_next (ts c)) =
    Some (case List.find (\<lambda>i. tk_state (ts i) = READY) (others (0 # xs) c) of None \<Rightarrow> c | Some i \<Rightarrow> i)"
proof -
  from r c obtain q where "tk_next (ts c) = Some q" "seg (links ts) q (others (0 # xs) c) c" by (rule ring_others)
  moreover have "c \<notin> set (others (0 # xs) c)" using set_others [of "0 # xs" c] r c by (auto simp: ring_def)
  ultimately show ?thesis using ready_from_seg by simp
qed

section \<open>Taking a task out\<close>

lemma unlink_walk_found:
  assumes "seg (links ts) p (p # as @ t # bs) 0" and "distinct (p # as @ t # bs)" and "0 \<notin> set as" and "t \<noteq> 0"
  shows "unlink_walk ts t p = Some (ts(last (p # as) := (ts (last (p # as)))\<lparr>tk_next := tk_next (ts t)\<rparr>))"
  using assms
proof (induction as arbitrary: p)
  case Nil
  then show ?case by (subst unlink_walk.simps) (auto split: option.splits)
next
  case (Cons a as)
  then have a: "tk_next (ts p) = Some a" "a \<noteq> t" "a \<noteq> 0" "seg (links ts) a (a # as @ t # bs) 0"
    by (auto split: option.splits)
  with Cons show ?case by (subst unlink_walk.simps) auto
qed

lemma unlink_walk_absent:
  assumes "seg (links ts) p (p # as) 0" and "t \<notin> set as" and "0 \<notin> set as" and "t \<noteq> 0"
  shows "unlink_walk ts t p = Some ts"
  using assms
proof (induction as arbitrary: p)
  case Nil
  then show ?case by (subst unlink_walk.simps) (auto split: option.splits)
next
  case (Cons a as)
  then have "tk_next (ts p) = Some a" "a \<noteq> t" "a \<noteq> 0" "seg (links ts) a (a # as) 0"
    by (auto split: option.splits)
  with Cons show ?case by (subst unlink_walk.simps) auto
qed

text \<open>\<open>same_tasks\<close>: the arrays differ in links only.\<close>

definition same_tasks :: "(nat \<Rightarrow> task_t) \<Rightarrow> (nat \<Rightarrow> task_t) \<Rightarrow> bool" where
  "same_tasks ts ts' \<longleftrightarrow> (\<forall>i. ts' i = (ts i)\<lparr>tk_next := tk_next (ts' i)\<rparr>)"

lemma same_tasks_simps:
  assumes "same_tasks ts ts'"
  shows "tk_id (ts' i) = tk_id (ts i)" "tk_state (ts' i) = tk_state (ts i)" "tk_name (ts' i) = tk_name (ts i)"
    "tk_stack_base (ts' i) = tk_stack_base (ts i)"
  using assms unfolding same_tasks_def by (metis task_t.select_convs task_t.surjective task_t.update_convs)+

lemma unlink_ring:
  assumes r: "ring ts xs" and t: "t \<noteq> 0"
  obtains ts' where "unlink_walk ts t 0 = Some ts'" and "ring ts' (remove1 t xs)" and "same_tasks ts ts'"
proof (cases "t \<in> set xs")
  case True
  then obtain as bs where xs: "xs = as @ t # bs" "t \<notin> set as" by (metis split_list_first)
  let ?p = "last (0 # as)"
  define ts1 where "ts1 = ts(?p := (ts ?p)\<lparr>tk_next := tk_next (ts t)\<rparr>)"
  from r have s: "seg (links ts) 0 (0 # as @ t # bs) 0" and d: "distinct (0 # as @ t # bs)" by (auto simp: ring_def xs)
  have u: "unlink_walk ts t 0 = Some ts1" unfolding ts1_def by (rule unlink_walk_found [OF s d]) (use d t in auto)
  obtain cs where cs: "0 # as = cs @ [?p]" by (metis append_butlast_last_id list.distinct(1))
  from s have "seg (links ts) 0 (cs @ ?p # t # bs) 0" using cs by (metis Cons_eq_appendI append.assoc append_Cons append_Nil)
  then obtain n where n: "seg (links ts) 0 cs ?p" "tk_next (ts t) = Some n" "seg (links ts) n bs 0"
    by (auto simp: seg_append split: option.splits)
  have d2: "distinct (cs @ ?p # t # bs)" using d cs by (metis Cons_eq_appendI append.assoc append_Cons append_Nil)
  have l: "links ts1 x = links ts x" if "x \<noteq> ?p" for x using that by (simp add: ts1_def)
  have "x \<noteq> ?p" if "x \<in> set cs \<union> set bs" for x using that d2 by auto
  then have "seg (links ts1) 0 cs ?p = seg (links ts) 0 cs ?p" "seg (links ts1) n bs 0 = seg (links ts) n bs 0"
    by (intro seg_cong l; blast)+
  moreover have "tk_next (ts1 ?p) = Some n" using n(2) by (simp add: ts1_def)
  ultimately have "seg (links ts1) 0 (cs @ ?p # bs) 0" using n(1,3) unfolding seg_append by auto
  moreover have L: "cs @ ?p # bs = 0 # as @ bs" using cs by (metis Cons_eq_appendI append.assoc append_Nil)
  ultimately have "seg (links ts1) 0 (0 # as @ bs) 0" unfolding L by simp
  moreover have "remove1 t xs = as @ bs" using xs by (simp add: remove1_append)
  ultimately have "ring ts1 (remove1 t xs)" using d unfolding ring_def by auto
  moreover have "same_tasks ts ts1" by (simp add: same_tasks_def ts1_def)
  ultimately show thesis using u by (intro that)
next
  case False
  with r have "unlink_walk ts t 0 = Some ts" by (intro unlink_walk_absent [of _ _ xs]) (auto simp: ring_def t)
  then show thesis using r False by (intro that [of ts]) (auto simp: remove1_idem same_tasks_def)
qed

section \<open>Adding a task\<close>

lemma ring_insert:
  assumes r: "ring ts xs" and t: "t \<notin> set (0 # xs)"
    and t': "tk_next (ts' t) = tk_next (ts 0)" "tk_next (ts' 0) = Some t"
    and rest: "\<And>i. i \<noteq> t \<Longrightarrow> i \<noteq> 0 \<Longrightarrow> tk_next (ts' i) = tk_next (ts i)"
  shows "ring ts' (t # xs)"
proof -
  from r obtain n where n: "tk_next (ts 0) = Some n" "seg (links ts) n xs 0" by (auto simp: ring_def split: option.splits)
  have "x \<noteq> 0 \<and> x \<noteq> t" if "x \<in> set xs" for x using that r t by (metis distinct.simps(2) list.set_intros(2) ring_def)
  with rest have "seg (links ts') n xs 0 = seg (links ts) n xs 0" by (intro seg_cong) blast
  with n(2) have "seg (links ts') n xs 0" by simp
  with n t t' r show ?thesis by (simp add: ring_def)
qed

end
