(* ===== verification/Task_Inv.thy ===== *)
theory Task_Inv
  imports Task_Ring
begin

text \<open>
  The scheduler's invariant and the operations that keep it: the circular list holds exactly the slots
  in use, the current task is the one RUNNING task, task 0 can always run, and the task ids are
  distinct. So the walks end, and a switch always finds a task to run.
\<close>

definition live :: "'m sched \<Rightarrow> nat \<Rightarrow> bool" where
  "live s i \<longleftrightarrow> i < TASK_MAX \<and> tk_id (tasks s i) \<noteq> 0"

text \<open>The invariant between operations is \<open>sched_inv\<close>; \<open>sched_wf\<close> leaves the state of the current task
  open, as it is inside an operation.\<close>

definition sched_wf :: "'m sched \<Rightarrow> bool" where
  "sched_wf s \<longleftrightarrow>
     (\<exists>xs. ring (tasks s) xs \<and> set (0 # xs) = {i. live s i}) \<and>
     live s (current_task s) \<and>
     (\<forall>i. live s i \<and> i \<noteq> current_task s \<longrightarrow> tk_state (tasks s i) \<noteq> RUNNING) \<and>
     tk_state (tasks s 0) \<in> {READY, RUNNING} \<and> task_protect_mode s 0 = 0 \<and>
     (\<forall>i j. live s i \<and> live s j \<and> tk_id (tasks s i) = tk_id (tasks s j) \<longrightarrow> i = j) \<and>
     (next_id s \<noteq> 0 \<longrightarrow> (\<forall>i. live s i \<longrightarrow> tk_id (tasks s i) < next_id s)) \<and>
     (\<forall>i < TASK_MAX. tk_id (tasks s i) = 0 \<longrightarrow> tk_stack_base (tasks s i) = 0)"

definition sched_inv :: "'m sched \<Rightarrow> bool" where
  "sched_inv s \<longleftrightarrow> sched_wf s \<and> tk_state (tasks s (current_task s)) = RUNNING"

lemma sched_wfD:
  assumes "sched_wf s"
  shows "\<exists>xs. ring (tasks s) xs \<and> set (0 # xs) = {i. live s i}" and "live s (current_task s)"
    and "live s i \<Longrightarrow> i \<noteq> current_task s \<Longrightarrow> tk_state (tasks s i) \<noteq> RUNNING"
    and "tk_state (tasks s 0) = READY \<or> tk_state (tasks s 0) = RUNNING"
    and "task_protect_mode s 0 = 0"
    and "live s i \<Longrightarrow> live s j \<Longrightarrow> tk_id (tasks s i) = tk_id (tasks s j) \<Longrightarrow> i = j"
    and "next_id s \<noteq> 0 \<Longrightarrow> live s i \<Longrightarrow> tk_id (tasks s i) < next_id s"
    and "i < TASK_MAX \<Longrightarrow> tk_id (tasks s i) = 0 \<Longrightarrow> tk_stack_base (tasks s i) = 0"
    and "live s 0"
proof -
  show ring: "\<exists>xs. ring (tasks s) xs \<and> set (0 # xs) = {i. live s i}" using assms unfolding sched_wf_def by (elim conjE)
  then show "live s 0" by auto
qed (use assms in \<open>unfold sched_wf_def, blast+\<close>)

lemma sched_wfI:
  assumes "\<exists>xs. ring (tasks s) xs \<and> set (0 # xs) = {i. live s i}" and "live s (current_task s)"
    and "\<And>i. live s i \<Longrightarrow> i \<noteq> current_task s \<Longrightarrow> tk_state (tasks s i) \<noteq> RUNNING"
    and "tk_state (tasks s 0) = READY \<or> tk_state (tasks s 0) = RUNNING"
    and "task_protect_mode s 0 = 0"
    and "\<And>i j. live s i \<Longrightarrow> live s j \<Longrightarrow> tk_id (tasks s i) = tk_id (tasks s j) \<Longrightarrow> i = j"
    and "\<And>i. next_id s \<noteq> 0 \<Longrightarrow> live s i \<Longrightarrow> tk_id (tasks s i) < next_id s"
    and "\<And>i. i < TASK_MAX \<Longrightarrow> tk_id (tasks s i) = 0 \<Longrightarrow> tk_stack_base (tasks s i) = 0"
  shows "sched_wf s"
  unfolding sched_wf_def using assms by blast

section \<open>What the operations leave alone\<close>

lemma log_event_frame [frame_simps]:
  "tasks (task_log_event op t s) = tasks s" "current_task (task_log_event op t s) = current_task s"
  "task_protect_mode (task_log_event op t s) = task_protect_mode s" "next_id (task_log_event op t s) = next_id s"
  "user_task_saved_rsp (task_log_event op t s) = user_task_saved_rsp s"
  "preempt_enabled (task_log_event op t s) = preempt_enabled s"
  "preempt_disable_count (task_log_event op t s) = preempt_disable_count s"
  "resume_at (task_log_event op t s) = resume_at s" "vm (task_log_event op t s) = vm s"
  by (simp_all add: task_log_event_def)

lemma set_state_frame [frame_simps]:
  "current_task (set_state s i st) = current_task s"
  "task_protect_mode (set_state s i st) = task_protect_mode s" "next_id (set_state s i st) = next_id s"
  "user_task_saved_rsp (set_state s i st) = user_task_saved_rsp s"
  "preempt_enabled (set_state s i st) = preempt_enabled s"
  "preempt_disable_count (set_state s i st) = preempt_disable_count s"
  "resume_at (set_state s i st) = resume_at s" "vm (set_state s i st) = vm s"
  "tk_id (tasks (set_state s i st) j) = tk_id (tasks s j)"
  "tk_next (tasks (set_state s i st) j) = tk_next (tasks s j)"
  "tk_name (tasks (set_state s i st) j) = tk_name (tasks s j)"
  "tk_stack_base (tasks (set_state s i st) j) = tk_stack_base (tasks s j)"
  "tk_state (tasks (set_state s i st) j) = (if j = i then st else tk_state (tasks s j))"
  by (simp_all add: set_state_def upd_task_def)

lemma ring_set_state [frame_simps]: "ring (tasks (set_state s i st)) xs = ring (tasks s) xs"
proof -
  have "links (tasks (set_state s i st)) = links (tasks s)" by (simp add: frame_simps)
  then show ?thesis by (simp add: ring_def)
qed

lemma live_frame [frame_simps]:
  "live (task_log_event op t s) i = live s i" "live (set_state s j st) i = live s i"
  by (simp_all add: live_def frame_simps)

lemma sched_wf_log [frame_simps]: "sched_wf (task_log_event op t s) = sched_wf s"
  by (simp add: sched_wf_def frame_simps)

lemma sched_inv_log [frame_simps]: "sched_inv (task_log_event op t s) = sched_inv s"
  by (simp add: sched_inv_def frame_simps)

text \<open>Changing a state.\<close>

lemma sched_wf_set_state:
  assumes wf: "sched_wf s" and i: "i = current_task s \<or> st \<noteq> RUNNING" and z: "i = 0 \<longrightarrow> st = READY \<or> st = RUNNING"
  shows "sched_wf (set_state s i st)"
proof (rule sched_wfI)
  show "\<exists>xs. ring (tasks (set_state s i st)) xs \<and> set (0 # xs) = {j. live (set_state s i st) j}"
    using sched_wfD(1) [OF wf] by (simp add: frame_simps)
qed (use assms sched_wfD [OF wf] in \<open>auto simp: frame_simps split: if_splits\<close>)

section \<open>Switching\<close>

lemma resume_inv: "sched_inv s \<Longrightarrow> sched_inv (resume s) \<and> current_task (resume s) = current_task s"
proof -
  assume inv: "sched_inv s"
  have "sched_inv (set_state s (current_task s) RUNNING)"
    using inv sched_wf_set_state [of s "current_task s" RUNNING] by (simp add: sched_inv_def frame_simps)
  moreover have "sched_inv (t\<lparr>preempt_disable_count := n\<rparr>) = sched_inv t" for t :: "'a sched" and n
    by (simp add: sched_inv_def sched_wf_def live_def)
  ultimately show ?thesis using inv by (cases "resume_at s (current_task s)") (simp_all add: resume_def frame_simps)
qed

text \<open>The task \<open>do_switch_to_next\<close> picks: the first READY one after \<open>old\<close> in the list.\<close>

definition next_ready :: "'m sched \<Rightarrow> nat list \<Rightarrow> nat \<Rightarrow> nat" where
  "next_ready s xs old =
     (case List.find (\<lambda>i. tk_state (tasks s i) = READY) (others (0 # xs) old) of None \<Rightarrow> old | Some i \<Rightarrow> i)"

lemma next_ready_cases:
  "(next_ready s xs old = old \<and> (\<forall>i \<in> set (others (0 # xs) old). tk_state (tasks s i) \<noteq> READY)) \<or>
   (next_ready s xs old \<in> set (others (0 # xs) old) \<and> tk_state (tasks s (next_ready s xs old)) = READY)"
proof (cases "List.find (\<lambda>i. tk_state (tasks s i) = READY) (others (0 # xs) old)")
  case None
  then show ?thesis using find_None_prop [OF None] by (simp add: next_ready_def)
next
  case (Some i)
  with find_Some_prop [OF Some] show ?thesis by (simp add: next_ready_def)
qed

lemma switch_inv:
  assumes wf: "sched_wf s" and old: "old = current_task s"
    and run: "tk_state (tasks s old) = READY \<or> tk_state (tasks s old) \<noteq> RUNNING \<and> old \<noteq> 0"
    and r: "ring (tasks s) xs" "set (0 # xs) = {i. live s i}"
  shows "\<exists>s'. do_switch_to_next s old k = Some (Runs s') \<and> sched_inv s' \<and> current_task s' = next_ready s xs old"
proof -
  let ?n = "next_ready s xs old"
  have mem: "old \<in> set (0 # xs)" using sched_wfD(2) [OF wf] r(2) old by auto
  have oth: "set (others (0 # xs) old) = set (0 # xs) - {old}" using set_others [OF _ mem] r(1) by (simp add: ring_def)
  have rf: "ready_from (tasks s) old (tk_next (tasks s old)) = Some ?n"
    unfolding next_ready_def by (rule ready_from_ring [OF r(1) mem])
  have "?n \<in> set (0 # xs)"
  proof (cases "?n = old")
    case False
    with next_ready_cases [of s xs old] have "?n \<in> set (others (0 # xs) old)" by (elim disjE conjE) (erule notE)
    then show ?thesis unfolding oth by (rule DiffD1)
  qed (simp only: mem)
  then have n_live: "live s ?n" unfolding r(2) by simp
  have stay: "tk_state (tasks s old) = READY" if "?n = old"
  proof (rule ccontr)
    assume "tk_state (tasks s old) \<noteq> READY"
    with run have "old \<noteq> 0" by simp
    with sched_wfD(3) [where i = 0, OF wf sched_wfD(9) [OF wf]] sched_wfD(4) [OF wf] old
    have "tk_state (tasks s 0) = READY" by auto
    moreover have "0 \<in> set (others (0 # xs) old)" using oth \<open>old \<noteq> 0\<close> by simp
    moreover have "old \<notin> set (others (0 # xs) old)" using oth by simp
    ultimately show False using next_ready_cases [of s xs old] that by metis
  qed
  have inv: "sched_inv ((set_state (s\<lparr>resume_at := f\<rparr>) ?n RUNNING)\<lparr>current_task := ?n\<rparr>)"
    for f
  proof -
    let ?s = "(set_state (s\<lparr>resume_at := f\<rparr>) ?n RUNNING)\<lparr>current_task := ?n\<rparr>"
    have rng: "ring (tasks (set_state (s\<lparr>resume_at := f\<rparr>) ?n RUNNING)) ys = ring (tasks s) ys" for ys
      by (simp add: ring_set_state)
    have lv: "live ?s i = live s i" for i by (simp add: live_def frame_simps)
    have "sched_wf ?s"
    proof (rule sched_wfI)
      show "\<exists>xs. ring (tasks ?s) xs \<and> set (0 # xs) = {i. live ?s i}"
        unfolding lv using r by (auto simp: rng)
      show "live ?s (current_task ?s)" using n_live lv by simp
      show "live ?s i \<Longrightarrow> i \<noteq> current_task ?s \<Longrightarrow> tk_state (tasks ?s i) \<noteq> RUNNING" for i
        using sched_wfD(3) [OF wf, of i] run old lv [of i] by (cases "i = old") (auto simp: frame_simps)
    qed (use sched_wfD(4-8) [OF wf] lv in \<open>auto simp: frame_simps\<close>)
    then show ?thesis by (simp add: sched_inv_def frame_simps)
  qed
  have "do_switch_to_next s old k =
    Some (Runs (resume ((set_state (s\<lparr>resume_at := (resume_at s)(old := k)\<rparr>) ?n RUNNING)\<lparr>current_task := ?n\<rparr>)))"
    using rf stay by (cases "?n = old") (simp_all add: do_switch_to_next_def Let_def)
  with resume_inv [OF inv] show ?thesis by (auto simp: frame_simps)
qed

section \<open>Yielding, preemption, exit\<close>

text \<open>The order in which tasks would run: the list from the current task on.\<close>

lemma yield_inv:
  assumes inv: "sched_inv s" and r: "ring (tasks s) xs" "set (0 # xs) = {i. live s i}"
  shows "\<exists>s'. task_yield s = Some (Runs s') \<and> sched_inv s' \<and>
    current_task s' = next_ready s xs (current_task s)"
proof -
  let ?s = "set_state s (current_task s) READY"
  have wf: "sched_wf ?s" using inv by (intro sched_wf_set_state) (auto simp: sched_inv_def)
  have c: "current_task ?s = current_task s" by (simp add: frame_simps)
  have "next_ready ?s xs (current_task s) = next_ready s xs (current_task s)"
  proof -
    have "current_task s \<notin> set (others (0 # xs) (current_task s))"
      using set_others [of "0 # xs" "current_task s"] r sched_wfD(2) [of s] inv by (auto simp: ring_def sched_inv_def)
    then have "List.find (\<lambda>i. tk_state (tasks ?s i) = READY) (others (0 # xs) (current_task s)) =
        List.find (\<lambda>i. tk_state (tasks s i) = READY) (others (0 # xs) (current_task s))"
      by (intro find_cong) (auto simp: frame_simps)
    then show ?thesis by (simp add: next_ready_def)
  qed
  with switch_inv [OF wf, of "current_task s" xs In_Yield] r show ?thesis
    by (simp add: task_yield_def frame_simps)
qed

lemma inv_ring:
  assumes "sched_inv s"
  obtains xs where "ring (tasks s) xs" "set (0 # xs) = {i. live s i}"
  using sched_wfD(1) [of s] assms that by (auto simp: sched_inv_def)

lemma exit_inv:
  assumes inv: "sched_inv s" and k: "user_task_saved_rsp s = 0"
  shows "\<exists>s'. task_exit s = Some (Runs s') \<and> sched_inv s'"
proof (cases "current_task s = 0")
  case True
  with inv k show ?thesis by (simp add: task_exit_def)
next
  case False
  obtain xs where r: "ring (tasks s) xs" "set (0 # xs) = {i. live s i}" using inv by (rule inv_ring)
  let ?s = "set_state (task_log_event ''exit'' (current_task s) s) (current_task s) ZOMBIE"
  have wf: "sched_wf ?s"
    using inv False by (intro sched_wf_set_state) (auto simp: frame_simps sched_inv_def)
  have "tk_state (tasks ?s (current_task s)) = ZOMBIE" by (simp add: frame_simps)
  then show ?thesis
    using switch_inv [OF wf, of "current_task s" xs In_Exit] False k r by (auto simp: task_exit_def frame_simps)
qed

lemma sched_count [frame_simps]:
  "sched_wf (s\<lparr>preempt_disable_count := n\<rparr>) = sched_wf s" "live (s\<lparr>preempt_disable_count := n\<rparr>) i = live s i"
  by (simp_all add: sched_wf_def live_def)

lemma tick_inv:
  assumes inv: "sched_inv s"
  shows "\<exists>s'. task_preempt_tick s = Some (Runs s') \<and> sched_inv s'"
proof -
  obtain xs where r: "ring (tasks s) xs" "set (0 # xs) = {i. live s i}" using inv by (rule inv_ring)
  have mem: "current_task s \<in> set (0 # xs)" using inv sched_wfD(2) [of s] r(2) by (auto simp: sched_inv_def)
  note rf = ready_from_ring [OF r(1) mem]
  let ?s = "set_state (s\<lparr>preempt_disable_count := preempt_disable_count s + 1\<rparr>) (current_task s) READY"
  have wf: "sched_wf ?s"
    using inv by (intro sched_wf_set_state) (auto simp: sched_inv_def frame_simps)
  have "live ?s i = live s i" "ring (tasks ?s) ys = ring (tasks s) ys" for i ys
    by (simp_all add: frame_simps)
  with switch_inv [OF wf, of "current_task s" xs In_Preempt] r
  have "\<exists>s'. do_switch_to_next ?s (current_task s) In_Preempt = Some (Runs s') \<and> sched_inv s'"
    by (auto simp: frame_simps)
  then show ?thesis using inv by (auto simp: task_preempt_tick_def rf Let_def)
qed

section \<open>Taking tasks out\<close>

definition same_run :: "'m sched \<Rightarrow> 'm sched \<Rightarrow> bool" where
  "same_run s s' \<longleftrightarrow> current_task s' = current_task s \<and> next_id s' = next_id s \<and> resume_at s' = resume_at s \<and>
     preempt_disable_count s' = preempt_disable_count s \<and> preempt_enabled s' = preempt_enabled s \<and>
     user_task_saved_rsp s' = user_task_saved_rsp s"

lemma same_run_refl [simp]: "same_run s s" and same_run_trans: "same_run s s1 \<Longrightarrow> same_run s1 s2 \<Longrightarrow> same_run s s2"
  by (simp_all add: same_run_def)

text \<open>The effect of taking task \<open>t\<close> out.\<close>

definition removed :: "'m stack_ops \<Rightarrow> 'm sched \<Rightarrow> nat \<Rightarrow> 'm sched \<Rightarrow> bool" where
  "removed V s t s' \<longleftrightarrow> sched_inv s' \<and> same_run s s' \<and> tasks s' t = empty_slot \<and>
     task_protect_mode s' = (task_protect_mode s)(t := 0) \<and>
     (\<forall>i. i \<noteq> t \<longrightarrow> tk_id (tasks s' i) = tk_id (tasks s i) \<and> tk_state (tasks s' i) = tk_state (tasks s i) \<and>
        tk_name (tasks s' i) = tk_name (tasks s i) \<and> tk_stack_base (tasks s' i) = tk_stack_base (tasks s i)) \<and>
     vm s' = (if tk_stack_base (tasks s t) = 0 then vm s else so_free V (tk_stack_base (tasks s t)) (vm s)) \<and>
     (\<forall>i. live s' i \<longleftrightarrow> live s i \<and> i \<noteq> t)"

lemma removed_log [frame_simps]: "removed V (task_log_event op u s) t s' = removed V s t s'"
  by (simp add: removed_def same_run_def frame_simps)

lemma remove_task_inv:
  assumes inv: "sched_inv s" and t: "t \<noteq> 0" "t \<noteq> current_task s" "t < TASK_MAX"
  shows "\<exists>s'. remove_task V s t = Some s' \<and> removed V s t s'"
proof -
  have wf: "sched_wf s" using inv by (simp add: sched_inv_def)
  obtain xs where r: "ring (tasks s) xs" "set (0 # xs) = {i. live s i}" using inv by (rule inv_ring)
  obtain ts where ts: "unlink_walk (tasks s) t 0 = Some ts" "ring ts (remove1 t xs)" "same_tasks (tasks s) ts"
    using unlink_ring [OF r(1) t(1)] .
  note simps = same_tasks_simps [OF ts(3)]
  let ?s = "reclaim_task_slot V (s\<lparr>tasks := ts\<rparr>) t"
  have rm: "remove_task V s t = Some ?s" using t(1) ts(1) by (simp add: remove_task_def unlink_task_def)
  have tk: "tasks ?s = ts(t := empty_slot)" using t by (simp add: reclaim_task_slot_def Let_def upd_task_def)
  have id: "tk_id (tasks ?s i) = (if i = t then 0 else tk_id (tasks s i))" for i
    by (simp add: tk simps empty_slot_def)
  have lv: "live ?s i \<longleftrightarrow> live s i \<and> i \<noteq> t" for i by (simp add: live_def id)
  have run: "same_run s ?s" using t by (simp add: same_run_def reclaim_task_slot_def Let_def upd_task_def)
  have prot: "task_protect_mode ?s = (task_protect_mode s)(t := 0)"
    using t by (simp add: reclaim_task_slot_def Let_def upd_task_def)
  have cur: "current_task ?s = current_task s" "next_id ?s = next_id s" using run by (simp_all add: same_run_def)
  have st: "tk_state (tasks ?s i) = (if i = t then ZOMBIE else tk_state (tasks s i))" for i
    by (simp add: tk simps empty_slot_def)
  have "t \<notin> set (0 # remove1 t xs)" using r(1) t(1) by (simp add: ring_def)
  then have "seg (links (tasks ?s)) 0 (0 # remove1 t xs) 0 = seg (links ts) 0 (0 # remove1 t xs) 0"
    by (intro seg_cong) (auto simp: tk)
  then have rg: "ring (tasks ?s) (remove1 t xs)" using ts(2) unfolding ring_def by blast
  have "live s x \<longleftrightarrow> x \<in> set (0 # xs)" for x unfolding r(2) by simp
  then have "set (0 # remove1 t xs) = {i. live ?s i}" using r(1) t(1) by (auto simp: lv ring_def)
  with rg have ex: "\<exists>ys. ring (tasks ?s) ys \<and> set (0 # ys) = {i. live ?s i}" by blast
  have "sched_wf ?s"
  proof (rule sched_wfI [OF ex])
    show "tk_stack_base (tasks ?s i) = 0" if "i < TASK_MAX" "tk_id (tasks ?s i) = 0" for i
      using that sched_wfD(8) [OF wf, of i] by (cases "i = t") (simp_all add: tk simps empty_slot_def id)
    show "i = j" if "live ?s i" "live ?s j" "tk_id (tasks ?s i) = tk_id (tasks ?s j)" for i j
      using that sched_wfD(6) [OF wf, of i j] by (auto simp: lv id)
  qed (use sched_wfD(2-5,7) [OF wf] t in \<open>auto simp: lv id st cur prot\<close>)
  then have "sched_inv ?s" using inv t(2) by (simp add: sched_inv_def cur st)
  have vmeq: "vm ?s = (if tk_stack_base (tasks s t) = 0 then vm s else so_free V (tk_stack_base (tasks s t)) (vm s))"
    using t by (simp add: reclaim_task_slot_def Let_def upd_task_def simps)
  have "removed V s t ?s"
    unfolding removed_def using \<open>sched_inv ?s\<close> run prot lv vmeq by (simp add: tk simps)
  with rm show ?thesis by blast
qed

end
