(* ===== verification/Task_Ops.thy ===== *)
theory Task_Ops
  imports Task_Inv
begin

text \<open>
  Creating and managing tasks: each operation returns and keeps the invariant, and what it does to the
  set of tasks.
\<close>

section \<open>Creating\<close>

lemma pick_slot_inv:
  assumes inv: "sched_inv s"
  obtains (none) "pick_slot V s = Some (None, s)"
  | (unused) t where "pick_slot V s = Some (Some t, s)" "0 < t" "t < TASK_MAX" "tk_id (tasks s t) = 0"
  | (zombie) t s1 where "pick_slot V s = Some (Some t, s1)" "0 < t" "t < TASK_MAX" "t \<noteq> current_task s"
      "live s t" "remove_task V s t = Some s1"
proof (cases "List.find (\<lambda>i. tk_id (tasks s i) = 0) [1..<TASK_MAX]")
  case (Some i)
  with find_Some_prop [OF Some] show thesis by (intro unused [of i]) (simp_all add: pick_slot_def)
next
  case none1: None
  show thesis
  proof (cases "List.find (\<lambda>i. tk_state (tasks s i) = ZOMBIE \<and> tk_id (tasks s i) \<noteq> 0) [1..<TASK_MAX]")
    case None
    with none1 show thesis by (intro none) (simp add: pick_slot_def)
  next
    case (Some i)
    from find_Some_prop [OF Some] have i: "tk_state (tasks s i) = ZOMBIE" "tk_id (tasks s i) \<noteq> 0" "0 < i" "i < TASK_MAX"
      by auto
    with inv have "i \<noteq> current_task s" by (auto simp: sched_inv_def)
    with i remove_task_inv [OF inv, of i V] obtain s1 where "remove_task V s i = Some s1" by auto
    with i none1 Some \<open>i \<noteq> current_task s\<close> show thesis
      by (intro zombie [of i s1]) (simp_all add: pick_slot_def live_def)
  qed
qed

text \<open>The state after the slot is filled in.\<close>

definition filled ::
    "'m stack_ops \<Rightarrow> u64 \<Rightarrow> 'm sched \<Rightarrow> nat \<Rightarrow> u64 \<Rightarrow> 'm \<Rightarrow> string option \<Rightarrow> u64 \<Rightarrow> u64 \<Rightarrow> 'm sched" where
  "filled V trampoline s t base m nm entry arg =
     (let top = base + of_nat (TASK_STACK_PAGES * 4096) in
      s\<lparr>vm := fold (\<lambda>(a, v). so_store V a v) (stack_image trampoline top) m, next_id := next_id s + 1,
        task_protect_mode := (task_protect_mode s)(t := 0), resume_at := (resume_at s)(t := At_Entry),
        tasks := (tasks s)(t := (tasks s t)\<lparr>tk_stack_base := base, tk_rsp := top - 72, tk_id := next_id s,
                     tk_state := READY, tk_entry := entry, tk_arg := arg,
                     tk_name := copy_name (case nm of None \<Rightarrow> ''task'' | Some n \<Rightarrow> n) 24, tk_next := tk_next (tasks s 0)\<rparr>,
                   0 := (tasks s 0)\<lparr>tk_next := Some t\<rparr>)\<rparr>)"

lemma task_create_filled:
  assumes "pick_slot V s = Some (Some t, s1)" and "so_alloc V (vm s1) = (base, m)" and "base \<noteq> 0" and "0 < t"
  shows "task_create V trampoline s nm entry arg =
    Some (sint (next_id s1), task_log_event ''create'' t (filled V trampoline s1 t base m nm entry arg))"
  using assms by (simp add: task_create_def filled_def Let_def upd_task_def frame_simps fun_upd_twist)

lemma filled_inv:
  assumes inv: "sched_inv s" and t: "0 < t" "t < TASK_MAX" "tk_id (tasks s t) = 0" and n: "next_id s \<noteq> 0"
    and s'_def: "s' = filled V trampoline s t base m nm entry arg"
  shows "sched_inv s'" and "live s' i \<longleftrightarrow> live s i \<or> i = t" and "tk_id (tasks s' i) = (if i = t then next_id s else tk_id (tasks s i))"
    and "tk_state (tasks s' i) = (if i = t then READY else tk_state (tasks s i))"
    and "tk_stack_base (tasks s' i) = (if i = t then base else tk_stack_base (tasks s i))"
proof -
  have wf: "sched_wf s" using inv by (simp add: sched_inv_def)
  obtain xs where r: "ring (tasks s) xs" "set (0 # xs) = {i. live s i}" using inv by (rule inv_ring)
  have notin: "\<not> live s t" using t by (simp add: live_def)
  show id: "tk_id (tasks s' i) = (if i = t then next_id s else tk_id (tasks s i))" for i
    using t by (simp add: s'_def filled_def Let_def)
  show st: "tk_state (tasks s' i) = (if i = t then READY else tk_state (tasks s i))" for i
    using t by (simp add: s'_def filled_def Let_def)
  show sb: "tk_stack_base (tasks s' i) = (if i = t then base else tk_stack_base (tasks s i))" for i
    using t by (simp add: s'_def filled_def Let_def)
  show lv: "live s' i \<longleftrightarrow> live s i \<or> i = t" for i using t n by (simp add: live_def id)
  have cur: "current_task s' = current_task s" "next_id s' = next_id s + 1"
    "task_protect_mode s' = (task_protect_mode s)(t := 0)" by (simp_all add: s'_def filled_def Let_def)
  have ct: "current_task s \<noteq> t" using sched_wfD(2) [OF wf] notin by auto
  have "ring (tasks s') (t # xs)"
  proof (rule ring_insert [OF r(1)])
    show "t \<notin> set (0 # xs)" unfolding r(2) using notin by simp
  qed (use t in \<open>simp_all add: s'_def filled_def Let_def\<close>)
  moreover have "set (0 # t # xs) = {i. live s' i}"
  proof -
    have "set (0 # t # xs) = insert t (set (0 # xs))" by auto
    then show ?thesis unfolding r(2) lv by auto
  qed
  ultimately have ex: "\<exists>ys. ring (tasks s') ys \<and> set (0 # ys) = {i. live s' i}" by blast
  have lt: "tk_id (tasks s i) < next_id s" if "live s i" for i using sched_wfD(7) [OF wf n that] .
  then have new: "tk_id (tasks s i) \<noteq> next_id s" if "live s i" for i using that by force
  have "sched_wf s'"
  proof (rule sched_wfI [OF ex])
    show "i = j" if "live s' i" "live s' j" "tk_id (tasks s' i) = tk_id (tasks s' j)" for i j
      using that sched_wfD(6) [OF wf] new unfolding lv id by metis
    show "tk_id (tasks s' i) < next_id s'" if "next_id s' \<noteq> 0" "live s' i" for i
    proof -
      have "next_id s < next_id s + 1" using that(1) by (intro word_less_succ) (simp add: cur)
      then show ?thesis using that(2) lt [of i] by (auto simp: lv id cur notin split: if_splits)
    qed
    show "live s' (current_task s')" using sched_wfD(2) [OF wf] by (simp add: lv cur)
    show "tk_state (tasks s' i) \<noteq> RUNNING" if "live s' i" "i \<noteq> current_task s'" for i
      using that sched_wfD(3) [OF wf, of i] by (simp add: lv st cur) blast
    show "tk_state (tasks s' 0) = READY \<or> tk_state (tasks s' 0) = RUNNING" using sched_wfD(4) [OF wf] by (simp add: st)
    show "task_protect_mode s' 0 = 0" using sched_wfD(5) [OF wf] by (simp add: cur)
    show "tk_stack_base (tasks s' i) = 0" if "i < TASK_MAX" "tk_id (tasks s' i) = 0" for i
      using that sched_wfD(8) [OF wf, of i] n by (simp add: id sb split: if_splits)
  qed
  then show "sched_inv s'" using inv ct by (simp add: sched_inv_def cur st)
qed

lemma sched_base0:
  assumes "sched_inv s" and "tk_id (tasks s t) = 0" and "t < TASK_MAX"
  shows "upd_task (s\<lparr>vm := m\<rparr>) t (\<lambda>k. k\<lparr>tk_stack_base := 0\<rparr>) = s\<lparr>vm := m\<rparr>"
  using sched_wfD(8) [of s t] assms by (simp add: upd_task_def sched_inv_def fun_upd_idem)

lemma sched_inv_vm [frame_simps]: "sched_inv (s\<lparr>vm := m\<rparr>) = sched_inv s"
  by (simp add: sched_inv_def sched_wf_def live_def)

lemma task_create_inv:
  assumes inv: "sched_inv s" and n: "next_id s \<noteq> 0"
  shows "\<exists>rc s'. task_create V trampoline s nm entry arg = Some (rc, s') \<and> sched_inv s'"
proof -
  have go: "\<exists>rc s'. task_create V trampoline s nm entry arg = Some (rc, s') \<and> sched_inv s'"
    if p: "pick_slot V s = Some (Some t, s1)" and s1: "sched_inv s1" "next_id s1 \<noteq> 0" "tk_id (tasks s1 t) = 0"
      and t: "0 < t" "t < TASK_MAX" for t s1
  proof (cases "so_alloc V (vm s1)")
    case (Pair base m)
    show ?thesis
    proof (cases "base = 0")
      case True
      with p Pair sched_base0 [OF s1(1,3) t(2)] s1(1) show ?thesis
        by (simp add: task_create_def Let_def frame_simps)
    next
      case False
      with task_create_filled [OF p Pair False t(1)] filled_inv(1) [OF s1(1) t s1(3,2) refl] show ?thesis
        by (simp add: frame_simps)
    qed
  qed
  from inv show ?thesis
  proof (cases rule: pick_slot_inv [where V = V])
    case none
    with inv show ?thesis by (simp add: task_create_def)
  next
    case (unused t)
    with go [of t s] inv n show ?thesis by simp
  next
    case (zombie t s1)
    with remove_task_inv [OF inv, of t V] have "sched_inv s1" "next_id s1 \<noteq> 0" "tk_id (tasks s1 t) = 0"
      using n by (auto simp: removed_def same_run_def empty_slot_def)
    with go [of t s1] zombie show ?thesis by simp
  qed
qed

section \<open>Finding and removing\<close>

lemma find_task_Some: "find_task_by_id s tid = Some t \<Longrightarrow> tk_id (tasks s t) = tid \<and> t < TASK_MAX"
  unfolding find_task_by_id_def by (drule find_Some_prop) auto

lemma find_task_live:
  assumes "sched_inv s" and "live s t"
  shows "find_task_by_id s (tk_id (tasks s t)) = Some t"
proof (cases "find_task_by_id s (tk_id (tasks s t))")
  case None
  from find_None_prop [OF this [unfolded find_task_by_id_def], of t] assms(2) show ?thesis by (simp add: live_def)
next
  case (Some i)
  from find_task_Some [OF this] assms sched_wfD(6) [of s i t] show ?thesis
    using Some by (auto simp: live_def sched_inv_def)
qed

lemma protected_0: "sched_inv s \<Longrightarrow> is_protected_task s 0"
  using sched_wfD(5) [of s] by (simp add: is_protected_task_def sched_inv_def)

lemma live_0: "sched_inv s \<Longrightarrow> live s 0"
  using sched_wfD(9) [of s] by (simp add: sched_inv_def)

lemma remove_logged:
  assumes inv: "sched_inv s" and t: "t \<noteq> 0" "t \<noteq> current_task s" "t < TASK_MAX"
  shows "\<exists>s'. remove_task V (task_log_event op t s) t = Some s' \<and> removed V s t s'"
  using remove_task_inv [of "task_log_event op t s" t V] assms by (simp add: frame_simps)

lemma task_reap_inv:
  assumes inv: "sched_inv s"
  shows "\<exists>s'. task_reap_zombies V s = Some s' \<and> sched_inv s' \<and> same_run s s'"
  unfolding task_reap_zombies_def
proof (rule fold_option_inv [where P = "\<lambda>s'. sched_inv s' \<and> same_run s s'"])
  fix i s1 assume i: "i \<in> set [1..<TASK_MAX]" and s1: "sched_inv s1 \<and> same_run s s1"
  show "\<exists>s2. (if i = current_task s1 \<or> tk_id (tasks s1 i) = 0 \<or> tk_state (tasks s1 i) \<noteq> ZOMBIE then Some s1
      else remove_task V s1 i) = Some s2 \<and> sched_inv s2 \<and> same_run s s2"
  proof (cases "i = current_task s1 \<or> tk_id (tasks s1 i) = 0 \<or> tk_state (tasks s1 i) \<noteq> ZOMBIE")
    case False
    with i s1 remove_task_inv [of s1 i V] obtain s2 where "remove_task V s1 i = Some s2" "sched_inv s2" "same_run s1 s2"
      by (auto simp: removed_def)
    with False s1 same_run_trans [of s s1 s2] show ?thesis by simp
  qed (use s1 in simp)
qed (use inv in simp)

lemma task_kill_inv:
  assumes inv: "sched_inv s"
  shows "\<exists>rc s'. task_kill V s tid = Some (rc, s') \<and> sched_inv s'"
proof (cases "find_task_by_id s tid")
  case (Some t)
  show ?thesis
  proof (cases "is_protected_task s t \<or> t = current_task s")
    case False
    have "t \<noteq> 0" "t \<noteq> current_task s" "t < TASK_MAX"
      using protected_0 [OF inv] False find_task_Some [OF Some] by metis+
    from remove_logged [OF inv this, of V "''kill''"] Some False show ?thesis by (auto simp: task_kill_def removed_def)
  qed (use inv Some in \<open>auto simp: task_kill_def\<close>)
qed (use inv in \<open>simp add: task_kill_def\<close>)

lemma task_kill_all_inv:
  assumes inv: "sched_inv s"
  shows "\<exists>k s'. task_kill_all V s = Some (k, s') \<and> sched_inv s' \<and>
    (\<forall>i. live s i \<and> (i = current_task s \<or> is_protected_task s i) \<longrightarrow> live s' i)"
proof -
  let ?P = "\<lambda>(k::int, s'). sched_inv s' \<and> current_task s' = current_task s \<and>
    (\<forall>i. live s i \<and> (i = current_task s \<or> is_protected_task s i) \<longrightarrow> live s' i \<and>
      is_protected_task s' i = is_protected_task s i)"
  have "\<exists>r. task_kill_all V s = Some r \<and> ?P r"
    unfolding task_kill_all_def
  proof (rule fold_option_inv)
    fix i and r :: "int \<times> 'a sched" assume i: "i \<in> set [1..<TASK_MAX]" and r: "?P r"
    obtain k s1 where ks: "r = (k, s1)" by (cases r)
    show "\<exists>r'. (case r of (killed, s) \<Rightarrow>
          if i = current_task s \<or> tk_id (tasks s i) = 0 \<or> is_protected_task s i then Some (killed, s)
          else map_option (\<lambda>s'. (killed + 1, s')) (remove_task V (task_log_event ''kill'' i s) i)) = Some r' \<and> ?P r'"
    proof (cases "i = current_task s1 \<or> tk_id (tasks s1 i) = 0 \<or> is_protected_task s1 i")
      case False
      have t: "i \<noteq> 0" "i \<noteq> current_task s1" "i < TASK_MAX" and s1: "sched_inv s1" using False i r ks by auto
      obtain s2 where rm: "remove_task V (task_log_event ''kill'' i s1) i = Some s2" and re: "removed V s1 i s2"
        using remove_logged [OF s1 t, of V "''kill''"] by blast
      then have s2: "sched_inv s2" "current_task s2 = current_task s1" and lv: "\<forall>j. live s2 j \<longleftrightarrow> live s1 j \<and> j \<noteq> i"
        and pr: "task_protect_mode s2 = (task_protect_mode s1)(i := 0)"
        and nm: "\<forall>j. j \<noteq> i \<longrightarrow> tk_name (tasks s2 j) = tk_name (tasks s1 j)"
        by (simp_all add: removed_def same_run_def)
      have "is_protected_task s2 j = is_protected_task s1 j" if "j \<noteq> i" for j
        using that pr nm by (simp add: is_protected_task_def)
      moreover have "j \<noteq> i" if "live s j \<and> (j = current_task s \<or> is_protected_task s j)" for j
        using that r ks False by auto
      ultimately show ?thesis using False ks rm s2 lv r by auto
    qed (use r ks in auto)
  qed (use inv in simp)
  then show ?thesis by auto
qed

section \<open>States and protection\<close>

lemma task_stop_inv:
  assumes inv: "sched_inv s"
  shows "sched_inv (snd (task_stop s tid))"
proof -
  have "sched_inv (set_state s t STOPPED)" if "t \<noteq> 0" "t \<noteq> current_task s" for t
    using inv that sched_wf_set_state [of s t STOPPED] by (simp add: sched_inv_def frame_simps)
  moreover have "t \<noteq> 0" if "\<not> is_protected_task s t" for t using that protected_0 [OF inv] by metis
  ultimately show ?thesis using inv by (auto simp: task_stop_def frame_simps split: option.split)
qed

lemma task_continue_inv:
  assumes inv: "sched_inv s"
  shows "sched_inv (snd (task_continue s tid))"
proof -
  have "sched_inv (set_state s t READY)" if "t \<noteq> current_task s" for t
    using inv that sched_wf_set_state [of s t READY] by (simp add: sched_inv_def frame_simps)
  moreover have "t \<noteq> current_task s" if "tk_state (tasks s t) = STOPPED" for t
    using inv that by (auto simp: sched_inv_def)
  ultimately show ?thesis using inv by (auto simp: task_continue_def frame_simps split: option.split)
qed

lemma set_protect_inv: "sched_inv s \<Longrightarrow> t \<noteq> 0 \<Longrightarrow> sched_inv (set_protect t b s)"
  by (simp add: set_protect_def frame_simps) (simp add: sched_inv_def sched_wf_def live_def)

lemma task_set_protection_inv:
  assumes inv: "sched_inv s"
  shows "sched_inv (snd (task_set_protection_by_id s tid b))" and "sched_inv (snd (task_set_protection_by_name s nm b))"
proof -
  show "sched_inv (snd (task_set_protection_by_id s tid b))"
    using inv set_protect_inv by (auto simp: task_set_protection_by_id_def split: option.split)
  show "sched_inv (snd (task_set_protection_by_name s nm b))"
  proof (cases "List.find (\<lambda>i. tk_id (tasks s i) \<noteq> 0 \<and> i \<noteq> 0 \<and> str_eq (tk_name (tasks s i)) (the nm)) [0..<TASK_MAX]")
    case None
    with inv show ?thesis by (auto simp: task_set_protection_by_name_def split: option.split)
  next
    case (Some i)
    with find_Some_prop [OF Some] inv set_protect_inv [OF inv, of i] show ?thesis
      by (auto simp: task_set_protection_by_name_def split: option.split)
  qed
qed

lemma task_init_inv:
  assumes "next_id s > 1"
  shows "sched_inv (task_init s)"
proof -
  let ?s = "task_init s"
  have id: "tk_id (tasks ?s i) = (if i = 0 then 1 else if i < TASK_MAX then 0 else tk_id (tasks s i))" for i
    by (simp add: task_init_def Let_def empty_slot_def)
  have lv: "live ?s i \<longleftrightarrow> i = 0" for i by (auto simp: live_def id)
  have "ring (tasks ?s) []" by (simp add: ring_def task_init_def Let_def)
  then have "sched_wf ?s"
    using assms by (intro sched_wfI exI [of _ "[]"])
      (auto simp: lv id, auto simp: task_init_def Let_def empty_slot_def)
  then show ?thesis by (simp add: sched_inv_def) (simp add: task_init_def Let_def)
qed

end
