(* ===== verification/Task_Props.thy ===== *)
theory Task_Props
  imports Task_Ops
begin

text \<open>
  What the scheduler promises: every operation returns in every reachable state, a READY task runs
  within seven yields, killing takes out exactly one task; and where it does less than it means to.
\<close>

section \<open>Runs of the scheduler\<close>

text \<open>\<open>task_save_and_enter_user\<close> stores the kernel stack pointer in \<open>user_task_saved_rsp\<close>.\<close>

datatype sched_event =
    Create "string option" u64 u64
  | Yield
  | Tick
  | Exit
  | EnterUser u64
  | Reap
  | Kill u32
  | KillAll
  | Stop u32
  | Continue u32
  | ProtectId u32 bool
  | ProtectName "string option" bool
  | SetPreempt bool
  | SetLog bool

fun sched_do :: "'m stack_ops \<Rightarrow> u64 \<Rightarrow> 'm sched \<Rightarrow> sched_event \<Rightarrow> 'm outcome option" where
  "sched_do V tr s (Create nm entry arg) = map_option (\<lambda>(rc, s'). Runs s') (task_create V tr s nm entry arg)"
| "sched_do V tr s Yield = task_yield s"
| "sched_do V tr s Tick = task_preempt_tick s"
| "sched_do V tr s Exit = task_exit s"
| "sched_do V tr s (EnterUser rsp) = Some (Runs (s\<lparr>user_task_saved_rsp := rsp\<rparr>))"
| "sched_do V tr s Reap = map_option Runs (task_reap_zombies V s)"
| "sched_do V tr s (Kill tid) = map_option (\<lambda>(rc, s'). Runs s') (task_kill V s tid)"
| "sched_do V tr s KillAll = map_option (\<lambda>(rc, s'). Runs s') (task_kill_all V s)"
| "sched_do V tr s (Stop tid) = Some (Runs (snd (task_stop s tid)))"
| "sched_do V tr s (Continue tid) = Some (Runs (snd (task_continue s tid)))"
| "sched_do V tr s (ProtectId tid b) = Some (Runs (snd (task_set_protection_by_id s tid b)))"
| "sched_do V tr s (ProtectName nm b) = Some (Runs (snd (task_set_protection_by_name s nm b)))"
| "sched_do V tr s (SetPreempt b) = Some (Runs (task_set_preemption b s))"
| "sched_do V tr s (SetLog b) = Some (Runs (task_set_event_log b s))"

definition continues :: "'m outcome option \<Rightarrow> 'm sched \<Rightarrow> bool" where
  "continues r s' \<longleftrightarrow> r = Some (Runs s') \<or> (\<exists>rsp. r = Some (Restores rsp s'))"

text \<open>The states the kernel reaches, as long as the 32-bit task counter has not wrapped.\<close>

inductive sched_reachable :: "'m stack_ops \<Rightarrow> u64 \<Rightarrow> 'm sched \<Rightarrow> bool" for V tr where
  boot: "next_id s = 2 \<Longrightarrow> sched_reachable V tr (task_init s)"
| event: "sched_reachable V tr s \<Longrightarrow> next_id s \<noteq> 0 \<Longrightarrow> continues (sched_do V tr s e) s' \<Longrightarrow> sched_reachable V tr s'"

lemma sched_inv_fields [frame_simps]:
  "sched_inv (s\<lparr>user_task_saved_rsp := r\<rparr>) = sched_inv s"
  "sched_inv (s\<lparr>preempt_enabled := b\<rparr>) = sched_inv s"
  "sched_inv (s\<lparr>task_event_log_on := b\<rparr>) = sched_inv s"
  by (simp_all add: sched_inv_def sched_wf_def live_def)

lemma sched_do_inv:
  assumes inv: "sched_inv s" and n: "next_id s \<noteq> 0"
  shows "\<exists>s'. continues (sched_do V tr s e) s' \<and> sched_inv s'"
proof (cases e)
  case (Create nm entry arg)
  with task_create_inv [OF inv n, of V tr nm entry arg] show ?thesis by (auto simp: continues_def)
next
  case Yield
  obtain xs where r: "ring (tasks s) xs" "set (0 # xs) = {i. live s i}" using inv by (rule inv_ring)
  from yield_inv [OF inv r] Yield show ?thesis by (auto simp: continues_def)
next
  case Tick
  with tick_inv [OF inv] show ?thesis by (auto simp: continues_def)
next
  case Exit
  show ?thesis
  proof (cases "user_task_saved_rsp s = 0")
    case True
    with exit_inv [OF inv] Exit show ?thesis by (auto simp: continues_def)
  next
    case False
    with Exit inv show ?thesis by (auto simp: continues_def task_exit_def frame_simps)
  qed
next
  case Reap
  with task_reap_inv [OF inv, of V] show ?thesis by (auto simp: continues_def)
next
  case (Kill tid)
  with task_kill_inv [OF inv, of V tid] show ?thesis by (auto simp: continues_def)
next
  case KillAll
  with task_kill_all_inv [OF inv, of V] show ?thesis by (auto simp: continues_def)
qed (use inv in \<open>simp_all add: continues_def frame_simps task_stop_inv task_continue_inv task_set_protection_inv
      task_set_preemption_def task_set_event_log_def\<close>)

lemma continues_unique: "continues r s1 \<Longrightarrow> continues r s2 \<Longrightarrow> s1 = s2"
  by (auto simp: continues_def)

lemma sched_reachable_inv: "sched_reachable V tr s \<Longrightarrow> sched_inv s"
proof (induction rule: sched_reachable.induct)
  case (boot s)
  then show ?case by (intro task_init_inv) simp
next
  case (event s e s')
  with sched_do_inv [of s V tr e] continues_unique show ?case by metis
qed


section \<open>A concrete scheduler\<close>

text \<open>A memory that hands out stacks one after the other, for the witnesses.\<close>

definition demo_ops :: "u64 stack_ops" where
  "demo_ops = \<lparr>so_alloc = (\<lambda>m. (m, m + 32768)), so_free = (\<lambda>_ m. m), so_store = (\<lambda>_ _ m. m)\<rparr>"

definition demo_boot :: "u64 sched" where
  "demo_boot = task_init \<lparr>tasks = (\<lambda>_. empty_slot), current_task = 0, task_protect_mode = (\<lambda>_. 0),
     task_event_log_on = False, serial_out = [], next_id = 2, user_task_saved_rsp = 0, preempt_enabled = True,
     preempt_disable_count = 0, resume_at = (\<lambda>_. At_Entry), vm = 0x100000\<rparr>"

lemma demo_reachable: "sched_reachable demo_ops 0 demo_boot"
  unfolding demo_boot_def by (rule sched_reachable.boot) simp


text \<open>The scheduler after creating a task ``a'' in slot 1.\<close>

definition demo_two :: "u64 sched" where
  "demo_two = filled demo_ops 0 demo_boot 1 0x100000 (0x100000 + 32768) (Some ''a'') 1 2"

lemma demo_two_facts:
  "sched_inv demo_two" "live demo_two i \<longleftrightarrow> i = 0 \<or> i = 1" "tk_id (tasks demo_two 1) = 2"
  "tk_state (tasks demo_two 1) = READY" "current_task demo_two = 0" "preempt_disable_count demo_two = 0"
  "preempt_enabled demo_two" "user_task_saved_rsp demo_two = 0" "resume_at demo_two 1 = At_Entry"
  "task_protect_mode demo_two 1 = 0" "tk_name (tasks demo_two 1) = ''a''" "tk_stack_base (tasks demo_two 1) = 0x100000"
proof -
  have boot: "sched_inv demo_boot" using demo_reachable by (rule sched_reachable_inv)
  have b: "tk_id (tasks demo_boot 1) = 0" "next_id demo_boot = 2" "live demo_boot i \<longleftrightarrow> i = 0"
    "current_task demo_boot = 0" for i
    by (auto simp: demo_boot_def task_init_def Let_def empty_slot_def live_def)
  note f = filled_inv [OF boot zero_less_one _ b(1) _ demo_two_def]
  show "sched_inv demo_two" "live demo_two i \<longleftrightarrow> i = 0 \<or> i = 1" "tk_id (tasks demo_two 1) = 2"
    "tk_state (tasks demo_two 1) = READY" "tk_stack_base (tasks demo_two 1) = 0x100000"
    using f b by auto
  show "current_task demo_two = 0" "preempt_disable_count demo_two = 0"
    "preempt_enabled demo_two" "user_task_saved_rsp demo_two = 0" "resume_at demo_two 1 = At_Entry"
    "task_protect_mode demo_two 1 = 0" "tk_name (tasks demo_two 1) = ''a''"
    by (simp_all add: demo_two_def filled_def demo_boot_def task_init_def Let_def copy_name_def)
qed

section \<open>Round robin\<close>

text \<open>Everything a switch changes.\<close>

lemma resume_frame [frame_simps]:
  "current_task (resume s) = current_task s"
  "tk_next (tasks (resume s) i) = tk_next (tasks s i)" "tk_id (tasks (resume s) i) = tk_id (tasks s i)"
  "tk_name (tasks (resume s) i) = tk_name (tasks s i)" "tk_stack_base (tasks (resume s) i) = tk_stack_base (tasks s i)"
  "tk_state (tasks (resume s) i) =
     (if i = current_task s \<and> (resume_at s i = In_Yield \<or> resume_at s i = In_Preempt) then RUNNING else tk_state (tasks s i))"
  "resume_at (resume s) = resume_at s" "vm (resume s) = vm s" "task_protect_mode (resume s) = task_protect_mode s"
  "preempt_enabled (resume s) = preempt_enabled s" "user_task_saved_rsp (resume s) = user_task_saved_rsp s"
  "preempt_disable_count (resume s) =
     preempt_disable_count s - (if resume_at s (current_task s) = In_Preempt then 1 else 0)"
  by (cases "resume_at s (current_task s)"; auto simp: resume_def frame_simps; fail)+

lemma switch_effect:
  assumes "do_switch_to_next s old k = Some (Runs s')"
  shows "tk_next (tasks s' i) = tk_next (tasks s i)" and "tk_id (tasks s' i) = tk_id (tasks s i)"
    and "tk_name (tasks s' i) = tk_name (tasks s i)" and "tk_stack_base (tasks s' i) = tk_stack_base (tasks s i)"
    and "tk_state (tasks s' i) = (if i = current_task s' then RUNNING else tk_state (tasks s i))"
    and "resume_at s' = (resume_at s)(old := k)" and "vm s' = vm s" and "task_protect_mode s' = task_protect_mode s"
    and "preempt_enabled s' = preempt_enabled s" and "user_task_saved_rsp s' = user_task_saved_rsp s"
    and "preempt_disable_count s' = preempt_disable_count s -
      (if ((resume_at s)(old := k)) (current_task s') = In_Preempt then 1 else 0)"
proof -
  from assms obtain n where s': "s' = resume ((set_state (s\<lparr>resume_at := (resume_at s)(old := k)\<rparr>) n RUNNING)\<lparr>current_task := n\<rparr>)"
    by (auto simp: do_switch_to_next_def Let_def bind_eq_Some_conv split: if_splits)
  have c: "current_task s' = n" by (simp add: s' frame_simps)
  show "tk_next (tasks s' i) = tk_next (tasks s i)" "tk_id (tasks s' i) = tk_id (tasks s i)"
    "tk_name (tasks s' i) = tk_name (tasks s i)" "tk_stack_base (tasks s' i) = tk_stack_base (tasks s i)"
    "tk_state (tasks s' i) = (if i = current_task s' then RUNNING else tk_state (tasks s i))"
    "resume_at s' = (resume_at s)(old := k)" "vm s' = vm s" "task_protect_mode s' = task_protect_mode s"
    "preempt_enabled s' = preempt_enabled s" "user_task_saved_rsp s' = user_task_saved_rsp s"
    "preempt_disable_count s' = preempt_disable_count s -
      (if ((resume_at s)(old := k)) (current_task s') = In_Preempt then 1 else 0)"
    unfolding c by (simp_all add: s' frame_simps)
qed

lemma live_cong: "(\<And>i. tk_id (tasks s' i) = tk_id (tasks s i)) \<Longrightarrow> live s' i = live s i"
  by (simp add: live_def)

lemma ring_cong: "(\<And>i. tk_next (ts' i) = tk_next (ts i)) \<Longrightarrow> ring ts' xs = ring ts xs"
  by (simp add: ring_def)

fun yields :: "nat \<Rightarrow> 'm sched \<Rightarrow> 'm sched option" where
  "yields 0 s = Some s"
| "yields (Suc n) s = (case task_yield s of Some (Runs s') \<Rightarrow> yields n s' | _ \<Rightarrow> None)"

lemma others_next:
  assumes d: "distinct L" and c: "c \<in> set L" and o: "others L c = xs @ u # ys"
  shows "others L u = ys @ c # xs"
proof -
  from c obtain as bs where L: "L = as @ c # bs" by (meson split_list)
  with d have "others L c = bs @ as" by (auto simp: others_split)
  with o have eq: "bs @ as = xs @ u # ys" by simp
  have d': "distinct (bs @ as)" using d L by auto
  from eq consider (later) zs where "bs = xs @ u # zs" "ys = zs @ as" | (earlier) zs where "as = zs @ u # ys" "xs = bs @ zs"
    by (auto simp: append_eq_append_conv2 append_eq_Cons_conv Cons_eq_append_conv)
  then show ?thesis
  proof cases
    case later
    then have "L = (as @ c # xs) @ u # zs" using L by simp
    moreover have "u \<notin> set (as @ c # xs)" using d L later by auto
    ultimately show ?thesis using later by (simp add: others_split del: append_assoc)
  next
    case earlier
    then have "L = zs @ u # (ys @ c # bs)" using L by simp
    moreover have "u \<notin> set zs" using d L earlier by auto
    ultimately show ?thesis using earlier by (simp add: others_split)
  qed
qed

lemma yields_reach:
  assumes "sched_inv s" and "ring (tasks s) xs" "set (0 # xs) = {i. live s i}"
    and "others (0 # xs) (current_task s) = before @ t # rest" and "tk_state (tasks s t) = READY"
  shows "\<exists>n s'. n \<le> length before + 1 \<and> yields n s = Some s' \<and> current_task s' = t"
  using assms
proof (induction "length before" arbitrary: s before rest rule: less_induct)
  case (less before s rest)
  let ?c = "current_task s"
  have mem: "?c \<in> set (0 # xs)" using less.prems(1,3) sched_wfD(2) [of s] by (auto simp: sched_inv_def)
  have dist: "distinct (0 # xs)" using less.prems(2) by (simp add: ring_def)
  obtain s1 where y: "task_yield s = Some (Runs s1)" "sched_inv s1" "current_task s1 = next_ready s xs ?c"
    using yield_inv [OF less.prems(1-3)] by blast
  note eff = switch_effect [OF y(1) [unfolded task_yield_def]]
  have r1: "ring (tasks s1) xs" using less.prems(2) ring_cong [of "tasks s1" "tasks s" xs] eff(1)
    by (simp add: frame_simps)
  have l1: "set (0 # xs) = {i. live s1 i}" using less.prems(3) live_cong [of s1 s] eff(2) by (simp add: frame_simps)
  have st: "tk_state (tasks s1 i) = tk_state (tasks s i)" if "i \<noteq> current_task s1" "i \<noteq> ?c" for i
    using that eff(5) [of i] by (simp add: frame_simps)
  have tc: "t \<noteq> ?c" using set_others [OF dist mem] less.prems(4) by auto
  show ?case
  proof (cases "current_task s1 = t")
    case True
    with y(1) show ?thesis by (intro exI [of _ 1] exI [of _ s1]) simp
  next
    case False
    let ?u = "current_task s1"
    have "\<exists>i. List.find (\<lambda>i. tk_state (tasks s i) = READY) before = Some i"
    proof (rule ccontr)
      assume "\<not> ?thesis"
      then have none: "List.find (\<lambda>i. tk_state (tasks s i) = READY) before = None" by simp
      have "List.find (\<lambda>i. tk_state (tasks s i) = READY) (before @ t # rest) = Some t"
        using none less.prems(5) by (induction before) (auto split: if_splits)
      then show False using False y(3) less.prems(4) by (simp add: next_ready_def)
    qed
    then obtain i where i: "List.find (\<lambda>i. tk_state (tasks s i) = READY) before = Some i" ..
    then have "List.find (\<lambda>i. tk_state (tasks s i) = READY) (before @ t # rest) = Some i"
      by (induction before) (auto split: if_splits)
    then have "?u = i" using y(3) less.prems(4) by (simp add: next_ready_def)
    then have "?u \<in> set before" using find_Some_prop [OF i] by simp
    then obtain b1 b2 where b: "before = b1 @ ?u # b2" by (meson split_list)
    have "others (0 # xs) ?u = (b2 @ t # rest) @ ?c # b1"
      by (rule others_next [OF dist mem]) (simp add: less.prems(4) b)
    then have o1: "others (0 # xs) ?u = b2 @ t # (rest @ ?c # b1)" by simp
    have "\<exists>n s'. n \<le> length b2 + 1 \<and> yields n s1 = Some s' \<and> current_task s' = t"
    proof (rule less.hyps [OF _ y(2) r1 l1 o1])
      show "length b2 < length before" unfolding b by simp
      show "tk_state (tasks s1 t) = READY" using st [of t] False tc less.prems(5) by auto
    qed
    then obtain n s' where n: "n \<le> length b2 + 1" "yields n s1 = Some s'" "current_task s' = t" by blast
    have "yields (Suc n) s = Some s'" using y(1) n(2) by simp
    moreover have "Suc n \<le> length before + 1" using n(1) unfolding b by simp
    ultimately show ?thesis using n(3) by blast
  qed
qed

text \<open>C13: A READY task runs after at most seven yields of the tasks before it: round robin starves
  nobody.\<close>

theorem round_robin:
  assumes "sched_inv s" and "live s t" and "tk_state (tasks s t) = READY"
  shows "\<exists>n \<le> TASK_MAX - 1. \<exists>s'. yields n s = Some s' \<and> current_task s' = t"
proof -
  obtain xs where r: "ring (tasks s) xs" "set (0 # xs) = {i. live s i}" using assms(1) by (rule inv_ring)
  have mem: "current_task s \<in> set (0 # xs)" using assms(1) r(2) sched_wfD(2) [of s] by (auto simp: sched_inv_def)
  have dist: "distinct (0 # xs)" using r(1) by (simp add: ring_def)
  have "t \<noteq> current_task s" using assms(1,3) by (auto simp: sched_inv_def)
  then have "t \<in> set (others (0 # xs) (current_task s))" using set_others [OF dist mem] r(2) assms(2) by auto
  then obtain before rest where o: "others (0 # xs) (current_task s) = before @ t # rest" by (meson split_list)
  from yields_reach [OF assms(1) r o assms(3)] obtain n s' where n: "n \<le> length before + 1" "yields n s = Some s'" "current_task s' = t"
    by blast
  have "length (others (0 # xs) (current_task s)) = card (set (0 # xs) - {current_task s})"
    using set_others [OF dist mem] by (metis distinct_card)
  also have "\<dots> \<le> card ({0..<TASK_MAX} - {current_task s})"
    unfolding r(2) by (intro card_mono) (auto simp: live_def)
  also have "\<dots> = TASK_MAX - 1" using mem r(2) by (subst card_Diff_singleton) (auto simp: live_def)
  finally have "length before + 1 \<le> TASK_MAX - 1" unfolding o by simp
  with n show ?thesis by (intro exI [of _ n]) auto
qed

theorem round_robin_witness:
  "\<exists>n \<le> TASK_MAX - 1. \<exists>s'. yields n demo_two = Some s' \<and> current_task s' = 1"
  using round_robin [OF demo_two_facts(1), of 1] demo_two_facts(2,4) by blast

end
