(* ===== verification/Task_Kill.thy ===== *)
theory Task_Kill
  imports Task_Props
begin

text \<open>
  Killing tasks, and the preemption counter: what \<open>task_kill\<close> takes out, that protected tasks
  survive, that id 0 is accepted, and that one forced switch can leave preemption disabled.
\<close>

section \<open>Killing\<close>

text \<open>C16: \<open>task_kill\<close> refuses the running task and protected tasks without changing anything, and
  otherwise takes out exactly the task with that id: every other task keeps its id, state and name,
  and the stack of the killed one is given back.\<close>

theorem task_kill_spec:
  assumes "sched_inv s" and "live s t"
  shows "\<exists>rc s'. task_kill V s (tk_id (tasks s t)) = Some (rc, s') \<and>
    (if is_protected_task s t \<or> t = current_task s then rc = -1 \<and> s' = s else rc = 0 \<and> removed V s t s')"
proof (cases "is_protected_task s t \<or> t = current_task s")
  case True
  with find_task_live [OF assms] show ?thesis by (simp add: task_kill_def)
next
  case False
  then have t: "t \<noteq> 0" "t \<noteq> current_task s" "t < TASK_MAX"
    using protected_0 [OF assms(1)] assms(2) by (metis, auto simp: live_def)
  from remove_logged [OF assms(1) t, of V "''kill''"] find_task_live [OF assms] False show ?thesis
    by (auto simp: task_kill_def)
qed

lemma demo_two_unprotected: "\<not> is_protected_task demo_two 1"
  by (simp add: is_protected_task_def demo_two_facts [simplified])

theorem task_kill_spec_witness:
  "\<exists>s'. task_kill demo_ops demo_two 2 = Some (0, s') \<and> \<not> live s' 1 \<and> live s' 0"
proof -
  have "live demo_two 1" by (simp add: demo_two_facts)
  from task_kill_spec [OF demo_two_facts(1) this, of demo_ops] demo_two_unprotected demo_two_facts(2,3,5)
  show ?thesis by (auto simp: removed_def)
qed

text \<open>\<open>task_kill_all\<close> spares the running task and every protected task, whatever else it removes.\<close>

theorem task_kill_all_spares:
  assumes "sched_inv s"
  shows "\<exists>k s'. task_kill_all V s = Some (k, s') \<and> sched_inv s' \<and>
    (\<forall>i. live s i \<and> (i = current_task s \<or> is_protected_task s i) \<longrightarrow> live s' i)"
  using assms by (rule task_kill_all_inv)

theorem task_kill_all_spares_witness:
  "\<exists>k s'. task_kill_all demo_ops demo_two = Some (k, s') \<and> live s' 0"
proof -
  from task_kill_all_spares [OF demo_two_facts(1), of demo_ops] obtain k s'
    where "task_kill_all demo_ops demo_two = Some (k, s')"
      and "live demo_two 0 \<and> 0 = current_task demo_two \<longrightarrow> live s' 0" by auto
  then show ?thesis by (simp add: demo_two_facts(2,5))
qed

text \<open>\<open>task_kill\<close> accepts id 0, the mark of an unused slot: while a slot is free it reports
  success although no task has id 0 and none is removed.\<close>

theorem task_kill_zero:
  assumes "sched_inv s" and "find_task_by_id s 0 = Some i" and "\<not> is_protected_task s i"
  shows "\<exists>s'. task_kill V s 0 = Some (0, s') \<and> (\<forall>j. live s' j = live s j)"
proof -
  note i = find_task_Some [OF assms(2)]
  have nl: "\<not> live s i" using i by (simp add: live_def)
  have cur: "live s (current_task s)" using sched_wfD(2) [of s] assms(1) by (simp add: sched_inv_def)
  have t: "i \<noteq> 0" "i \<noteq> current_task s" "i < TASK_MAX"
    using nl live_0 [OF assms(1)] cur i by (cases "i = 0", simp_all) (cases "i = current_task s", simp_all)
  from remove_logged [OF assms(1) t, of V "''kill''"] assms(2,3) t nl show ?thesis
    by (auto simp: task_kill_def removed_def)
qed

theorem task_kill_zero_witness:
  "\<exists>s'. task_kill demo_ops demo_two 0 = Some (0, s') \<and> (\<forall>j. live s' j = live demo_two j)"
proof -
  have id: "tk_id (tasks demo_two 0) = 1" "tk_id (tasks demo_two 1) = 2" "tk_id (tasks demo_two 2) = 0"
    by (simp_all add: demo_two_def filled_def demo_boot_def task_init_def Let_def empty_slot_def)
  have "[0..<TASK_MAX] = [0, 1, 2, 3, 4, 5, 6, 7]" by (simp add: upt_rec)
  then have f: "find_task_by_id demo_two 0 = Some 2" using id by (simp add: find_task_by_id_def)
  have "\<not> is_protected_task demo_two 2"
    by (simp add: is_protected_task_def demo_two_def filled_def demo_boot_def task_init_def Let_def empty_slot_def)
  from task_kill_zero [OF demo_two_facts(1) f this, of demo_ops] show ?thesis .
qed

section \<open>The preemption counter\<close>

lemma tick_switch:
  assumes inv: "sched_inv s" and r: "ring (tasks s) xs" "set (0 # xs) = {i. live s i}"
    and on: "preempt_enabled s" "\<not> preempt_disable_count s > 0" "user_task_saved_rsp s = 0"
    and n: "next_ready s xs (current_task s) = b" "b \<noteq> current_task s"
  shows "\<exists>s'. task_preempt_tick s = Some (Runs s') \<and> sched_inv s' \<and> current_task s' = b \<and>
    do_switch_to_next (set_state (s\<lparr>preempt_disable_count := preempt_disable_count s + 1\<rparr>) (current_task s) READY)
      (current_task s) In_Preempt = Some (Runs s')"
proof -
  have mem: "current_task s \<in> set (0 # xs)" using inv sched_wfD(2) [of s] r(2) by (auto simp: sched_inv_def)
  have rf: "ready_from (tasks s) (current_task s) (tk_next (tasks s (current_task s))) = Some b"
    using ready_from_ring [OF r(1) mem] n(1) by (simp add: next_ready_def)
  let ?s = "set_state (s\<lparr>preempt_disable_count := preempt_disable_count s + 1\<rparr>) (current_task s) READY"
  have wf: "sched_wf ?s"
    using inv by (intro sched_wf_set_state) (auto simp: sched_inv_def frame_simps)
  have "live ?s i = live s i" "ring (tasks ?s) ys = ring (tasks s) ys" for i ys
    by (simp_all add: frame_simps)
  moreover have "next_ready ?s xs (current_task s) = b"
  proof -
    have "current_task s \<notin> set (others (0 # xs) (current_task s))"
      using set_others [OF _ mem] r by (auto simp: ring_def)
    then have "List.find (\<lambda>i. tk_state (tasks ?s i) = READY) (others (0 # xs) (current_task s)) =
        List.find (\<lambda>i. tk_state (tasks s i) = READY) (others (0 # xs) (current_task s))"
      by (intro find_cong) (auto simp: frame_simps)
    then show ?thesis using n(1) by (simp add: next_ready_def)
  qed
  ultimately obtain s' where s': "do_switch_to_next ?s (current_task s) In_Preempt = Some (Runs s')"
    "sched_inv s'" "current_task s' = b"
    using switch_inv [OF wf, of "current_task s" xs In_Preempt] r by (auto simp: frame_simps)
  then show ?thesis using on n by (intro exI [of _ s']) (simp add: task_preempt_tick_def rf Let_def)
qed

text \<open>C22: A timer tick that switches to a task which is not itself suspended inside
  \<open>task_preempt_tick\<close> (a new task, or one that yielded) leaves the global disable count at 1: from then
  on every tick returns at once, so that task is never preempted; and if it kills the task it
  displaced, the count stays at 1 for good.\<close>

theorem preempt_tick_disables_preemption:
  assumes "sched_inv s" and "ring (tasks s) xs" "set (0 # xs) = {i. live s i}"
    and "preempt_enabled s" and "preempt_disable_count s = 0" and "user_task_saved_rsp s = 0"
    and "next_ready s xs (current_task s) = b" and "b \<noteq> current_task s" and "resume_at s b \<noteq> In_Preempt"
    and "\<not> is_protected_task s (current_task s)"
  shows "\<exists>s'. task_preempt_tick s = Some (Runs s') \<and> current_task s' = b \<and> preempt_disable_count s' = 1 \<and>
    task_preempt_tick s' = Some (Runs s') \<and>
    (\<exists>s''. task_kill V s' (tk_id (tasks s (current_task s))) = Some (0, s'') \<and> preempt_disable_count s'' = 1 \<and>
       task_preempt_tick s'' = Some (Runs s''))"
proof -
  from tick_switch [OF assms(1-4) _ assms(6-8)] assms(5)
  obtain s' where s': "task_preempt_tick s = Some (Runs s')" "sched_inv s'" "current_task s' = b"
    and sw: "do_switch_to_next (set_state (s\<lparr>preempt_disable_count := preempt_disable_count s + 1\<rparr>) (current_task s) READY)
      (current_task s) In_Preempt = Some (Runs s')" by auto
  note eff = switch_effect [OF sw]
  have c1: "preempt_disable_count s' = 1" using eff(11) s'(3) assms(5,8,9) by (simp add: frame_simps)
  then have t1: "task_preempt_tick s' = Some (Runs s')" by (simp add: task_preempt_tick_def)
  let ?a = "current_task s"
  have live: "live s' ?a" using sched_wfD(2) [of s] assms(1) eff(2) [of ?a]
    by (simp add: live_def sched_inv_def frame_simps)
  have id: "tk_id (tasks s' ?a) = tk_id (tasks s ?a)" using eff(2) by (simp add: frame_simps)
  have prot: "is_protected_task s' ?a = is_protected_task s ?a"
    using eff(3) eff(8) by (simp add: is_protected_task_def frame_simps)
  have a: "?a \<noteq> 0" "?a < TASK_MAX" using assms(10) protected_0 [OF assms(1)] live by (metis, simp add: live_def)
  from remove_logged [OF s'(2) a(1) _ a(2), of V "''kill''"] s'(3) assms(8)
  obtain s'' where s'': "remove_task V (task_log_event ''kill'' ?a s') ?a = Some s''" "removed V s' ?a s''" by auto
  have "task_kill V s' (tk_id (tasks s ?a)) = Some (0, s'')"
    using find_task_live [OF s'(2) live] id prot assms(8,10) s'(3) s''(1) by (simp add: task_kill_def)
  moreover have "preempt_disable_count s'' = 1" using s''(2) c1 by (simp add: removed_def same_run_def)
  moreover from this have "task_preempt_tick s'' = Some (Runs s'')" by (simp add: task_preempt_tick_def)
  ultimately show ?thesis using s' c1 t1 by blast
qed

text \<open>Task 1 of the demo running, task 0 ready after a yield.\<close>

theorem preempt_tick_disables_preemption_witness:
  "\<exists>s s'. task_yield demo_two = Some (Runs s) \<and> current_task s = 1 \<and> task_preempt_tick s = Some (Runs s') \<and>
     current_task s' = 0 \<and> preempt_disable_count s' = 1 \<and> task_preempt_tick s' = Some (Runs s')"
proof -
  obtain xs where r: "ring (tasks demo_two) xs" "set (0 # xs) = {i. live demo_two i}"
    using demo_two_facts(1) by (rule inv_ring)
  have m: "j \<in> set (0 # xs) \<longleftrightarrow> j = 0 \<or> j = 1" for j unfolding r(2) by (simp add: demo_two_facts(2))
  have d: "0 \<notin> set xs" "distinct xs" using r(1) by (simp_all add: ring_def)
  have "j \<in> set xs \<longleftrightarrow> j = 1" for j using m [of j] d(1) by (cases "j = 0") auto
  then have "set xs = {1}" by blast
  with d(2) have xs: "xs = [1]" by (intro distinct_single)
  obtain s where y: "task_yield demo_two = Some (Runs s)" "sched_inv s" "current_task s = next_ready demo_two xs 0"
    using yield_inv [OF demo_two_facts(1) r] demo_two_facts(5) by auto
  then have c: "current_task s = 1" by (simp add: next_ready_def xs others_def demo_two_facts(4) [simplified])
  note eff = switch_effect [OF y(1) [unfolded task_yield_def]]
  have rs: "ring (tasks s) xs" using r(1) ring_cong [of "tasks s" "tasks demo_two" xs] eff(1) by (simp add: frame_simps)
  have ls: "set (0 # xs) = {i. live s i}" using r(2) live_cong [of s demo_two] eff(2) by (simp add: frame_simps)
  have n: "next_ready s xs (current_task s) = 0"
    using eff(5) [of 0] by (simp add: next_ready_def xs others_def c demo_two_facts frame_simps)
  have "\<not> is_protected_task s (current_task s)"
    using eff(3) [of 1] eff(8) demo_two_facts(10,11)
    by (simp add: c is_protected_task_def frame_simps demo_two_facts(10,11) [simplified])
  note pre = preempt_tick_disables_preemption [OF y(2) rs ls _ _ _ n _ _ this, of demo_ops]
  have "preempt_enabled s" "preempt_disable_count s = 0" "user_task_saved_rsp s = 0" "resume_at s 0 \<noteq> In_Preempt"
    using eff(6,9,10,11) c demo_two_facts(5-8) demo_two_facts(9) [simplified] by (simp_all add: frame_simps)
  with pre c obtain s' where "task_preempt_tick s = Some (Runs s')" "current_task s' = 0"
    "preempt_disable_count s' = 1" "task_preempt_tick s' = Some (Runs s')" by auto
  with y(1) c show ?thesis by blast
qed

end
