(* ===== verification/Sys_Inv.thy ===== *)
theory Sys_Inv
  imports Sys_Pipe Sys_Write Fs_Calls Task_Props Task_Kill
begin

text \<open>
  The invariant of the system-call layer: the descriptor table, the pipes and the mapping table have their sizes, an end of
  a pipe is open exactly when one descriptor refers to it, and the file system and the scheduler satisfy theirs. Every
  system call keeps it, none gets stuck.
\<close>

section \<open>Descriptors and pipe ends\<close>

definition end_open :: "fd_kind \<Rightarrow> pipe_buf \<Rightarrow> bool" where
  "end_open k p = (case k of FD_TYPE_PIPE_READ \<Rightarrow> pb_read_open p | FD_TYPE_PIPE_WRITE \<Rightarrow> pb_write_open p | _ \<Rightarrow> False)"

definition is_pipe_end :: "fd_kind \<Rightarrow> bool" where
  "is_pipe_end k \<longleftrightarrow> k = FD_TYPE_PIPE_READ \<or> k = FD_TYPE_PIPE_WRITE"

definition refers :: "'io sys_state \<Rightarrow> nat \<Rightarrow> fd_kind \<Rightarrow> int \<Rightarrow> bool" where
  "refers s i k pi \<longleftrightarrow> i < SYSCALL_FD_MAX \<and> fd_type (syscall_fds s ! i) = k \<and> fd_pipe_idx (syscall_fds s ! i) = pi"

definition sys_ok :: "'io sys_state \<Rightarrow> bool" where
  "sys_ok s \<longleftrightarrow> length (syscall_fds s) = SYSCALL_FD_MAX \<and> length (pipes s) = PIPE_MAX \<and>
     length (syscall_mmap_tbl s) = MMAP_MAX_ENTRIES \<and> (\<forall>pi < PIPE_MAX. pipe_ok (pipes s ! pi)) \<and>
     (\<forall>i k pi. refers s i k pi \<longrightarrow> is_pipe_end k \<longrightarrow> 0 \<le> pi \<and> pi < int PIPE_MAX \<and> end_open k (pipes s ! nat pi)) \<and>
     (\<forall>i j k pi. refers s i k pi \<longrightarrow> refers s j k pi \<longrightarrow> is_pipe_end k \<longrightarrow> i = j) \<and>
     (\<forall>pi < PIPE_MAX. \<forall>k. end_open k (pipes s ! pi) \<longrightarrow> (\<exists>i. refers s i k (int pi)))"

lemma sys_okD:
  assumes "sys_ok s"
  shows "length (syscall_fds s) = 8" "length (pipes s) = 4" "length (syscall_mmap_tbl s) = 16"
    "pi < 4 \<Longrightarrow> pipe_ok (pipes s ! pi)"
    "refers s i k q \<Longrightarrow> is_pipe_end k \<Longrightarrow> 0 \<le> q \<and> q < 4 \<and> end_open k (pipes s ! nat q)"
    "refers s i k q \<Longrightarrow> refers s j k q \<Longrightarrow> is_pipe_end k \<Longrightarrow> i = j"
    "pi < 4 \<Longrightarrow> end_open k (pipes s ! pi) \<Longrightarrow> \<exists>i. refers s i k (int pi)"
  using assms unfolding sys_ok_def by (blast | simp)+

lemma sys_okI:
  assumes "length (syscall_fds s) = 8" "length (pipes s) = 4" "length (syscall_mmap_tbl s) = 16"
    and "\<And>pi. pi < 4 \<Longrightarrow> pipe_ok (pipes s ! pi)"
    and "\<And>i k q. refers s i k q \<Longrightarrow> is_pipe_end k \<Longrightarrow> 0 \<le> q \<and> q < 4 \<and> end_open k (pipes s ! nat q)"
    and "\<And>i j k q. refers s i k q \<Longrightarrow> refers s j k q \<Longrightarrow> is_pipe_end k \<Longrightarrow> i = j"
    and "\<And>pi k. pi < 4 \<Longrightarrow> end_open k (pipes s ! pi) \<Longrightarrow> \<exists>i. refers s i k (int pi)"
  shows "sys_ok s"
  using assms unfolding sys_ok_def by simp

lemma end_open_kind: "end_open k p \<Longrightarrow> is_pipe_end k"
  by (cases k) (simp_all add: end_open_def is_pipe_end_def)

text \<open>What the calls that neither open nor close anything keep.\<close>

definition same_ends :: "'io sys_state \<Rightarrow> 'io sys_state \<Rightarrow> bool" where
  "same_ends s s' \<longleftrightarrow> sys_fs s' = sys_fs s \<and> (sched_inv (sys_sched s) \<longrightarrow> sched_inv (sys_sched s')) \<and>
     length (syscall_fds s') = length (syscall_fds s) \<and> length (pipes s') = length (pipes s) \<and>
     length (syscall_mmap_tbl s') = length (syscall_mmap_tbl s) \<and>
     (\<forall>i k q. is_pipe_end k \<longrightarrow> refers s' i k q = refers s i k q) \<and>
     (\<forall>pi < PIPE_MAX. pb_read_open (pipes s' ! pi) = pb_read_open (pipes s ! pi) \<and>
        pb_write_open (pipes s' ! pi) = pb_write_open (pipes s ! pi) \<and> (pipe_ok (pipes s ! pi) \<longrightarrow> pipe_ok (pipes s' ! pi)))"

lemma same_ends_refl [simp, intro]: "same_ends s s"
  by (simp add: same_ends_def)

lemma same_ends_trans: "same_ends a b \<Longrightarrow> same_ends b c \<Longrightarrow> same_ends a c"
  by (simp add: same_ends_def)

lemma same_endsI [intro?]:
  "syscall_fds s' = syscall_fds s \<Longrightarrow> pipes s' = pipes s \<Longrightarrow> length (syscall_mmap_tbl s') = length (syscall_mmap_tbl s) \<Longrightarrow>
    sys_fs s' = sys_fs s \<Longrightarrow> (sched_inv (sys_sched s) \<Longrightarrow> sched_inv (sys_sched s')) \<Longrightarrow> same_ends s s'"
  by (simp add: same_ends_def refers_def)

lemma sys_ok_same_ends:
  assumes ok: "sys_ok s" and same: "same_ends s s'"
  shows "sys_ok s'"
proof -
  have r: "refers s' i k q = refers s i k q" if "is_pipe_end k" for i k q using same that by (simp add: same_ends_def)
  have e: "end_open k (pipes s' ! pi) = end_open k (pipes s ! pi)" if "pi < 4" for k pi
    using same that by (cases k) (simp_all add: end_open_def same_ends_def)
  note D = sys_okD [OF ok]
  show ?thesis
  proof (rule sys_okI)
    show "length (syscall_fds s') = 8" "length (pipes s') = 4" "length (syscall_mmap_tbl s') = 16"
      using same D(1-3) by (simp_all add: same_ends_def)
    show "pipe_ok (pipes s' ! pi)" if "pi < 4" for pi using same D(4) [OF that] that by (simp add: same_ends_def)
    show "0 \<le> q \<and> q < 4 \<and> end_open k (pipes s' ! nat q)" if "refers s' i k q" "is_pipe_end k" for i k q
      using D(5) [of i k q] that r [OF that(2)] e [of "nat q" k] by auto
    show "i = j" if "refers s' i k q" "refers s' j k q" "is_pipe_end k" for i j k q using D(6) that r by metis
    show "\<exists>i. refers s' i k (int pi)" if "pi < 4" "end_open k (pipes s' ! pi)" for pi k
      using D(7) [of pi k] that r [OF end_open_kind] e by simp
  qed
qed

section \<open>Closing and opening\<close>

definition shut_end :: "fd_kind \<Rightarrow> pipe_buf \<Rightarrow> pipe_buf" where
  "shut_end k p = (if k = FD_TYPE_PIPE_READ then p\<lparr>pb_read_open := False\<rparr> else p\<lparr>pb_write_open := False\<rparr>)"

lemma shut_end_ok: "pipe_ok (shut_end k p) = pipe_ok p"
  by (simp add: shut_end_def pipe_ok_def)

lemma shut_end_open: "is_pipe_end k \<Longrightarrow> end_open k' (shut_end k p) \<longleftrightarrow> end_open k' p \<and> k' \<noteq> k"
  by (cases k'; cases k) (simp_all add: shut_end_def end_open_def is_pipe_end_def)

lemma close_slot_ok:
  assumes ok: "sys_ok s" and i: "i < 8"
  shows "sys_ok (close_slot i s)" and "fd_type (syscall_fds (close_slot i s) ! j) = (if j = i then FD_TYPE_NONE else fd_type (syscall_fds s ! j))"
proof -
  note D = sys_okD [OF ok]
  let ?e = "syscall_fds s ! i" let ?s = "close_slot i s"
  let ?k = "fd_type ?e" and ?q = "fd_pipe_idx ?e"
  have q: "0 \<le> ?q \<and> ?q < 4" if "is_pipe_end ?k" using D(5) [of i ?k ?q] that i by (simp add: refers_def)
  have fds: "syscall_fds ?s = (syscall_fds s)[i := ?e\<lparr>fd_type := FD_TYPE_NONE, fd_pos := 0, fd_path := [], fd_pipe_idx := -1\<rparr>]"
    by (simp add: close_slot_def Let_def upd_fd_def upd_pipe_def)
  have ps: "length (pipes ?s) = 4" "syscall_mmap_tbl ?s = syscall_mmap_tbl s"
    using D(2) by (simp_all add: close_slot_def Let_def upd_fd_def upd_pipe_def)
  have pp: "pipes ?s = (if is_pipe_end ?k then (pipes s)[nat ?q := shut_end ?k (pipes s ! nat ?q)] else pipes s)"
    using q by (cases ?k) (simp_all add: close_slot_def Let_def upd_fd_def upd_pipe_def is_pipe_end_def shut_end_def)
  have at: "pipe_ok (pipes ?s ! pi)" "end_open k (pipes ?s ! pi) \<longleftrightarrow> end_open k (pipes s ! pi) \<and> \<not> (k = ?k \<and> int pi = ?q)"
    if "pi < 4" for k pi
  proof -
    have "pipes ?s ! pi = (if is_pipe_end ?k \<and> int pi = ?q then shut_end ?k (pipes s ! pi) else pipes s ! pi)"
      using that D(2) q unfolding pp by (auto simp: nth_list_update)
    then show "pipe_ok (pipes ?s ! pi)" "end_open k (pipes ?s ! pi) \<longleftrightarrow> end_open k (pipes s ! pi) \<and> \<not> (k = ?k \<and> int pi = ?q)"
      using D(4) [OF that] end_open_kind [of k "pipes s ! pi"] by (auto simp: shut_end_ok shut_end_open)
  qed
  have r: "refers ?s j k q \<longleftrightarrow> refers s j k q \<and> j \<noteq> i" if "is_pipe_end k" for j k q
    using D(1) that i unfolding refers_def fds by (auto simp: nth_list_update is_pipe_end_def)
  show "fd_type (syscall_fds ?s ! j) = (if j = i then FD_TYPE_NONE else fd_type (syscall_fds s ! j))"
    using D(1) i unfolding fds by simp
  show "sys_ok ?s"
  proof (rule sys_okI)
    show "length (syscall_fds ?s) = 8" "length (pipes ?s) = 4" "length (syscall_mmap_tbl ?s) = 16" using D(1,3) fds ps by simp_all
    show "pipe_ok (pipes ?s ! pi)" if "pi < 4" for pi by (rule at(1) [OF that])
    show "0 \<le> q \<and> q < 4 \<and> end_open k (pipes ?s ! nat q)" if "refers ?s j k q" "is_pipe_end k" for j k q
    proof -
      from that r have j: "refers s j k q" "j \<noteq> i" by blast+
      note d = D(5) [OF j(1) that(2)]
      have "\<not> (k = ?k \<and> q = ?q)" using D(6) [OF j(1), of i] j(2) that(2) i by (auto simp: refers_def)
      then show ?thesis using d at(2) [of "nat q" k] by auto
    qed
    show "j1 = j2" if "refers ?s j1 k q" "refers ?s j2 k q" "is_pipe_end k" for j1 j2 k q using D(6) that r by metis
    show "\<exists>j. refers ?s j k (int pi)" if "pi < 4" "end_open k (pipes ?s ! pi)" for pi k
    proof -
      from that at(2) have o: "end_open k (pipes s ! pi)" "\<not> (k = ?k \<and> int pi = ?q)" by blast+
      from D(7) [OF that(1) o(1)] obtain j where j: "refers s j k (int pi)" ..
      with o(2) have "j \<noteq> i" by (auto simp: refers_def)
      with r [OF end_open_kind [OF o(1)]] j show ?thesis by blast
    qed
  qed
qed

lemma same_ends_upd_fd:
  assumes "i < length (syscall_fds s)" and "fd_type (f (syscall_fds s ! i)) = fd_type (syscall_fds s ! i) \<or>
      \<not> is_pipe_end (fd_type (f (syscall_fds s ! i))) \<and> \<not> is_pipe_end (fd_type (syscall_fds s ! i))"
    and "is_pipe_end (fd_type (syscall_fds s ! i)) \<Longrightarrow> fd_pipe_idx (f (syscall_fds s ! i)) = fd_pipe_idx (syscall_fds s ! i)"
  shows "same_ends s (upd_fd i f s)"
  using assms unfolding same_ends_def by (auto simp: upd_fd_def refers_def nth_list_update split: if_splits)

lemma fd_slot_bound: "syscall_fd_slot_from_fd fd = Some i \<Longrightarrow> i < 8"
proof -
  assume a: "syscall_fd_slot_from_fd fd = Some i"
  then have "3 \<le> fd" "fd < 11" "i = unat (fd - 3)" by (auto simp: syscall_fd_slot_from_fd_def split: if_splits)
  moreover from this have "unat (fd - 3) = unat fd - 3" by (subst unat_sub) simp_all
  ultimately show ?thesis by (simp add: word_less_nat_alt)
qed

lemma free_fd_Some: "free_fd s = Some i \<Longrightarrow> i < 8 \<and> fd_type (syscall_fds s ! i) = FD_TYPE_NONE"
  unfolding free_fd_def by (auto simp: find_Some_iff)

text \<open>Both ends of a pipe no descriptor refers to, given to two free descriptors.\<close>

lemma open_pipe_ok:
  assumes ok: "sys_ok s" and pi: "pi < 4" "\<not> pb_read_open (pipes s ! pi)" "\<not> pb_write_open (pipes s ! pi)"
    and r: "r < 8" "fd_type (syscall_fds s ! r) = FD_TYPE_NONE" and w: "w < 8" "fd_type (syscall_fds s ! w) = FD_TYPE_NONE" and rw: "r \<noteq> w"
    and fds: "syscall_fds s' = (syscall_fds s)[r := er, w := ew]"
    and er: "fd_type er = FD_TYPE_PIPE_READ" "fd_pipe_idx er = int pi" and ew: "fd_type ew = FD_TYPE_PIPE_WRITE" "fd_pipe_idx ew = int pi"
    and ps: "pipes s' = (pipes s)[pi := p]" and p: "pipe_ok p" "pb_read_open p" "pb_write_open p"
    and tbl: "syscall_mmap_tbl s' = syscall_mmap_tbl s"
  shows "sys_ok s'"
proof -
  note D = sys_okD [OF ok]
  have none: "\<not> refers s j k (int pi)" if "is_pipe_end k" for j k
    using D(5) [of j k "int pi"] that pi by (auto simp: end_open_def is_pipe_end_def)
  have R: "refers s' j k q \<longleftrightarrow> refers s j k q \<or> (q = int pi \<and> (k = FD_TYPE_PIPE_READ \<and> j = r \<or> k = FD_TYPE_PIPE_WRITE \<and> j = w))"
    if "is_pipe_end k" for j k q
    using D(1) r w rw er ew that unfolding refers_def fds by (auto simp: nth_list_update is_pipe_end_def)
  have P: "pipes s' ! x = (if x = pi then p else pipes s ! x)" if "x < 4" for x using D(2) that unfolding ps by (simp add: nth_list_update)
  have open_p: "end_open k p" if "is_pipe_end k" for k using p that by (auto simp: is_pipe_end_def end_open_def)
  show ?thesis
  proof (rule sys_okI)
    show "length (syscall_fds s') = 8" "length (pipes s') = 4" "length (syscall_mmap_tbl s') = 16" using D(1-3) fds ps tbl by simp_all
    show "pipe_ok (pipes s' ! x)" if "x < 4" for x using P [OF that] D(4) [OF that] p by simp
    show "0 \<le> q \<and> q < 4 \<and> end_open k (pipes s' ! nat q)" if "refers s' j k q" "is_pipe_end k" for j k q
    proof (cases "q = int pi")
      case True
      then show ?thesis using P [of pi] pi open_p that by simp
    next
      case False
      with R [OF that(2)] that have "refers s j k q" by blast
      from D(5) [OF this that(2)] P [of "nat q"] False show ?thesis by auto
    qed
    show "j1 = j2" if a: "refers s' j1 k q" "refers s' j2 k q" "is_pipe_end k" for j1 j2 k q
    proof (cases "q = int pi")
      case True
      then show ?thesis using a R [OF a(3)] none [OF a(3)] by auto
    next
      case False
      then show ?thesis using a R [OF a(3)] D(6) by blast
    qed
    show "\<exists>j. refers s' j k (int x)" if "x < 4" "end_open k (pipes s' ! x)" for x k
    proof (cases "x = pi")
      case True
      then show ?thesis using R [OF end_open_kind [OF that(2)]] end_open_kind [OF that(2)] by (auto simp: is_pipe_end_def)
    next
      case False
      then show ?thesis using D(7) [OF that(1), of k] that P R [OF end_open_kind [OF that(2)]] by auto
    qed
  qed
qed

section \<open>The calls that keep all ends\<close>

named_theorems ends_intros

lemma same_ends_mem [ends_intros]: "same_ends s (set_mem m s)"
  by (rule same_endsI) (simp_all add: set_mem_def frame_simps)

lemma write_cstr_loop_ends: "same_ends s (snd (write_cstr_loop c n w s))"
proof (induction c n w s rule: write_cstr_loop.induct)
  case (1 c n w s)
  have t: "same_ends s (term_write x s)" for x by (rule same_endsI) (simp_all add: term_write_def)
  show ?case
    using 1 t
    by (subst write_cstr_loop.simps) (auto simp del: write_cstr_loop.simps intro: same_ends_trans [OF t] split: prod.split chunk_end.split)
qed

lemma write_len_loop_ends: "same_ends s (snd (write_len_loop c n w s))"
proof (induction c n w s rule: write_len_loop.induct)
  case (1 c n w s)
  have t: "same_ends s (term_write x s)" for x by (rule same_endsI) (simp_all add: term_write_def)
  show ?case
  proof (cases "n = 0")
    case True
    then show ?thesis by (subst write_len_loop.simps) simp
  next
    case False
    let ?k = "if n > 128 then 128 else n"
    show ?thesis
    proof (cases "user_copy_ascii (sys_mem s) c (unat ?k)")
      case None
      then show ?thesis by (subst write_len_loop.simps) (simp only: Let_def option.case snd_conv same_ends_refl simp_thms split: if_split)
    next
      case (Some x)
      have "write_len_loop c n w s = write_len_loop (c + ?k) (n - ?k) (w + ?k) (term_write x s)"
        using False by (subst write_len_loop.simps) (simp only: Let_def option.case Some if_True simp_thms)
      then show ?thesis using same_ends_trans [OF t 1 [OF False refl Some]] by (simp only:)
    qed
  qed
qed

lemma syscall_write_user_ends [ends_intros]: "same_ends s (snd (syscall_write_user p n s))"
  by (simp add: syscall_write_user_def write_cstr_loop_ends write_len_loop_ends del: write_cstr_loop.simps write_len_loop.simps)

lemma syscall_read_user_ends [ends_intros]: "same_ends s (snd (syscall_read_user T p n s))"
proof -
  have io: "same_ends s (s\<lparr>sys_io := io\<rparr>)" for io by (rule same_endsI) simp_all
  have "same_ends s (set_mem m (s\<lparr>sys_io := io\<rparr>))" for m io using io same_ends_mem by (rule same_ends_trans)
  with io show ?thesis
    by (cases "p = 0 \<or> n = 0")
      (simp_all add: syscall_read_user_def Let_def split: prod.split option.split bool.split split del: if_split del: user_copy_out.simps)
qed

lemma file_read_ends [ends_intros]:
  assumes "file_read i p n s = Some r" and "i < length (syscall_fds s)"
  shows "same_ends s (snd r)"
proof -
  have "same_ends (set_mem m s) (upd_fd i (\<lambda>e. e\<lparr>fd_pos := fd_pos e + k\<rparr>) (set_mem m s))" for m k
    using assms(2) by (intro same_ends_upd_fd) (simp_all add: set_mem_def)
  then have "same_ends s (upd_fd i (\<lambda>e. e\<lparr>fd_pos := fd_pos e + k\<rparr>) (set_mem m s))" for m k
    by (rule same_ends_trans [OF same_ends_mem])
  with same_ends_mem [of s] assms(1) show ?thesis
    by (auto simp: file_read_def Let_def split: bind_splits prod.splits bool.splits if_splits)
qed

lemma syscall_lseek_ends [ends_intros]:
  assumes "syscall_lseek_fd fd off whence s = Some r" and "length (syscall_fds s) = 8"
  shows "same_ends s (snd r)"
proof -
  have "same_ends s (upd_fd i (\<lambda>e. e\<lparr>fd_pos := k\<rparr>) s)" if "i < 8" for i k
    using assms(2) that by (intro same_ends_upd_fd) simp_all
  moreover have "syscall_fd_slot_from_fd fd = Some i \<Longrightarrow> i < 8" for i by (rule fd_slot_bound)
  ultimately show ?thesis using assms
    by (auto simp: syscall_lseek_fd_def split: bind_splits prod.splits option.splits if_splits)
qed

lemma syscall_do_mmap_ends [ends_intros]: "same_ends s (snd (syscall_do_mmap a n p f s))"
  by (auto simp: syscall_do_mmap_def Let_def set_mem_def frame_simps intro!: same_endsI split: prod.split option.split bool.split)

lemma release_mmap_ends: "same_ends s (release_mmap i s)"
  by (rule same_endsI) (simp_all add: release_mmap_def Let_def set_mem_def frame_simps)

lemma syscall_do_munmap_ends [ends_intros]: "same_ends s (snd (syscall_do_munmap a n s))"
  by (simp add: syscall_do_munmap_def release_mmap_ends split: option.split)

lemma syscall_brk_ends [ends_intros]: "same_ends s (snd (syscall_brk b s))"
  by (auto simp: syscall_brk_def set_mem_def frame_simps intro!: same_endsI split: prod.split)

lemma syscall_do_kill_ends:
  assumes inv: "sched_inv (sys_sched s)"
  shows "\<exists>r. syscall_do_kill pid sig s = Some r \<and> same_ends s (snd r)"
proof -
  obtain rc sc where k: "task_kill kernel_stacks (sys_sched s) (ucast pid) = Some (rc, sc)" "sched_inv sc"
    using task_kill_inv [OF inv] by blast
  have "same_ends s (s\<lparr>sys_sched := sc'\<rparr>)" if "sched_inv sc'" for sc' using that by (intro same_endsI) simp_all
  with k task_stop_inv [OF inv, of "ucast pid"] task_continue_inv [OF inv, of "ucast pid"] show ?thesis
    by (auto simp: syscall_do_kill_def Let_def case_prod_beta)
qed

text \<open>The two calls on a pipe keep its ring well formed.\<close>

lemma pipe_call_ends:
  assumes ok: "sys_ok s" and pi: "pi < 4" and v: "pipe_valid pi s'" and fds: "syscall_fds s' = syscall_fds s"
    and tbl: "syscall_mmap_tbl s' = syscall_mmap_tbl s" and fs: "sys_fs s' = sys_fs s"
    and sched: "sched_inv (sys_sched s) \<Longrightarrow> sched_inv (sys_sched s')"
    and p: "pipes s' = (pipes s)[pi := p]" "pb_read_open p = pb_read_open (pipes s ! pi)" "pb_write_open p = pb_write_open (pipes s ! pi)"
  shows "same_ends s s'"
  using sys_okD(2) [OF ok] pi v fds tbl fs sched p
  by (auto simp: same_ends_def refers_def nth_list_update pipe_valid_def pipe_at_def)

lemma snd_ex: "(\<exists>a b. x = (a, b) \<and> P b) = P (snd x)"
  by (cases x) simp

lemma pipe_read_ends:
  assumes ok: "sys_ok s" and pi: "pi < 4"
  shows "same_ends s (snd (pipe_read pi p n s))"
proof -
  have v: "pipe_valid pi s" using sys_okD(2,4) [OF ok] pi by (simp add: pipe_valid_def pipe_at_def)
  obtain r s' where e: "pipe_read pi p n s = (r, s')" by fastforce
  note v' = pipe_read_contents(1) [OF v e]
  from e consider "s' = s" | m where "s' = set_mem m s"
    | m k where "s' = upd_pipe pi (\<lambda>p. p\<lparr>pb_head := (pb_head p + k) mod PIPE_BUF_SIZE, pb_count := pb_count p - k\<rparr>) (set_mem m s)"
    unfolding pipe_read_def Let_def by (auto split: if_splits prod.splits bool.splits)
  then have "same_ends s s'"
  proof cases
    case 3
    then show ?thesis
      by (intro pipe_call_ends [OF ok pi v', where p = "(pipes s ! pi)\<lparr>pb_head := (pb_head (pipes s ! pi) + k) mod PIPE_BUF_SIZE,
        pb_count := pb_count (pipes s ! pi) - k\<rparr>"]) (simp_all add: upd_pipe_def set_mem_def frame_simps)
  qed (simp_all add: same_ends_mem)
  then show ?thesis by (simp add: e)
qed

lemma pipe_write_ends:
  assumes ok: "sys_ok s" and pi: "pi < 4"
  shows "same_ends s (snd (pipe_write pi p n s))"
proof -
  have v: "pipe_valid pi s" using sys_okD(2,4) [OF ok] pi by (simp add: pipe_valid_def pipe_at_def)
  obtain r s' where e: "pipe_write pi p n s = (r, s')" by fastforce
  note v' = pipe_write_contents(1) [OF v e]
  obtain b q where f: "pipe_fill (sys_mem s) p [0..<unat (write_take (pipe_at pi s) n)] (pipe_at pi s) = (b, q)" by fastforce
  note q = pipe_fill_spec [OF f]
  from e f consider "s' = s" | k where "s' = upd_pipe pi (\<lambda>_. q\<lparr>pb_count := k\<rparr>) s" | "s' = upd_pipe pi (\<lambda>_. q) s"
    unfolding pipe_write_eq by (auto split: if_splits)
  then have "same_ends s s'"
  proof cases
    case 2
    with q show ?thesis
      by (intro pipe_call_ends [OF ok pi v', where p = "q\<lparr>pb_count := k\<rparr>"]) (simp_all add: upd_pipe_def pipe_at_def)
  next
    case 3
    with q show ?thesis
      by (intro pipe_call_ends [OF ok pi v', where p = q]) (simp_all add: upd_pipe_def pipe_at_def)
  qed simp
  then show ?thesis by (simp add: e)
qed

lemma syscall_write_fd_ends: "sys_ok s \<Longrightarrow> same_ends s (snd (syscall_write_fd fd p n s))"
  by (auto simp: syscall_write_fd_def Let_def syscall_write_user_ends intro: pipe_write_ends split: option.split)

section \<open>The calls that use the file system\<close>

lemma fs_stat_ends: "fs_inv s \<Longrightarrow> \<exists>r. fs_stat s p = Some r"
  using resolve_path_ends [of s p] by (auto simp: fs_stat_def)

lemma fs_read_file_ends: "fs_inv s \<Longrightarrow> \<exists>rc out n. fs_read_file s p a b c = Some (rc, out, n)"
  using resolve_path_ends [of s p] by (auto simp: fs_read_file_def Let_def)

lemma syscall_read_fd_ends:
  assumes ok: "sys_ok s" and fs: "fs_inv (sys_fs s)"
  shows "\<exists>r. syscall_read_fd T fd p n s = Some r \<and> same_ends s (snd r)"
proof -
  have freads: "\<exists>r. file_read i p k s = Some r \<and> same_ends s (snd r)" if "i < 8" for i k
  proof -
    obtain rc out m where "fs_read_file (sys_fs s) (Some (fd_path (syscall_fds s ! i))) True FS_MAX_FILE_SIZE True = Some (rc, out, m)"
      using fs_read_file_ends [OF fs] by blast
    then obtain r where "file_read i p k s = Some r" by (simp add: file_read_def)
    with file_read_ends [OF this] sys_okD(1) [OF ok] that show ?thesis by auto
  qed
  show ?thesis
  proof (cases "fd = 0 \<or> syscall_fd_slot_from_fd fd = None")
    case True
    with syscall_read_user_ends [of s T p n] show ?thesis
      by (cases "syscall_read_user T p n s"; cases "fd = 0") (simp_all add: syscall_read_fd_def)
  next
    case False
    then obtain i where i: "syscall_fd_slot_from_fd fd = Some i" "fd \<noteq> 0" by blast
    with freads [OF fd_slot_bound [OF i(1)]] pipe_read_ends [OF ok, of "nat (fd_pipe_idx (syscall_fds s ! i))"] show ?thesis
      by (simp add: syscall_read_fd_def Let_def split del: if_split) (auto simp: snd_ex nat_less_iff split: if_split)
  qed
qed

lemma syscall_open_ok:
  assumes ok: "sys_ok s" and fs: "fs_inv (sys_fs s)"
  shows "\<exists>r. syscall_open_user p s = Some r \<and> sys_ok (snd r) \<and> sys_fs (snd r) = sys_fs s \<and> sys_sched (snd r) = sys_sched s"
proof -
  have o: "sys_ok (upd_fd i (\<lambda>e. e\<lparr>fd_type := FD_TYPE_FILE, fd_pos := 0, fd_path := g e, fd_pipe_idx := -1\<rparr>) s)" if "free_fd s = Some i" for i g
    using free_fd_Some [OF that] sys_okD(1) [OF ok]
    by (intro sys_ok_same_ends [OF ok same_ends_upd_fd]) (simp_all add: is_pipe_end_def)
  show ?thesis
  proof (cases "user_copy_cstr (sys_mem s) p SYSCALL_PATH_MAX")
    case (Some path)
    obtain st where "fs_stat (sys_fs s) (Some path) = Some st" using fs_stat_ends [OF fs] by blast
    moreover note o
    moreover have "sys_fs (upd_fd i g s) = sys_fs s" "sys_sched (upd_fd i g s) = sys_sched s" for i g by (simp_all add: upd_fd_def)
    ultimately show ?thesis
      using Some ok by (cases st; cases "free_fd s") (simp_all add: syscall_open_user_def case_prod_beta)
  qed (use ok in \<open>simp add: syscall_open_user_def\<close>)
qed

lemma syscall_lseek_ok:
  assumes ok: "sys_ok s" and fs: "fs_inv (sys_fs s)"
  shows "\<exists>r. syscall_lseek_fd fd off whence s = Some r \<and> same_ends s (snd r)"
proof -
  have "\<exists>r. syscall_lseek_fd fd off whence s = Some r"
  proof (cases "syscall_fd_slot_from_fd fd")
    case (Some i)
    obtain st where "fs_stat (sys_fs s) (Some (fd_path (syscall_fds s ! i))) = Some st" using fs_stat_ends [OF fs] by blast
    with Some show ?thesis by (simp add: syscall_lseek_fd_def)
  qed (simp add: syscall_lseek_fd_def)
  with syscall_lseek_ends sys_okD(1) [OF ok] show ?thesis by blast
qed

section \<open>Pipes\<close>

lemma syscall_do_pipe_ok:
  assumes ok: "sys_ok s"
  shows "sys_ok (snd (syscall_do_pipe a s)) \<and> sys_fs (snd (syscall_do_pipe a s)) = sys_fs s \<and>
    (sched_inv (sys_sched s) \<longrightarrow> sched_inv (sys_sched (snd (syscall_do_pipe a s))))"
proof (cases "a = 0 \<or> List.find (\<lambda>i. \<not> pb_read_open (pipes s ! i) \<and> \<not> pb_write_open (pipes s ! i)) [0..<PIPE_MAX] = None \<or>
    length (filter (\<lambda>i. fd_type (syscall_fds s ! i) = FD_TYPE_NONE) [0..<SYSCALL_FD_MAX]) < 2")
  case True
  then show ?thesis using ok by (auto simp: syscall_do_pipe_def split: option.split list.split)
next
  case False
  let ?free = "filter (\<lambda>i. fd_type (syscall_fds s ! i) = FD_TYPE_NONE) [0..<SYSCALL_FD_MAX]"
  from False obtain pi where pi: "List.find (\<lambda>i. \<not> pb_read_open (pipes s ! i) \<and> \<not> pb_write_open (pipes s ! i)) [0..<PIPE_MAX] = Some pi"
    by (metis not_None_eq)
  from False obtain r w ws where free: "?free = r # w # ws" by (cases ?free; cases "tl ?free") auto
  have shut: "pi < 4" "\<not> pb_read_open (pipes s ! pi)" "\<not> pb_write_open (pipes s ! pi)" using pi by (auto simp: find_Some_iff)
  have "set (r # w # ws) \<subseteq> {i. i < 8 \<and> fd_type (syscall_fds s ! i) = FD_TYPE_NONE}" unfolding free [symmetric] by auto
  then have rw: "r < 8" "fd_type (syscall_fds s ! r) = FD_TYPE_NONE" "w < 8" "fd_type (syscall_fds s ! w) = FD_TYPE_NONE" by auto
  have "distinct ?free" by simp
  then have ne: "r \<noteq> w" unfolding free by simp
  note D = sys_okD [OF ok]
  define opened where "opened = (\<lambda>p :: pipe_buf. p\<lparr>pb_head := 0, pb_count := 0, pb_read_open := True, pb_write_open := True\<rparr>)"
  define fd_of where "fd_of = (\<lambda>k (e :: fd_entry). e\<lparr>fd_type := k, fd_pos := 0, fd_path := [], fd_pipe_idx := int pi\<rparr>)"
  define s3 where "s3 = upd_fd w (fd_of FD_TYPE_PIPE_WRITE) (upd_fd r (fd_of FD_TYPE_PIPE_READ) (upd_pipe pi opened s))"
  define undo where "undo = (\<lambda>m. upd_pipe pi (\<lambda>p. p\<lparr>pb_read_open := False, pb_write_open := False\<rparr>)
      (upd_fd w (\<lambda>e. e\<lparr>fd_type := FD_TYPE_NONE\<rparr>) (upd_fd r (\<lambda>e. e\<lparr>fd_type := FD_TYPE_NONE\<rparr>) (set_mem m s3))))"
  have made: "syscall_do_pipe a s = (-1, undo m) \<or> syscall_do_pipe a s = (0, set_mem m s3)"
    if "m = (case user_copy_out a (word_bytes (3 + of_nat r)) (sys_mem s3) of (b, m1) \<Rightarrow>
        if b then snd (user_copy_out (a + 8) (word_bytes (3 + of_nat w)) m1) else m1)" for m
    using that False pi free
    by (simp add: syscall_do_pipe_def Let_def s3_def [unfolded fd_of_def opened_def] undo_def case_prod_beta)
  have good: "sys_ok (set_mem m s3)" for m
  proof (rule open_pipe_ok [OF ok shut rw ne])
    show "syscall_fds (set_mem m s3) = (syscall_fds s)[r := fd_of FD_TYPE_PIPE_READ (syscall_fds s ! r), w := fd_of FD_TYPE_PIPE_WRITE (syscall_fds s ! w)]"
      using ne by (simp add: s3_def set_mem_def upd_fd_def upd_pipe_def)
    show "pipes (set_mem m s3) = (pipes s)[pi := opened (pipes s ! pi)]" by (simp add: s3_def set_mem_def upd_fd_def upd_pipe_def)
  qed (simp_all add: fd_of_def opened_def pipe_ok_def s3_def set_mem_def upd_fd_def upd_pipe_def)
  have undone: "same_ends s (undo m)" for m
  proof -
    have f: "syscall_fds (undo m) = (syscall_fds s)[r := (fd_of FD_TYPE_PIPE_READ (syscall_fds s ! r))\<lparr>fd_type := FD_TYPE_NONE\<rparr>,
        w := (fd_of FD_TYPE_PIPE_WRITE (syscall_fds s ! w))\<lparr>fd_type := FD_TYPE_NONE\<rparr>]"
      using ne rw D(1) by (simp add: undo_def s3_def set_mem_def upd_fd_def upd_pipe_def fd_of_def list_update_swap)
    have p: "pipes (undo m) = (pipes s)[pi := (pipes s ! pi)\<lparr>pb_head := 0, pb_count := 0, pb_read_open := False, pb_write_open := False\<rparr>]"
      using shut D(2) by (simp add: undo_def s3_def set_mem_def upd_fd_def upd_pipe_def opened_def)
    have "refers (undo m) i k q = refers s i k q" if "is_pipe_end k" for i k q
      using that rw ne D(1) unfolding refers_def f by (auto simp: nth_list_update is_pipe_end_def fd_of_def)
    moreover have "syscall_mmap_tbl (undo m) = syscall_mmap_tbl s" "sys_fs (undo m) = sys_fs s"
      "sched_inv (sys_sched (undo m)) = sched_inv (sys_sched s)"
      by (simp_all add: undo_def s3_def set_mem_def upd_fd_def upd_pipe_def frame_simps)
    ultimately show ?thesis using shut D(2) unfolding same_ends_def p f by (auto simp: nth_list_update pipe_ok_def)
  qed
  have "sys_fs (set_mem m s3) = sys_fs s" "sched_inv (sys_sched (set_mem m s3)) = sched_inv (sys_sched s)" for m
    by (simp_all add: s3_def set_mem_def upd_fd_def upd_pipe_def frame_simps)
  moreover have "sys_fs (undo m) = sys_fs s" "sched_inv (sys_sched s) \<longrightarrow> sched_inv (sys_sched (undo m))" for m
    using undone [of m] by (simp_all add: same_ends_def)
  ultimately show ?thesis using made [OF refl] good sys_ok_same_ends [OF ok undone] by auto
qed

section \<open>Every system call\<close>

definition sys_inv :: "'io sys_state \<Rightarrow> bool" where
  "sys_inv s \<longleftrightarrow> sys_ok s \<and> fs_inv (sys_fs s) \<and> sched_inv (sys_sched s)"

lemma sys_inv_same: "sys_inv s \<Longrightarrow> same_ends s s' \<Longrightarrow> sys_inv s'"
  unfolding sys_inv_def using sys_ok_same_ends [of s s'] unfolding same_ends_def by metis

text \<open>A call that comes back in a good state, or hands over to a task in one.\<close>

definition sys_good :: "'io sys_outcome option \<Rightarrow> bool" where
  "sys_good r \<longleftrightarrow> (\<exists>v s'. r = Some (Returns v s') \<and> sys_inv s') \<or>
     (\<exists>out s'. r = Some (Exits out s') \<and> (\<exists>sc. continues (Some out) sc \<and> sched_inv sc))"

lemma sys_good_returns: "sys_inv (snd r) \<Longrightarrow> sys_good (Some (returns r))"
  by (auto simp: sys_good_def returns_def)

lemma sys_good_same: "sys_inv s \<Longrightarrow> same_ends s (snd r) \<Longrightarrow> sys_good (Some (returns r))"
  by (rule sys_good_returns) (rule sys_inv_same)

lemma sys_good_if: "sys_good a \<Longrightarrow> sys_good b \<Longrightarrow> sys_good (if P then a else b)"
  by simp

lemma exit_good:
  assumes "sched_inv s"
  shows "\<exists>out. task_exit s = Some out \<and> (\<exists>sc. continues (Some out) sc \<and> sched_inv sc)"
  using exit_inv [OF assms] assms by (cases "user_task_saved_rsp s = 0") (auto simp: continues_def task_exit_def frame_simps)

lemma close_fd_ok: "sys_inv s \<Longrightarrow> sys_inv (snd (syscall_close_fd fd s))"
  using close_slot_ok(1) [of s] fd_slot_bound [of fd]
  by (auto simp: sys_inv_def syscall_close_fd_def close_slot_def upd_fd_def upd_pipe_def Let_def split: option.split)

lemma syscall_dispatch_good:
  assumes inv: "sys_inv s"
  shows "sys_good (syscall_dispatch T num a1 a2 a3 a4 s)"
proof -
  have ok: "sys_ok s" and fs: "fs_inv (sys_fs s)" and sc: "sched_inv (sys_sched s)" using inv by (simp_all add: sys_inv_def)
  note same = sys_good_same [OF inv]
  have "sys_good (map_option returns (syscall_read_fd T a1 a2 a3 s))" using syscall_read_fd_ends [OF ok fs, of T a1 a2 a3] same by auto
  moreover have "sys_good (map_option returns (syscall_lseek_fd a1 a2 a3 s))" using syscall_lseek_ok [OF ok fs, of a1 a2 a3] same by auto
  moreover have "sys_good (map_option returns (syscall_do_kill a1 a2 s))" using syscall_do_kill_ends [OF sc, of a1 a2] same by auto
  moreover have "sys_good (map_option returns (syscall_open_user a1 s))"
  proof -
    obtain r where r: "syscall_open_user a1 s = Some r" "sys_ok (snd r)" "sys_fs (snd r) = sys_fs s" "sys_sched (snd r) = sys_sched s"
      using syscall_open_ok [OF ok fs, of a1] by blast
    with fs sc have "sys_inv (snd r)" by (simp add: sys_inv_def)
    then show ?thesis unfolding r(1) option.map by (rule sys_good_returns)
  qed
  moreover have "sys_good (Some (returns (syscall_do_pipe a1 s)))"
    using syscall_do_pipe_ok [OF ok, of a1] fs sc by (intro sys_good_returns) (simp add: sys_inv_def)
  moreover have "sys_good (Some (returns (syscall_close_fd a1 s)))" using close_fd_ok [OF inv] by (rule sys_good_returns)
  moreover have "sys_good (map_option (\<lambda>out. Exits out s) (task_exit (sys_sched s)))" using exit_good [OF sc] by (auto simp: sys_good_def)
  moreover have "sys_good (Some (returns (v, s)))" for v by (rule same) simp
  note this [of "syscall_do_getpid s"] this [of "syscall_do_poll T a1 a2 s"] this [of "-1"]
  moreover note this
  moreover note same [OF syscall_write_user_ends [of s a1 a2]] same [OF syscall_write_fd_ends [OF ok, of a1 a2 a3]]
    same [OF syscall_do_mmap_ends [of s a1 a2 a3 a4]] same [OF syscall_do_munmap_ends [of s a1 a2]] same [OF syscall_brk_ends [of s a1]]
  ultimately show ?thesis unfolding syscall_dispatch_def by (intro sys_good_if)
qed

section \<open>Cleaning up after a program\<close>

lemma cleanup_prefix:
  assumes "sys_inv s" and "n \<le> 8"
  shows "sys_inv (fold (\<lambda>i s. if fd_type (syscall_fds s ! i) = FD_TYPE_NONE then s else close_slot i s) [0..<n] s) \<and>
    (\<forall>i < n. fd_type (syscall_fds (fold (\<lambda>i s. if fd_type (syscall_fds s ! i) = FD_TYPE_NONE then s else close_slot i s) [0..<n] s) ! i) = FD_TYPE_NONE)"
  using assms(2)
proof (induction n)
  case (Suc n)
  let ?s = "fold (\<lambda>i s. if fd_type (syscall_fds s ! i) = FD_TYPE_NONE then s else close_slot i s) [0..<n] s"
  from Suc have ih: "sys_inv ?s" "\<forall>i < n. fd_type (syscall_fds ?s ! i) = FD_TYPE_NONE" by simp_all
  have "sys_ok ?s" "n < 8" using ih(1) Suc(2) by (simp_all add: sys_inv_def)
  note c = close_slot_ok [OF this]
  have "sys_fs (close_slot n ?s) = sys_fs ?s" "sys_sched (close_slot n ?s) = sys_sched ?s"
    by (simp_all add: close_slot_def Let_def upd_fd_def upd_pipe_def)
  with c(1) ih(1) have "sys_inv (close_slot n ?s)" by (simp add: sys_inv_def)
  with ih c(2) show ?case by (auto simp: less_Suc_eq)
qed (use assms(1) in simp)

lemma all_closed:
  assumes ok: "sys_ok s" and none: "\<forall>i < 8. fd_type (syscall_fds s ! i) = FD_TYPE_NONE" and pi: "pi < 4"
  shows "\<not> pb_read_open (pipes s ! pi) \<and> \<not> pb_write_open (pipes s ! pi)"
proof -
  have "\<not> end_open k (pipes s ! pi)" for k
    using sys_okD(7) [OF ok pi, of k] none end_open_kind [of k] by (fastforce simp: refers_def is_pipe_end_def)
  from this [of FD_TYPE_PIPE_READ] this [of FD_TYPE_PIPE_WRITE] show ?thesis by (simp add: end_open_def)
qed

section \<open>The properties\<close>


lemma flat_sched_inv: "sched_inv flat_sched"
  unfolding flat_sched_def by (rule task_init_inv) simp

lemma demo_sys_ok: "sys_ok demo_sys"
  by (intro sys_okI) (auto simp: demo_sys_def pipe_ok_def refers_def end_open_def is_pipe_end_def split: fd_kind.splits)

lemma demo_sys_inv: "sys_inv demo_sys"
  using demo_sys_ok fs_init_inv flat_sched_inv by (simp add: sys_inv_def demo_sys_def)


text \<open>\<open>syscall_fd_cleanup\<close>, after a program, leaves every descriptor free and both ends of every pipe closed, whatever
  the program left open.\<close>

theorem syscall_fd_cleanup_closes:
  assumes "sys_inv s"
  shows "sys_inv (syscall_fd_cleanup s) \<and> (\<forall>i < SYSCALL_FD_MAX. fd_type (syscall_fds (syscall_fd_cleanup s) ! i) = FD_TYPE_NONE) \<and>
    (\<forall>pi < PIPE_MAX. \<not> pb_read_open (pipes (syscall_fd_cleanup s) ! pi) \<and> \<not> pb_write_open (pipes (syscall_fd_cleanup s) ! pi))"
proof -
  have c: "sys_inv (syscall_fd_cleanup s)" "\<forall>i < 8. fd_type (syscall_fds (syscall_fd_cleanup s) ! i) = FD_TYPE_NONE"
    using cleanup_prefix [OF assms, of 8] by (simp_all add: syscall_fd_cleanup_def)
  from c(1) have "sys_ok (syscall_fd_cleanup s)" by (simp add: sys_inv_def)
  from all_closed [OF this c(2)] c show ?thesis by blast
qed

theorem syscall_fd_cleanup_closes_witness:
  "\<not> pb_read_open (pipes (syscall_fd_cleanup (snd (syscall_do_pipe 0x6000 demo_sys))) ! 2)"
proof -
  have "sys_inv (snd (syscall_do_pipe 0x6000 demo_sys))"
    using syscall_do_pipe_ok [OF demo_sys_ok, of "0x6000"] demo_sys_inv by (simp add: sys_inv_def)
  from syscall_fd_cleanup_closes [OF this] show ?thesis by simp
qed

end
