(* ===== verification/Task_Text.thy ===== *)
theory Task_Text
  imports Task
begin

text \<open>
  The number printing of the task table: digits are collected from the low end, then reversed in place.
\<close>

lemma swap_loop_nth:
  "hi < length buf \<or> hi \<le> lo \<Longrightarrow> length (swap_loop buf lo hi) = length buf \<and>
   (i < length buf \<longrightarrow> swap_loop buf lo hi ! i = (if lo \<le> i \<and> i \<le> hi then buf ! (lo + hi - i) else buf ! i))"
proof (induction buf lo hi rule: swap_loop.induct)
  case (1 buf lo hi)
  show ?case
  proof (cases "lo < hi")
    case False
    then have "lo \<le> i \<Longrightarrow> i \<le> hi \<Longrightarrow> lo + hi - i = i" by simp
    with False show ?thesis by (subst (1 2) swap_loop.simps) auto
  next
    case True
    let ?b = "buf[lo := buf ! hi, hi := buf ! lo]"
    from 1(2) True have hi: "hi < length buf" by auto
    with True have lo: "lo < length buf" by simp
    have pre: "hi - 1 < length ?b \<or> hi - 1 \<le> lo + 1" using hi by auto
    have IH: "length (swap_loop ?b (lo + 1) (hi - 1)) = length buf \<and> (i < length buf \<longrightarrow>
      swap_loop ?b (lo + 1) (hi - 1) ! i = (if lo + 1 \<le> i \<and> i \<le> hi - 1 then ?b ! (lo + 1 + (hi - 1) - i) else ?b ! i))"
      using 1(1) [OF True pre] by simp
    have sum: "lo + 1 + (hi - 1) - i = lo + hi - i" using True by simp
    have "i = lo \<or> i = hi \<or> lo < i \<and> i < hi \<or> i < lo \<or> hi < i" by auto
    then show ?thesis using IH True hi lo sum
      by (subst (1 2) swap_loop.simps) (elim disjE, auto simp: nth_list_update)
  qed
qed

lemma swap_loop_rev: "buf \<noteq> [] \<Longrightarrow> swap_loop buf 0 (length buf - 1) = rev buf"
  by (rule nth_equalityI) (use swap_loop_nth [of "length buf - 1" buf 0] in \<open>auto simp: rev_nth\<close>)

text \<open>The digits, lowest first.\<close>

function low_digits :: "nat \<Rightarrow> string" where
  "low_digits v = (if v = 0 then [] else char_of (48 + v mod 10) # low_digits (v div 10))"
  by pat_completeness auto
termination by (relation "measure id") auto

declare low_digits.simps [simp del]

lemma digit_loop_low: "digit_loop v buf = buf @ low_digits v"
proof (induction v buf rule: digit_loop.induct)
  case (1 v buf)
  then show ?case by (subst digit_loop.simps, subst low_digits.simps) simp
qed

lemma low_digits_Nil [simp]: "low_digits v = [] \<longleftrightarrow> v = 0"
  by (subst low_digits.simps) simp

lemma uint_text_low: "v \<noteq> 0 \<Longrightarrow> uint_text v = rev (low_digits (unat v))"
  by (simp add: uint_text_def Let_def digit_loop_low swap_loop_rev [simplified] unat_eq_0)

definition digit_value :: "char \<Rightarrow> nat" where
  "digit_value c = of_char c - 48"

definition number_value :: "string \<Rightarrow> nat" where
  "number_value cs = foldl (\<lambda>n c. 10 * n + digit_value c) 0 cs"

lemma digit_char: "d < 10 \<Longrightarrow> (of_char (char_of (48 + d) :: char) :: nat) = 48 + d"
  by simp

lemma low_digits_value: "foldr (\<lambda>c n. 10 * n + digit_value c) (low_digits v) 0 = v"
proof (induction v rule: low_digits.induct)
  case (1 v)
  then show ?case by (subst low_digits.simps) (simp add: digit_value_def digit_char)
qed

lemma low_digits_chars: "c \<in> set (low_digits v) \<Longrightarrow> c \<in> set ''0123456789''"
proof (induction v rule: low_digits.induct)
  case (1 v)
  have "char_of (48 + d) \<in> set ''0123456789''" if "d < 10" for d :: nat
  proof -
    have "d \<in> {0, 1, 2, 3, 4, 5, 6, 7, 8, 9}" using that by auto
    then show ?thesis by (elim insertE) (auto simp: char_of_def bit_iff_odd)
  qed
  then have d: "char_of (48 + v mod 10) \<in> set ''0123456789''" by (simp only: mod_less_divisor zero_less_numeral)
  from 1(2) have "low_digits v \<noteq> []" by (metis empty_iff empty_set)
  then have v: "v \<noteq> 0" by simp
  then have "low_digits v = char_of (48 + v mod 10) # low_digits (v div 10)" by (subst low_digits.simps) simp
  with 1(2) have "c = char_of (48 + v mod 10) \<or> c \<in> set (low_digits (v div 10))" by auto
  then show ?case using d 1(1) [OF v] by metis
qed

lemma low_digits_length: "v < 10 ^ k \<Longrightarrow> length (low_digits v) \<le> k"
proof (induction k arbitrary: v)
  case (Suc k)
  then have "v div 10 < 10 ^ k" by (simp add: div_less_iff_less_mult mult.commute)
  with Suc.IH show ?case by (subst low_digits.simps) simp
qed (simp add: low_digits.simps)

text \<open>The decimal text of a 32-bit number denotes that number, has only digits, and fits the
  12-byte buffer the code collects it in.\<close>

theorem uint_text_correct:
  "number_value (uint_text v) = unat v \<and> set (uint_text v) \<subseteq> set ''0123456789'' \<and> length (uint_text v) + 1 < 12"
proof (cases "v = 0")
  case True
  then show ?thesis by (simp add: uint_text_def number_value_def digit_value_def)
next
  case False
  have "unat v < 10 ^ 10" using unat_bounds(3) [of v] by simp
  from low_digits_length [OF this] False have "length (uint_text v) + 1 < 12" by (simp add: uint_text_low)
  moreover have "number_value (uint_text v) = unat v"
    using False low_digits_value [of "unat v"] by (simp add: uint_text_low number_value_def foldl_conv_foldr)
  moreover have "set (uint_text v) \<subseteq> set ''0123456789''"
    unfolding uint_text_low [OF False] set_rev using low_digits_chars by blast
  ultimately show ?thesis by blast
qed

end
