(* ===== verification/Spec2Isabelle.thy ===== *)
theory Spec2Isabelle
  imports Ata_Laws Basic_Grammar Elf_Props Fat_Files Fat_Names Fat_Volume Fs_Run Ksym Net_Check Net_Dns Net_Recv Sys_Inv Task_Text
begin

text \<open>
  TG11-OS is a small x86-64 kernel in C with a shell, a BASIC interpreter, a RAM file system, a FAT32 driver, a
  network stack, an ELF loader and a round-robin scheduler, all in one address space. This development models the
  kernel's own logic, a group of theories per source file, and proves what each part promises to the others.

  \<^bold>\<open>How the parts interact.\<close> A user program runs as a task (\<open>kernel/task.c\<close>), loaded by \<open>kernel/elf.c\<close> into pages that
  \<open>kernel/memory.c\<close> hands out, and enters the kernel through \<open>syscall_dispatch\<close> (\<open>kernel/syscall.c\<close>), which works on
  the RAM file system (\<open>kernel/fs.c\<close>), on pipes and anonymous mappings of its own, and on the scheduler. Files on disk go
  through \<open>kernel/fat32.c\<close>, which sees the disks of \<open>drivers/ata.c\<close> through the table of \<open>drivers/blockdev.c\<close>. The
  shell starts BASIC programs (\<open>kernel/basic.c\<close>), which read and write the RAM file system, and calls the network
  stack (\<open>kernel/net.c\<close>), which polls the Ethernet driver. Exceptions are reported with the names of
  \<open>kernel/ksym.c\<close>.

  \<^bold>\<open>Conventions.\<close> Integers are words of their width, or \<open>nat\<close> and \<open>int\<close> where the code keeps them in range by its checks;
  arrays are lists of the declared length or functions on their indices; a \<open>const char *\<close> is a string, a buffer a
  list of bytes; the static variables of a source file are the fields of one record. A call that fails by its return value
  returns it; \<open>None\<close> is a call that never comes back, faults, or reads or writes where the text block at its definition says it
  must not. So a lemma that a call is \<open>Some\<close> says that it returns. A loop with no bound of its own is a
  \<open>partial_function (option)\<close>, for which that lemma is a proof of termination; a loop the code bounds has the code's bound.
  Hardware, the clock, and memory nobody initialises are arguments of the definitions that use them.
  \<open>Prelude\<close> holds the machine types, the C string routines and the lemmas that all parts share.
\<close>

text \<open>
  \<^bold>\<open>The theories.\<close>

  \<^item> RAM file system, \<open>kernel/fs.c\<close>. \<open>Fs\<close>: the array of 256 nodes and every call. \<open>Fs_Inv\<close>, \<open>Fs_Tree\<close>: the links form a
    tree, also in the middle of an update. \<open>Fs_Ops\<close>: every call returns and keeps the tree. \<open>Fs_View\<close>: the abstract
    file system, a map from paths to entries, and how it changes with the array. \<open>Fs_Spec\<close>, \<open>Fs_Calls\<close>, \<open>Fs_Move\<close>: each call
    against that map. \<open>Fs_Run\<close>: listing, and sequences of calls from \<open>fs_init\<close>.
    Walks along links end because the nodes on a walk are distinct.

  \<^item> Scheduler, \<open>kernel/task.c\<close>. \<open>Task\<close>: slots, the circular list, creation, yielding, preemption, killing. \<open>Task_Ring\<close>,
    \<open>Task_Inv\<close>, \<open>Task_Ops\<close>: the list is one cycle through the slots in use, and every operation keeps it.
    \<open>Task_Props\<close>, \<open>Task_Kill\<close>: progress, fairness, killing. \<open>Task_Text\<close>: the numbers of the task table. \<open>Task_Heap\<close>: the
    break of the running user program. Walks end because the list is one cycle of at most eight slots.

  \<^item> Memory, \<open>kernel/memory.c\<close>. \<open>Memory\<close>: bitmaps, four-level page tables in a memory of words, the kernel heap. \<open>Mem_Bits\<close>:
    the bitmaps as sets of free pages. \<open>Mem_Tables\<close>: the page tables as a tree of tables named by their paths.
    \<open>Mem_Paging\<close>: mapping and unmapping one page against the translation of every page.

  \<^item> ELF loader, \<open>kernel/elf.c\<close>. \<open>Elf\<close>: validation and symbols; \<open>Elf_Load\<close>: the public calls; \<open>Elf_Props\<close>: what accepted
    headers and segments satisfy, and the search for a symbol against a search of all symbols.
    \<open>Ksym\<close> (\<open>kernel/ksym.c\<close>): the binary search against a scan of the table.

  \<^item> System calls, \<open>kernel/syscall.c\<close>. \<open>Syscall\<close>: descriptors, pipes, mappings and the dispatcher over the states of
    the parts above. \<open>Sys_Demo\<close>: one concrete system. \<open>Sys_Pipe\<close>: the law of a byte stream as the locale
    \<open>byte_stream\<close>, and the ring buffer as an instance of it. \<open>Sys_Write\<close>: writing from user memory. \<open>Sys_Inv\<close>: the invariant
    of the whole layer, kept by every call with any arguments.

  \<^item> FAT32, \<open>kernel/fat32.c\<close>. \<open>Fat_Disk\<close>: mounting, sector caches, the allocation table. \<open>Fat_Dir\<close>: names, directories, paths.
    \<open>Fat_Files\<close>: the calls on files. \<open>Fat_Table\<close>: the locale \<open>block_laws\<close>, what the driver asks of a device, and the
    table operations over it. \<open>Fat_Alloc\<close>, \<open>Fat_Volume\<close>: allocation, release and mounting on a sound volume;
    \<open>Fat_Names\<close>: the 8.3 names. Walks along chains may cycle on a damaged volume; \<open>fat32_free_chain\<close>
    ends even there, because it stops at the first cluster it has zeroed.

  \<^item> Disks, \<open>drivers/ata.c\<close> and \<open>drivers/blockdev.c\<close>. \<open>Ata\<close>: the driver over an interface of ports, its waits bounded by the
    driver's own count of 1000000. \<open>Blockdev\<close>: the table of devices. \<open>Ata_Laws\<close>: the locale \<open>ata_hw\<close> states the register
    protocol of a drive; from it follow the laws of \<open>block_laws\<close> that the file system asks for.

  \<^item> Network, \<open>kernel/net.c\<close>. \<open>Net\<close>: state, frames, handlers; \<open>Net_Tcp\<close>: waiting, TCP, polling; \<open>Net_Calls\<close>: ping, DHCP, DNS,
    connections. \<open>Net_Poll\<close>: the steps of a connection, and the nesting of polls. \<open>Net_Check\<close>: checksums. \<open>Net_Dns\<close>: queries and
    responses. \<open>Net_Recv\<close>: the address cache and received datagrams. A fuel bounds the nesting of handlers that poll again
    and the turns of waits against the clock; \<open>net_poll_returns\<close> shows that a larger one never changes an answer.

  \<^item> BASIC, \<open>kernel/basic.c\<close>. \<open>Basic_Expr\<close>: scanner and expressions; \<open>Basic_Run\<close>: a definition per statement; \<open>Basic_File\<close>: channels and
    \<open>basic_run\<close>. \<open>Basic_Pure\<close>: expressions change nothing but the random numbers. \<open>Basic_Safe\<close>, \<open>Basic_Steps\<close>, \<open>Basic_Stmts\<close>,
    \<open>Basic_Items\<close>, \<open>Basic_Io\<close>, \<open>Basic_Total\<close>: every statement keeps the invariant and returns. \<open>Basic_Props\<close>: runs.
    \<open>Basic_Grammar\<close>: expressions as trees, and that the interpreter computes their value. The room on the kernel stack is an argument,
    counted in nested calls; a run has the code's own bound of 20000 steps.
\<close>

text \<open>
  \<^bold>\<open>Interfaces.\<close> \<open>byte_stream\<close> (what a reader and a writer of a pipe rely on) is interpreted by the pipes of
  \<open>syscall.c\<close>. \<open>block_laws\<close> (what FAT32 relies on in a device: reads answer what was last written, other sectors stay) is
  given by \<open>ata_hw\<close> through the driver and the table of devices; \<open>reliable_block\<close> adds that accesses inside the device succeed, and is
  interpreted by a list of sectors. \<open>ata_hw\<close> is interpreted by a machine of two drives that follows the register protocol.

  \<^bold>\<open>Not modelled.\<close> The line editor, the windows, the file manager and the text editor of \<open>kernel/terminal.c\<close>: drawing and key
  handling. The drivers of USB, Ethernet, PCI, mouse, serial port, screen and framebuffer, whose code is
  sequences of register accesses with no contract but the device's; where other parts call them they are
  arguments. \<open>arch/x86_64/idt.c\<close> and \<open>gdt.c\<close>: machine tables and exception reports; their handlers call
  \<open>task_preempt_tick\<close> and \<open>syscall_dispatch\<close>, which are modelled. The start-up sequence and the assembly: a context switch is the choice
  of the task that runs. Getters of one variable have no definition.
\<close>

end
